(* ===== verification/Prelude.thy ===== *)
theory Prelude
  imports Main "HOL-Library.Word" "HOL-Library.AList" "HOL-Library.Multiset"
    "HOL-Library.List_Lexorder" "HOL-Library.Char_ord" "HOL-Library.Product_Lexorder"
begin

text \<open>
  Shared vocabulary of the development: the machine integers, the three-way comparison of
  Rust's standard library with its stable \<open>sort_by\<close>, the fold of a fallible loop, and the
  facts about lists and association lists that several components use.

  A Rust \<open>String\<close> is modelled as a HOL \<open>string\<close>, the sequence of its UTF-8 bytes: \<open>length\<close>
  is \<open>str::len\<close>, and the lexicographic order of the library is \<open>Ord for str\<close>, which compares
  bytes. Code that works on characters uses the operations of the theory \<open>RString\<close>.
  A \<open>usize\<close> counts things held in memory and is a \<open>nat\<close>; integers whose width the code
  relies on are words.
\<close>

type_synonym u8 = "8 word"
type_synonym u32 = "32 word"
type_synonym u64 = "64 word"

named_theorems cmp_simps "unfolding of three-way comparisons"
named_theorems str_simps "lengths, boundaries and slices of character strings"

section \<open>Three-way comparison and the stable sort\<close>

text \<open>\<open>std::cmp::Ordering\<close>, its \<open>then_with\<close> and its \<open>reverse\<close>.\<close>

datatype ordering = Lt | Eq | Gt

fun then_with :: "ordering \<Rightarrow> ordering \<Rightarrow> ordering" where
  "then_with Eq r = r"
| "then_with l r = l"

fun rev_ord :: "ordering \<Rightarrow> ordering" where
  "rev_ord Lt = Gt"
| "rev_ord Eq = Eq"
| "rev_ord Gt = Lt"

text \<open>\<open>Ord::cmp\<close> of a linearly ordered type.\<close>

definition ord_cmp :: "'a::linorder \<Rightarrow> 'a \<Rightarrow> ordering" where
  "ord_cmp x y = (if x < y then Lt else if x = y then Eq else Gt)"

lemma then_with_eq_Eq [cmp_simps]: "then_with a b = Eq \<longleftrightarrow> a = Eq \<and> b = Eq"
  by (cases a) auto

lemma then_with_eq_Lt [cmp_simps]: "then_with a b = Lt \<longleftrightarrow> a = Lt \<or> (a = Eq \<and> b = Lt)"
  by (cases a) auto

lemma then_with_eq_Gt [cmp_simps]: "then_with a b = Gt \<longleftrightarrow> a = Gt \<or> (a = Eq \<and> b = Gt)"
  by (cases a) auto

lemma rev_ord_then_with [cmp_simps]:
  "rev_ord (then_with a b) = then_with (rev_ord a) (rev_ord b)"
  by (cases a) auto

lemma rev_ord_rev_ord [simp]: "rev_ord (rev_ord a) = a"
  by (cases a) auto

lemma ord_cmp_Lt [cmp_simps]: "ord_cmp x y = Lt \<longleftrightarrow> x < y"
  by (auto simp: ord_cmp_def)

lemma ord_cmp_Eq [cmp_simps]: "ord_cmp x y = Eq \<longleftrightarrow> x = y"
  by (auto simp: ord_cmp_def)

lemma ord_cmp_Gt [cmp_simps]: "ord_cmp x y = Gt \<longleftrightarrow> y < x"
  by (auto simp: ord_cmp_def)

lemma ord_cmp_rev: "rev_ord (ord_cmp x y) = ord_cmp y x"
  by (auto simp: ord_cmp_def)

text \<open>
  \<open>slice::sort_by\<close> is a stable sort: an element moves before those that compare greater and
  never past an equal one. Insertion from the right computes the same list.
\<close>

fun insert_by :: "('a \<Rightarrow> 'a \<Rightarrow> ordering) \<Rightarrow> 'a \<Rightarrow> 'a list \<Rightarrow> 'a list" where
  "insert_by c x [] = [x]"
| "insert_by c x (y # ys) = (if c x y = Gt then y # insert_by c x ys else x # y # ys)"

definition sort_by :: "('a \<Rightarrow> 'a \<Rightarrow> ordering) \<Rightarrow> 'a list \<Rightarrow> 'a list" where
  "sort_by c xs = foldr (insert_by c) xs []"

lemma sort_by_Nil [simp]: "sort_by c [] = []"
  by (simp add: sort_by_def)

lemma sort_by_Cons [simp]: "sort_by c (x # xs) = insert_by c x (sort_by c xs)"
  by (simp add: sort_by_def)

lemma mset_insert_by [simp]: "mset (insert_by c x xs) = add_mset x (mset xs)"
  by (induction xs) auto

lemma mset_sort_by [simp]: "mset (sort_by c xs) = mset xs"
  by (induction xs) auto

lemma set_sort_by [simp]: "set (sort_by c xs) = set xs"
  by (metis mset_sort_by set_mset_mset)

lemma length_sort_by [simp]: "length (sort_by c xs) = length xs"
  by (metis mset_sort_by size_mset)

lemma distinct_sort_by [simp]: "distinct (sort_by c xs) = distinct xs"
  by (metis mset_sort_by mset_eq_imp_distinct_iff)

text \<open>The order in which a comparison leaves its list: no element before a smaller one.\<close>

definition sorted_by :: "('a \<Rightarrow> 'a \<Rightarrow> ordering) \<Rightarrow> 'a list \<Rightarrow> bool" where
  "sorted_by c = sorted_wrt (\<lambda>x y. c x y \<noteq> Gt)"

text \<open>
  The contract of \<open>sort_by\<close>: the comparison is a total preorder on the values the caller
  sorts. The client's facts hold for every comparison that keeps it.
\<close>

locale comparator =
  fixes cmp :: "'a \<Rightarrow> 'a \<Rightarrow> ordering" and carrier :: "'a set"
  assumes cmp_swap: "x \<in> carrier \<Longrightarrow> y \<in> carrier \<Longrightarrow> cmp y x = rev_ord (cmp x y)"
    and cmp_le_trans: "x \<in> carrier \<Longrightarrow> y \<in> carrier \<Longrightarrow> z \<in> carrier \<Longrightarrow>
      cmp x y \<noteq> Gt \<Longrightarrow> cmp y z \<noteq> Gt \<Longrightarrow> cmp x z \<noteq> Gt"
begin

lemma cmp_gt_le: "x \<in> carrier \<Longrightarrow> y \<in> carrier \<Longrightarrow> cmp x y = Gt \<Longrightarrow> cmp y x \<noteq> Gt"
  using cmp_swap [of x y] by auto

lemma sorted_insert_by:
  "x \<in> carrier \<Longrightarrow> set ys \<subseteq> carrier \<Longrightarrow> sorted_by cmp ys \<Longrightarrow> sorted_by cmp (insert_by cmp x ys)"
proof (induction ys)
  case Nil
  then show ?case by (simp add: sorted_by_def)
next
  case (Cons y ys)
  have set_ins: "set (insert_by cmp x ys) = insert x (set ys)"
    by (metis mset_insert_by set_mset_add_mset_insert set_mset_mset)
  show ?case
  proof (cases "cmp x y = Gt")
    case True
    with Cons show ?thesis
      using cmp_gt_le [of x y] by (auto simp: sorted_by_def set_ins)
  next
    case False
    with Cons show ?thesis
      using cmp_le_trans [of x y] by (auto simp: sorted_by_def subset_iff)
  qed
qed

lemma sorted_sort_by: "set xs \<subseteq> carrier \<Longrightarrow> sorted_by cmp (sort_by cmp xs)"
proof (induction xs)
  case Nil
  then show ?case by (simp add: sorted_by_def)
next
  case (Cons x xs)
  then show ?case by (simp add: sorted_insert_by)
qed

end

text \<open>
  A comparison under which only equal elements tie determines the sorted list: the result
  depends on the multiset of the elements and not on the order they come in.
\<close>

locale strict_comparator = comparator +
  assumes cmp_Eq_eq: "x \<in> carrier \<Longrightarrow> y \<in> carrier \<Longrightarrow> cmp x y = Eq \<Longrightarrow> x = y"
begin

lemma cmp_antisym: "x \<in> carrier \<Longrightarrow> y \<in> carrier \<Longrightarrow> cmp x y \<noteq> Gt \<Longrightarrow> cmp y x \<noteq> Gt \<Longrightarrow> x = y"
  using cmp_swap [of x y] cmp_Eq_eq [of x y] by (cases "cmp x y") auto

lemma sorted_by_unique:
  "set xs \<subseteq> carrier \<Longrightarrow> sorted_by cmp xs \<Longrightarrow> sorted_by cmp ys \<Longrightarrow> mset xs = mset ys \<Longrightarrow> xs = ys"
proof (induction xs arbitrary: ys)
  case Nil
  then show ?case by simp
next
  case (Cons x xs)
  then obtain y ys' where ys: "ys = y # ys'"
    by (cases ys) auto
  have sets: "set (x # xs) = set ys"
    using Cons.prems(4) by (metis set_mset_mset)
  have "x = y"
  proof (rule ccontr)
    assume "x \<noteq> y"
    with sets ys have "y \<in> set xs" "x \<in> set ys'" by auto
    with Cons.prems ys have "cmp x y \<noteq> Gt" "cmp y x \<noteq> Gt"
      by (auto simp: sorted_by_def)
    with Cons.prems(1) \<open>y \<in> set xs\<close> have "x = y"
      by (intro cmp_antisym) auto
    with \<open>x \<noteq> y\<close> show False ..
  qed
  moreover have "xs = ys'"
    using Cons.prems ys \<open>x = y\<close> by (intro Cons.IH) (auto simp: sorted_by_def)
  ultimately show ?case using ys by simp
qed

lemma sort_by_perm:
  assumes "set xs \<subseteq> carrier" and "mset xs = mset ys"
  shows "sort_by cmp xs = sort_by cmp ys"
proof (rule sorted_by_unique)
  have "set ys \<subseteq> carrier" using assms by (metis set_mset_mset)
  then show "sorted_by cmp (sort_by cmp ys)" by (rule sorted_sort_by)
  show "sorted_by cmp (sort_by cmp xs)" using assms(1) by (rule sorted_sort_by)
qed (use assms in simp_all)

end

text \<open>\<open>Ord::cmp\<close> on a linear order keeps the strict contract (\<open>slice::sort\<close>).\<close>

interpretation ordc: strict_comparator "ord_cmp :: 'a::linorder \<Rightarrow> 'a \<Rightarrow> ordering" UNIV
  by unfold_locales (auto simp: ord_cmp_rev cmp_simps not_less)

section \<open>Loops that stop at the first error\<close>

text \<open>A \<open>for\<close> loop whose body may return early with \<open>?\<close>, threading a state.\<close>

fun try_fold :: "('a \<Rightarrow> 's \<Rightarrow> 'e + 's) \<Rightarrow> 'a list \<Rightarrow> 's \<Rightarrow> 'e + 's" where
  "try_fold f [] s = Inr s"
| "try_fold f (x # xs) s = (case f x s of Inl e \<Rightarrow> Inl e | Inr s' \<Rightarrow> try_fold f xs s')"

lemma try_fold_append:
  "try_fold f (xs @ ys) s = (case try_fold f xs s of Inl e \<Rightarrow> Inl e | Inr s' \<Rightarrow> try_fold f ys s')"
  by (induction xs arbitrary: s) (auto split: sum.split)

text \<open>The shape of a \<open>?\<close> on a fallible call: the error is returned, the value is used.\<close>

definition and_then :: "'e + 'a \<Rightarrow> ('a \<Rightarrow> 'e + 'b) \<Rightarrow> 'e + 'b" where
  "and_then r f = (case r of Inl e \<Rightarrow> Inl e | Inr a \<Rightarrow> f a)"

lemma and_then_Inr [simp]: "and_then (Inr a) f = f a"
  by (simp add: and_then_def)

lemma and_then_Inl [simp]: "and_then (Inl e) f = Inl e"
  by (simp add: and_then_def)

lemma and_then_eq_Inr: "and_then r f = Inr b \<longleftrightarrow> (\<exists>a. r = Inr a \<and> f a = Inr b)"
  by (cases r) auto

section \<open>Lists and association lists\<close>

text \<open>
  A \<open>HashMap\<close> is an association list with distinct keys, whose order stands for the
  unspecified iteration order: \<open>map_of\<close> is \<open>get\<close>, \<open>AList.update\<close> is \<open>insert\<close> and
  \<open>AList.delete\<close> is \<open>remove\<close>.
\<close>

definition map_keys :: "('k \<times> 'v) list \<Rightarrow> 'k set" where
  "map_keys m = fst ` set m"

lemma map_keys_dom: "map_keys m = dom (map_of m)"
  by (simp add: map_keys_def dom_map_of_conv_image_fst)

lemma map_of_delete_key: "map_of (AList.delete k m) = (map_of m)(k := None)"
  by (rule ext) (simp add: AList.delete_conv')

lemma map_of_update_key: "map_of (AList.update k v m) = (map_of m)(k := Some v)"
  by (rule AList.update_conv')

lemma set_delete_sub: "set (AList.delete k m) \<subseteq> set m"
  by (auto simp: AList.delete_eq)

end
