(* ===== verification/Errors.thy ===== *)
theory Errors
  imports Prelude
begin

text \<open>
  The error taxonomy of \<open>core/src/error.rs\<close>: the variants, the stable code each surface
  sends, the text \<open>Display\<close> prints, and the decoding of a \<open>{code, message}\<close> pair that crossed
  a process boundary.
\<close>

datatype error =
    StoreNotFound (err_id: string)
  | SourceNotFound (err_id: string)
  | ResourceNotFound (err_id: string)
  | JobNotFound (err_id: string)
  | RuntimeStateLocked
  | DaemonRunning
  | DaemonUnreachable
  | InvalidConfig (err_message: string)
  | InvalidRequest (err_message: string)
  | UnsupportedFormat (err_format: string)
  | ExtractionFailed (err_format: string) (err_reason: string)
  | ProviderUnavailable (err_message: string)
  | ModelMissing (err_message: string)
  | DaemonCapabilityUnavailable (err_message: string)
  | IndexInProgress
  | JobCancelled
  | JobAlreadyTerminal
  | Internal (err_message: string) (err_correlation: string)
  | RateLimited (err_message: string)

text \<open>The \<open>#[error(...)]\<close> attributes: what \<open>to_string\<close> yields.\<close>

fun err_to_string :: "error \<Rightarrow> string" where
  "err_to_string (StoreNotFound i) = ''store not found: '' @ i"
| "err_to_string (SourceNotFound i) = ''source not found: '' @ i"
| "err_to_string (ResourceNotFound i) = ''resource not found: '' @ i"
| "err_to_string (JobNotFound i) = ''job not found: '' @ i"
| "err_to_string RuntimeStateLocked =
     ''runtime-state database write lock could not be acquired within the busy timeout; try again shortly''"
| "err_to_string DaemonRunning = ''daemon is already running''"
| "err_to_string DaemonUnreachable = ''daemon is unreachable''"
| "err_to_string (InvalidConfig m) = ''invalid config: '' @ m"
| "err_to_string (InvalidRequest m) = ''invalid request: '' @ m"
| "err_to_string (UnsupportedFormat f) = ''unsupported format: '' @ f"
| "err_to_string (ExtractionFailed f r) = ''extraction failed for '' @ f @ '': '' @ r"
| "err_to_string (ProviderUnavailable m) = ''provider unavailable: '' @ m"
| "err_to_string (ModelMissing m) = ''model missing: '' @ m"
| "err_to_string (DaemonCapabilityUnavailable m) = ''daemon capability unavailable: '' @ m"
| "err_to_string IndexInProgress = ''index already in progress for this scope''"
| "err_to_string JobCancelled = ''job was cancelled''"
| "err_to_string JobAlreadyTerminal = ''job already reached a terminal state; cannot cancel''"
| "err_to_string (Internal m c) = ''internal error (correlation_id='' @ c @ ''): '' @ m"
| "err_to_string (RateLimited m) = ''rate limited: '' @ m"

fun err_code :: "error \<Rightarrow> string" where
  "err_code (StoreNotFound _) = ''store_not_found''"
| "err_code (SourceNotFound _) = ''source_not_found''"
| "err_code (ResourceNotFound _) = ''resource_not_found''"
| "err_code (JobNotFound _) = ''job_not_found''"
| "err_code RuntimeStateLocked = ''runtime_state_locked''"
| "err_code DaemonRunning = ''daemon_running''"
| "err_code DaemonUnreachable = ''daemon_unreachable''"
| "err_code (InvalidConfig _) = ''invalid_config''"
| "err_code (InvalidRequest _) = ''invalid_request''"
| "err_code (UnsupportedFormat _) = ''unsupported_format''"
| "err_code (ExtractionFailed _ _) = ''extraction_failed''"
| "err_code (ProviderUnavailable _) = ''provider_unavailable''"
| "err_code (DaemonCapabilityUnavailable _) = ''daemon_capability_unavailable''"
| "err_code (ModelMissing _) = ''model_missing''"
| "err_code IndexInProgress = ''index_in_progress''"
| "err_code JobCancelled = ''job_cancelled''"
| "err_code JobAlreadyTerminal = ''job_already_terminal''"
| "err_code (Internal _ _) = ''internal''"
| "err_code (RateLimited _) = ''rate_limited''"

text \<open>\<open>Error::from_code\<close>: the first matching arm wins, an unknown code is \<open>None\<close>.\<close>

definition from_code :: "string \<Rightarrow> string \<Rightarrow> error option" where
  "from_code code message =
     (if code = ''store_not_found'' then Some (StoreNotFound message)
      else if code = ''source_not_found'' then Some (SourceNotFound message)
      else if code = ''resource_not_found'' then Some (ResourceNotFound message)
      else if code = ''document_not_found'' then Some (ResourceNotFound message)
      else if code = ''job_not_found'' then Some (JobNotFound message)
      else if code = ''runtime_state_locked'' then Some RuntimeStateLocked
      else if code = ''daemon_running'' then Some DaemonRunning
      else if code = ''daemon_unreachable'' then Some DaemonUnreachable
      else if code = ''invalid_config'' then Some (InvalidConfig message)
      else if code = ''invalid_request'' then Some (InvalidRequest message)
      else if code = ''index_in_progress'' then Some IndexInProgress
      else if code = ''job_cancelled'' then Some JobCancelled
      else if code = ''job_already_terminal'' then Some JobAlreadyTerminal
      else if code = ''provider_unavailable'' then Some (ProviderUnavailable message)
      else if code = ''daemon_capability_unavailable'' then Some (DaemonCapabilityUnavailable message)
      else if code = ''model_missing'' then Some (ModelMissing message)
      else if code = ''rate_limited'' then Some (RateLimited message)
      else None)"

fun raw_message :: "error \<Rightarrow> string option" where
  "raw_message (StoreNotFound i) = Some i"
| "raw_message (SourceNotFound i) = Some i"
| "raw_message (ResourceNotFound i) = Some i"
| "raw_message (JobNotFound i) = Some i"
| "raw_message (InvalidConfig m) = Some m"
| "raw_message (InvalidRequest m) = Some m"
| "raw_message (ProviderUnavailable m) = Some m"
| "raw_message (DaemonCapabilityUnavailable m) = Some m"
| "raw_message (ModelMissing m) = Some m"
| "raw_message (RateLimited m) = Some m"
| "raw_message RuntimeStateLocked = None"
| "raw_message DaemonRunning = None"
| "raw_message DaemonUnreachable = None"
| "raw_message (UnsupportedFormat _) = None"
| "raw_message (ExtractionFailed _ _) = None"
| "raw_message IndexInProgress = None"
| "raw_message JobCancelled = None"
| "raw_message JobAlreadyTerminal = None"
| "raw_message (Internal _ _) = None"

text \<open>
  What a producer stores for the other side:
  \<open>raw_message().map(str::to_string).unwrap_or_else(|| to_string())\<close>.
\<close>

definition wire_message :: "error \<Rightarrow> string" where
  "wire_message e = (case raw_message e of Some m \<Rightarrow> m | None \<Rightarrow> err_to_string e)"

fun exit_code :: "error \<Rightarrow> int" where
  "exit_code (Internal _ _) = 1"
| "exit_code (InvalidConfig _) = 2"
| "exit_code (InvalidRequest _) = 2"
| "exit_code (StoreNotFound _) = 3"
| "exit_code (SourceNotFound _) = 3"
| "exit_code (ResourceNotFound _) = 3"
| "exit_code (JobNotFound _) = 3"
| "exit_code RuntimeStateLocked = 4"
| "exit_code DaemonRunning = 4"
| "exit_code IndexInProgress = 4"
| "exit_code JobCancelled = 4"
| "exit_code JobAlreadyTerminal = 4"
| "exit_code DaemonUnreachable = 5"
| "exit_code (DaemonCapabilityUnavailable _) = 5"
| "exit_code (ProviderUnavailable _) = 5"
| "exit_code (ModelMissing _) = 5"
| "exit_code (RateLimited _) = 5"
| "exit_code (UnsupportedFormat _) = 2"
| "exit_code (ExtractionFailed _ _) = 2"

text \<open>
  Sending an error as its code and its bare message and decoding the pair gives the error
  back, for every variant but the three whose fields do not fit one message; those decode to
  nothing, never to another error.
\<close>

theorem error_wire_roundtrip:
  "from_code (err_code e) (wire_message e) =
     (if is_Internal e \<or> is_UnsupportedFormat e \<or> is_ExtractionFailed e then None else Some e)"
  by (cases e) (simp_all add: from_code_def wire_message_def)

text \<open>
  Exactly ten variants have a bare message, the four not-found ones and the six with a
  \<open>message\<close> field other than \<open>Internal\<close>, and for these \<open>to_string\<close> is that message behind a
  nonempty prefix, so a consumer that prints the decoded error shows the prefix once.
\<close>

theorem raw_message_prefix:
  "(raw_message e \<noteq> None) =
     (is_StoreNotFound e \<or> is_SourceNotFound e \<or> is_ResourceNotFound e \<or> is_JobNotFound e \<or>
      is_InvalidConfig e \<or> is_InvalidRequest e \<or> is_ProviderUnavailable e \<or>
      is_DaemonCapabilityUnavailable e \<or> is_ModelMissing e \<or> is_RateLimited e) \<and>
   (case raw_message e of None \<Rightarrow> True
    | Some m \<Rightarrow> \<exists>prefix. prefix \<noteq> [] \<and> err_to_string e = prefix @ m)"
  by (cases e) (auto simp del: append.simps)

lemma err_code_exit: "err_code e = err_code e' \<Longrightarrow> exit_code e = exit_code e'"
  by (cases e; cases e') simp_all

section \<open>Results of code that may panic\<close>

datatype fault = Raised error | Panicked

definition or_panic :: "'a option \<Rightarrow> fault + 'a" where
  "or_panic x = (case x of Some a \<Rightarrow> Inr a | None \<Rightarrow> Inl Panicked)"

lemma or_panic_Some [simp]: "or_panic (Some a) = Inr a"
  by (simp add: or_panic_def)

end
