(* ===== verification/IndexJob.thy ===== *)
theory IndexJob
  imports Errors
begin

text \<open>
  The index job of \<open>core/src/types.rs\<close> and its state transitions in \<open>core/src/ingestion.rs\<close>.
  The clock (\<open>now_rfc3339\<close>) and the identifier generator (\<open>new_ulid\<close>) are arguments.
\<close>

datatype job_scope =
    ScopeStore
  | ScopeSource (scope_source_id: string)
  | ScopeDocument (scope_resource_id: string)

datatype job_state = Pending | Running | Done | Failed

record job_stats =
  docs_seen :: u64
  docs_indexed :: u64
  docs_skipped :: u64
  docs_deleted :: u64
  docs_prunable :: u64
  docs_metadata_updated :: u64
  feed_entries_liveness_checked :: u64
  docs_recheck_deferred :: u64
  chunks_written :: u64
  unsupported_format_count :: u64
  error_count :: u64
  sources_count :: u64

definition default_stats :: job_stats where
  "default_stats = \<lparr>docs_seen = 0, docs_indexed = 0, docs_skipped = 0, docs_deleted = 0,
     docs_prunable = 0, docs_metadata_updated = 0, feed_entries_liveness_checked = 0,
     docs_recheck_deferred = 0, chunks_written = 0, unsupported_format_count = 0,
     error_count = 0, sources_count = 0\<rparr>"

record index_job =
  job_id :: string
  job_store_id :: string
  job_scope_of :: job_scope
  job_state_of :: job_state
  job_stats_of :: job_stats
  job_error :: "string option"
  job_error_code :: "string option"
  created_at :: string
  started_at :: "string option"
  completed_at :: "string option"

definition create_index_job :: "string \<Rightarrow> string \<Rightarrow> string \<Rightarrow> job_scope \<Rightarrow> index_job" where
  "create_index_job new_ulid now store_id scope =
     \<lparr>job_id = new_ulid, job_store_id = store_id, job_scope_of = scope, job_state_of = Pending,
      job_stats_of = default_stats, job_error = None, job_error_code = None, created_at = now,
      started_at = None, completed_at = None\<rparr>"

definition start_index_job :: "string \<Rightarrow> index_job \<Rightarrow> index_job" where
  "start_index_job now j = j\<lparr>job_state_of := Running, started_at := Some now\<rparr>"

definition complete_index_job :: "string \<Rightarrow> job_stats \<Rightarrow> index_job \<Rightarrow> index_job" where
  "complete_index_job now stats j =
     j\<lparr>job_state_of := Done, job_stats_of := stats, completed_at := Some now\<rparr>"

definition fail_index_job :: "string \<Rightarrow> string \<Rightarrow> index_job \<Rightarrow> index_job" where
  "fail_index_job now err j =
     j\<lparr>job_state_of := Failed, job_error := Some err, job_error_code := None,
       completed_at := Some now\<rparr>"

definition fail_index_job_with_error :: "string \<Rightarrow> error \<Rightarrow> index_job \<Rightarrow> index_job" where
  "fail_index_job_with_error now e j =
     j\<lparr>job_state_of := Failed,
       job_error := Some (case raw_message e of Some m \<Rightarrow> m | None \<Rightarrow> err_to_string e),
       job_error_code := Some (err_code e),
       completed_at := Some now\<rparr>"

text \<open>\<open>matches!(job.state, Done | Failed)\<close>.\<close>

definition is_terminal :: "index_job \<Rightarrow> bool" where
  "is_terminal j = (job_state_of j = Done \<or> job_state_of j = Failed)"

lemmas job_trans_defs =
  start_index_job_def complete_index_job_def fail_index_job_def fail_index_job_with_error_def

text \<open>
  A job record is consistent: it has a completion time exactly when terminal, a pending job
  never started, and an error text exactly when it failed.
\<close>

definition job_wf :: "index_job \<Rightarrow> bool" where
  "job_wf j \<longleftrightarrow>
     (completed_at j \<noteq> None \<longleftrightarrow> is_terminal j) \<and>
     (job_state_of j = Pending \<longrightarrow> started_at j = None) \<and>
     (job_state_of j = Running \<longrightarrow> started_at j \<noteq> None) \<and>
     (job_error j \<noteq> None \<longleftrightarrow> job_state_of j = Failed) \<and>
     (job_error_code j \<noteq> None \<longrightarrow> job_state_of j = Failed)"

lemma create_wf [simp]: "job_wf (create_index_job i now s sc)"
  by (simp add: job_wf_def create_index_job_def is_terminal_def)

lemma start_wf: "job_wf j \<Longrightarrow> \<not> is_terminal j \<Longrightarrow> job_wf (start_index_job now j)"
  by (auto simp: job_wf_def is_terminal_def start_index_job_def)

lemma complete_wf: "job_wf j \<Longrightarrow> \<not> is_terminal j \<Longrightarrow> job_wf (complete_index_job now st j)"
  by (auto simp: job_wf_def is_terminal_def complete_index_job_def)

lemma fail_wf: "job_wf j \<Longrightarrow> job_wf (fail_index_job now e j)"
  by (auto simp: job_wf_def is_terminal_def fail_index_job_def)

lemma fail_with_wf: "job_wf j \<Longrightarrow> job_wf (fail_index_job_with_error now e j)"
  by (auto simp: job_wf_def is_terminal_def fail_index_job_with_error_def)

lemma trans_id [simp]:
  "job_id (start_index_job now j) = job_id j"
  "job_id (complete_index_job now st j) = job_id j"
  "job_id (fail_index_job now m j) = job_id j"
  "job_id (fail_index_job_with_error now e j) = job_id j"
  "job_id (create_index_job i now s sc) = i"
  by (simp_all add: job_trans_defs create_index_job_def)

lemma create_pending [simp]: "job_state_of (create_index_job i now s sc) = Pending"
  by (simp add: create_index_job_def)

lemma trans_store [simp]:
  "job_store_id (start_index_job now j) = job_store_id j"
  "job_store_id (complete_index_job now st j) = job_store_id j"
  "job_store_id (fail_index_job now m j) = job_store_id j"
  "job_store_id (fail_index_job_with_error now e j) = job_store_id j"
  "job_store_id (create_index_job i now s sc) = s"
  by (simp_all add: job_trans_defs create_index_job_def)

lemma trans_terminal [simp]:
  "\<not> is_terminal (start_index_job now j)"
  "is_terminal (complete_index_job now st j)"
  "is_terminal (fail_index_job now m j)"
  "is_terminal (fail_index_job_with_error now e j)"
  "\<not> is_terminal (create_index_job i now s sc)"
  by (simp_all add: job_trans_defs create_index_job_def is_terminal_def)

end
