(* ===== verification/Retention.thy ===== *)
theory Retention
  imports IndexJob
begin

text \<open>
  Bounded retention of finished jobs: \<open>evict_oldest_terminal_jobs_over_cap\<close> of
  \<open>server/src/job_queue.rs\<close>. The registry is a \<open>HashMap\<close>, modelled as an association list
  whose order stands for the unspecified iteration order; the lemmas show that the result does
  not depend on it.
\<close>

type_synonym job_registry = "(string \<times> index_job) list"

definition MAX_TERMINAL_JOBS :: nat where
  "MAX_TERMINAL_JOBS = 200"

definition TERMINAL_RETENTION_GRACE_SECS :: u64 where
  "TERMINAL_RETENTION_GRACE_SECS = 60"

text \<open>
  \<open>terminal_eviction_cutoff\<close>: the clock reading less the grace, saturating at zero, through
  the timestamp formatter (an argument).
\<close>

definition terminal_eviction_cutoff :: "(u64 \<Rightarrow> string) \<Rightarrow> u64 \<Rightarrow> string" where
  "terminal_eviction_cutoff format_secs_rfc3339 now_secs =
     format_secs_rfc3339
       (if now_secs < TERMINAL_RETENTION_GRACE_SECS then 0
        else now_secs - TERMINAL_RETENTION_GRACE_SECS)"

definition completed_key :: "index_job \<Rightarrow> string" where
  "completed_key j = (case completed_at j of Some t \<Rightarrow> t | None \<Rightarrow> [])"

definition terminal_count :: "job_registry \<Rightarrow> nat" where
  "terminal_count reg = length (filter is_terminal (map snd reg))"

definition evict_candidates :: "string \<Rightarrow> string \<Rightarrow> job_registry \<Rightarrow> (string \<times> string) list" where
  "evict_candidates protect_id cutoff reg =
     map (\<lambda>j. (completed_key j, job_id j))
       (filter (\<lambda>j. completed_key j < cutoff)
         (filter (\<lambda>j. job_id j \<noteq> protect_id)
           (filter is_terminal (map snd reg))))"

definition evict_victims :: "nat \<Rightarrow> string \<Rightarrow> string \<Rightarrow> job_registry \<Rightarrow> string list" where
  "evict_victims cap protect_id cutoff reg =
     map snd (take (terminal_count reg - cap)
       (sort_by ord_cmp (evict_candidates protect_id cutoff reg)))"

definition evict_oldest_terminal_jobs_over_cap ::
  "nat \<Rightarrow> string \<Rightarrow> string \<Rightarrow> job_registry \<Rightarrow> job_registry" where
  "evict_oldest_terminal_jobs_over_cap cap protect_id cutoff reg =
     (if terminal_count reg \<le> cap then reg
      else foldl (\<lambda>r i. AList.delete i r) reg (evict_victims cap protect_id cutoff reg))"

text \<open>A registry files every job under its own id, once.\<close>

definition registry_ok :: "job_registry \<Rightarrow> bool" where
  "registry_ok reg \<longleftrightarrow> distinct (map fst reg) \<and> (\<forall>(k, j) \<in> set reg. job_id j = k)"

lemma registry_okD: "registry_ok reg \<Longrightarrow> map_of reg k = Some j \<Longrightarrow> job_id j = k"
  by (auto simp: registry_ok_def dest!: map_of_SomeD)

lemma registry_mem: "registry_ok reg \<Longrightarrow> (k, j) \<in> set reg \<Longrightarrow> job_id j = k \<and> map_of reg k = Some j"
  by (auto simp: registry_ok_def)

lemma registry_ok_ids: "registry_ok reg \<Longrightarrow> map (job_id \<circ> snd) reg = map fst reg"
  by (auto simp: registry_ok_def)

lemma registry_ok_filter: "registry_ok reg \<Longrightarrow> registry_ok (filter P reg)"
  by (auto simp: registry_ok_def distinct_map_filter)

lemma registry_ok_update:
  "registry_ok reg \<Longrightarrow> job_id j = k \<Longrightarrow> registry_ok (AList.update k j reg)"
proof -
  assume ok: "registry_ok reg" and k: "job_id j = k"
  have "set (AList.update k j reg) \<subseteq> insert (k, j) (set reg)"
    by (induction reg) auto
  with ok k show ?thesis
    by (auto simp: registry_ok_def distinct_update)
qed

text \<open>Deleting the victims one by one is one filter.\<close>

lemma foldl_delete_filter: "foldl (\<lambda>r i. AList.delete i r) reg vs = filter (\<lambda>e. fst e \<notin> set vs) reg"
proof (induction vs arbitrary: reg)
  case Nil
  then show ?case by simp
next
  case (Cons v vs)
  then show ?case
    by (auto simp: AList.delete_eq case_prod_unfold intro!: filter_cong)
qed

lemma evict_filter:
  "evict_oldest_terminal_jobs_over_cap cap p c reg =
     filter (\<lambda>e. fst e \<notin> set (evict_victims cap p c reg)) reg"
  by (simp add: evict_oldest_terminal_jobs_over_cap_def foldl_delete_filter evict_victims_def)

lemma evict_ok [simp]:
  "registry_ok reg \<Longrightarrow> registry_ok (evict_oldest_terminal_jobs_over_cap cap p c reg)"
  by (simp add: evict_filter registry_ok_filter)

lemma evict_lookup:
  "map_of (evict_oldest_terminal_jobs_over_cap cap p c reg) k =
     (if k \<in> set (evict_victims cap p c reg) then None else map_of reg k)"
proof -
  have "map_of (filter (\<lambda>e. P (fst e)) reg) k = (if P k then map_of reg k else None)" for P
    by (induction reg) auto
  from this [of "\<lambda>k. k \<notin> set (evict_victims cap p c reg)"] show ?thesis
    by (simp add: evict_filter)
qed

lemma victims_sub:
  "k \<in> set (evict_victims cap p c reg) \<Longrightarrow>
     \<exists>j. j \<in> snd ` set reg \<and> is_terminal j \<and> job_id j = k \<and> k \<noteq> p \<and> completed_key j < c"
  unfolding evict_victims_def
  by (auto simp: evict_candidates_def dest!: in_set_takeD)

lemma evict_lookup_Some:
  "map_of (evict_oldest_terminal_jobs_over_cap cap p c reg) k = Some j \<Longrightarrow> map_of reg k = Some j"
  by (auto simp: evict_lookup split: if_splits)

lemma evict_protects: "map_of (evict_oldest_terminal_jobs_over_cap cap p c reg) p = map_of reg p"
  using victims_sub [of p cap p c reg] by (auto simp: evict_lookup)

lemma evict_keeps_live:
  assumes "registry_ok reg" "map_of reg k = Some j" "\<not> is_terminal j"
  shows "map_of (evict_oldest_terminal_jobs_over_cap cap p c reg) k = Some j"
proof -
  have "k \<notin> set (evict_victims cap p c reg)"
  proof
    assume "k \<in> set (evict_victims cap p c reg)"
    from victims_sub [OF this] obtain k' j' where "(k', j') \<in> set reg" "is_terminal j'" "job_id j' = k"
      by auto
    with assms(1) have "(k, j') \<in> set reg" by (auto simp: registry_ok_def)
    with assms have "j' = j"
      by (simp add: registry_ok_def)
    with \<open>is_terminal j'\<close> assms(3) show False by simp
  qed
  with assms(2) show ?thesis by (simp add: evict_lookup)
qed

lemma candidate_ids_distinct:
  assumes "registry_ok reg"
  shows "distinct (map snd (evict_candidates p c reg))"
proof -
  have "distinct (map job_id (map snd reg))"
    using assms by (simp add: registry_ok_ids) (simp add: registry_ok_def)
  then have "distinct (map job_id (filter P (map snd reg)))" for P
    by (rule distinct_map_filter)
  then show ?thesis
    by (simp add: evict_candidates_def comp_def)
qed

lemma victims_distinct: "registry_ok reg \<Longrightarrow> distinct (evict_victims cap p c reg)"
proof -
  assume "registry_ok reg"
  then have "distinct (map snd (evict_candidates p c reg))" by (rule candidate_ids_distinct)
  then have "distinct (map snd (sort_by ord_cmp (evict_candidates p c reg)))"
    by (metis mset_map mset_sort_by mset_eq_imp_distinct_iff)
  then show ?thesis
    unfolding evict_victims_def by (metis distinct_take take_map)
qed

lemma length_victims:
  "length (evict_victims cap p c reg) = min (terminal_count reg - cap) (length (evict_candidates p c reg))"
  by (simp add: evict_victims_def min.commute)

lemma victims_split:
  assumes ok: "registry_ok reg"
    and x: "x \<in> set (evict_candidates p c reg)" and y: "y \<in> set (evict_candidates p c reg)"
    and xv: "snd x \<in> set (evict_victims cap p c reg)"
    and yv: "snd y \<notin> set (evict_victims cap p c reg)"
  shows "x < y"
proof -
  define n where "n = terminal_count reg - cap"
  define cs where "cs = sort_by ord_cmp (evict_candidates p c reg)"
  have inj: "inj_on snd (set cs)"
    using candidate_ids_distinct [OF ok] by (simp add: cs_def distinct_map)
  have xy: "x \<in> set cs" "y \<in> set cs" using x y by (simp_all add: cs_def)
  have "x \<in> set (take n cs)"
  proof -
    from xv obtain x' where "x' \<in> set (take n cs)" "snd x' = snd x"
      by (auto simp: evict_victims_def n_def cs_def)
    with inj xy show ?thesis by (metis in_set_takeD inj_onD)
  qed
  moreover have "y \<in> set (drop n cs)"
  proof -
    have "y \<notin> set (take n cs)"
      using yv by (auto simp: evict_victims_def n_def cs_def)
    with xy(2) show ?thesis by (metis Un_iff append_take_drop_id set_append)
  qed
  moreover have "sorted_by ord_cmp (take n cs @ drop n cs)"
    by (simp add: cs_def ordc.sorted_sort_by)
  ultimately have "ord_cmp x y \<noteq> Gt"
    by (auto simp: sorted_by_def sorted_wrt_append simp del: append_take_drop_id)
  moreover have "x \<noteq> y" using xv yv by auto
  ultimately show ?thesis by (auto simp: cmp_simps)
qed

text \<open>The jobs eviction may remove: finished, not protected, older than the grace.\<close>

definition evictable :: "string \<Rightarrow> string \<Rightarrow> index_job \<Rightarrow> bool" where
  "evictable p cutoff j \<longleftrightarrow> is_terminal j \<and> job_id j \<noteq> p \<and> completed_key j < cutoff"

lemma evict_candidates_evictable:
  "evict_candidates p c reg = map (\<lambda>j. (completed_key j, job_id j)) (filter (evictable p c) (map snd reg))"
  by (simp add: evict_candidates_def evictable_def [abs_def] conj_ac)

lemma candidate_mem:
  assumes "registry_ok reg" "map_of reg k = Some j" "evictable p c j"
  shows "(completed_key j, k) \<in> set (evict_candidates p c reg)"
proof -
  from assms(2) have "(k, j) \<in> set reg" by (rule map_of_SomeD)
  then have "j \<in> set (filter (evictable p c) (map snd reg))" "job_id j = k"
    using assms registry_mem [OF assms(1)] by force+
  then show ?thesis
    unfolding evict_candidates_evictable by force
qed

lemma evicted_evictable:
  assumes ok: "registry_ok reg" and j: "map_of reg k = Some j" and v: "k \<in> set (evict_victims cap p c reg)"
  shows "evictable p c j"
proof -
  from victims_sub [OF v] obtain k2 j2 where "(k2, j2) \<in> set reg" "is_terminal j2" "job_id j2 = k"
      "k \<noteq> p" "completed_key j2 < c"
    by auto
  moreover from this ok j have "j2 = j"
    using registry_mem [OF ok \<open>(k2, j2) \<in> set reg\<close>] by simp
  ultimately show ?thesis by (auto simp: evictable_def)
qed

lemma length_evict:
  assumes ok: "registry_ok reg"
  shows "length reg - length (evict_oldest_terminal_jobs_over_cap cap p c reg) =
     min (terminal_count reg - cap) (length (filter (evictable p c) (map snd reg)))"
proof -
  let ?vs = "evict_victims cap p c reg"
  have sub: "set ?vs \<subseteq> fst ` set reg"
    using victims_sub [of _ cap p c reg] ok by (force simp: registry_ok_def)
  have "set (filter (\<lambda>k. k \<in> set ?vs) (map fst reg)) = set ?vs"
    using sub by auto
  then have "length (filter (\<lambda>k. k \<in> set ?vs) (map fst reg)) = card (set ?vs)"
    using ok by (metis distinct_card distinct_filter registry_ok_def)
  also have "\<dots> = length ?vs"
    using victims_distinct [OF ok] by (simp add: distinct_card)
  finally have "length (filter (\<lambda>e. fst e \<in> set ?vs) reg) = length ?vs"
    by (simp add: filter_map comp_def)
  then show ?thesis
    using sum_length_filter_compl [of "\<lambda>e. fst e \<in> set ?vs" reg]
    by (simp add: evict_filter length_victims evict_candidates_evictable)
qed

text \<open>
  Eviction removes only finished jobs that are neither the protected one nor within the
  grace, exactly as many as the registry is over its cap or as there are such jobs, and always
  the oldest: a removed job precedes every such job that stays in the order of completion time
  and id. Everything else keeps its entry.
\<close>

theorem evict_spec:
  assumes ok: "registry_ok reg"
    and reg': "reg' = evict_oldest_terminal_jobs_over_cap cap p cutoff reg"
  shows "map_of reg' \<subseteq>\<^sub>m map_of reg \<and>
    (\<forall>k j. map_of reg k = Some j \<and> map_of reg' k = None \<longrightarrow>
       evictable p cutoff j \<and>
       (\<forall>k' j'. map_of reg' k' = Some j' \<and> evictable p cutoff j' \<longrightarrow>
          (completed_key j, k) < (completed_key j', k'))) \<and>
    length reg - length reg' =
      min (terminal_count reg - cap) (length (filter (evictable p cutoff) (map snd reg)))"
proof (intro conjI allI impI; (elim conjE)?)
  show "map_of reg' \<subseteq>\<^sub>m map_of reg"
    unfolding map_le_def reg' by (metis domIff evict_lookup)
  show "length reg - length reg' =
      min (terminal_count reg - cap) (length (filter (evictable p cutoff) (map snd reg)))"
    by (simp add: reg' length_evict [OF ok])
next
  fix k j assume j: "map_of reg k = Some j" and gone: "map_of reg' k = None"
  then have v: "k \<in> set (evict_victims cap p cutoff reg)"
    by (auto simp: reg' evict_lookup split: if_splits)
  show e: "evictable p cutoff j"
    by (rule evicted_evictable [OF ok j v])
  fix k' j' assume j': "map_of reg' k' = Some j'" and e': "evictable p cutoff j'"
  from j' have kept: "map_of reg k' = Some j'" "k' \<notin> set (evict_victims cap p cutoff reg)"
    by (auto simp: reg' evict_lookup split: if_splits)
  show "(completed_key j, k) < (completed_key j', k')"
    using victims_split [OF ok candidate_mem [OF ok j e] candidate_mem [OF ok kept(1) e']] v kept(2)
    by simp
qed

text \<open>Three finished jobs over a cap of one, the newest protected: the two oldest go.\<close>

definition done_job :: "string \<Rightarrow> string \<Rightarrow> index_job" where
  "done_job i t = complete_index_job t default_stats (create_index_job i t ''s'' ScopeStore)"

lemma done_job_simps [simp]:
  "job_id (done_job i t) = i" "is_terminal (done_job i t)" "completed_key (done_job i t) = t"
  by (simp_all add: done_job_def completed_key_def) (simp add: complete_index_job_def)

lemma evict_spec_witness:
  "let reg = [(''b'', done_job ''b'' ''2''), (''c'', done_job ''c'' ''2''), (''a'', done_job ''a'' ''1'')];
       reg' = evict_oldest_terminal_jobs_over_cap 1 ''c'' ''5'' reg
   in length reg - length reg' = 2 \<and> map_of reg' \<subseteq>\<^sub>m map_of reg"
proof -
  let ?reg = "[(''b'', done_job ''b'' ''2''), (''c'', done_job ''c'' ''2''), (''a'', done_job ''a'' ''1'')]"
  have ok: "registry_ok ?reg" by (simp add: registry_ok_def)
  show ?thesis
    using evict_spec [OF ok refl, of 1 "''c''" "''5''"]
    by (simp add: Let_def terminal_count_def evictable_def list_less_def)
qed

text \<open>
  The result does not depend on the iteration order of the hash map: two registries with the
  same entries keep the same entries.
\<close>

theorem evict_order_independent:
  assumes "registry_ok reg" and "mset reg = mset reg'"
  shows "mset (evict_oldest_terminal_jobs_over_cap cap p cutoff reg) =
         mset (evict_oldest_terminal_jobs_over_cap cap p cutoff reg')"
proof -
  have "mset (filter P (map snd reg)) = mset (filter P (map snd reg'))" for P
    using assms(2) by (metis mset_filter mset_map)
  then have "terminal_count reg = terminal_count reg'"
    and "mset (evict_candidates p cutoff reg) = mset (evict_candidates p cutoff reg')"
    by (simp_all only: terminal_count_def evict_candidates_evictable mset_map flip: size_mset)
  then have "evict_victims cap p cutoff reg = evict_victims cap p cutoff reg'"
    unfolding evict_victims_def by (metis ordc.sort_by_perm subset_UNIV)
  with assms(2) show ?thesis
    by (simp only: evict_filter mset_filter)
qed

lemma evict_order_independent_witness:
  "mset (evict_oldest_terminal_jobs_over_cap 1 ''c'' ''5''
       [(''b'', done_job ''b'' ''2''), (''c'', done_job ''c'' ''2'')]) =
   mset (evict_oldest_terminal_jobs_over_cap 1 ''c'' ''5''
       [(''c'', done_job ''c'' ''2''), (''b'', done_job ''b'' ''2'')])"
  by (rule evict_order_independent) (simp_all add: registry_ok_def)

end
