(* ===== verification/JobQueue.thy ===== *)
theory JobQueue
  imports Retention
begin

text \<open>
  The shared state of the job queue of \<open>server/src/job_queue.rs\<close> and the operations on it, one
  definition per critical section: what a task does while it holds the \<open>inflight\<close>, \<open>handles\<close>
  or \<open>registry\<close> lock is one step. How submitters, workers and cancellers interleave these steps
  is the theory \<open>QueueMachine\<close>.

  \<open>submit\<close> makes one broadcast channel and one cancellation token per job and stores them in
  the job's handle; both are identified here by the job id. \<open>channels\<close> records every message
  sent on a job's channel, oldest first; \<open>triggered\<close> is the set of tokens that were cancelled,
  which a token never leaves.
\<close>

record validators =
  v_etag :: "string option"
  v_last_modified :: "string option"

text \<open>\<open>IngestionResult\<close>: the counters and validators of one source's run.\<close>

record ingestion_result =
  r_docs_seen :: u64
  r_docs_indexed :: u64
  r_docs_skipped :: u64
  r_docs_deleted :: u64
  r_chunks_written :: u64
  r_unsupported_format_count :: u64
  r_error_count :: u64
  r_docs_prunable :: u64
  r_docs_metadata_updated :: u64
  r_docs_recheck_deferred :: u64
  r_feed_entries_liveness_checked :: u64
  r_document_validators :: "validators option"
  r_document_inputs_digest :: "string option"

datatype doc_outcome = Indexed nat | Skipped | Unsupported | OutcomeError | MetadataUpdated

datatype progress_event =
    SourceStarted string string
  | Discovered nat
  | DocumentStarted string nat nat
  | DocumentFinished string doc_outcome
  | SourceFinished ingestion_result

datatype job_event = Progress progress_event | Terminal index_job

record queued_job =
  qj_id :: string
  qj_store_id :: string

record queue =
  registry :: job_registry
  inflight :: "string set"
  handles :: "string set"
  triggered :: "string set"
  channels :: "string \<Rightarrow> job_event list"
  pending_jobs :: "queued_job list"

definition QUEUE_CAPACITY :: nat where
  "QUEUE_CAPACITY = 64"

definition new_queue :: queue where
  "new_queue = \<lparr>registry = [], inflight = {}, handles = {}, triggered = {},
     channels = (\<lambda>_. []), pending_jobs = []\<rparr>"

section \<open>Submission\<close>

text \<open>The guard, taken before the job exists.\<close>

definition submit_reserve :: "string \<Rightarrow> queue \<Rightarrow> error + queue" where
  "submit_reserve store_id q =
     (if store_id \<in> inflight q then Inl IndexInProgress
      else Inr (q\<lparr>inflight := insert store_id (inflight q)\<rparr>))"

text \<open>The handle, installed before the job is visible: a new channel and a new token.\<close>

definition submit_install :: "string \<Rightarrow> queue \<Rightarrow> queue" where
  "submit_install i q =
     q\<lparr>handles := insert i (handles q), channels := (channels q)(i := []),
       triggered := triggered q - {i}\<rparr>"

definition submit_register :: "index_job \<Rightarrow> queue \<Rightarrow> queue" where
  "submit_register j q = q\<lparr>registry := AList.update (job_id j) j (registry q)\<rparr>"

text \<open>\<open>sender.send\<close>: waits for room (\<open>None\<close>) and appends.\<close>

definition submit_send :: "queued_job \<Rightarrow> queue \<Rightarrow> queue option" where
  "submit_send qj q =
     (if length (pending_jobs q) < QUEUE_CAPACITY
      then Some (q\<lparr>pending_jobs := pending_jobs q @ [qj]\<rparr>) else None)"

text \<open>Applying a function to a job of the registry: \<open>if let Some(j) = reg.get_mut(id)\<close>.\<close>

definition modify_job :: "string \<Rightarrow> (index_job \<Rightarrow> index_job) \<Rightarrow> job_registry \<Rightarrow> job_registry" where
  "modify_job i f reg = (case map_of reg i of None \<Rightarrow> reg | Some j \<Rightarrow> AList.update i (f j) reg)"

text \<open>
  The channel refused the job: the guard is released first, then the job is recorded as failed
  (eviction follows every terminal write), then the handle goes.
\<close>

definition release_guard :: "string \<Rightarrow> queue \<Rightarrow> queue" where
  "release_guard store_id q = q\<lparr>inflight := inflight q - {store_id}\<rparr>"

definition evict :: "string \<Rightarrow> string \<Rightarrow> job_registry \<Rightarrow> job_registry" where
  "evict protect_id cutoff reg =
     evict_oldest_terminal_jobs_over_cap MAX_TERMINAL_JOBS protect_id cutoff reg"

definition submit_record_failure :: "string \<Rightarrow> string \<Rightarrow> string \<Rightarrow> queue \<Rightarrow> queue \<times> index_job option" where
  "submit_record_failure now cutoff i q =
     (let reg = evict i cutoff
                  (modify_job i (fail_index_job now ''job queue is full or closed'') (registry q))
      in (q\<lparr>registry := reg\<rparr>, map_of reg i))"

definition send_event :: "string \<Rightarrow> job_event \<Rightarrow> queue \<Rightarrow> queue" where
  "send_event i e q = q\<lparr>channels := (channels q)(i := channels q i @ [e])\<rparr>"

definition submit_drop_handle :: "string \<Rightarrow> index_job option \<Rightarrow> queue \<Rightarrow> queue" where
  "submit_drop_handle i snapshot q =
     (let q' = (case snapshot of None \<Rightarrow> q | Some j \<Rightarrow> send_event i (Terminal j) q)
      in q'\<lparr>handles := handles q' - {i}\<rparr>)"

text \<open>What \<open>submit\<close> returns: the registry's entry, or the job it made.\<close>

definition submit_result :: "index_job \<Rightarrow> queue \<Rightarrow> index_job" where
  "submit_result j q = (case map_of (registry q) (job_id j) of Some j' \<Rightarrow> j' | None \<Rightarrow> j)"

section \<open>Reading, subscribing, cancelling\<close>

definition get_job :: "string \<Rightarrow> queue \<Rightarrow> index_job option" where
  "get_job i q = map_of (registry q) i"

definition list_jobs :: "string \<Rightarrow> queue \<Rightarrow> queue \<times> index_job list" where
  "list_jobs cutoff q =
     (let reg = evict [] cutoff (registry q) in (q\<lparr>registry := reg\<rparr>, map snd reg))"

text \<open>
  \<open>subscribe\<close>: a receiver sees what is sent from now on; it is the position in the channel at
  which it starts.
\<close>

definition subscribe :: "string \<Rightarrow> queue \<Rightarrow> nat option" where
  "subscribe i q = (if i \<in> handles q then Some (length (channels q i)) else None)"

definition resolve_post_trigger_outcome :: "index_job \<Rightarrow> error + index_job" where
  "resolve_post_trigger_outcome j =
     (if is_terminal j \<and> \<not> (job_state_of j = Failed \<and> job_error_code j = Some ''job_cancelled'')
      then Inl JobAlreadyTerminal else Inr j)"

definition cancel :: "string \<Rightarrow> queue \<Rightarrow> queue \<times> (error + index_job)" where
  "cancel i q =
     (case map_of (registry q) i of
        None \<Rightarrow> (q, Inl (JobNotFound i))
      | Some j \<Rightarrow>
          if is_terminal j then (q, Inl JobAlreadyTerminal)
          else if i \<in> handles q then
            (let q' = q\<lparr>triggered := insert i (triggered q)\<rparr>
             in case map_of (registry q') i of
                  None \<Rightarrow> (q', Inl (JobNotFound i))
                | Some j' \<Rightarrow> (q', resolve_post_trigger_outcome j'))
          else (q, Inl (Internal
                 (''job '' @ i @ '' has no cancellation handle despite being non-terminal in the registry (internal invariant violation)'')
                 ''job_cancel_missing_handle'')))"

section \<open>The worker\<close>

text \<open>\<open>tokio::task::JoinError\<close>: whether the task was aborted, and its text.\<close>

record join_error =
  je_cancelled :: bool
  je_display :: string

type_synonym join_result = "join_error + (error + job_stats)"

datatype job_outcome =
    Finished join_result
  | Cancelled
  | TaskBuildPanicked string

text \<open>A panic payload: the two shapes \<open>panic!\<close> makes, any other, each possibly re-boxed.\<close>

datatype panic_payload =
    BoxedAny panic_payload
  | StaticStr string
  | OwnedString string
  | OtherPayload

fun panic_message :: "panic_payload \<Rightarrow> string" where
  "panic_message (BoxedAny p) = panic_message p"
| "panic_message (StaticStr s) = s"
| "panic_message (OwnedString s) = s"
| "panic_message OtherPayload = ''non-string panic payload''"

definition resolve_aborted :: "join_result \<Rightarrow> job_outcome" where
  "resolve_aborted joined =
     (case joined of
        Inl e \<Rightarrow> if je_cancelled e then Cancelled else Finished joined
      | Inr _ \<Rightarrow> Finished joined)"

definition apply_job_outcome :: "string \<Rightarrow> job_outcome \<Rightarrow> index_job \<Rightarrow> index_job" where
  "apply_job_outcome now outcome j =
     (case outcome of
        Finished (Inr (Inr stats)) \<Rightarrow> complete_index_job now stats j
      | Finished (Inr (Inl e)) \<Rightarrow> fail_index_job_with_error now e j
      | Finished (Inl e) \<Rightarrow> fail_index_job now (''task panicked: '' @ je_display e) j
      | Cancelled \<Rightarrow> fail_index_job_with_error now JobCancelled j
      | TaskBuildPanicked msg \<Rightarrow>
          fail_index_job_with_error now
            (Internal (''worker panicked during job processing: '' @ msg)
               ''job_worker_task_build_panic'') j)"

text \<open>\<open>process_job\<close>, first critical section: cancelled while pending, or started.\<close>

definition claim_job :: "string \<Rightarrow> string \<Rightarrow> string \<Rightarrow> queue \<Rightarrow> queue \<times> bool \<times> index_job option" where
  "claim_job now cutoff i q =
     (let cancelled = (i \<in> triggered q);
          reg = modify_job i
                  (if cancelled then fail_index_job_with_error now JobCancelled
                   else start_index_job now) (registry q)
      in if cancelled
         then (let reg' = evict i cutoff reg in (q\<lparr>registry := reg'\<rparr>, True, map_of reg' i))
         else (q\<lparr>registry := reg\<rparr>, False, None))"

text \<open>The race of the task against its token: the outcomes the \<open>select!\<close> can take.\<close>

definition race_outcome :: "bool \<Rightarrow> bool \<Rightarrow> join_result \<Rightarrow> job_outcome" where
  "race_outcome token_fired took_cancel_branch joined =
     (if token_fired \<and> took_cancel_branch then resolve_aborted joined else Finished joined)"

text \<open>Second critical section: the outcome is recorded and a snapshot taken.\<close>

definition record_outcome ::
  "string \<Rightarrow> string \<Rightarrow> string \<Rightarrow> job_outcome \<Rightarrow> queue \<Rightarrow> queue \<times> index_job option" where
  "record_outcome now cutoff i outcome q =
     (let reg = evict i cutoff (modify_job i (apply_job_outcome now outcome) (registry q))
      in (q\<lparr>registry := reg\<rparr>, map_of reg i))"

text \<open>Third: the terminal snapshot is sent and the handle removed under one lock.\<close>

definition teardown :: "string \<Rightarrow> index_job option \<Rightarrow> queue \<Rightarrow> queue" where
  "teardown i snapshot q =
     (let q' = (case snapshot of
                  None \<Rightarrow> q
                | Some j \<Rightarrow> if i \<in> handles q then send_event i (Terminal j) q else q)
      in q'\<lparr>handles := handles q' - {i}\<rparr>)"

text \<open>
  \<open>process_job\<close> from dequeue to release, with no other task between its steps: \<open>outcome\<close> is
  what building and running the task yields, read only when the job is started. Each critical
  section reads the clock for itself.
\<close>

definition process_job ::
  "string \<times> string \<Rightarrow> string \<times> string \<Rightarrow> queued_job \<Rightarrow> job_outcome \<Rightarrow> queue \<Rightarrow> queue" where
  "process_job clock1 clock2 qj outcome q =
     (let i = qj_id qj;
          (q1, already_cancelled, snap1) = claim_job (fst clock1) (snd clock1) i q;
          (q2, snap2) = (if already_cancelled then (q1, snap1)
                         else record_outcome (fst clock2) (snd clock2) i outcome q1)
      in release_guard (qj_store_id qj) (teardown i snap2 q2))"

end
