(* ===== verification/QueueMachine.thy ===== *)
theory QueueMachine
  imports JobQueue
begin

text \<open>
  The job queue as a transition system: submit calls, workers, cancellers and listers interleave
  their critical sections (\<open>JobQueue\<close>) in any order. A submit call or a worker is a program
  counter that names the critical section it enters next; the pool has a fixed number of
  workers. Clock readings, ids, task outcomes and the choice of who moves are unconstrained,
  but for one documented fact about \<open>Ulid::new\<close>: an id is generated once.
\<close>

datatype submit_pc =
    SReserved string job_scope
  | SInstalled index_job
  | SRegistered index_job
  | SSendFailed index_job
  | SReleased index_job
  | SFailed index_job "index_job option"

datatype worker_pc =
    WIdle
  | WGot queued_job
  | WRun queued_job
  | WRecord queued_job job_outcome
  | WTear queued_job "index_job option"
  | WRelease queued_job

record sys =
  sq :: queue
  calls :: "submit_pc multiset"
  pool :: "worker_pc multiset"
  used_ids :: "string set"

text \<open>\<open>JobQueue::with_workers(n)\<close>.\<close>

definition init_sys :: "nat \<Rightarrow> sys" where
  "init_sys n = \<lparr>sq = new_queue, calls = {#}, pool = replicate_mset n WIdle, used_ids = {}\<rparr>"

definition queued_of :: "index_job \<Rightarrow> queued_job" where
  "queued_of j = \<lparr>qj_id = job_id j, qj_store_id = job_store_id j\<rparr>"

inductive qstep :: "sys \<Rightarrow> sys \<Rightarrow> bool" where
  submit_begin:
    "submit_reserve st (sq s) = Inr q' \<Longrightarrow>
     qstep s (s\<lparr>sq := q', calls := add_mset (SReserved st sc) (calls s)\<rparr>)"
| submit_create:
    "calls s = add_mset (SReserved st sc) C \<Longrightarrow> i \<notin> used_ids s \<Longrightarrow>
     qstep s (s\<lparr>sq := submit_install i (sq s),
                calls := add_mset (SInstalled (create_index_job i now st sc)) C,
                used_ids := insert i (used_ids s)\<rparr>)"
| submit_publish:
    "calls s = add_mset (SInstalled j) C \<Longrightarrow>
     qstep s (s\<lparr>sq := submit_register j (sq s), calls := add_mset (SRegistered j) C\<rparr>)"
| submit_enqueue:
    "calls s = add_mset (SRegistered j) C \<Longrightarrow> submit_send (queued_of j) (sq s) = Some q' \<Longrightarrow>
     qstep s (s\<lparr>sq := q', calls := C\<rparr>)"
| submit_refused:
    "calls s = add_mset (SRegistered j) C \<Longrightarrow>
     qstep s (s\<lparr>calls := add_mset (SSendFailed j) C\<rparr>)"
| submit_refused_release:
    "calls s = add_mset (SSendFailed j) C \<Longrightarrow>
     qstep s (s\<lparr>sq := release_guard (job_store_id j) (sq s), calls := add_mset (SReleased j) C\<rparr>)"
| submit_refused_record:
    "calls s = add_mset (SReleased j) C \<Longrightarrow>
     submit_record_failure now cutoff (job_id j) (sq s) = (q', snap) \<Longrightarrow>
     qstep s (s\<lparr>sq := q', calls := add_mset (SFailed j snap) C\<rparr>)"
| submit_refused_drop:
    "calls s = add_mset (SFailed j snap) C \<Longrightarrow>
     qstep s (s\<lparr>sq := submit_drop_handle (job_id j) snap (sq s), calls := C\<rparr>)"
| worker_dequeue:
    "pool s = add_mset WIdle W \<Longrightarrow> pending_jobs (sq s) = qj # rest \<Longrightarrow>
     qstep s (s\<lparr>sq := (sq s)\<lparr>pending_jobs := rest\<rparr>, pool := add_mset (WGot qj) W\<rparr>)"
| worker_start:
    "pool s = add_mset (WGot qj) W \<Longrightarrow> claim_job now cutoff (qj_id qj) (sq s) = (q', False, snap) \<Longrightarrow>
     qstep s (s\<lparr>sq := q', pool := add_mset (WRun qj) W\<rparr>)"
| worker_skip_cancelled:
    "pool s = add_mset (WGot qj) W \<Longrightarrow> claim_job now cutoff (qj_id qj) (sq s) = (q', True, snap) \<Longrightarrow>
     qstep s (s\<lparr>sq := q', pool := add_mset (WTear qj snap) W\<rparr>)"
| worker_progress:
    "pool s = add_mset (WRun qj) W \<Longrightarrow>
     qstep s (s\<lparr>sq := send_event (qj_id qj) (Progress e) (sq s)\<rparr>)"
| worker_build_panic:
    "pool s = add_mset (WRun qj) W \<Longrightarrow>
     qstep s (s\<lparr>pool := add_mset (WRecord qj (TaskBuildPanicked (panic_message p))) W\<rparr>)"
| worker_stop:
    "pool s = add_mset (WRun qj) W \<Longrightarrow>
     qstep s (s\<lparr>pool := add_mset (WRecord qj (race_outcome (qj_id qj \<in> triggered (sq s)) b r)) W\<rparr>)"
| worker_record:
    "pool s = add_mset (WRecord qj out) W \<Longrightarrow>
     record_outcome now cutoff (qj_id qj) out (sq s) = (q', snap) \<Longrightarrow>
     qstep s (s\<lparr>sq := q', pool := add_mset (WTear qj snap) W\<rparr>)"
| worker_teardown:
    "pool s = add_mset (WTear qj snap) W \<Longrightarrow>
     qstep s (s\<lparr>sq := teardown (qj_id qj) snap (sq s), pool := add_mset (WRelease qj) W\<rparr>)"
| worker_release:
    "pool s = add_mset (WRelease qj) W \<Longrightarrow>
     qstep s (s\<lparr>sq := release_guard (qj_store_id qj) (sq s), pool := add_mset WIdle W\<rparr>)"
| cancel_call: "qstep s (s\<lparr>sq := fst (cancel i (sq s))\<rparr>)"
| list_call: "qstep s (s\<lparr>sq := fst (list_jobs cutoff (sq s))\<rparr>)"

inductive reachable :: "nat \<Rightarrow> sys \<Rightarrow> bool" for n where
  reach_init: "reachable n (init_sys n)"
| reach_step: "reachable n s \<Longrightarrow> qstep s t \<Longrightarrow> reachable n t"

section \<open>Who holds what\<close>

text \<open>The values of a partial function over a multiset.\<close>

definition opts_of :: "('a \<Rightarrow> 'b option) \<Rightarrow> 'a multiset \<Rightarrow> 'b multiset" where
  "opts_of f M = image_mset the (filter_mset (\<lambda>x. x \<noteq> None) (image_mset f M))"

lemma opts_of_empty [simp]: "opts_of f {#} = {#}"
  by (simp add: opts_of_def)

lemma opts_of_add [simp]:
  "opts_of f (add_mset x M) = (case f x of None \<Rightarrow> opts_of f M | Some y \<Rightarrow> add_mset y (opts_of f M))"
  by (simp add: opts_of_def split: option.split)

lemma opts_of_replicate_None [simp]: "f x = None \<Longrightarrow> opts_of f (replicate_mset n x) = {#}"
  by (induction n) auto

text \<open>
  The jobs in flight, each with its store and how far it got: its handle is installed, it is
  registered and waits, its task runs, or its terminal state is recorded and the handle not yet
  removed.
\<close>

datatype phase = PInstalled | PQueued | PActive | PClosing

type_synonym live_job = "string \<times> string \<times> phase"

fun call_live :: "submit_pc \<Rightarrow> live_job option" where
  "call_live (SReserved st sc) = None"
| "call_live (SInstalled j) = Some (job_id j, job_store_id j, PInstalled)"
| "call_live (SRegistered j) = Some (job_id j, job_store_id j, PQueued)"
| "call_live (SSendFailed j) = Some (job_id j, job_store_id j, PQueued)"
| "call_live (SReleased j) = Some (job_id j, job_store_id j, PQueued)"
| "call_live (SFailed j snap) = Some (job_id j, job_store_id j, PClosing)"

fun worker_live :: "worker_pc \<Rightarrow> live_job option" where
  "worker_live WIdle = None"
| "worker_live (WGot qj) = Some (qj_id qj, qj_store_id qj, PQueued)"
| "worker_live (WRun qj) = Some (qj_id qj, qj_store_id qj, PActive)"
| "worker_live (WRecord qj out) = Some (qj_id qj, qj_store_id qj, PActive)"
| "worker_live (WTear qj snap) = Some (qj_id qj, qj_store_id qj, PClosing)"
| "worker_live (WRelease qj) = None"

fun call_guard :: "submit_pc \<Rightarrow> string option" where
  "call_guard (SReserved st sc) = Some st"
| "call_guard (SInstalled j) = Some (job_store_id j)"
| "call_guard (SRegistered j) = Some (job_store_id j)"
| "call_guard (SSendFailed j) = Some (job_store_id j)"
| "call_guard (SReleased j) = None"
| "call_guard (SFailed j snap) = None"

fun worker_guard :: "worker_pc \<Rightarrow> string option" where
  "worker_guard WIdle = None"
| "worker_guard (WGot qj) = Some (qj_store_id qj)"
| "worker_guard (WRun qj) = Some (qj_store_id qj)"
| "worker_guard (WRecord qj out) = Some (qj_store_id qj)"
| "worker_guard (WTear qj snap) = Some (qj_store_id qj)"
| "worker_guard (WRelease qj) = Some (qj_store_id qj)"

definition queue_live :: "queued_job list \<Rightarrow> live_job multiset" where
  "queue_live qs = image_mset (\<lambda>qj. (qj_id qj, qj_store_id qj, PQueued)) (mset qs)"

definition live :: "sys \<Rightarrow> live_job multiset" where
  "live s = opts_of call_live (calls s) + queue_live (pending_jobs (sq s)) + opts_of worker_live (pool s)"

definition guards :: "sys \<Rightarrow> string multiset" where
  "guards s = opts_of call_guard (calls s) + image_mset qj_store_id (mset (pending_jobs (sq s)))
     + opts_of worker_guard (pool s)"

lemma queue_live_simps [simp]:
  "queue_live [] = {#}"
  "queue_live (qj # qs) = add_mset (qj_id qj, qj_store_id qj, PQueued) (queue_live qs)"
  "queue_live (qs @ [qj]) = add_mset (qj_id qj, qj_store_id qj, PQueued) (queue_live qs)"
  by (simp_all add: queue_live_def)

lemma queued_of_simps [simp]: "qj_id (queued_of j) = job_id j" "qj_store_id (queued_of j) = job_store_id j"
  by (simp_all add: queued_of_def)

end
