(* ===== verification/QueueInvariants.thy ===== *)
theory QueueInvariants
  imports QueueMachine
begin

text \<open>
  The invariants of the job queue: who holds a store's guard, which jobs have a handle, how the
  registry agrees with the jobs in flight, and what was sent on each job's channel. Each is kept
  by every step, so each holds in every reachable state.
\<close>

lemmas queue_op_defs =
  submit_reserve_def submit_install_def submit_register_def submit_send_def release_guard_def
  submit_record_failure_def submit_drop_handle_def send_event_def claim_job_def record_outcome_def
  teardown_def cancel_def list_jobs_def

lemma add_mset_eq_mset_set:
  assumes "add_mset x M = mset_set A" "finite A"
  shows "M = mset_set (A - {x}) \<and> x \<in> A \<and> x \<notin># M"
proof -
  have x: "x \<in> A"
    using assms by (metis elem_mset_set union_single_eq_member)
  then have M: "M = mset_set (A - {x})"
    using assms by (metis add_mset_remove_trivial mset_set.remove)
  then show ?thesis using x assms(2) by simp
qed

text \<open>Everything but the registry is left alone.\<close>

definition same_but_registry :: "queue \<Rightarrow> queue \<Rightarrow> bool" where
  "same_but_registry q q' \<longleftrightarrow> handles q' = handles q \<and> inflight q' = inflight q \<and>
     triggered q' = triggered q \<and> channels q' = channels q \<and> pending_jobs q' = pending_jobs q"

text \<open>Frame facts: which parts of the queue an operation leaves alone.\<close>

lemma cancel_frame [simp]:
  "handles (fst (cancel i q)) = handles q" "inflight (fst (cancel i q)) = inflight q"
  "registry (fst (cancel i q)) = registry q" "pending_jobs (fst (cancel i q)) = pending_jobs q"
  "channels (fst (cancel i q)) = channels q"
  by (auto simp: cancel_def Let_def split: option.split)

lemma list_frame [simp]:
  "handles (fst (list_jobs c q)) = handles q" "inflight (fst (list_jobs c q)) = inflight q"
  "pending_jobs (fst (list_jobs c q)) = pending_jobs q" "channels (fst (list_jobs c q)) = channels q"
  "triggered (fst (list_jobs c q)) = triggered q"
  "registry (fst (list_jobs c q)) = evict [] c (registry q)"
  by (auto simp: list_jobs_def Let_def)

lemma send_event_frame [simp]:
  "handles (send_event i e q) = handles q" "inflight (send_event i e q) = inflight q"
  "registry (send_event i e q) = registry q" "pending_jobs (send_event i e q) = pending_jobs q"
  "triggered (send_event i e q) = triggered q"
  by (simp_all add: send_event_def)

lemma drop_handle_frame [simp]:
  "handles (submit_drop_handle i sn q) = handles q - {i}" "inflight (submit_drop_handle i sn q) = inflight q"
  "registry (submit_drop_handle i sn q) = registry q"
  "pending_jobs (submit_drop_handle i sn q) = pending_jobs q"
  "triggered (submit_drop_handle i sn q) = triggered q"
  by (auto simp: submit_drop_handle_def Let_def split: option.split)

lemma teardown_frame [simp]:
  "handles (teardown i sn q) = handles q - {i}" "inflight (teardown i sn q) = inflight q"
  "registry (teardown i sn q) = registry q" "pending_jobs (teardown i sn q) = pending_jobs q"
  "triggered (teardown i sn q) = triggered q"
  by (auto simp: teardown_def Let_def split: option.split)

lemma install_frame [simp]:
  "handles (submit_install i q) = insert i (handles q)" "inflight (submit_install i q) = inflight q"
  "registry (submit_install i q) = registry q" "pending_jobs (submit_install i q) = pending_jobs q"
  "triggered (submit_install i q) = triggered q - {i}"
  by (simp_all add: submit_install_def)

lemma register_frame [simp]:
  "handles (submit_register j q) = handles q" "inflight (submit_register j q) = inflight q"
  "pending_jobs (submit_register j q) = pending_jobs q" "channels (submit_register j q) = channels q"
  "triggered (submit_register j q) = triggered q"
  by (simp_all add: submit_register_def)

lemma release_frame [simp]:
  "handles (release_guard st q) = handles q" "inflight (release_guard st q) = inflight q - {st}"
  "registry (release_guard st q) = registry q" "pending_jobs (release_guard st q) = pending_jobs q"
  "channels (release_guard st q) = channels q" "triggered (release_guard st q) = triggered q"
  by (simp_all add: release_guard_def)

lemma reserve_frame:
  "submit_reserve st q = Inr q' \<Longrightarrow> q' = q\<lparr>inflight := insert st (inflight q)\<rparr> \<and> st \<notin> inflight q"
  by (auto simp: submit_reserve_def split: if_splits)

lemma send_frame:
  "submit_send qj q = Some q' \<Longrightarrow> q' = q\<lparr>pending_jobs := pending_jobs q @ [qj]\<rparr>"
  by (auto simp: submit_send_def split: if_splits)

lemma record_failure_frame:
  "submit_record_failure now c i q = (q', sn) \<Longrightarrow>
     same_but_registry q q' \<and> sn = map_of (registry q') i \<and>
     registry q' = evict i c (modify_job i (fail_index_job now ''job queue is full or closed'') (registry q))"
  by (auto simp: same_but_registry_def submit_record_failure_def Let_def)

lemma record_outcome_frame:
  "record_outcome now c i out q = (q', sn) \<Longrightarrow>
     same_but_registry q q' \<and> sn = map_of (registry q') i \<and>
     registry q' = evict i c (modify_job i (apply_job_outcome now out) (registry q))"
  by (auto simp: same_but_registry_def record_outcome_def Let_def)

lemma claim_start_frame:
  "claim_job now c i q = (q', False, sn) \<Longrightarrow>
     same_but_registry q q' \<and> i \<notin> triggered q \<and>
     registry q' = modify_job i (start_index_job now) (registry q)"
  by (auto simp: same_but_registry_def claim_job_def Let_def split: if_splits)

lemma claim_skip_frame:
  "claim_job now c i q = (q', True, sn) \<Longrightarrow>
     same_but_registry q q' \<and> sn = map_of (registry q') i \<and> i \<in> triggered q \<and>
     registry q' = evict i c (modify_job i (fail_index_job_with_error now JobCancelled) (registry q))"
  by (auto simp: same_but_registry_def claim_job_def Let_def split: if_splits)

section \<open>Guards and handles\<close>

definition inv_guards :: "sys \<Rightarrow> bool" where
  "inv_guards s \<longleftrightarrow> finite (inflight (sq s)) \<and> guards s = mset_set (inflight (sq s))"

definition inv_handles :: "sys \<Rightarrow> bool" where
  "inv_handles s \<longleftrightarrow> finite (handles (sq s)) \<and> handles (sq s) \<subseteq> used_ids s \<and>
     image_mset fst (live s) = mset_set (handles (sq s))"

lemma inv_guards_step: "qstep s t \<Longrightarrow> inv_guards s \<Longrightarrow> inv_guards t"
proof (induction rule: qstep.induct)
  case (submit_begin st s q' sc)
  then show ?case
    by (auto simp: inv_guards_def guards_def dest!: reserve_frame)
next
  case (submit_refused_release s j C)
  then show ?case
    by (auto simp: inv_guards_def guards_def dest!: add_mset_eq_mset_set)
next
  case (worker_release s qj W)
  then show ?case
    by (auto simp: inv_guards_def guards_def dest!: add_mset_eq_mset_set)
qed (auto simp: inv_guards_def guards_def same_but_registry_def
      dest!: send_frame record_failure_frame record_outcome_frame claim_start_frame claim_skip_frame)

lemma inv_handles_step: "qstep s t \<Longrightarrow> inv_handles s \<Longrightarrow> inv_handles t"
proof (induction rule: qstep.induct)
  case (submit_create s st sc C i now)
  then have "i \<notin> handles (sq s)" by (auto simp: inv_handles_def)
  with submit_create show ?case
    by (auto simp: inv_handles_def live_def)
next
  case (submit_refused_drop s j snap C)
  then show ?case
    by (auto simp: inv_handles_def live_def dest!: add_mset_eq_mset_set)
next
  case (worker_teardown s qj snap W)
  then show ?case
    by (auto simp: inv_handles_def live_def dest!: add_mset_eq_mset_set)
qed (auto simp: inv_handles_def live_def same_but_registry_def dest!: reserve_frame
      send_frame record_failure_frame record_outcome_frame claim_start_frame claim_skip_frame)

lemma inv_guards_init: "inv_guards (init_sys n)"
  by (simp add: inv_guards_def guards_def init_sys_def new_queue_def)

lemma inv_handles_init: "inv_handles (init_sys n)"
  by (simp add: inv_handles_def live_def init_sys_def new_queue_def)

lemma reachable_inv_guards: "reachable n s \<Longrightarrow> inv_guards s"
  by (induction rule: reachable.induct) (auto intro: inv_guards_init inv_guards_step)

lemma reachable_inv_handles: "reachable n s \<Longrightarrow> inv_handles s"
  by (induction rule: reachable.induct) (auto intro: inv_handles_init inv_handles_step)

text \<open>Live jobs have distinct ids.\<close>

lemma live_id_unique:
  assumes "inv_handles s" "live s = add_mset (i, st, ph) L"
  shows "i \<in> handles (sq s) \<and> (\<forall>x \<in># L. fst x \<noteq> i)"
proof -
  have "add_mset i (image_mset fst L) = mset_set (handles (sq s))"
    using assms by (simp add: inv_handles_def)
  then have "i \<in> handles (sq s) \<and> i \<notin># image_mset fst L"
    using assms(1) add_mset_eq_mset_set by (force simp: inv_handles_def)
  then show ?thesis by force
qed

section \<open>The registry and the jobs in flight\<close>

text \<open>What the registry must say of a job in flight.\<close>

fun entry_ok :: "job_registry \<Rightarrow> live_job \<Rightarrow> bool" where
  "entry_ok reg (i, st, PInstalled) = (map_of reg i = None)"
| "entry_ok reg (i, st, PQueued) =
     (\<exists>j. map_of reg i = Some j \<and> job_state_of j = Pending \<and> job_store_id j = st)"
| "entry_ok reg (i, st, PActive) =
     (\<exists>j. map_of reg i = Some j \<and> job_state_of j = Running \<and> job_store_id j = st)"
| "entry_ok reg (i, st, PClosing) = (\<forall>j. map_of reg i = Some j \<longrightarrow> is_terminal j)"

definition registry_covers :: "job_registry \<Rightarrow> live_job multiset \<Rightarrow> bool" where
  "registry_covers reg L \<longleftrightarrow>
     registry_ok reg \<and> (\<forall>x \<in># L. entry_ok reg x) \<and>
     (\<forall>i j. map_of reg i = Some j \<longrightarrow> job_wf j \<and> (\<not> is_terminal j \<longrightarrow> i \<in># image_mset fst L))"

text \<open>Two registries that agree away from one job, up to finished jobs evicted from the first.\<close>

definition agree_off :: "string \<Rightarrow> job_registry \<Rightarrow> job_registry \<Rightarrow> bool" where
  "agree_off i reg reg' \<longleftrightarrow>
     (\<forall>k. k \<noteq> i \<longrightarrow> map_of reg' k = map_of reg k \<or>
        (map_of reg' k = None \<and> (\<exists>j. map_of reg k = Some j \<and> is_terminal j)))"

lemma agree_off_entry:
  assumes "agree_off i reg reg'" "k \<noteq> i" "entry_ok reg (k, st, ph)"
  shows "entry_ok reg' (k, st, ph)"
proof -
  from assms(1,2) consider "map_of reg' k = map_of reg k"
    | j where "map_of reg' k = None" "map_of reg k = Some j" "is_terminal j"
    by (auto simp: agree_off_def)
  then show ?thesis
    using assms(3) by cases (cases ph; auto simp: is_terminal_def)+
qed

lemma covers_update:
  assumes "registry_covers reg (add_mset (i, st, ph) L)" and "\<forall>x \<in># L. fst x \<noteq> i"
    and "agree_off i reg reg'" and "registry_ok reg'" and "entry_ok reg' (i, st, ph')"
    and "\<And>j. map_of reg' i = Some j \<Longrightarrow> job_wf j"
  shows "registry_covers reg' (add_mset (i, st, ph') L)"
proof -
  have "entry_ok reg' x" if "x \<in># L" for x
    using that assms agree_off_entry [OF assms(3), of "fst x" "fst (snd x)" "snd (snd x)"]
    by (auto simp: registry_covers_def)
  moreover have "job_wf j \<and> (\<not> is_terminal j \<longrightarrow> k \<in># image_mset fst (add_mset (i, st, ph') L))"
    if "map_of reg' k = Some j" for k j
  proof (cases "k = i")
    case False
    with that assms(3) have "map_of reg k = Some j" by (auto simp: agree_off_def)
    with assms(1) False show ?thesis by (auto simp: registry_covers_def)
  qed (use that assms(6) in auto)
  ultimately show ?thesis
    using assms(4,5) by (auto simp: registry_covers_def)
qed

lemma covers_drop:
  assumes "registry_covers reg (add_mset (i, st, PClosing) L)"
  shows "registry_covers reg L"
  using assms by (fastforce simp: registry_covers_def)

lemma covers_install:
  assumes "registry_covers reg L" "map_of reg i = None"
  shows "registry_covers reg (add_mset (i, st, PInstalled) L)"
  using assms by (auto simp: registry_covers_def)

text \<open>The operations on the registry.\<close>

lemma modify_job_lookup:
  "map_of (modify_job i f reg) k = (if k = i then map_option f (map_of reg i) else map_of reg k)"
  by (auto simp: modify_job_def map_of_update_key split: option.split)

lemma modify_job_ok:
  assumes "registry_ok reg" "\<And>j. job_id (f j) = job_id j"
  shows "registry_ok (modify_job i f reg)"
  using assms registry_okD [OF assms(1)]
  by (auto simp: modify_job_def registry_ok_update split: option.split)

text \<open>
  The contract the queue has with retention: eviction only drops entries, never the protected
  one and never an unfinished job. What follows holds of every policy that keeps it.
\<close>

locale retention =
  fixes ev :: "string \<Rightarrow> string \<Rightarrow> job_registry \<Rightarrow> job_registry"
  assumes ev_ok: "registry_ok reg \<Longrightarrow> registry_ok (ev p c reg)"
    and ev_sub: "map_of (ev p c reg) k = Some j \<Longrightarrow> map_of reg k = Some j"
    and ev_protects: "map_of (ev p c reg) p = map_of reg p"
    and ev_keeps_live: "registry_ok reg \<Longrightarrow> map_of reg k = Some j \<Longrightarrow> \<not> is_terminal j \<Longrightarrow>
      map_of (ev p c reg) k = Some j"
begin

lemma agree: "registry_ok reg \<Longrightarrow> agree_off i reg (ev i c reg)"
  using ev_keeps_live [of reg _ _ i c] ev_sub [of i c reg] unfolding agree_off_def by (metis option.exhaust)

lemma finish:
  assumes ok: "registry_ok reg" and i: "map_of reg i = Some j" and f: "\<And>j. job_id (f j) = job_id j"
  shows "agree_off i reg (ev i c (modify_job i f reg))"
    and "registry_ok (ev i c (modify_job i f reg))"
    and "map_of (ev i c (modify_job i f reg)) i = Some (f j)"
proof -
  have m: "registry_ok (modify_job i f reg)" using ok f by (rule modify_job_ok)
  show "agree_off i reg (ev i c (modify_job i f reg))"
    using agree [OF m, of i c] by (auto simp: agree_off_def modify_job_lookup)
  show "registry_ok (ev i c (modify_job i f reg))" using m by (rule ev_ok)
  show "map_of (ev i c (modify_job i f reg)) i = Some (f j)"
    using i by (simp add: ev_protects modify_job_lookup)
qed

lemma lost_finished: "registry_ok reg \<Longrightarrow> map_of reg k = Some j \<Longrightarrow> map_of (ev p c reg) k = None \<Longrightarrow> is_terminal j"
  using ev_keeps_live [of reg k j p c] by auto

lemma dom_sub: "dom (map_of (ev p c reg)) \<subseteq> dom (map_of reg)"
  by (auto dest: ev_sub)

lemma dom_sub_modify: "dom (map_of (ev p c (modify_job i f reg))) \<subseteq> dom (map_of reg)"
  by (auto simp: modify_job_lookup dest!: ev_sub split: if_splits)

end

interpretation rq: retention evict
  by unfold_locales (auto simp: evict_def evict_protects evict_keeps_live dest: evict_lookup_Some)

lemma outcome_trans [simp]:
  "job_id (apply_job_outcome now out j) = job_id j"
  "is_terminal (apply_job_outcome now out j)"
  "job_store_id (apply_job_outcome now out j) = job_store_id j"
  by (auto simp: apply_job_outcome_def split: job_outcome.split sum.split)

lemma outcome_wf: "job_wf j \<Longrightarrow> \<not> is_terminal j \<Longrightarrow> job_wf (apply_job_outcome now out j)"
  by (auto simp: apply_job_outcome_def fail_wf fail_with_wf complete_wf split: job_outcome.split sum.split)

definition inv_registry :: "sys \<Rightarrow> bool" where
  "inv_registry s \<longleftrightarrow> registry_covers (registry (sq s)) (live s) \<and>
     dom (map_of (registry (sq s))) \<subseteq> used_ids s \<and>
     (\<forall>j. SInstalled j \<in># calls s \<longrightarrow> job_wf j \<and> job_state_of j = Pending)"

text \<open>
  A step that touches one job's registry entry: the job is in flight at some phase, the entry is
  rewritten, eviction may follow.
\<close>

lemma covers_entry:
  assumes "registry_covers reg L" "(i, st, ph) \<in># L"
  shows "entry_ok reg (i, st, ph)" "registry_ok reg" "map_of reg i = Some j \<Longrightarrow> job_wf j"
  using assms by (auto simp: registry_covers_def)

lemma covers_finish:
  assumes cov: "registry_covers reg (add_mset (i, st, ph) L)" and off: "\<forall>x \<in># L. fst x \<noteq> i"
    and ph: "ph = PQueued \<or> ph = PActive"
    and f: "\<And>j. job_id (f j) = job_id j" "\<And>j. is_terminal (f j)"
    and wf: "\<And>j. job_wf j \<Longrightarrow> \<not> is_terminal j \<Longrightarrow> job_wf (f j)"
  shows "registry_covers (evict i c (modify_job i f reg)) (add_mset (i, st, PClosing) L)"
    and "\<exists>j. map_of (evict i c (modify_job i f reg)) i = Some j \<and> is_terminal j \<and> job_id j = i"
proof -
  have ok: "registry_ok reg" using cov by (auto simp: registry_covers_def)
  have "entry_ok reg (i, st, ph)" using cov by (auto simp: registry_covers_def)
  then obtain j where j: "map_of reg i = Some j" "\<not> is_terminal j"
    using ph by (auto simp: is_terminal_def)
  have "job_wf j" using cov j(1) by (auto simp: registry_covers_def)
  note m = rq.finish [OF ok j(1), of f c, OF f(1)]
  show "registry_covers (evict i c (modify_job i f reg)) (add_mset (i, st, PClosing) L)"
    by (rule covers_update [OF cov off m(1,2)]) (use m(3) f(2) wf \<open>job_wf j\<close> j(2) in auto)
  show "\<exists>j. map_of (evict i c (modify_job i f reg)) i = Some j \<and> is_terminal j \<and> job_id j = i"
    using m(3) f registry_okD [OF ok j(1)] by auto
qed

lemma covers_start:
  assumes cov: "registry_covers reg (add_mset (i, st, PQueued) L)" and off: "\<forall>x \<in># L. fst x \<noteq> i"
  shows "registry_covers (modify_job i (start_index_job now) reg) (add_mset (i, st, PActive) L)"
proof -
  have ok: "registry_ok reg" using cov by (auto simp: registry_covers_def)
  have "entry_ok reg (i, st, PQueued)" using cov by (auto simp: registry_covers_def)
  then obtain j where j: "map_of reg i = Some j" "job_state_of j = Pending" "job_store_id j = st"
    by auto
  have "job_wf j" using cov j(1) by (auto simp: registry_covers_def)
  then have wf: "job_wf (start_index_job now j)"
    using j(2) by (intro start_wf) (auto simp: is_terminal_def)
  show ?thesis
    by (rule covers_update [OF cov off])
       (use j ok wf in \<open>auto simp: agree_off_def modify_job_lookup modify_job_ok
          start_index_job_def\<close>)
qed

lemma covers_publish:
  assumes cov: "registry_covers reg (add_mset (job_id j, job_store_id j, PInstalled) L)"
    and off: "\<forall>x \<in># L. fst x \<noteq> job_id j" and wf: "job_wf j" and pend: "job_state_of j = Pending"
  shows "registry_covers (AList.update (job_id j) j reg) (add_mset (job_id j, job_store_id j, PQueued) L)"
  by (rule covers_update [OF cov off])
     (use cov wf pend in \<open>auto simp: agree_off_def map_of_update_key registry_covers_def
        registry_ok_update\<close>)

lemma covers_list:
  assumes "registry_covers reg L"
  shows "registry_covers (evict p c reg) L"
proof -
  have ok: "registry_ok reg" using assms by (simp add: registry_covers_def)
  have k: "map_of (evict p c reg) k = Some j" if "map_of reg k = Some j" "\<not> is_terminal j" for k j
    by (rule rq.ev_keeps_live [OF ok that])
  have sub: "map_of (evict p c reg) k = Some j \<Longrightarrow> map_of reg k = Some j" for k j
    by (rule rq.ev_sub)
  have entry: "entry_ok (evict p c reg) (i, st, ph)" if e: "entry_ok reg (i, st, ph)" for i st ph
  proof (cases ph)
    case PInstalled
    with e show ?thesis by (simp add: evict_def evict_lookup)
  next
    case PQueued
    with e obtain j where j: "map_of reg i = Some j" "job_state_of j = Pending" "job_store_id j = st"
      by auto
    with k [OF j(1)] PQueued show ?thesis by (simp add: is_terminal_def)
  next
    case PActive
    with e obtain j where j: "map_of reg i = Some j" "job_state_of j = Running" "job_store_id j = st"
      by auto
    with k [OF j(1)] PActive show ?thesis by (simp add: is_terminal_def)
  next
    case PClosing
    with e sub [of i] show ?thesis by simp
  qed
  have "\<forall>x \<in># L. entry_ok (evict p c reg) x"
  proof
    fix x assume "x \<in># L"
    then have "entry_ok reg x" using assms by (simp add: registry_covers_def)
    then show "entry_ok (evict p c reg) x" by (cases x) (simp only: entry)
  qed
  moreover have "registry_ok (evict p c reg)" using ok by (simp add: evict_def)
  moreover have "job_wf j \<and> (\<not> is_terminal j \<longrightarrow> i \<in># image_mset fst L)"
    if "map_of (evict p c reg) i = Some j" for i j
    using sub [OF that] assms unfolding registry_covers_def by blast
  ultimately show ?thesis
    unfolding registry_covers_def by blast
qed

lemma dom_modify: "dom (map_of (modify_job i f reg)) = dom (map_of reg)"
  by (auto simp: modify_job_lookup split: if_splits)

text \<open>The jobs in flight apart from one submit call's, or one worker's.\<close>

definition live_but_call :: "sys \<Rightarrow> submit_pc multiset \<Rightarrow> live_job multiset" where
  "live_but_call s C = opts_of call_live C + queue_live (pending_jobs (sq s)) + opts_of worker_live (pool s)"

definition live_but_worker :: "sys \<Rightarrow> worker_pc multiset \<Rightarrow> live_job multiset" where
  "live_but_worker s W = opts_of call_live (calls s) + queue_live (pending_jobs (sq s)) + opts_of worker_live W"

lemma live_call_split:
  "calls s = add_mset pc C \<Longrightarrow> call_live pc = Some x \<Longrightarrow> live s = add_mset x (live_but_call s C)"
  by (simp add: live_def live_but_call_def)

lemma live_worker_split:
  "pool s = add_mset pc W \<Longrightarrow> worker_live pc = Some x \<Longrightarrow> live s = add_mset x (live_but_worker s W)"
  by (simp add: live_def live_but_worker_def)

lemma inv_registryD:
  assumes "inv_registry s"
  shows "registry_covers (registry (sq s)) (live s)"
    and "dom (map_of (registry (sq s))) \<subseteq> used_ids s"
    and "SInstalled j \<in># calls s \<Longrightarrow> job_wf j \<and> job_state_of j = Pending"
  using assms by (simp_all add: inv_registry_def)

lemma inv_registryI:
  assumes "inv_registry s" "registry_covers (registry (sq t)) (live t)"
    and "dom (map_of (registry (sq t))) \<subseteq> used_ids t"
    and "\<And>j. SInstalled j \<in># calls t \<Longrightarrow> SInstalled j \<in># calls s \<or> (job_wf j \<and> job_state_of j = Pending)"
  shows "inv_registry t"
  using assms unfolding inv_registry_def by blast

lemma inv_registry_step:
  assumes "qstep s t" and h: "inv_handles s" and r: "inv_registry s"
  shows "inv_registry t"
  using assms(1)
proof cases
  case (submit_begin st q' sc)
  then show ?thesis
    using r by (auto simp: inv_registry_def live_def dest!: reserve_frame)
next
  case (submit_create st sc C i now)
  then have L: "live t = add_mset (i, st, PInstalled) (live s)"
    by (simp add: live_def)
  have "map_of (registry (sq s)) i = None"
    using r submit_create(3) by (auto simp: inv_registry_def)
  then have "registry_covers (registry (sq s)) (live t)"
    using r by (simp add: L inv_registry_def covers_install)
  then show ?thesis
    using r submit_create by (auto simp: inv_registry_def)
next
  case (submit_publish j C)
  note L = live_call_split [OF submit_publish(2), of "(job_id j, job_store_id j, PInstalled)", simplified]
  have j: "job_wf j" "job_state_of j = Pending"
    using inv_registryD(3) [OF r, of j] submit_publish(2) by simp_all
  have "registry_covers (registry (sq t)) (add_mset (job_id j, job_store_id j, PQueued) (live_but_call s C))"
    using covers_publish [OF inv_registryD(1) [OF r, unfolded L] live_id_unique [OF h L, THEN conjunct2] j]
    by (simp add: submit_publish(1) submit_register_def)
  moreover have "job_id j \<in> used_ids s"
    using live_id_unique [OF h L] h by (auto simp: inv_handles_def)
  ultimately show ?thesis
    using inv_registryD(2) [OF r] submit_publish
    by (intro inv_registryI [OF r])
       (simp_all add: live_def live_but_call_def submit_register_def map_of_update_key subset_iff)
next
  case (submit_enqueue j C q')
  then show ?thesis
    using r by (auto simp: inv_registry_def live_def dest!: send_frame)
next
  case (submit_refused_record j C now cutoff q' snap)
  note L = live_call_split [OF submit_refused_record(2), of "(job_id j, job_store_id j, PQueued)", simplified]
  note F = record_failure_frame [OF submit_refused_record(3)]
  have "registry_covers (registry q') (add_mset (job_id j, job_store_id j, PClosing) (live_but_call s C))"
    unfolding F [THEN conjunct2, THEN conjunct2]
    by (rule covers_finish(1) [OF inv_registryD(1) [OF r, unfolded L] live_id_unique [OF h L, THEN conjunct2]])
       (simp_all add: fail_wf)
  moreover have "dom (map_of (registry q')) \<subseteq> used_ids s"
    unfolding F [THEN conjunct2, THEN conjunct2]
    by (rule subset_trans [OF rq.dom_sub_modify inv_registryD(2) [OF r]])
  ultimately show ?thesis
    using submit_refused_record(1,2) F
    by (intro inv_registryI [OF r])
       (simp_all add: live_def live_but_call_def same_but_registry_def)
next
  case (submit_refused_drop j snap C)
  note L = live_call_split [OF submit_refused_drop(2), of "(job_id j, job_store_id j, PClosing)", simplified]
  have "registry_covers (registry (sq s)) (live_but_call s C)"
    using inv_registryD(1) [OF r] by (simp only: L) (rule covers_drop)
  then show ?thesis
    using inv_registryD(2) [OF r] submit_refused_drop(1,2)
    by (intro inv_registryI [OF r]) (simp_all add: live_def live_but_call_def)
next
  case (worker_start qj W now cutoff q' snap)
  note L = live_worker_split [OF worker_start(2), of "(qj_id qj, qj_store_id qj, PQueued)", simplified]
  note F = claim_start_frame [OF worker_start(3)]
  have "registry_covers (registry q') (add_mset (qj_id qj, qj_store_id qj, PActive) (live_but_worker s W))"
    using covers_start [OF inv_registryD(1) [OF r, unfolded L] live_id_unique [OF h L, THEN conjunct2]] F
    by simp
  then show ?thesis
    using inv_registryD(2) [OF r] worker_start(1,2) F
    by (intro inv_registryI [OF r])
       (simp_all add: live_def live_but_worker_def same_but_registry_def dom_modify)
next
  case (worker_skip_cancelled qj W now cutoff q' snap)
  note L = live_worker_split [OF worker_skip_cancelled(2), of "(qj_id qj, qj_store_id qj, PQueued)", simplified]
  note F = claim_skip_frame [OF worker_skip_cancelled(3)]
  have "registry_covers (registry q') (add_mset (qj_id qj, qj_store_id qj, PClosing) (live_but_worker s W))"
    unfolding F [THEN conjunct2, THEN conjunct2, THEN conjunct2]
    by (rule covers_finish(1) [OF inv_registryD(1) [OF r, unfolded L] live_id_unique [OF h L, THEN conjunct2]])
       (simp_all add: fail_with_wf)
  moreover have "dom (map_of (registry q')) \<subseteq> used_ids s"
    unfolding F [THEN conjunct2, THEN conjunct2, THEN conjunct2]
    by (rule subset_trans [OF rq.dom_sub_modify inv_registryD(2) [OF r]])
  ultimately show ?thesis
    using worker_skip_cancelled(1,2) F
    by (intro inv_registryI [OF r])
       (simp_all add: live_def live_but_worker_def same_but_registry_def)
next
  case (worker_record qj out W now cutoff q' snap)
  note L = live_worker_split [OF worker_record(2), of "(qj_id qj, qj_store_id qj, PActive)", simplified]
  note F = record_outcome_frame [OF worker_record(3)]
  have "registry_covers (registry q') (add_mset (qj_id qj, qj_store_id qj, PClosing) (live_but_worker s W))"
    unfolding F [THEN conjunct2, THEN conjunct2]
    by (rule covers_finish(1) [OF inv_registryD(1) [OF r, unfolded L] live_id_unique [OF h L, THEN conjunct2]])
       (simp_all add: outcome_wf)
  moreover have "dom (map_of (registry q')) \<subseteq> used_ids s"
    unfolding F [THEN conjunct2, THEN conjunct2]
    by (rule subset_trans [OF rq.dom_sub_modify inv_registryD(2) [OF r]])
  ultimately show ?thesis
    using worker_record(1,2) F
    by (intro inv_registryI [OF r])
       (simp_all add: live_def live_but_worker_def same_but_registry_def)
next
  case (worker_teardown qj snap W)
  note L = live_worker_split [OF worker_teardown(2), of "(qj_id qj, qj_store_id qj, PClosing)", simplified]
  have "registry_covers (registry (sq s)) (live_but_worker s W)"
    using inv_registryD(1) [OF r] by (simp only: L) (rule covers_drop)
  then show ?thesis
    using inv_registryD(2) [OF r] worker_teardown(1,2)
    by (intro inv_registryI [OF r]) (simp_all add: live_def live_but_worker_def)
next
  case (list_call cutoff)
  moreover have "registry_covers (evict [] cutoff (registry (sq s))) (live s)"
    using r by (simp add: inv_registry_def covers_list)
  moreover have "dom (map_of (evict [] cutoff (registry (sq s)))) \<subseteq> used_ids s"
    using r rq.dom_sub by (metis inv_registry_def order_trans)
  ultimately show ?thesis
    using r by (simp add: inv_registry_def live_def)
qed (use r in \<open>auto simp: inv_registry_def live_def\<close>)

lemma inv_registry_init: "inv_registry (init_sys n)"
  by (simp add: inv_registry_def registry_covers_def registry_ok_def live_def init_sys_def new_queue_def)

lemma reachable_inv_registry: "reachable n s \<Longrightarrow> inv_registry s"
  by (induction rule: reachable.induct)
     (auto intro: inv_registry_init inv_registry_step reachable_inv_handles)

end
