(* ===== verification/QueueSafety.thy ===== *)
theory QueueSafety
  imports QueueInvariants
begin

text \<open>
  What the invariants of the job queue give its users: exclusion per store, the bound on running
  jobs, the lifecycle of a job, cancellation, and the delivery of the terminal event.
\<close>

section \<open>The lifecycle of a job\<close>

definition phases_of :: "live_job multiset \<Rightarrow> string \<Rightarrow> phase set" where
  "phases_of L i = {ph. \<exists>st. (i, st, ph) \<in># L}"

lemma phases_of_add [simp]:
  "phases_of (add_mset (k, st, ph) L) i = (if i = k then insert ph (phases_of L i) else phases_of L i)"
  by (auto simp: phases_of_def)

lemma phases_of_off: "\<forall>x \<in># L. fst x \<noteq> k \<Longrightarrow> phases_of L k = {}"
  by (force simp: phases_of_def)

text \<open>
  How one step may move a job: \<open>cancelled\<close> says whether its token was triggered before the
  step. A started task is never one whose token was.
\<close>

inductive lifecycle :: "bool \<Rightarrow> phase set \<Rightarrow> phase set \<Rightarrow> bool" where
  stay: "lifecycle c P P"
| publish: "lifecycle c {PInstalled} {PQueued}"
| start: "lifecycle False {PQueued} {PActive}"
| skip: "lifecycle c {PQueued} {PClosing}"
| finish: "lifecycle c {PActive} {PClosing}"
| remove: "lifecycle c {PClosing} {}"

text \<open>What one step does to a job that already has an id.\<close>

definition job_step :: "sys \<Rightarrow> sys \<Rightarrow> string \<Rightarrow> bool" where
  "job_step s t i \<longleftrightarrow>
     lifecycle (i \<in> triggered (sq s)) (phases_of (live s) i) (phases_of (live t) i) \<and>
     (i \<in> triggered (sq s) \<longrightarrow> i \<in> triggered (sq t)) \<and> i \<in> used_ids t \<and>
     (map_of (registry (sq t)) i = map_of (registry (sq s)) i \<or>
      map_of (registry (sq t)) i = None \<or>
      (phases_of (live s) i \<inter> {PInstalled, PQueued, PActive} \<noteq> {}))"

lemma job_step_moved:
  assumes L: "live s = add_mset (k, st, ph) L" and off: "\<forall>x \<in># L. fst x \<noteq> k"
    and L': "live t = add_mset (k, st, ph') L"
    and lc: "lifecycle (k \<in> triggered (sq s)) {ph} {ph'}" and ph: "ph \<noteq> PClosing"
    and reg: "agree_off k (registry (sq s)) (registry (sq t))"
    and tr: "triggered (sq t) = triggered (sq s)" and us: "i \<in> used_ids s" "used_ids t = used_ids s"
  shows "job_step s t i"
proof (cases "i = k")
  case True
  then show ?thesis
    using L L' lc ph us tr phases_of_off [OF off] by (cases ph) (auto simp: job_step_def)
next
  case False
  then show ?thesis
    using L L' us tr reg by (auto simp: job_step_def agree_off_def intro: lifecycle.stay)
qed

lemma job_step_same:
  assumes "live t = live s" "triggered (sq s) \<subseteq> triggered (sq t)" "i \<in> used_ids s" "used_ids t = used_ids s"
    and "map_of (registry (sq t)) i = map_of (registry (sq s)) i \<or> map_of (registry (sq t)) i = None"
  shows "job_step s t i"
  using assms by (auto simp: job_step_def intro: lifecycle.stay)

lemma agree_off_evict_modify:
  assumes "registry_ok reg" "\<And>j. job_id (f j) = job_id j"
  shows "agree_off k reg (evict k c (modify_job k f reg))"
proof -
  have m: "registry_ok (modify_job k f reg)"
    using assms by (rule modify_job_ok)
  show ?thesis
    using rq.agree [OF m, of k c] by (auto simp: agree_off_def modify_job_lookup)
qed

lemma agree_off_modify: "agree_off k reg (modify_job k f reg)"
  by (simp add: agree_off_def modify_job_lookup)

lemma cancel_triggered: "triggered q \<subseteq> triggered (fst (cancel i q))"
  by (auto simp: cancel_def Let_def split: option.split)

lemma qstep_job_step:
  assumes "qstep s t" and h: "inv_handles s" and r: "inv_registry s" and i: "i \<in> used_ids s"
  shows "job_step s t i"
proof -
  have ok: "registry_ok (registry (sq s))"
    using inv_registryD(1) [OF r] by (simp add: registry_covers_def)
  show ?thesis using assms(1)
  proof cases
    case (submit_begin st q' sc)
    then show ?thesis
      using i by (intro job_step_same) (auto simp: live_def dest!: reserve_frame)
  next
    case (submit_create st sc C k now)
    then have "i \<noteq> k" using i by auto
    with submit_create show ?thesis
      using i by (auto simp: job_step_def live_def intro: lifecycle.stay)
  next
    case (submit_publish j C)
    note L = live_call_split [OF submit_publish(2), of "(job_id j, job_store_id j, PInstalled)", simplified]
    show ?thesis
      by (rule job_step_moved [OF L live_id_unique [OF h L, THEN conjunct2], where ph' = PQueued])
         (use submit_publish i in \<open>auto simp: live_def live_but_call_def submit_register_def
            agree_off_def map_of_update_key intro: lifecycle.intros\<close>)
  next
    case (submit_enqueue j C q')
    then show ?thesis
      using i by (intro job_step_same) (auto simp: live_def dest!: send_frame)
  next
    case (submit_refused_record j C now cutoff q' snap)
    note L = live_call_split [OF submit_refused_record(2), of "(job_id j, job_store_id j, PQueued)", simplified]
    note F = record_failure_frame [OF submit_refused_record(3)]
    have A: "agree_off (job_id j) (registry (sq s)) (registry q')"
      unfolding F [THEN conjunct2, THEN conjunct2] by (rule agree_off_evict_modify [OF ok]) simp
    show ?thesis
      by (rule job_step_moved [OF L live_id_unique [OF h L, THEN conjunct2], where ph' = PClosing])
         (use submit_refused_record(1,2) F A i in \<open>simp_all add: live_def live_but_call_def
            same_but_registry_def lifecycle.skip\<close>)
  next
    case (submit_refused_drop j snap C)
    note L = live_call_split [OF submit_refused_drop(2), of "(job_id j, job_store_id j, PClosing)", simplified]
    have "live t = live_but_call s C"
      using submit_refused_drop(1) by (simp add: live_def live_but_call_def)
    then show ?thesis
      using submit_refused_drop(1) i L phases_of_off [OF live_id_unique [OF h L, THEN conjunct2]]
      by (auto simp: job_step_def intro: lifecycle.intros)
  next
    case (worker_start qj W now cutoff q' snap)
    note L = live_worker_split [OF worker_start(2), of "(qj_id qj, qj_store_id qj, PQueued)", simplified]
    note F = claim_start_frame [OF worker_start(3)]
    show ?thesis
      by (rule job_step_moved [OF L live_id_unique [OF h L, THEN conjunct2], where ph' = PActive])
         (use worker_start(1,2) F i in \<open>simp_all add: live_def live_but_worker_def
            same_but_registry_def lifecycle.start agree_off_modify\<close>)
  next
    case (worker_skip_cancelled qj W now cutoff q' snap)
    note L = live_worker_split [OF worker_skip_cancelled(2), of "(qj_id qj, qj_store_id qj, PQueued)", simplified]
    note F = claim_skip_frame [OF worker_skip_cancelled(3)]
    have A: "agree_off (qj_id qj) (registry (sq s)) (registry q')"
      unfolding F [THEN conjunct2, THEN conjunct2, THEN conjunct2]
      by (rule agree_off_evict_modify [OF ok]) simp
    show ?thesis
      by (rule job_step_moved [OF L live_id_unique [OF h L, THEN conjunct2], where ph' = PClosing])
         (use worker_skip_cancelled(1,2) F A i in \<open>simp_all add: live_def live_but_worker_def
            same_but_registry_def lifecycle.skip\<close>)
  next
    case (worker_record qj out W now cutoff q' snap)
    note L = live_worker_split [OF worker_record(2), of "(qj_id qj, qj_store_id qj, PActive)", simplified]
    note F = record_outcome_frame [OF worker_record(3)]
    have A: "agree_off (qj_id qj) (registry (sq s)) (registry q')"
      unfolding F [THEN conjunct2, THEN conjunct2] by (rule agree_off_evict_modify [OF ok]) simp
    show ?thesis
      by (rule job_step_moved [OF L live_id_unique [OF h L, THEN conjunct2], where ph' = PClosing])
         (use worker_record(1,2) F A i in \<open>simp_all add: live_def live_but_worker_def
            same_but_registry_def lifecycle.finish\<close>)
  next
    case (worker_teardown qj snap W)
    note L = live_worker_split [OF worker_teardown(2), of "(qj_id qj, qj_store_id qj, PClosing)", simplified]
    have "live t = live_but_worker s W"
      using worker_teardown(1) by (simp add: live_def live_but_worker_def)
    then show ?thesis
      using worker_teardown(1) i L phases_of_off [OF live_id_unique [OF h L, THEN conjunct2]]
      by (auto simp: job_step_def intro: lifecycle.intros)
  next
    case (list_call cutoff)
    then show ?thesis
      using i by (intro job_step_same) (auto simp: live_def evict_def evict_lookup)
  next
    case (cancel_call k)
    then show ?thesis
      using i cancel_triggered by (intro job_step_same) (auto simp: live_def)
  qed (use i in \<open>intro job_step_same; simp add: live_def\<close>)+
qed

end
