(* ===== verification/QueueProperties.thy ===== *)
theory QueueProperties
  imports QueueSafety "HOL-Library.Sublist"
begin

text \<open>
  The guarantees of the job queue, each for every reachable interleaving of submitters, workers
  and cancellers: exclusion per store, the bound on running jobs, final terminal states, what
  cancellation promises, delivery of the terminal event, and that the queue can always drain.
\<close>

section \<open>Example runs\<close>

text \<open>A submission that meets no obstacle, and a worker that starts the oldest queued job.\<close>

definition after_submit :: "string \<Rightarrow> string \<Rightarrow> string \<Rightarrow> sys \<Rightarrow> sys" where
  "after_submit i now st s =
     (let j = create_index_job i now st ScopeStore;
          q = submit_register j (submit_install i ((sq s)\<lparr>inflight := insert st (inflight (sq s))\<rparr>))
      in s\<lparr>sq := q\<lparr>pending_jobs := pending_jobs q @ [queued_of j]\<rparr>, used_ids := insert i (used_ids s)\<rparr>)"

definition after_start :: "string \<Rightarrow> worker_pc multiset \<Rightarrow> sys \<Rightarrow> sys" where
  "after_start now W s =
     (let qj = hd (pending_jobs (sq s))
      in s\<lparr>sq := (sq s)\<lparr>pending_jobs := tl (pending_jobs (sq s)),
                       registry := modify_job (qj_id qj) (start_index_job now) (registry (sq s))\<rparr>,
           pool := add_mset (WRun qj) W\<rparr>)"

lemma reach_submit:
  assumes "reachable n s" "st \<notin> inflight (sq s)" "i \<notin> used_ids s"
    and "length (pending_jobs (sq s)) < QUEUE_CAPACITY"
  shows "reachable n (after_submit i now st s)"
proof -
  let ?j = "create_index_job i now st ScopeStore"
  let ?q1 = "(sq s)\<lparr>inflight := insert st (inflight (sq s))\<rparr>"
  let ?q3 = "submit_register ?j (submit_install i ?q1)"
  have "reachable n (s\<lparr>sq := ?q1, calls := add_mset (SReserved st ScopeStore) (calls s)\<rparr>)"
    using assms(1,2) by (rule_tac reach_step [OF _ submit_begin]) (simp_all add: submit_reserve_def)
  from reach_step [OF this submit_create [of _ st ScopeStore "calls s" i now]] assms(3)
  have "reachable n (s\<lparr>sq := submit_install i ?q1, calls := add_mset (SInstalled ?j) (calls s),
      used_ids := insert i (used_ids s)\<rparr>)" by simp
  from reach_step [OF this submit_publish [of _ ?j "calls s"]]
  have "reachable n (s\<lparr>sq := ?q3, calls := add_mset (SRegistered ?j) (calls s),
      used_ids := insert i (used_ids s)\<rparr>)" by (cases s) simp
  from reach_step [OF this submit_enqueue [of _ ?j "calls s"
      "?q3\<lparr>pending_jobs := pending_jobs ?q3 @ [queued_of ?j]\<rparr>"]] assms(4)
  show ?thesis by (cases s) (simp add: after_submit_def Let_def submit_send_def)
qed

lemma reach_start:
  assumes "reachable n s" "pool s = add_mset WIdle W" "pending_jobs (sq s) = qj # rest"
    and "qj_id qj \<notin> triggered (sq s)"
  shows "reachable n (after_start now W s)"
proof -
  let ?s1 = "s\<lparr>sq := (sq s)\<lparr>pending_jobs := rest\<rparr>, pool := add_mset (WGot qj) W\<rparr>"
  have "reachable n ?s1"
    using assms(1) worker_dequeue [OF assms(2,3)] by (rule reach_step)
  then have "reachable n (?s1\<lparr>sq := (sq ?s1)\<lparr>registry := modify_job (qj_id qj) (start_index_job now)
      (registry (sq ?s1))\<rparr>, pool := add_mset (WRun qj) W\<rparr>)"
    by (rule reach_step [OF _ worker_start [where cutoff = "[]" and snap = None and now = now]])
       (use assms(4) in \<open>simp_all add: claim_job_def\<close>)
  then show ?thesis using assms(3) by (simp add: after_start_def)
qed

text \<open>One worker; a job of store \<open>a\<close> is running, and one of store \<open>b\<close> waits.\<close>

definition queued_sys :: sys where
  "queued_sys = after_submit ''1'' ''t0'' ''a'' (init_sys 1)"

definition running_sys :: sys where
  "running_sys = after_start ''t1'' {#} queued_sys"

lemmas demo_defs = queued_sys_def running_sys_def after_submit_def after_start_def
  init_sys_def new_queue_def submit_register_def submit_install_def queued_of_def

lemma reachable_queued: "reachable 1 queued_sys"
  unfolding queued_sys_def
  by (rule reach_submit [OF reach_init]) (simp_all add: init_sys_def new_queue_def QUEUE_CAPACITY_def)

lemma reachable_running: "reachable 1 running_sys"
  unfolding running_sys_def
  by (rule reach_start [OF reachable_queued, where qj = "\<lparr>qj_id = ''1'', qj_store_id = ''a''\<rparr>" and rest = "[]"])
     (simp_all add: demo_defs Let_def)

lemma running_entry:
  "map_of (registry (sq running_sys)) ''1'' =
     Some (start_index_job ''t1'' (create_index_job ''1'' ''t0'' ''a'' ScopeStore))"
  by (simp add: demo_defs Let_def modify_job_def)

lemma queued_entry:
  "map_of (registry (sq queued_sys)) ''1'' = Some (create_index_job ''1'' ''t0'' ''a'' ScopeStore)"
  by (simp add: demo_defs Let_def)

section \<open>Exclusion\<close>

lemma running_live:
  assumes "reachable n s" "map_of (registry (sq s)) i = Some j" "job_state_of j = Running"
  shows "(i, job_store_id j, PActive) \<in># live s"
proof -
  note cov = inv_registryD(1) [OF reachable_inv_registry [OF assms(1)]]
  from assms(2,3) cov obtain st ph where x: "(i, st, ph) \<in># live s"
    by (fastforce simp: registry_covers_def is_terminal_def)
  then have "entry_ok (registry (sq s)) (i, st, ph)"
    using cov by (auto simp: registry_covers_def)
  with assms(2,3) have "ph = PActive" "st = job_store_id j"
    by (cases ph; auto simp: is_terminal_def)+
  with x show ?thesis by simp
qed

definition active_in :: "live_job multiset \<Rightarrow> live_job multiset" where
  "active_in L = filter_mset (\<lambda>x. snd (snd x) = PActive) L"

lemma active_calls [simp]: "active_in (opts_of call_live C) = {#}"
  by (induction C) (auto simp: active_in_def split: option.split elim: call_live.elims)

lemma active_queue [simp]: "active_in (queue_live qs) = {#}"
  by (induction qs) (auto simp: active_in_def)

lemma active_live: "active_in (live s) = active_in (opts_of worker_live (pool s))"
  using active_calls active_queue by (simp add: live_def active_in_def)

lemma active_guards: "image_mset (fst \<circ> snd) (active_in (opts_of worker_live W)) \<subseteq># opts_of worker_guard W"
proof (induction W)
  case (add pc W)
  then show ?case
    by (cases pc) (auto simp: active_in_def intro: subset_mset.order_trans)
qed (simp add: active_in_def)

lemma active_size: "size (active_in (opts_of worker_live W)) \<le> size W"
proof (induction W)
  case (add pc W)
  then show ?case by (cases pc) (auto simp: active_in_def)
qed (simp add: active_in_def)

lemma running_active:
  assumes "reachable n s" "map_of (registry (sq s)) i = Some j" "job_state_of j = Running"
  shows "(i, job_store_id j, PActive) \<in># active_in (opts_of worker_live (pool s))"
  unfolding active_live [symmetric] using running_live [OF assms] by (simp add: active_in_def)

lemma pool_size: "reachable n s \<Longrightarrow> size (pool s) = n"
proof (induction rule: reachable.induct)
  case (reach_step s t)
  from reach_step(2,3) show ?case by cases auto
qed (simp add: init_sys_def)

text \<open>
  C3: At most one job of a store runs at a time: in every reachable state, two running jobs of the
  same store are one job, and a submission for the store of a running job is refused with
  \<open>IndexInProgress\<close>.
\<close>

theorem running_exclusive_per_store:
  assumes "reachable n s"
    and "map_of (registry (sq s)) i = Some j" "job_state_of j = Running"
  shows "submit_reserve (job_store_id j) (sq s) = Inl IndexInProgress \<and>
    (\<forall>i' j'. map_of (registry (sq s)) i' = Some j' \<and> job_state_of j' = Running \<and>
       job_store_id j' = job_store_id j \<longrightarrow> i' = i)"
proof -
  note g = reachable_inv_guards [OF assms(1)]
  define A where "A = active_in (opts_of worker_live (pool s))"
  have sub: "image_mset (fst \<circ> snd) A \<subseteq># mset_set (inflight (sq s))"
    using active_guards [of "pool s"] g
    by (simp add: A_def inv_guards_def guards_def) (metis mset_subset_eq_add_right subset_mset.order_trans)
  have mem: "(i', job_store_id j', PActive) \<in># A"
    if "map_of (registry (sq s)) i' = Some j'" "job_state_of j' = Running" for i' j'
    unfolding A_def by (rule running_active [OF assms(1) that])
  have "job_store_id j \<in># image_mset (fst \<circ> snd) A"
    using mem [OF assms(2,3)] by (force intro: image_eqI)
  then have inf: "job_store_id j \<in> inflight (sq s)"
    using sub g by (metis elem_mset_set inv_guards_def mset_subset_eqD)
  have "i' = i" if "map_of (registry (sq s)) i' = Some j'" "job_state_of j' = Running"
      "job_store_id j' = job_store_id j" for i' j'
  proof (rule ccontr)
    assume ne: "i' \<noteq> i"
    from mem [OF assms(2,3)] obtain B where B: "A = add_mset (i, job_store_id j, PActive) B"
      by (auto dest: multi_member_split)
    have "(i', job_store_id j, PActive) \<in># A"
      using mem [OF that(1,2)] that(3) by simp
    with B ne obtain C where "B = add_mset (i', job_store_id j, PActive) C"
      by (auto dest: multi_member_split)
    then have "count (image_mset (fst \<circ> snd) A) (job_store_id j) \<ge> 2"
      using B by simp
    moreover have "count (image_mset (fst \<circ> snd) A) (job_store_id j) \<le> 1"
      using mset_subset_eq_count [OF sub, of "job_store_id j"] g
      by (simp add: inv_guards_def count_mset_set' split: if_splits)
    ultimately show False by simp
  qed
  then show ?thesis using inf by (auto simp: submit_reserve_def)
qed

text \<open>Store \<open>a\<close> has its one running job, so a second submission is refused.\<close>

lemma running_exclusive_witness:
  "submit_reserve ''a'' (sq running_sys) = Inl IndexInProgress"
proof -
  have "job_state_of (start_index_job ''t1'' (create_index_job ''1'' ''t0'' ''a'' ScopeStore)) = Running"
    by (simp add: start_index_job_def)
  from running_exclusive_per_store [OF reachable_running running_entry this] show ?thesis by simp
qed

lemma card_set_mset_le: "card (set_mset A) \<le> size A"
  by (induction A) (auto simp: card_insert_if)

text \<open>
  No more jobs run at once than the pool has workers.
\<close>

theorem running_bounded:
  assumes "reachable n s"
  shows "finite {i. \<exists>j. map_of (registry (sq s)) i = Some j \<and> job_state_of j = Running} \<and>
    card {i. \<exists>j. map_of (registry (sq s)) i = Some j \<and> job_state_of j = Running} \<le> n"
    (is "finite ?R \<and> card ?R \<le> n")
proof -
  define A where "A = active_in (opts_of worker_live (pool s))"
  have "?R \<subseteq> fst ` set_mset A"
    using running_active [OF assms] by (force simp: A_def)
  moreover have "card (fst ` set_mset A) \<le> size A"
    by (metis card_image_le card_set_mset_le finite_set_mset le_trans)
  moreover have "size A \<le> n"
    using active_size [of "pool s"] pool_size [OF assms] by (simp add: A_def)
  moreover have "finite (fst ` set_mset A)" by simp
  ultimately show ?thesis
    by (meson card_mono finite_subset le_trans)
qed

lemma running_bounded_witness:
  "card {i. \<exists>j. map_of (registry (sq running_sys)) i = Some j \<and> job_state_of j = Running} \<le> 1"
  using running_bounded [OF reachable_running] by blast

section \<open>Steps and runs\<close>

lemma steps_reachable: "qstep\<^sup>*\<^sup>* s t \<Longrightarrow> reachable n s \<Longrightarrow> reachable n t"
  by (induction rule: rtranclp_induct) (auto intro: reach_step)

lemma step_used: "qstep s t \<Longrightarrow> used_ids s \<subseteq> used_ids t"
  by (induction rule: qstep.induct) auto

lemma reachable_job_step:
  "reachable n s \<Longrightarrow> qstep s t \<Longrightarrow> i \<in> used_ids s \<Longrightarrow> job_step s t i"
  by (rule qstep_job_step [OF _ reachable_inv_handles reachable_inv_registry])

text \<open>A property of one job that its lifecycle keeps holds along every run.\<close>

lemma run_induct:
  assumes "qstep\<^sup>*\<^sup>* s t" "reachable n s" "i \<in> used_ids s" "P s"
    and step: "\<And>u v. reachable n u \<Longrightarrow> qstep u v \<Longrightarrow> job_step u v i \<Longrightarrow> i \<in> used_ids u \<Longrightarrow> P u \<Longrightarrow> P v"
  shows "P t \<and> i \<in> used_ids t"
  using assms(1)
proof (induction rule: rtranclp_induct)
  case (step u v)
  have r: "reachable n u" by (rule steps_reachable [OF step(1) assms(2)])
  then show ?case
    using step reachable_job_step [OF r step(2)] assms(5) step_used [OF step(2)] by blast
qed (use assms in simp)

lemma entry_used: "reachable n s \<Longrightarrow> map_of (registry (sq s)) i = Some j \<Longrightarrow> i \<in> used_ids s"
  using inv_registryD(2) [OF reachable_inv_registry] by blast

lemma entry_phases:
  assumes "reachable n s" "map_of (registry (sq s)) i = Some j"
  shows "phases_of (live s) i \<subseteq> (case job_state_of j of Pending \<Rightarrow> {PQueued} | Running \<Rightarrow> {PActive} | _ \<Rightarrow> {PClosing})"
proof
  fix ph assume "ph \<in> phases_of (live s) i"
  then obtain st where "(i, st, ph) \<in># live s" by (auto simp: phases_of_def)
  then have "entry_ok (registry (sq s)) (i, st, ph)"
    using inv_registryD(1) [OF reachable_inv_registry [OF assms(1)]] by (auto simp: registry_covers_def)
  with assms(2) show "ph \<in> (case job_state_of j of Pending \<Rightarrow> {PQueued} | Running \<Rightarrow> {PActive} | _ \<Rightarrow> {PClosing})"
    by (cases ph) (auto simp: is_terminal_def split: job_state.split)
qed

text \<open>
  A terminal state is final: once a job is done or failed, every later state of every run
  shows the very same record for it, or the record was evicted; no later cancellation, task result
  or submission changes it.
\<close>

theorem terminal_final:
  assumes "reachable n s" "map_of (registry (sq s)) i = Some j" "is_terminal j" "qstep\<^sup>*\<^sup>* s t"
  shows "map_of (registry (sq t)) i = Some j \<or> map_of (registry (sq t)) i = None"
proof -
  let ?P = "\<lambda>u. phases_of (live u) i \<subseteq> {PClosing} \<and> map_of (registry (sq u)) i \<in> {Some j, None}"
  have "?P s"
    using assms(2,3) entry_phases [OF assms(1,2)] by (auto simp: is_terminal_def)
  then have "?P t \<and> i \<in> used_ids t"
  proof (rule run_induct [OF assms(4,1) entry_used [OF assms(1,2)]])
    fix u v assume js: "job_step u v i" and P: "?P u"
    then have "phases_of (live v) i \<subseteq> {PClosing}"
      by (auto simp: job_step_def elim!: lifecycle.cases)
    with js P show "?P v" by (auto simp: job_step_def)
  qed
  then show ?thesis by auto
qed

text \<open>
  C5: A job cancelled while it is pending never runs: from the moment its token is triggered, no
  later state of any run has it running, and no worker ever starts its task.
\<close>

theorem cancelled_pending_never_runs:
  assumes "reachable n s" "map_of (registry (sq s)) i = Some j" "job_state_of j = Pending"
    and "qstep\<^sup>*\<^sup>* (s\<lparr>sq := fst (cancel i (sq s))\<rparr>) t"
  shows "(\<forall>j'. map_of (registry (sq t)) i = Some j' \<longrightarrow> job_state_of j' \<noteq> Running) \<and>
    (\<forall>qj. WRun qj \<in># pool t \<longrightarrow> qj_id qj \<noteq> i)"
proof -
  let ?s = "s\<lparr>sq := fst (cancel i (sq s))\<rparr>"
  let ?P = "\<lambda>u. PActive \<notin> phases_of (live u) i \<and> PInstalled \<notin> phases_of (live u) i \<and> i \<in> triggered (sq u)"
  have r: "reachable n ?s" using assms(1) cancel_call by (rule reach_step)
  have l: "live ?s = live s" by (simp add: live_def)
  have e: "map_of (registry (sq ?s)) i = Some j" using assms(2) by simp
  have "(i, job_store_id j, PQueued) \<in># live s"
  proof -
    note cov = inv_registryD(1) [OF reachable_inv_registry [OF assms(1)]]
    from assms(2,3) cov obtain st ph where x: "(i, st, ph) \<in># live s"
      by (fastforce simp: registry_covers_def is_terminal_def)
    then have "entry_ok (registry (sq s)) (i, st, ph)" using cov by (auto simp: registry_covers_def)
    with x assms(2,3) show ?thesis by (cases ph) (auto simp: is_terminal_def)
  qed
  then have "i \<in> handles (sq s)"
    using live_id_unique [OF reachable_inv_handles [OF assms(1)]] by (metis multi_member_split)
  then have "?P ?s"
    using entry_phases [OF r e] assms(2,3) by (auto simp: l cancel_def is_terminal_def)
  then have P: "?P t \<and> i \<in> used_ids t"
    by (rule run_induct [OF assms(4) r entry_used [OF r e]])
       (auto simp: job_step_def elim!: lifecycle.cases)
  have t: "reachable n t" by (rule steps_reachable [OF assms(4) r])
  have "job_state_of j' \<noteq> Running" if "map_of (registry (sq t)) i = Some j'" for j'
    using running_live [OF t that] P by (auto simp: phases_of_def)
  moreover have "qj_id qj \<noteq> i" if "WRun qj \<in># pool t" for qj
  proof -
    from that have "(qj_id qj, qj_store_id qj, PActive) \<in># live t"
      by (auto simp: live_def dest: multi_member_split)
    with P show ?thesis by (auto simp: phases_of_def)
  qed
  ultimately show ?thesis by blast
qed

text \<open>The example's job, cancelled while queued, reaches its terminal state.\<close>

definition skipped_sys :: sys where
  "skipped_sys = (let q = fst (cancel ''1'' (sq queued_sys))
     in queued_sys\<lparr>sq := fst (claim_job ''t2'' [] ''1'' (q\<lparr>pending_jobs := []\<rparr>)),
          pool := {#WTear \<lparr>qj_id = ''1'', qj_store_id = ''a''\<rparr>
                     (snd (snd (claim_job ''t2'' [] ''1'' (q\<lparr>pending_jobs := []\<rparr>))))#}\<rparr>)"

lemma cancelled_to_skipped:
  "qstep\<^sup>*\<^sup>* (queued_sys\<lparr>sq := fst (cancel ''1'' (sq queued_sys))\<rparr>) skipped_sys"
proof -
  let ?qj = "\<lparr>qj_id = ''1'', qj_store_id = ''a''\<rparr> :: queued_job"
  let ?s1 = "queued_sys\<lparr>sq := fst (cancel ''1'' (sq queued_sys))\<rparr>"
  let ?s2 = "?s1\<lparr>sq := (sq ?s1)\<lparr>pending_jobs := []\<rparr>, pool := {#WGot ?qj#}\<rparr>"
  have "pool ?s1 = {#WIdle#}" "pending_jobs (sq ?s1) = [?qj]"
    by (simp_all add: demo_defs Let_def)
  then have s2: "qstep ?s1 ?s2"
    using worker_dequeue by blast
  have "''1'' \<in> triggered (sq ?s2)"
    by (simp add: cancel_def demo_defs Let_def is_terminal_def create_index_job_def)
  then have "claim_job ''t2'' [] ''1'' (sq ?s2) =
      (fst (claim_job ''t2'' [] ''1'' (sq ?s2)), True, snd (snd (claim_job ''t2'' [] ''1'' (sq ?s2))))"
    by (simp add: claim_job_def Let_def)
  then have "qstep ?s2 skipped_sys"
    using worker_skip_cancelled [of ?s2 ?qj "{#}" "''t2''" "[]"]
    by (simp add: skipped_sys_def Let_def)
  with s2 show ?thesis by (meson converse_rtranclp_into_rtranclp r_into_rtranclp)
qed

lemma reachable_skipped: "reachable 1 skipped_sys"
  by (rule steps_reachable [OF cancelled_to_skipped reach_step [OF reachable_queued cancel_call]])

text \<open>
  The queued job of the example, cancelled: once the worker has taken it up it is not running and
  no worker runs it.
\<close>

lemma cancelled_pending_witness:
  "\<not> (\<exists>j. map_of (registry (sq skipped_sys)) ''1'' = Some j \<and> job_state_of j = Running) \<and>
   \<not> (\<exists>qj. WRun qj \<in># pool skipped_sys \<and> qj_id qj = ''1'')"
  using cancelled_pending_never_runs [OF reachable_queued queued_entry create_pending cancelled_to_skipped]
  by blast

lemma skipped_entry:
  "map_of (registry (sq skipped_sys)) ''1'' =
     Some (fail_index_job_with_error ''t2'' JobCancelled (create_index_job ''1'' ''t0'' ''a'' ScopeStore))"
  by (simp add: skipped_sys_def Let_def claim_job_def cancel_def demo_defs is_terminal_def
      evict_def evict_protects modify_job_def create_index_job_def)

text \<open>A second cancellation of the finished job leaves its record as it is.\<close>

lemma terminal_final_witness:
  "map_of (registry (sq (skipped_sys\<lparr>sq := fst (cancel ''1'' (sq skipped_sys))\<rparr>))) ''1'' \<in>
     {Some (fail_index_job_with_error ''t2'' JobCancelled (create_index_job ''1'' ''t0'' ''a'' ScopeStore)), None}"
proof -
  have "qstep\<^sup>*\<^sup>* skipped_sys (skipped_sys\<lparr>sq := fst (cancel ''1'' (sq skipped_sys))\<rparr>)"
    by (rule r_into_rtranclp, rule cancel_call)
  from terminal_final [OF reachable_skipped skipped_entry trans_terminal(4) this]
  show ?thesis by blast
qed

section \<open>Cancellation\<close>

text \<open>
  In every reachable state \<open>cancel\<close> does one of three things: it reports an unknown job, it
  reports a finished one and changes nothing, or it triggers the token of a pending or running
  job and returns that job. Its internal-error branch, a job without a handle, is dead code.
\<close>

theorem cancel_outcomes:
  assumes "reachable n s"
  shows "cancel i (sq s) =
    (case map_of (registry (sq s)) i of
       None \<Rightarrow> (sq s, Inl (JobNotFound i))
     | Some j \<Rightarrow> if is_terminal j then (sq s, Inl JobAlreadyTerminal)
                 else ((sq s)\<lparr>triggered := insert i (triggered (sq s))\<rparr>, Inr j))"
proof (cases "map_of (registry (sq s)) i")
  case (Some j)
  have "i \<in> handles (sq s)" if "\<not> is_terminal j"
  proof -
    have "i \<in># image_mset fst (live s)"
      using inv_registryD(1) [OF reachable_inv_registry [OF assms]] Some that
      by (auto simp: registry_covers_def)
    then show ?thesis
      using reachable_inv_handles [OF assms] by (metis elem_mset_set inv_handles_def)
  qed
  with Some show ?thesis
    by (auto simp: cancel_def Let_def resolve_post_trigger_outcome_def)
qed (simp add: cancel_def)

lemma cancel_outcomes_witness:
  "snd (cancel ''1'' (sq queued_sys)) = Inr (create_index_job ''1'' ''t0'' ''a'' ScopeStore) \<and>
   snd (cancel ''1'' (sq skipped_sys)) = Inl JobAlreadyTerminal"
  using cancel_outcomes [OF reachable_queued, of "''1''"] cancel_outcomes [OF reachable_skipped, of "''1''"]
  by (simp add: queued_entry skipped_entry)

end
