(* ===== verification/QueueEvents.thy ===== *)
theory QueueEvents
  imports QueueProperties
begin

text \<open>
  Event delivery: on each job's channel the progress events come first and the terminal snapshot
  last and once, sent in the step that removes the job's handle. The broadcast channel's bound,
  past which a slow receiver skips ahead, is not modelled: this is what is sent.
\<close>

section \<open>Snapshots taken and not yet sent\<close>

fun call_closing :: "submit_pc \<Rightarrow> (string \<times> index_job option) option" where
  "call_closing (SFailed j snap) = Some (job_id j, snap)"
| "call_closing _ = None"

fun worker_closing :: "worker_pc \<Rightarrow> (string \<times> index_job option) option" where
  "worker_closing (WTear qj snap) = Some (qj_id qj, snap)"
| "worker_closing _ = None"

definition closing :: "sys \<Rightarrow> (string \<times> index_job option) multiset" where
  "closing s = opts_of call_closing (calls s) + opts_of worker_closing (pool s)"

definition snap_ok :: "job_registry \<Rightarrow> string \<Rightarrow> index_job option \<Rightarrow> bool" where
  "snap_ok reg i snap \<longleftrightarrow>
     (\<exists>j. snap = Some j \<and> is_terminal j \<and> job_id j = i \<and> (map_of reg i = Some j \<or> map_of reg i = None))"

definition inv_closing :: "sys \<Rightarrow> bool" where
  "inv_closing s \<longleftrightarrow> (\<forall>x \<in># closing s. snap_ok (registry (sq s)) (fst x) (snd x))"

lemma opts_of_mem: "y \<in># opts_of f M \<longleftrightarrow> (\<exists>x \<in># M. f x = Some y)"
  by (induction M) (auto split: option.split)

lemma call_closing_live: "call_closing pc = Some x \<Longrightarrow> \<exists>st. call_live pc = Some (fst x, st, PClosing)"
  by (cases pc) auto

lemma worker_closing_live: "worker_closing pc = Some x \<Longrightarrow> \<exists>st. worker_live pc = Some (fst x, st, PClosing)"
  by (cases pc) auto

lemma closing_live: "x \<in># closing s \<Longrightarrow> PClosing \<in> phases_of (live s) (fst x)"
  unfolding closing_def live_def phases_of_def
  by (auto simp: opts_of_mem dest!: call_closing_live worker_closing_live)

lemma phases_single:
  assumes "inv_handles s" "ph \<in> phases_of (live s) i"
  shows "phases_of (live s) i = {ph}"
proof -
  from assms(2) obtain st L where L: "live s = add_mset (i, st, ph) L"
    by (auto simp: phases_of_def dest: multi_member_split)
  then show ?thesis
    using phases_of_off [OF live_id_unique [OF assms(1) L, THEN conjunct2]] by simp
qed

lemma handles_phases:
  assumes "inv_handles s"
  shows "i \<in> handles (sq s) \<longleftrightarrow> phases_of (live s) i \<noteq> {}"
proof -
  have "set_mset (image_mset fst (live s)) = handles (sq s)"
    using assms by (simp add: inv_handles_def)
  then show ?thesis by (force simp: phases_of_def)
qed

text \<open>A closing job, and one whose handle is gone, keeps its entry or loses it to eviction.\<close>

lemma entry_frozen:
  assumes "inv_handles s" "job_step s t i" "phases_of (live s) i \<subseteq> {PClosing}"
  shows "map_of (registry (sq t)) i = map_of (registry (sq s)) i \<or> map_of (registry (sq t)) i = None"
  using assms(2,3) by (auto simp: job_step_def)

lemma snap_kept:
  assumes "inv_handles s" "job_step s t i" "phases_of (live s) i \<subseteq> {PClosing}"
    and "snap_ok (registry (sq s)) i snap"
  shows "snap_ok (registry (sq t)) i snap"
  using entry_frozen [OF assms(1-3)] assms(4) by (auto simp: snap_ok_def)

lemma closing_kept:
  assumes h: "inv_handles s" and r: "inv_registry s" and c: "inv_closing s" and st: "qstep s t"
    and x: "x \<in># closing s"
  shows "snap_ok (registry (sq t)) (fst x) (snd x)"
proof -
  have ph: "phases_of (live s) (fst x) = {PClosing}"
    by (rule phases_single [OF h closing_live [OF x]])
  then have "fst x \<in> used_ids s"
    using handles_phases [OF h, of "fst x"] h by (auto simp: inv_handles_def)
  from snap_kept [OF h qstep_job_step [OF st h r this]] ph c x show ?thesis
    by (simp add: inv_closing_def)
qed

lemma finish_snap:
  assumes "inv_handles s" "inv_registry s" "live s = add_mset (i, st, ph) L" "ph = PQueued \<or> ph = PActive"
    and "reg' = evict i c (modify_job i f (registry (sq s)))"
    and "\<And>j. job_id (f j) = job_id j" "\<And>j. is_terminal (f j)" "\<And>j. job_wf j \<Longrightarrow> \<not> is_terminal j \<Longrightarrow> job_wf (f j)"
  shows "snap_ok reg' i (map_of reg' i)"
proof -
  note cov = inv_registryD(1) [OF assms(2), unfolded assms(3)]
  from covers_finish(2) [OF cov live_id_unique [OF assms(1,3), THEN conjunct2] assms(4,6-8), of c]
  show ?thesis unfolding assms(5) snap_ok_def by auto
qed

lemma inv_closing_step:
  assumes st: "qstep s t" and h: "inv_handles s" and r: "inv_registry s" and c: "inv_closing s"
  shows "inv_closing t"
proof -
  note kept = closing_kept [OF h r c st]
  have new: "inv_closing t" if "\<And>x. x \<in># closing t \<Longrightarrow> x \<in># closing s \<or> snap_ok (registry (sq t)) (fst x) (snd x)"
    using that kept unfolding inv_closing_def by blast
  from st show ?thesis
  proof cases
    case (submit_refused_record j C now cutoff q' snap)
    note L = live_call_split [OF submit_refused_record(2), of "(job_id j, job_store_id j, PQueued)", simplified]
    note F = record_failure_frame [OF submit_refused_record(3)]
    have "snap_ok (registry q') (job_id j) snap"
      using finish_snap [OF h r L _ F [THEN conjunct2, THEN conjunct2]] F by (simp add: fail_wf)
    then show ?thesis
      using submit_refused_record(1,2) by (intro new) (auto simp: closing_def)
  next
    case (worker_skip_cancelled qj W now cutoff q' snap)
    note L = live_worker_split [OF worker_skip_cancelled(2), of "(qj_id qj, qj_store_id qj, PQueued)", simplified]
    note F = claim_skip_frame [OF worker_skip_cancelled(3)]
    have "snap_ok (registry q') (qj_id qj) snap"
      using finish_snap [OF h r L _ F [THEN conjunct2, THEN conjunct2, THEN conjunct2]] F
      by (simp add: fail_with_wf)
    then show ?thesis
      using worker_skip_cancelled(1,2) by (intro new) (auto simp: closing_def)
  next
    case (worker_record qj out W now cutoff q' snap)
    note L = live_worker_split [OF worker_record(2), of "(qj_id qj, qj_store_id qj, PActive)", simplified]
    note F = record_outcome_frame [OF worker_record(3)]
    have "snap_ok (registry q') (qj_id qj) snap"
      using finish_snap [OF h r L _ F [THEN conjunct2, THEN conjunct2]] F by (simp add: outcome_wf)
    then show ?thesis
      using worker_record(1,2) by (intro new) (auto simp: closing_def)
  qed (intro new; auto simp: closing_def)+
qed

lemma inv_closing_init: "inv_closing (init_sys n)"
  by (simp add: inv_closing_def closing_def init_sys_def)

lemma reachable_inv_closing: "reachable n s \<Longrightarrow> inv_closing s"
  by (induction rule: reachable.induct)
     (auto intro: inv_closing_init inv_closing_step reachable_inv_handles reachable_inv_registry)

section \<open>What a step sends\<close>

definition chan_step :: "sys \<Rightarrow> sys \<Rightarrow> string \<Rightarrow> bool" where
  "chan_step s t i \<longleftrightarrow>
     ((i \<in> handles (sq t) \<longleftrightarrow> i \<in> handles (sq s)) \<and> channels (sq t) i = channels (sq s) i) \<or>
     (i \<in> handles (sq s) \<and> i \<in> handles (sq t) \<and> (\<exists>e. channels (sq t) i = channels (sq s) i @ [Progress e])) \<or>
     (i \<in> handles (sq s) \<and> i \<notin> handles (sq t) \<and>
       (\<exists>j. snap_ok (registry (sq t)) i (Some j) \<and> channels (sq t) i = channels (sq s) i @ [Terminal j]))"

lemma chan_quiet:
  "handles (sq t) = handles (sq s) \<Longrightarrow> channels (sq t) = channels (sq s) \<Longrightarrow> chan_step s t i"
  by (simp add: chan_step_def)

lemma qstep_chan:
  assumes st: "qstep s t" and h: "inv_handles s" and r: "inv_registry s" and c: "inv_closing s"
    and i: "i \<in> used_ids s"
  shows "chan_step s t i"
  using st
proof cases
  case (submit_begin st q' sc)
  then show ?thesis by (intro chan_quiet) (auto dest!: reserve_frame)
next
  case (submit_create st sc C k now)
  then have "i \<noteq> k" using i by auto
  with submit_create show ?thesis by (simp add: chan_step_def submit_install_def)
next
  case (submit_enqueue j C q')
  then show ?thesis by (intro chan_quiet) (auto dest!: send_frame)
next
  case (submit_refused_record j C now cutoff q' snap)
  then show ?thesis
    by (intro chan_quiet) (auto simp: same_but_registry_def dest!: record_failure_frame)
next
  case (submit_refused_drop j snap C)
  note L = live_call_split [OF submit_refused_drop(2), of "(job_id j, job_store_id j, PClosing)", simplified]
  have hd: "job_id j \<in> handles (sq s)" using live_id_unique [OF h L] by simp
  have "snap_ok (registry (sq s)) (job_id j) snap"
    using c submit_refused_drop(2) by (simp add: inv_closing_def closing_def)
  then obtain j' where "snap = Some j'" "snap_ok (registry (sq s)) (job_id j) (Some j')"
    by (auto simp: snap_ok_def)
  then show ?thesis
    using submit_refused_drop(1) hd
    by (cases "i = job_id j") (simp_all add: chan_step_def submit_drop_handle_def send_event_def Let_def)
next
  case (worker_start qj W now cutoff q' snap)
  then show ?thesis
    by (intro chan_quiet) (auto simp: same_but_registry_def dest!: claim_start_frame)
next
  case (worker_skip_cancelled qj W now cutoff q' snap)
  then show ?thesis
    by (intro chan_quiet) (auto simp: same_but_registry_def dest!: claim_skip_frame)
next
  case (worker_progress qj W e)
  note L = live_worker_split [OF worker_progress(2), of "(qj_id qj, qj_store_id qj, PActive)", simplified]
  have "qj_id qj \<in> handles (sq s)" using live_id_unique [OF h L] by simp
  then show ?thesis
    using worker_progress(1) by (auto simp: chan_step_def send_event_def)
next
  case (worker_record qj out W now cutoff q' snap)
  then show ?thesis
    by (intro chan_quiet) (auto simp: same_but_registry_def dest!: record_outcome_frame)
next
  case (worker_teardown qj snap W)
  note L = live_worker_split [OF worker_teardown(2), of "(qj_id qj, qj_store_id qj, PClosing)", simplified]
  have hd: "qj_id qj \<in> handles (sq s)" using live_id_unique [OF h L] by simp
  have "snap_ok (registry (sq s)) (qj_id qj) snap"
    using c worker_teardown(2) by (simp add: inv_closing_def closing_def)
  then obtain j' where "snap = Some j'" "snap_ok (registry (sq s)) (qj_id qj) (Some j')"
    by (auto simp: snap_ok_def)
  then show ?thesis
    using worker_teardown(1) hd
    by (cases "i = qj_id qj") (simp_all add: chan_step_def teardown_def send_event_def Let_def)
qed (simp_all add: chan_quiet)

section \<open>The channel of every job\<close>

definition channel_ok :: "sys \<Rightarrow> string \<Rightarrow> bool" where
  "channel_ok s i \<longleftrightarrow>
     (if i \<in> handles (sq s) then \<exists>ps. channels (sq s) i = map Progress ps
      else \<exists>ps j. channels (sq s) i = map Progress ps @ [Terminal j] \<and> snap_ok (registry (sq s)) i (Some j))"

lemma channel_ok_step:
  assumes st: "qstep s t" and h: "inv_handles s" and r: "inv_registry s" and c: "inv_closing s"
    and i: "i \<in> used_ids s" and ok: "channel_ok s i"
  shows "channel_ok t i"
proof -
  note js = qstep_job_step [OF st h r i]
  from qstep_chan [OF st h r c i] show ?thesis
    unfolding chan_step_def
  proof (elim disjE conjE exE)
    assume a: "(i \<in> handles (sq t)) = (i \<in> handles (sq s))" "channels (sq t) i = channels (sq s) i"
    show ?thesis
    proof (cases "i \<in> handles (sq s)")
      case False
      then have "phases_of (live s) i \<subseteq> {PClosing}" using handles_phases [OF h] by simp
      from False a ok snap_kept [OF h js this] show ?thesis by (auto simp: channel_ok_def)
    qed (use a ok in \<open>auto simp: channel_ok_def\<close>)
  next
    fix e assume "i \<in> handles (sq s)" "i \<in> handles (sq t)" "channels (sq t) i = channels (sq s) i @ [Progress e]"
    with ok obtain ps where "channels (sq t) i = map Progress (ps @ [e])" "i \<in> handles (sq t)"
      by (auto simp: channel_ok_def)
    then show ?thesis unfolding channel_ok_def by metis
  next
    fix j assume "i \<in> handles (sq s)" "i \<notin> handles (sq t)" "snap_ok (registry (sq t)) i (Some j)"
      "channels (sq t) i = channels (sq s) i @ [Terminal j]"
    with ok show ?thesis by (auto simp: channel_ok_def)
  qed
qed

lemma new_channel_ok:
  assumes "qstep s t" "i \<in> used_ids t" "i \<notin> used_ids s"
  shows "channel_ok t i"
  using assms by cases (auto simp: channel_ok_def submit_install_def)

lemma reachable_channel_ok: "reachable n s \<Longrightarrow> i \<in> used_ids s \<Longrightarrow> channel_ok s i"
proof (induction rule: reachable.induct)
  case (reach_step s t)
  note r = reachable_inv_handles [OF reach_step(1)] reachable_inv_registry [OF reach_step(1)]
    reachable_inv_closing [OF reach_step(1)]
  show ?case
    using channel_ok_step [OF reach_step(2) r] new_channel_ok [OF reach_step(2)] reach_step(3,4) by blast
qed (simp add: init_sys_def)

lemma channels_grow:
  assumes "reachable n s" "i \<in> used_ids s" "qstep\<^sup>*\<^sup>* s t"
  shows "prefix (channels (sq s) i) (channels (sq t) i)"
  using assms(3)
proof (induction rule: rtranclp_induct)
  case (step u v)
  have r: "reachable n u" by (rule steps_reachable [OF step(1) assms(1)])
  have "i \<in> used_ids u"
    using step(1) assms(2) by (induction rule: rtranclp_induct) (use step_used in auto)
  from qstep_chan [OF step(2) reachable_inv_handles [OF r] reachable_inv_registry [OF r]
      reachable_inv_closing [OF r] this]
  have "prefix (channels (sq u) i) (channels (sq v) i)"
    by (auto simp: chan_step_def)
  with step(3) show ?case by (rule prefix_order.trans)
qed simp

text \<open>
  C4: Whoever subscribes to a job sees progress events and then exactly one terminal event, the
  last message of the channel, which carries the job's final record: the one the registry shows
  for as long as it keeps the job.
\<close>

theorem subscriber_gets_terminal:
  assumes "reachable n s" "subscribe i (sq s) = Some p"
    and "qstep\<^sup>*\<^sup>* s t" "i \<notin> handles (sq t)"
  shows "\<exists>ps j. drop p (channels (sq t) i) = map Progress ps @ [Terminal j] \<and> is_terminal j \<and> job_id j = i \<and>
    get_job i (sq t) \<in> {Some j, None}"
proof -
  from assms(2) have hd: "i \<in> handles (sq s)" and p: "p = length (channels (sq s) i)"
    by (auto simp: subscribe_def split: if_splits)
  then have us: "i \<in> used_ids s"
    using reachable_inv_handles [OF assms(1)] by (auto simp: inv_handles_def)
  from reachable_channel_ok [OF assms(1) us] hd obtain ps0 where c0: "channels (sq s) i = map Progress ps0"
    by (auto simp: channel_ok_def)
  have "i \<in> used_ids t"
    using assms(3) us by (induction rule: rtranclp_induct) (use step_used in auto)
  from reachable_channel_ok [OF steps_reachable [OF assms(3,1)] this] assms(4)
  obtain ps j where c1: "channels (sq t) i = map Progress ps @ [Terminal j]" "snap_ok (registry (sq t)) i (Some j)"
    by (auto simp: channel_ok_def)
  have "prefix (map Progress ps0) (map Progress ps @ [Terminal j])"
    using channels_grow [OF assms(1) us assms(3)] c0 c1 by simp
  then have "length ps0 \<le> length ps"
    by (auto simp: prefix_snoc dest: prefix_length_le) (metis c0 last_map list.map_disc_iff last_snoc job_event.distinct(1) snoc_eq_iff_butlast)
  then have "drop p (channels (sq t) i) = map Progress (drop (length ps0) ps) @ [Terminal j]"
    by (simp add: p c0 c1 drop_map)
  then show ?thesis
    using c1(2) unfolding snap_ok_def get_job_def by (metis insert_iff option.inject)
qed

text \<open>The example's skipped job: a receiver attached before the teardown reads its one event.\<close>

lemma subscriber_gets_terminal_witness:
  "let t = skipped_sys\<lparr>sq := teardown ''1'' (map_of (registry (sq skipped_sys)) ''1'') (sq skipped_sys),
             pool := {#WRelease \<lparr>qj_id = ''1'', qj_store_id = ''a''\<rparr>#}\<rparr>
   in \<exists>ps j. channels (sq t) ''1'' = map Progress ps @ [Terminal j] \<and> is_terminal j"
proof -
  let ?qj = "\<lparr>qj_id = ''1'', qj_store_id = ''a''\<rparr> :: queued_job"
  let ?sn = "map_of (registry (sq skipped_sys)) ''1''"
  let ?t = "skipped_sys\<lparr>sq := teardown ''1'' ?sn (sq skipped_sys), pool := {#WRelease ?qj#}\<rparr>"
  have "pool skipped_sys = {#WTear ?qj ?sn#}"
    by (simp add: skipped_sys_def Let_def claim_job_def cancel_def demo_defs is_terminal_def create_index_job_def)
  from worker_teardown [OF this] have st: "qstep\<^sup>*\<^sup>* skipped_sys ?t" by simp
  have "handles (sq skipped_sys) = {''1''}" "channels (sq skipped_sys) ''1'' = []"
    by (simp_all add: skipped_sys_def Let_def claim_job_def cancel_def demo_defs is_terminal_def create_index_job_def)
  then have "subscribe ''1'' (sq skipped_sys) = Some 0" "''1'' \<notin> handles (sq ?t)"
    by (simp_all add: subscribe_def)
  from subscriber_gets_terminal [OF reachable_skipped this(1) st this(2)]
  show ?thesis unfolding Let_def drop_0 by blast
qed

end
