(* ===== verification/QueueDrain.thy ===== *)
theory QueueDrain
  imports QueueEvents
begin

text \<open>
  The queue never gets stuck: from every reachable state some continuation finishes every job in
  flight, with nothing refused, and leaves no guard and no handle behind.
\<close>

fun call_weight :: "submit_pc \<Rightarrow> nat" where
  "call_weight (SReserved st sc) = 10"
| "call_weight (SInstalled j) = 9"
| "call_weight (SRegistered j) = 8"
| "call_weight (SSendFailed j) = 3"
| "call_weight (SReleased j) = 2"
| "call_weight (SFailed j snap) = 1"

fun worker_weight :: "worker_pc \<Rightarrow> nat" where
  "worker_weight WIdle = 0"
| "worker_weight (WGot qj) = 5"
| "worker_weight (WRun qj) = 4"
| "worker_weight (WRecord qj out) = 3"
| "worker_weight (WTear qj snap) = 2"
| "worker_weight (WRelease qj) = 1"

lemma call_weight_pos: "0 < call_weight pc"
  by (cases pc) auto

text \<open>How many steps the work in flight still takes at most.\<close>

definition weight :: "sys \<Rightarrow> nat" where
  "weight s = sum_mset (image_mset call_weight (calls s)) + 6 * length (pending_jobs (sq s)) +
     sum_mset (image_mset worker_weight (pool s))"

lemma finite_used: "reachable n s \<Longrightarrow> finite (used_ids s)"
proof (induction rule: reachable.induct)
  case (reach_step s t)
  from reach_step(2,3) show ?case by cases auto
qed (simp add: init_sys_def)

lemma fresh_id: "finite A \<Longrightarrow> \<exists>i::string. i \<notin> A"
  using infinite_UNIV_listI [where 'a = char] by (metis ex_new_if_finite)

lemma idle_pool: "sum_mset (image_mset worker_weight W) = 0 \<Longrightarrow> size W = n \<Longrightarrow> W = replicate_mset n WIdle"
proof (induction W arbitrary: n)
  case (add pc W)
  then show ?case by (cases pc; cases n) auto
qed simp

lemma pending_same [simp]:
  "claim_job now c i q = (q', b, sn) \<Longrightarrow> pending_jobs q' = pending_jobs q"
  by (auto simp: claim_job_def Let_def split: if_splits)

text \<open>A worker that is not idle, a queued job and a submission each have a step that does them.\<close>

lemma busy_worker_step:
  assumes "pool s = add_mset pc W" "pc \<noteq> WIdle"
  shows "\<exists>t. qstep s t \<and> weight t < weight s"
proof (cases pc)
  case (WGot qj)
  obtain q' b sn where e: "claim_job [] [] (qj_id qj) (sq s) = (q', b, sn)" by (metis prod_cases3)
  then show ?thesis
    using assms WGot worker_start [of s qj W "[]" "[]" q' sn] worker_skip_cancelled [of s qj W "[]" "[]" q' sn]
    by (cases b) (fastforce simp: weight_def)+
next
  case (WRun qj)
  then show ?thesis
    using assms worker_build_panic [of s qj W OtherPayload] by (fastforce simp: weight_def)
next
  case (WRecord qj out)
  obtain q' sn where e: "record_outcome [] [] (qj_id qj) out (sq s) = (q', sn)" by (metis prod.exhaust)
  then have "pending_jobs q' = pending_jobs (sq s)"
    by (auto simp: record_outcome_def Let_def)
  then show ?thesis
    using assms WRecord worker_record [of s qj out W "[]" "[]", OF _ e] by (fastforce simp: weight_def)
next
  case (WTear qj snap)
  then show ?thesis
    using assms worker_teardown [of s qj snap W] by (fastforce simp: weight_def)
next
  case (WRelease qj)
  then show ?thesis
    using assms worker_release [of s qj W] by (fastforce simp: weight_def)
qed (use assms in simp)

lemma call_step:
  assumes "calls s = add_mset pc C" "pending_jobs (sq s) = []" "finite (used_ids s)"
  shows "\<exists>t. qstep s t \<and> weight t < weight s"
proof (cases pc)
  case (SReserved st sc)
  obtain i where "i \<notin> used_ids s" using fresh_id [OF assms(3)] by blast
  then show ?thesis
    using assms SReserved submit_create [of s st sc C i "[]"] by (fastforce simp: weight_def)
next
  case (SInstalled j)
  then show ?thesis using assms submit_publish [of s j C] by (fastforce simp: weight_def)
next
  case (SRegistered j)
  then show ?thesis
    using assms submit_enqueue [of s j C "(sq s)\<lparr>pending_jobs := [queued_of j]\<rparr>"]
    by (fastforce simp: weight_def submit_send_def QUEUE_CAPACITY_def)
next
  case (SSendFailed j)
  then show ?thesis using assms submit_refused_release [of s j C] by (fastforce simp: weight_def)
next
  case (SReleased j)
  obtain q' sn where e: "submit_record_failure [] [] (job_id j) (sq s) = (q', sn)" by (metis prod.exhaust)
  then have "pending_jobs q' = pending_jobs (sq s)"
    by (auto simp: submit_record_failure_def Let_def)
  then show ?thesis
    using assms SReleased submit_refused_record [of s j C "[]" "[]", OF _ e] by (fastforce simp: weight_def)
next
  case (SFailed j snap)
  then show ?thesis using assms submit_refused_drop [of s j snap C] by (fastforce simp: weight_def)
qed

lemma weight_step:
  assumes "reachable n s" "0 < n" "0 < weight s"
  shows "\<exists>t. qstep s t \<and> weight t < weight s"
proof (cases "sum_mset (image_mset worker_weight (pool s)) = 0")
  case False
  then obtain pc where "pc \<in># pool s" "pc \<noteq> WIdle" 
    by (metis neq0_conv sum_mset_0_iff imageE set_image_mset worker_weight.simps(1))
  then show ?thesis using busy_worker_step by (metis multi_member_split)
next
  case True
  with pool_size [OF assms(1)] have W: "pool s = replicate_mset n WIdle" by (rule_tac idle_pool)
  then obtain W' where W': "pool s = add_mset WIdle W'" using assms(2) by (cases n) auto
  show ?thesis
  proof (cases "pending_jobs (sq s)")
    case (Cons qj rest)
    then show ?thesis using worker_dequeue [OF W' Cons] W' by (fastforce simp: weight_def)
  next
    case Nil
    then have "calls s \<noteq> {#}" using assms(3) True by (auto simp: weight_def)
    then show ?thesis using call_step [OF _ Nil finite_used [OF assms(1)]] by (metis multiset_cases)
  qed
qed

lemma drain_run: "reachable n s \<Longrightarrow> 0 < n \<Longrightarrow> \<exists>t. qstep\<^sup>*\<^sup>* s t \<and> weight t = 0"
proof (induction "weight s" arbitrary: s rule: less_induct)
  case less
  show ?case
  proof (cases "weight s = 0")
    case False
    with weight_step [OF less(2,3)] obtain u where u: "qstep s u" "weight u < weight s" by auto
    from less(1) [OF u(2) reach_step [OF less(2) u(1)] less(3)] obtain t where "qstep\<^sup>*\<^sup>* u t" "weight t = 0"
      by auto
    with u(1) show ?thesis by (meson converse_rtranclp_into_rtranclp)
  qed auto
qed

text \<open>Nothing in flight.\<close>

definition quiescent :: "sys \<Rightarrow> bool" where
  "quiescent s \<longleftrightarrow> inflight (sq s) = {} \<and> handles (sq s) = {} \<and> pending_jobs (sq s) = [] \<and>
     calls s = {#} \<and> (\<forall>i j. map_of (registry (sq s)) i = Some j \<longrightarrow> is_terminal j)"

lemma weight_0_quiescent:
  assumes "reachable n s" "weight s = 0"
  shows "quiescent s"
proof -
  have "calls s = {#}"
    using assms(2) call_weight_pos by (auto simp: weight_def) (metis less_irrefl multiset_nonemptyE)
  moreover have pend: "pending_jobs (sq s) = []" using assms(2) by (simp add: weight_def)
  moreover have W: "pool s = replicate_mset n WIdle"
    using assms by (intro idle_pool pool_size) (auto simp: weight_def)
  ultimately have "live s = {#}" "guards s = {#}" by (simp_all add: live_def guards_def)
  then show ?thesis
    using \<open>calls s = {#}\<close> pend reachable_inv_guards [OF assms(1)] reachable_inv_handles [OF assms(1)]
      inv_registryD(1) [OF reachable_inv_registry [OF assms(1)]]
    by (auto simp: quiescent_def inv_guards_def inv_handles_def registry_covers_def mset_set_empty_iff)
qed

text \<open>
  C6: With at least one worker the queue can always drain: every reachable state has a run to a
  state in which every job of the registry is finished, nothing is queued, and every store guard
  and every job handle has been released.
\<close>

theorem queue_can_drain:
  assumes "reachable n s" "0 < n"
  shows "\<exists>t. qstep\<^sup>*\<^sup>* s t \<and> quiescent t"
  using drain_run [OF assms] weight_0_quiescent steps_reachable assms(1) by metis

lemma queue_can_drain_witness: "\<exists>t. qstep\<^sup>*\<^sup>* running_sys t \<and> quiescent t"
  by (rule queue_can_drain [OF reachable_running]) simp

section \<open>The work ends\<close>

text \<open>Where every submission, queued job and worker stands.\<close>

definition stages :: "sys \<Rightarrow> submit_pc multiset \<times> queued_job list \<times> worker_pc multiset" where
  "stages s = (calls s, pending_jobs (sq s), pool s)"

definition submits :: "sys \<Rightarrow> sys \<Rightarrow> bool" where
  "submits s t \<longleftrightarrow> size (calls s) < size (calls t)"

lemma pending_kept:
  "submit_reserve st q = Inr q' \<Longrightarrow> pending_jobs q' = pending_jobs q"
  "submit_record_failure now c i q = (q', sn) \<Longrightarrow> pending_jobs q' = pending_jobs q"
  "record_outcome now c i out q = (q', sn) \<Longrightarrow> pending_jobs q' = pending_jobs q"
  "pending_jobs (fst (cancel i q)) = pending_jobs q" "pending_jobs (fst (list_jobs c q)) = pending_jobs q"
  by (auto simp: submit_reserve_def submit_record_failure_def record_outcome_def cancel_def list_jobs_def Let_def
      split: if_splits option.splits)

text \<open>A step that is no submission leaves all stages as they are or takes one of them further.\<close>

lemma weight_decreases:
  assumes "qstep s t" "\<not> submits s t"
  shows "stages t = stages s \<or> weight t < weight s"
  using assms
proof cases
  case (submit_enqueue j C q')
  then have "length (pending_jobs q') = Suc (length (pending_jobs (sq s)))"
    by (auto simp: submit_send_def split: if_splits)
  with submit_enqueue show ?thesis by (simp add: weight_def)
qed (use assms(2) in \<open>auto simp: weight_def stages_def submits_def pending_kept\<close>)

lemma count_decreases:
  fixes g :: "nat \<Rightarrow> nat"
  assumes "\<And>k. g (Suc k) \<le> g k" "\<And>k. P k \<Longrightarrow> g (Suc k) < g k"
  shows "finite {k. P k} \<and> card {k. P k} \<le> g 0"
proof -
  have upto: "card {k. k < n \<and> P k} + g n \<le> g 0" for n
  proof (induction n)
    case (Suc n)
    have "{k. k < Suc n \<and> P k} = {k. k < n \<and> P k} \<union> (if P n then {n} else {})" by (auto simp: less_Suc_eq)
    then show ?case using Suc assms(1) [of n] assms(2) [of n] by (cases "P n") auto
  qed simp
  have bound: "card F \<le> g 0" if "finite F" "F \<subseteq> {k. P k}" for F
  proof -
    from that(1) obtain n where "\<forall>k \<in> F. k < n" unfolding finite_nat_set_iff_bounded by blast
    with that(2) have "F \<subseteq> {k. k < n \<and> P k}" by auto
    then have "card F \<le> card {k. k < n \<and> P k}" by (intro card_mono) auto
    with upto [of n] show ?thesis by simp
  qed
  then have "finite {k. P k}"
    by (metis Suc_n_not_le_n infinite_arbitrarily_large)
  with bound show ?thesis by auto
qed

text \<open>
  C30: Once no new job is submitted, the work of the queue ends: in every infinite run only finitely
  many steps, at most the weight of the state it starts from, take a submission, a queued job or a
  worker from one stage to the next; every other step is a progress event, a cancel or a listing.
\<close>

theorem queue_work_terminates:
  assumes "\<And>k. qstep (f k) (f (Suc k))" "\<And>k. \<not> submits (f k) (f (Suc k))"
  shows "finite {k. stages (f (Suc k)) \<noteq> stages (f k)} \<and>
    card {k. stages (f (Suc k)) \<noteq> stages (f k)} \<le> weight (f 0)"
proof (rule count_decreases [of "\<lambda>k. weight (f k)"])
  have "stages s = stages t \<Longrightarrow> weight s = weight t" for s t by (simp add: stages_def weight_def)
  with weight_decreases [OF assms] show "weight (f (Suc k)) \<le> weight (f k)" for k by (metis less_imp_le order_refl)
  show "stages (f (Suc k)) \<noteq> stages (f k) \<Longrightarrow> weight (f (Suc k)) < weight (f k)" for k
    using weight_decreases [OF assms] by blast
qed

text \<open>An example: a job is dequeued, and then only the job list is read.\<close>

definition dequeued_sys :: sys where
  "dequeued_sys = queued_sys\<lparr>sq := (sq queued_sys)\<lparr>pending_jobs := []\<rparr>, pool := {#WGot \<lparr>qj_id = ''1'', qj_store_id = ''a''\<rparr>#}\<rparr>"

lemma queue_work_terminates_witness:
  "let f = (\<lambda>k::nat. if k = 0 then queued_sys else dequeued_sys)
   in stages (f 1) \<noteq> stages (f 0) \<and> card {k. stages (f (Suc k)) \<noteq> stages (f k)} \<le> 6"
proof -
  let ?f = "\<lambda>k::nat. if k = 0 then queued_sys else dequeued_sys"
  have first: "qstep queued_sys dequeued_sys"
    using worker_dequeue [of queued_sys "{#}" "\<lparr>qj_id = ''1'', qj_store_id = ''a''\<rparr>" "[]"]
    by (simp add: dequeued_sys_def demo_defs init_sys_def new_queue_def Let_def)
  have idle: "qstep dequeued_sys dequeued_sys"
    using cancel_call [of dequeued_sys "''x''"]
    by (simp add: dequeued_sys_def demo_defs init_sys_def new_queue_def cancel_def Let_def)
  have "qstep (?f k) (?f (Suc k))" for k using first idle by (cases k) auto
  moreover have "\<not> submits (?f k) (?f (Suc k))" for k
    by (simp add: submits_def dequeued_sys_def)
  ultimately have "card {k. stages (?f (Suc k)) \<noteq> stages (?f k)} \<le> weight (?f 0)"
    using queue_work_terminates [of ?f] by blast
  moreover have "weight queued_sys = 6" "stages dequeued_sys \<noteq> stages queued_sys"
    by (simp_all add: weight_def stages_def dequeued_sys_def demo_defs init_sys_def new_queue_def Let_def)
  ultimately show ?thesis by (simp add: Let_def)
qed

section \<open>One job, from dequeue to release\<close>

text \<open>What a job that was dequeued pending becomes.\<close>

definition final_job :: "string \<times> string \<Rightarrow> string \<times> string \<Rightarrow> bool \<Rightarrow> job_outcome \<Rightarrow> index_job \<Rightarrow> index_job" where
  "final_job clock1 clock2 cancelled outcome j =
     (if cancelled then fail_index_job_with_error (fst clock1) JobCancelled j
      else apply_job_outcome (fst clock2) outcome (start_index_job (fst clock1) j))"

lemma process_job_shape:
  obtains q2 where "process_job clock1 clock2 qj outcome q =
      release_guard (qj_store_id qj) (teardown (qj_id qj) (map_of (registry q2) (qj_id qj)) q2)"
    and "same_but_registry q q2"
proof (cases "qj_id qj \<in> triggered q")
  case True
  show ?thesis
    by (rule that [of "q\<lparr>registry := evict (qj_id qj) (snd clock1) (modify_job (qj_id qj)
          (fail_index_job_with_error (fst clock1) JobCancelled) (registry q))\<rparr>"])
       (simp_all only: process_job_def claim_job_def Let_def True if_True prod.case,
        simp_all add: same_but_registry_def)
next
  case False
  show ?thesis
    by (rule that [of "q\<lparr>registry := evict (qj_id qj) (snd clock2) (modify_job (qj_id qj)
          (apply_job_outcome (fst clock2) outcome)
          (modify_job (qj_id qj) (start_index_job (fst clock1)) (registry q)))\<rparr>"])
       (simp_all only: process_job_def claim_job_def record_outcome_def Let_def False if_False prod.case,
        simp_all add: same_but_registry_def)
qed

text \<open>
  Processing a queued job on its own leaves its record in the terminal state its outcome
  calls for, whichever way the task ended (a job cancelled while it waited fails as cancelled and
  its outcome is never read), sends that very record as the one terminal event, removes the handle
  and the store's guard, and leaves every unfinished job of the registry as it was.
\<close>

theorem process_job_spec:
  assumes ok: "registry_ok (registry q)" and e: "map_of (registry q) (qj_id qj) = Some j"
    and h: "qj_id qj \<in> handles q"
    and j': "j' = final_job clock1 clock2 (qj_id qj \<in> triggered q) outcome j"
    and q': "q' = process_job clock1 clock2 qj outcome q"
  shows "get_job (qj_id qj) q' = Some j' \<and> is_terminal j' \<and>
    channels q' = (channels q)(qj_id qj := channels q (qj_id qj) @ [Terminal j']) \<and>
    handles q' = handles q - {qj_id qj} \<and> inflight q' = inflight q - {qj_store_id qj} \<and>
    (\<forall>k jk. k \<noteq> qj_id qj \<and> map_of (registry q) k = Some jk \<and> \<not> is_terminal jk \<longrightarrow> get_job k q' = Some jk)"
proof -
  let ?i = "qj_id qj"
  obtain f g where reg: "registry q' = evict ?i (if ?i \<in> triggered q then snd clock1 else snd clock2) (modify_job ?i f (modify_job ?i g (registry q)))"
    and fg: "f (g j) = j'" "\<And>j. job_id (f j) = job_id j" "\<And>j. job_id (g j) = job_id j"
  proof (cases "?i \<in> triggered q")
    case True
    have "modify_job ?i (\<lambda>j. j) (registry q) = registry q"
      using e by (simp add: modify_job_def update_triv)
    with True show ?thesis
      using that [of "fail_index_job_with_error (fst clock1) JobCancelled" "\<lambda>j. j"]
      by (simp add: q' j' final_job_def process_job_def claim_job_def Let_def)
  next
    case False
    then show ?thesis
      using that [of "apply_job_outcome (fst clock2) outcome" "start_index_job (fst clock1)"]
      by (simp add: q' j' final_job_def process_job_def claim_job_def record_outcome_def Let_def)
  qed
  define reg1 where "reg1 = modify_job ?i g (registry q)"
  have ok1: "registry_ok reg1" unfolding reg1_def by (rule modify_job_ok [OF ok fg(3)])
  have e1: "map_of reg1 ?i = Some (g j)" by (simp add: reg1_def modify_job_lookup e)
  note m = rq.finish [OF ok1 e1, of f "if ?i \<in> triggered q then snd clock1 else snd clock2", OF fg(2), folded reg [folded reg1_def]]
  have t: "is_terminal j'"
    unfolding j' final_job_def by simp
  have get: "get_job ?i q' = Some j'" using m(3) fg(1) by (simp add: get_job_def)
  have others: "get_job k q' = Some jk" if "k \<noteq> ?i" "map_of (registry q) k = Some jk" "\<not> is_terminal jk" for k jk
    using m(1) that by (auto simp: agree_off_def get_job_def reg1_def modify_job_lookup)
  obtain q2 where q2: "q' = release_guard (qj_store_id qj) (teardown ?i (map_of (registry q2) ?i) q2)"
    and same: "same_but_registry q q2"
    using process_job_shape q' by metis
  have "map_of (registry q2) ?i = Some j'" using get q2 by (simp add: get_job_def)
  then have "channels q' = (channels q)(?i := channels q ?i @ [Terminal j'])"
      "handles q' = handles q - {?i}" "inflight q' = inflight q - {qj_store_id qj}"
    using h same by (simp_all add: q2 same_but_registry_def teardown_def send_event_def)
  with get t others show ?thesis by blast
qed

lemma process_job_spec_witness:
  "let qj = \<lparr>qj_id = ''1'', qj_store_id = ''a''\<rparr>;
       q' = process_job (''t1'', []) (''t2'', []) qj (TaskBuildPanicked ''boom'') (sq queued_sys)
   in \<exists>j. get_job ''1'' q' = Some j \<and> is_terminal j \<and> handles q' = {} \<and> inflight q' = {}"
proof -
  have "registry_ok (registry (sq queued_sys))" "handles (sq queued_sys) = {''1''}"
      "inflight (sq queued_sys) = {''a''}"
    by (simp_all add: demo_defs Let_def registry_ok_def)
  with process_job_spec [OF _ _ _ refl refl, of "sq queued_sys" "\<lparr>qj_id = ''1'', qj_store_id = ''a''\<rparr>"
      _ "(''t1'', [])" "(''t2'', [])" "TaskBuildPanicked ''boom''"] queued_entry
  show ?thesis by (simp add: Let_def)
qed

end
