(* ===== verification/Metadata.thy ===== *)
theory Metadata
  imports Prelude
begin

text \<open>
  Resource metadata (\<open>core/src/metadata.rs\<close>): the Dublin Core base every kind of resource
  shares, and the enrichment a connector lays over what extraction found. The Rust fields
  \<open>type\<close>, \<open>format\<close>, \<open>date\<close>, \<dots> carry the prefix \<open>dc_\<close> here.
\<close>

record dublin_core =
  dc_title :: "string option"
  dc_creator :: "string list"
  dc_subject :: "string list"
  dc_description :: "string option"
  dc_publisher :: "string option"
  dc_contributor :: "string list"
  dc_date :: "string option"
  dc_date_source :: "string option"
  dc_type :: "string option"
  dc_format :: "string option"
  dc_identifier :: "string option"
  dc_source :: "string option"
  dc_language :: "string option"
  dc_relation :: "string list"
  dc_coverage :: "string option"
  dc_rights :: "string option"

record document_metadata =
  doc_dublin_core :: dublin_core
  page_count :: "u32 option"
  word_count :: "u32 option"

record conversation_metadata =
  conv_dublin_core :: dublin_core
  platform :: "string option"
  message_count :: "u32 option"
  date_range :: "(string \<times> string) option"

record transcription_metadata =
  tr_dublin_core :: dublin_core
  duration_ms :: "u64 option"
  speakers :: "string list"
  media_uri :: "string option"

datatype metadata =
    MetaDocument document_metadata
  | MetaConversation conversation_metadata
  | MetaTranscription transcription_metadata

fun metadata_dc :: "metadata \<Rightarrow> dublin_core" where
  "metadata_dc (MetaDocument m) = doc_dublin_core m"
| "metadata_dc (MetaConversation m) = conv_dublin_core m"
| "metadata_dc (MetaTranscription m) = tr_dublin_core m"

text \<open>\<open>dublin_core_mut\<close>: an update through the mutable borrow.\<close>

fun update_dc :: "(dublin_core \<Rightarrow> dublin_core) \<Rightarrow> metadata \<Rightarrow> metadata" where
  "update_dc f (MetaDocument m) = MetaDocument (m\<lparr>doc_dublin_core := f (doc_dublin_core m)\<rparr>)"
| "update_dc f (MetaConversation m) = MetaConversation (m\<lparr>conv_dublin_core := f (conv_dublin_core m)\<rparr>)"
| "update_dc f (MetaTranscription m) = MetaTranscription (m\<lparr>tr_dublin_core := f (tr_dublin_core m)\<rparr>)"

definition metadata_title :: "metadata \<Rightarrow> string option" where
  "metadata_title m = dc_title (metadata_dc m)"

definition metadata_language :: "metadata \<Rightarrow> string option" where
  "metadata_language m = dc_language (metadata_dc m)"

definition default_dc :: dublin_core where
  "default_dc = \<lparr>dc_title = None, dc_creator = [], dc_subject = [], dc_description = None,
     dc_publisher = None, dc_contributor = [], dc_date = None, dc_date_source = None,
     dc_type = None, dc_format = None, dc_identifier = None, dc_source = None,
     dc_language = None, dc_relation = [], dc_coverage = None, dc_rights = None\<rparr>"

definition default_metadata :: metadata where
  "default_metadata = MetaDocument \<lparr>doc_dublin_core = default_dc, page_count = None, word_count = None\<rparr>"

lemma metadata_dc_update [simp]: "metadata_dc (update_dc f m) = f (metadata_dc m)"
  by (cases m) auto

lemma update_dc_comp [simp]: "update_dc f (update_dc g m) = update_dc (\<lambda>d. f (g d)) m"
  by (cases m) auto

lemma update_dc_id: "f (metadata_dc m) = metadata_dc m \<Longrightarrow> update_dc f m = m"
  by (cases m) auto

section \<open>Enrichment\<close>

definition FEED_ENTRY_DATE_SOURCE :: string where
  "FEED_ENTRY_DATE_SOURCE = ''feed-entry''"

record enrichment =
  title_fallback :: "string option"
  en_creator :: "string list"
  en_date :: "string option"
  en_date_source :: "string option"
  provenance_source :: "string option"

definition enrichment_is_empty :: "enrichment \<Rightarrow> bool" where
  "enrichment_is_empty e \<longleftrightarrow>
     title_fallback e = None \<and> en_creator e = [] \<and> en_date e = None \<and> provenance_source e = None"

definition apply_to :: "enrichment \<Rightarrow> dublin_core \<Rightarrow> dublin_core" where
  "apply_to e dc =
     (let dc = (if dc_title dc = None then dc\<lparr>dc_title := title_fallback e\<rparr> else dc);
          dc = (if en_creator e \<noteq> [] then dc\<lparr>dc_creator := en_creator e\<rparr> else dc);
          dc = (case en_date e of
                  Some date \<Rightarrow> dc\<lparr>dc_date := Some date, dc_date_source := en_date_source e\<rparr>
                | None \<Rightarrow>
                    if en_date_source e \<noteq> None \<and> dc_date_source dc = en_date_source e
                    then dc\<lparr>dc_date := None, dc_date_source := None\<rparr> else dc)
      in case provenance_source e of
           Some source \<Rightarrow> dc\<lparr>dc_source := Some source\<rparr>
         | None \<Rightarrow> dc)"

lemma apply_to_fields:
  "dc_title (apply_to e dc) = (if dc_title dc = None then title_fallback e else dc_title dc)"
  "dc_creator (apply_to e dc) = (if en_creator e = [] then dc_creator dc else en_creator e)"
  "dc_date (apply_to e dc) =
     (case en_date e of
        Some d \<Rightarrow> Some d
      | None \<Rightarrow> if en_date_source e \<noteq> None \<and> dc_date_source dc = en_date_source e then None else dc_date dc)"
  "dc_date_source (apply_to e dc) =
     (case en_date e of
        Some d \<Rightarrow> en_date_source e
      | None \<Rightarrow> if dc_date_source dc = en_date_source e then None else dc_date_source dc)"
  "dc_source (apply_to e dc) = (case provenance_source e of None \<Rightarrow> dc_source dc | p \<Rightarrow> p)"
  by (auto simp: apply_to_def Let_def split: option.splits)

lemma apply_to_rest:
  "dc_subject (apply_to e dc) = dc_subject dc" "dc_description (apply_to e dc) = dc_description dc"
  "dc_publisher (apply_to e dc) = dc_publisher dc" "dc_contributor (apply_to e dc) = dc_contributor dc"
  "dc_type (apply_to e dc) = dc_type dc" "dc_format (apply_to e dc) = dc_format dc"
  "dc_identifier (apply_to e dc) = dc_identifier dc" "dc_language (apply_to e dc) = dc_language dc"
  "dc_relation (apply_to e dc) = dc_relation dc" "dc_coverage (apply_to e dc) = dc_coverage dc"
  "dc_rights (apply_to e dc) = dc_rights dc"
  by (simp_all add: apply_to_def Let_def split: option.split)

text \<open>
  Enrichment is idempotent: applying a connector's enrichment to metadata that already
  carries it reproduces that metadata, so the path that handles an unchanged resource may apply it
  to what is stored and compare. It never takes a title or a date of another provenance away.
\<close>

theorem apply_to_idempotent:
  "apply_to e (apply_to e dc) = apply_to e dc \<and>
   (dc_title dc \<noteq> None \<longrightarrow> dc_title (apply_to e dc) = dc_title dc) \<and>
   (en_date e = None \<and> dc_date_source dc \<noteq> en_date_source e \<longrightarrow> dc_date (apply_to e dc) = dc_date dc)"
proof (intro conjI impI)
  show "apply_to e (apply_to e dc) = apply_to e dc"
    by (rule dublin_core.equality)
       (auto simp: apply_to_fields apply_to_rest split: option.split)
qed (auto simp: apply_to_fields)

lemma apply_to_idempotent_witness:
  "let e = \<lparr>title_fallback = Some ''t'', en_creator = [], en_date = None,
            en_date_source = Some ''feed-entry'', provenance_source = None\<rparr>;
       dc = default_dc\<lparr>dc_title := Some ''own'', dc_date := Some ''2026'', dc_date_source := Some ''xmp''\<rparr>
   in dc_title (apply_to e dc) = Some ''own'' \<and> dc_date (apply_to e dc) = Some ''2026''"
  using apply_to_idempotent [of "\<lparr>title_fallback = Some ''t'', en_creator = [], en_date = None,
            en_date_source = Some ''feed-entry'', provenance_source = None\<rparr>"
      "default_dc\<lparr>dc_title := Some ''own'', dc_date := Some ''2026'', dc_date_source := Some ''xmp''\<rparr>"]
  by (simp add: Let_def)

text \<open>
  An enrichment that reports itself empty changes nothing, unless it carries the very date
  stamp the metadata has: then it retracts the date, although \<open>is_empty\<close> is documented as
  guaranteeing that applying it is a no-op.
\<close>

theorem empty_enrichment_effect:
  "enrichment_is_empty e \<Longrightarrow>
   apply_to e dc =
     (if en_date_source e \<noteq> None \<and> dc_date_source dc = en_date_source e
      then dc\<lparr>dc_date := None, dc_date_source := None\<rparr> else dc)"
  by (cases dc) (auto simp: enrichment_is_empty_def apply_to_def Let_def)

lemma empty_enrichment_effect_witness:
  "let e = \<lparr>title_fallback = None, en_creator = [], en_date = None,
            en_date_source = Some ''feed-entry'', provenance_source = None\<rparr>;
       dc = default_dc\<lparr>dc_date := Some ''2026'', dc_date_source := Some ''feed-entry''\<rparr>
   in enrichment_is_empty e \<and> apply_to e dc = default_dc \<and> apply_to e dc \<noteq> dc"
  using empty_enrichment_effect [of "\<lparr>title_fallback = None, en_creator = [], en_date = None,
            en_date_source = Some ''feed-entry'', provenance_source = None\<rparr>"
      "default_dc\<lparr>dc_date := Some ''2026'', dc_date_source := Some ''feed-entry''\<rparr>"]
  by (simp add: Let_def enrichment_is_empty_def default_dc_def)

end
