(* ===== verification/RString.thy ===== *)
theory RString
  imports Prelude
begin

text \<open>
  Rust's \<open>str\<close> as the list of its UTF-8 bytes: \<open>length\<close> is \<open>len()\<close>, byte positions are
  positions in the list, and slicing off a character boundary panics (\<open>None\<close>). The predicates
  below look at bytes only and are exact on valid UTF-8.
\<close>

text \<open>A continuation byte \<open>10xxxxxx\<close>; every other byte begins a character.\<close>

definition is_cont :: "char \<Rightarrow> bool" where
  "is_cont c \<longleftrightarrow> 128 \<le> (of_char c :: nat) \<and> (of_char c :: nat) < 192"

definition is_char_boundary :: "string \<Rightarrow> nat \<Rightarrow> bool" where
  "is_char_boundary s i \<longleftrightarrow> i = 0 \<or> i = length s \<or> (i < length s \<and> \<not> is_cont (s ! i))"

text \<open>\<open>s.chars().count()\<close>.\<close>

definition char_count :: "string \<Rightarrow> nat" where
  "char_count s = length (filter (\<lambda>c. \<not> is_cont c) s)"

text \<open>\<open>\&s[a..b]\<close>.\<close>

definition str_slice :: "string \<Rightarrow> nat \<Rightarrow> nat \<Rightarrow> string option" where
  "str_slice s a b =
     (if a \<le> b \<and> b \<le> length s \<and> is_char_boundary s a \<and> is_char_boundary s b
      then Some (take (b - a) (drop a s)) else None)"

lemma char_count_append [simp]: "char_count (s @ t) = char_count s + char_count t"
  by (simp add: char_count_def)

lemma char_count_le: "char_count s \<le> length s"
  by (simp add: char_count_def)

lemma char_count_Nil [simp]: "char_count [] = 0"
  by (simp add: char_count_def)

lemma boundary_0 [simp]: "is_char_boundary s 0"
  by (simp add: is_char_boundary_def)

lemma boundary_end [simp]: "is_char_boundary s (length s)"
  by (simp add: is_char_boundary_def)

definition is_ascii_digit :: "char \<Rightarrow> bool" where
  "is_ascii_digit c \<longleftrightarrow> 48 \<le> (of_char c :: nat) \<and> (of_char c :: nat) \<le> 57"

definition to_ascii_lower :: "char \<Rightarrow> char" where
  "to_ascii_lower c =
     (if 65 \<le> (of_char c :: nat) \<and> (of_char c :: nat) \<le> 90 then char_of ((of_char c :: nat) + 32) else c)"

section \<open>Trimming\<close>

text \<open>The characters with Unicode's \<open>White_Space\<close> property, as their UTF-8 bytes.\<close>

definition white_space :: "string list" where
  "white_space =
     map (\<lambda>n. [char_of n]) [9, 10, 11, 12, 13, 32 :: nat] @
     map (map char_of) ([[194, 133], [194, 160], [225, 154, 128]] @
       map (\<lambda>n. [226, 128, n]) ([128 ..< 139] @ [168, 169, 175]) @
       [[226, 129, 159], [227, 128, 128]])"

definition strip_one :: "string list \<Rightarrow> string \<Rightarrow> string option" where
  "strip_one ps s =
     map_option (\<lambda>p. drop (length p) s) (find (\<lambda>p. take (length p) s = p) ps)"

lemma strip_one_shorter:
  assumes "strip_one ps s = Some t" "\<forall>p \<in> set ps. p \<noteq> []"
  shows "length t < length s"
proof -
  from assms(1) obtain p where p: "p \<in> set ps" "take (length p) s = p" "t = drop (length p) s"
    by (auto simp: strip_one_def find_Some_iff) (metis nth_mem)
  then have "0 < length p" "length p \<le> length s"
    using assms(2) by (auto dest: arg_cong [of _ _ length])
  moreover have "length t = length s - length p" using p(3) by simp
  ultimately show ?thesis by linarith
qed

lemma white_space_nonempty: "\<forall>p \<in> set white_space. p \<noteq> []"
  by (auto simp: white_space_def)

function trim_start :: "string \<Rightarrow> string" where
  "trim_start s = (case strip_one white_space s of None \<Rightarrow> s | Some t \<Rightarrow> trim_start t)"
  by auto
termination
  by (relation "measure length") (use strip_one_shorter white_space_nonempty in auto)

declare trim_start.simps [simp del]

function trim_start_rev :: "string \<Rightarrow> string" where
  "trim_start_rev s = (case strip_one (map rev white_space) s of None \<Rightarrow> s | Some t \<Rightarrow> trim_start_rev t)"
  by auto
termination
  by (relation "measure length") (use strip_one_shorter white_space_nonempty in auto)

declare trim_start_rev.simps [simp del]

definition trim_end :: "string \<Rightarrow> string" where
  "trim_end s = rev (trim_start_rev (rev s))"

definition trim :: "string \<Rightarrow> string" where
  "trim s = trim_end (trim_start s)"

lemma strip_one_fst:
  "strip_one ps s = None" if "\<forall>p \<in> set ps. p \<noteq> [] \<and> (s = [] \<or> hd p \<noteq> hd s)"
proof -
  have "take (length p) s \<noteq> p" if p: "p \<in> set ps" for p
  proof
    assume eq: "take (length p) s = p"
    have "p \<noteq> []" using p \<open>\<forall>p \<in> set ps. p \<noteq> [] \<and> (s = [] \<or> hd p \<noteq> hd s)\<close> by blast
    then have "s \<noteq> []" "hd p = hd s" using eq by (cases s; cases p; auto)+
    then show False using p \<open>\<forall>p \<in> set ps. p \<noteq> [] \<and> (s = [] \<or> hd p \<noteq> hd s)\<close> by blast
  qed
  then have "find (\<lambda>p. take (length p) s = p) ps = None" by (simp add: find_None_iff)
  then show ?thesis by (simp add: strip_one_def)
qed

text \<open>A string that begins and ends with an ASCII character other than white space is trimmed.\<close>

definition solid :: "char \<Rightarrow> bool" where
  "solid c \<longleftrightarrow> 33 \<le> (of_char c :: nat) \<and> (of_char c :: nat) < 127"

lemma white_space_hd: "p \<in> set white_space \<Longrightarrow> p \<noteq> [] \<and> \<not> solid (hd p) \<and> \<not> solid (last p)"
  by (auto simp: white_space_def solid_def)

lemma trim_solid:
  assumes "s \<noteq> []" "solid (hd s)" "solid (last s)"
  shows "trim s = s"
proof -
  have "strip_one white_space s = None"
    using assms white_space_hd by (intro strip_one_fst) metis
  then have "trim_start s = s" by (simp add: trim_start.simps)
  moreover have "strip_one (map rev white_space) (rev s) = None"
    using assms white_space_hd by (intro strip_one_fst) (force simp: hd_rev)
  then have "trim_start_rev (rev s) = rev s" by (simp add: trim_start_rev.simps)
  ultimately show ?thesis by (simp add: trim_def trim_end_def)
qed

lemma trim_Nil [simp]: "trim [] = []"
  by (simp add: trim_def trim_end_def trim_start.simps trim_start_rev.simps strip_one_def
      white_space_def)

end
