(* ===== verification/Ids.thy ===== *)
theory Ids
  imports Metadata RString
begin

text \<open>
  Identifier derivation (\<open>core/src/ids.rs\<close>). The \<open>blake3\<close> hash (bytes to lower-case hex) and
  \<open>serde_json\<close>'s serialization of metadata are parameters. What the code decides is which bytes
  are hashed: the lemmas show that these determine the inputs, so that two inputs share an id
  only if the hash itself collides.
\<close>

type_synonym hash_fn = "string \<Rightarrow> string"

definition resource_id_of :: "hash_fn \<Rightarrow> string \<Rightarrow> string \<Rightarrow> string" where
  "resource_id_of h canonical_source_uri content_hash = h (canonical_source_uri @ content_hash)"

definition content_hash_of :: "hash_fn \<Rightarrow> string \<Rightarrow> string" where
  "content_hash_of h text = h text"

text \<open>\<open>u32::to_le_bytes\<close>.\<close>

definition to_le_bytes :: "u32 \<Rightarrow> string" where
  "to_le_bytes w = map (\<lambda>i. char_of (unat w div 256 ^ i mod 256)) [0, 1, 2, 3]"

definition chunk_id_of :: "hash_fn \<Rightarrow> string \<Rightarrow> u32 \<Rightarrow> string \<Rightarrow> u32 \<Rightarrow> string" where
  "chunk_id_of h resource_id block_seq chunk_text seq_in_block =
     h (resource_id @ to_le_bytes block_seq @ chunk_text @ to_le_bytes seq_in_block)"

definition encode_optional_field :: "string option \<Rightarrow> string" where
  "encode_optional_field value = (case value of Some v \<Rightarrow> CHR 0x01 # v | None \<Rightarrow> [])"

definition compute_metadata_hash ::
  "hash_fn \<Rightarrow> (metadata \<Rightarrow> string) \<Rightarrow> metadata \<Rightarrow> string option \<Rightarrow> string option \<Rightarrow> string option \<Rightarrow> string" where
  "compute_metadata_hash h to_json metadata external_id external_etag modified_at =
     content_hash_of h (to_json metadata @ [CHR 0x00] @ encode_optional_field external_id @ [CHR 0x00] @
       encode_optional_field external_etag @ [CHR 0x00] @ encode_optional_field modified_at)"

text \<open>Decimal rendering of a \<open>u32\<close> and of a \<open>bool\<close>.\<close>

fun show_nat :: "nat \<Rightarrow> string" where
  "show_nat n = (if n < 10 then [char_of (48 + n)] else show_nat (n div 10) @ [char_of (48 + n mod 10)])"

declare show_nat.simps [simp del]

definition show_bool :: "bool \<Rightarrow> string" where
  "show_bool b = (if b then ''true'' else ''false'')"

definition compute_feed_inputs_digest :: "hash_fn \<Rightarrow> string \<Rightarrow> bool \<Rightarrow> u32 option \<Rightarrow> string" where
  "compute_feed_inputs_digest h policy_version fetch_full_content max_entries =
     content_hash_of h (policy_version @ [CHR 0x00] @ show_bool fetch_full_content @ [CHR 0x00] @
       encode_optional_field (map_option (\<lambda>n. show_nat (unat n)) max_entries))"

section \<open>The hashed bytes determine the inputs\<close>

lemma sep_inj:
  "c \<notin> set a \<Longrightarrow> c \<notin> set b \<Longrightarrow> a @ c # x = b @ c # y \<Longrightarrow> a = b \<and> x = y"
proof (induction a arbitrary: b)
  case Nil
  then show ?case by (cases b) auto
next
  case (Cons d a)
  then show ?case by (cases b) auto
qed

lemma length_le_bytes [simp]: "length (to_le_bytes w) = 4"
  by (simp add: to_le_bytes_def)

lemma le_bytes_inj: "to_le_bytes v = to_le_bytes w \<longleftrightarrow> v = w"
proof
  assume eq: "to_le_bytes v = to_le_bytes w"
  have "(of_char (char_of (n mod 256) :: char) :: nat) = n mod 256" for n :: nat by simp
  then have b: "unat v div 256 ^ i mod 256 = unat w div 256 ^ i mod 256" if "i \<in> {0, 1, 2, 3}" for i
    using eq that unfolding to_le_bytes_def by (auto dest!: arg_cong [where f = "of_char :: char \<Rightarrow> nat"])
  have digits: "n = n mod 256 + 256 * (n div 256 mod 256 + 256 * (n div 256 ^ 2 mod 256 + 256 * (n div 256 ^ 3 mod 256)))"
    if "n < 256 ^ 4" for n :: nat
  proof -
    have step: "k = k mod 256 + 256 * (k div 256)" for k :: nat by simp
    have "n div 256 ^ 2 = n div 256 div 256" "n div 256 ^ 3 = n div 256 div 256 div 256"
      by (simp_all add: power2_eq_square power3_eq_cube flip: div_mult2_eq)
    moreover have "n div 256 div 256 div 256 < 256"
      using that by (simp add: less_mult_imp_div_less flip: div_mult2_eq)
    ultimately show ?thesis
      using step [of n] step [of "n div 256"] step [of "n div 256 div 256"]
      by (simp only: mod_less)
  qed
  have "unat v < 256 ^ 4" "unat w < 256 ^ 4"
    using unsigned_less [of v] unsigned_less [of w] by simp_all
  then have "unat v = unat w"
    using digits [of "unat v"] digits [of "unat w"] b [of 0] b [of 1] b [of 2] b [of 3] by simp
  then show "v = w" by (simp add: word_unat_eq_iff)
qed simp

lemma encode_inj: "encode_optional_field a = encode_optional_field b \<longleftrightarrow> a = b"
  by (auto simp: encode_optional_field_def split: option.splits)

lemma chunk_id_inj:
  assumes "chunk_id_of h r b t s = chunk_id_of h r' b' t' s'" "length r = length r'"
  shows "(r = r' \<and> b = b' \<and> t = t' \<and> s = s') \<or> (\<exists>x y. x \<noteq> y \<and> h x = h y)"
proof (cases "\<exists>x y. x \<noteq> y \<and> h x = h y")
  case False
  then have "r @ to_le_bytes b @ t @ to_le_bytes s = r' @ to_le_bytes b' @ t' @ to_le_bytes s'"
    using assms(1) unfolding chunk_id_of_def by blast
  then have r: "r = r'" and "to_le_bytes b @ t @ to_le_bytes s = to_le_bytes b' @ t' @ to_le_bytes s'"
    using assms(2) by simp_all
  then have b: "to_le_bytes b = to_le_bytes b'" and "t @ to_le_bytes s = t' @ to_le_bytes s'"
    by simp_all
  then have "length t = length t'" by (metis add_right_cancel length_append length_le_bytes)
  with \<open>t @ to_le_bytes s = t' @ to_le_bytes s'\<close> have "t = t'" "to_le_bytes s = to_le_bytes s'" by simp_all
  with r b show ?thesis by (simp add: le_bytes_inj)
qed blast

text \<open>
  A chunk's identity is its document, its block, its text and its position: two chunks of
  documents whose ids have one length (blake3 hex ids all have) share an id only if they agree in
  all four, or the hash collides.
\<close>

theorem chunk_id_inputs:
  assumes "chunk_id_of h r b t s = chunk_id_of h r' b' t' s'" "length r = length r'"
  shows "(r = r' \<and> b = b' \<and> t = t' \<and> s = s') \<or> (\<exists>x y. x \<noteq> y \<and> h x = h y)"
  using assms by (rule chunk_id_inj)

lemma chunk_id_inputs_witness:
  "\<not> (\<exists>x y. x \<noteq> y \<and> id x = id (y :: string)) \<and>
   chunk_id_of id ''d'' 0 ''text'' 0 \<noteq> chunk_id_of id ''d'' 0 ''text'' 1"
proof -
  have "chunk_id_of id ''d'' 0 ''text'' 0 = chunk_id_of id ''d'' 0 ''text'' 1 \<Longrightarrow> (0::u32) = 1"
    using chunk_id_inputs [of id "''d''" 0 "''text''" 0 "''d''" 0 "''text''" 1] by auto
  then show ?thesis by auto
qed

text \<open>
  The metadata hash changes whenever the metadata, the external id, the etag or the source's
  modification claim does: for values free of NUL bytes an absent field, an empty one and a shifted
  field boundary are all told apart, up to collisions of the hash.
\<close>

theorem metadata_hash_inputs:
  assumes eq: "compute_metadata_hash h js m a b c = compute_metadata_hash h js m' a' b' c'"
    and nul: "\<And>x. CHR 0x00 \<notin> set (js x)" "\<forall>f \<in> set [a, b, a', b']. \<forall>v. f = Some v \<longrightarrow> CHR 0x00 \<notin> set v"
  shows "(js m = js m' \<and> a = a' \<and> b = b' \<and> c = c') \<or> (\<exists>x y. x \<noteq> y \<and> h x = h y)"
proof (cases "\<exists>x y. x \<noteq> y \<and> h x = h y")
  case False
  have enc: "CHR 0x00 \<notin> set (encode_optional_field f)" if "f \<in> set [a, b, a', b']" for f
    using nul(2) that by (auto simp: encode_optional_field_def split: option.split)
  from False eq have "js m @ CHR 0x00 # encode_optional_field a @ CHR 0x00 # encode_optional_field b @ CHR 0x00 # encode_optional_field c =
      js m' @ CHR 0x00 # encode_optional_field a' @ CHR 0x00 # encode_optional_field b' @ CHR 0x00 # encode_optional_field c'"
    unfolding compute_metadata_hash_def content_hash_of_def by (metis append_Cons append_Nil)
  from sep_inj [OF nul(1) nul(1) this]
  have "js m = js m'" and 1: "encode_optional_field a @ CHR 0x00 # encode_optional_field b @ CHR 0x00 # encode_optional_field c =
      encode_optional_field a' @ CHR 0x00 # encode_optional_field b' @ CHR 0x00 # encode_optional_field c'" by simp_all
  from sep_inj [OF enc enc 1] have "a = a'" and 2: "encode_optional_field b @ CHR 0x00 # encode_optional_field c =
      encode_optional_field b' @ CHR 0x00 # encode_optional_field c'" by (simp_all add: encode_inj)
  from sep_inj [OF enc enc 2] have "b = b'" "c = c'" by (simp_all add: encode_inj)
  with \<open>js m = js m'\<close> \<open>a = a'\<close> show ?thesis by blast
qed blast

text \<open>The hypothesis is needed: with NUL bytes inside a value, a field boundary can shift.\<close>

lemma metadata_hash_nul_collision:
  "compute_metadata_hash h js m (Some (''a'' @ [CHR 0x00, CHR 0x01] @ ''b'')) None c =
   compute_metadata_hash h js m (Some ''a'') (Some (''b'' @ [CHR 0x00])) c"
  by (simp add: compute_metadata_hash_def encode_optional_field_def)

lemma metadata_hash_inputs_witness:
  "compute_metadata_hash id (\<lambda>_. ''{}'') default_metadata (Some ''ab'') (Some ''c'') None \<noteq>
   compute_metadata_hash id (\<lambda>_. ''{}'') default_metadata (Some ''a'') (Some ''bc'') None"
proof
  assume "compute_metadata_hash id (\<lambda>_. ''{}'') default_metadata (Some ''ab'') (Some ''c'') None =
    compute_metadata_hash id (\<lambda>_. ''{}'') default_metadata (Some ''a'') (Some ''bc'') None"
  from metadata_hash_inputs [OF this] show False by simp
qed

section \<open>Decimal numbers\<close>

lemma show_nat_value: "foldl (\<lambda>n c. 10 * n + (of_char c - 48)) 0 (show_nat n) = n"
proof (induction n rule: show_nat.induct)
  case (1 n)
  then show ?case
    by (cases "n < 10") (simp_all add: show_nat.simps [of n])
qed

lemma show_nat_inj: "show_nat m = show_nat n \<longleftrightarrow> m = n"
  by (metis show_nat_value)

text \<open>
  The digest of a feed's local inputs changes whenever the indexing policy, the full-content
  switch or the entry cap does, an absent cap included, up to collisions of the hash.
\<close>

theorem feed_digest_inputs:
  assumes eq: "compute_feed_inputs_digest h p f n = compute_feed_inputs_digest h p' f' n'"
    and nul: "CHR 0x00 \<notin> set p" "CHR 0x00 \<notin> set p'"
  shows "(p = p' \<and> f = f' \<and> n = n') \<or> (\<exists>x y. x \<noteq> y \<and> h x = h y)"
proof (cases "\<exists>x y. x \<noteq> y \<and> h x = h y")
  case False
  have b: "CHR 0x00 \<notin> set (show_bool x)" for x by (simp add: show_bool_def)
  from False eq have "p @ CHR 0x00 # show_bool f @ CHR 0x00 # encode_optional_field (map_option (\<lambda>n. show_nat (unat n)) n) =
      p' @ CHR 0x00 # show_bool f' @ CHR 0x00 # encode_optional_field (map_option (\<lambda>n. show_nat (unat n)) n')"
    unfolding compute_feed_inputs_digest_def content_hash_of_def by (metis append_Cons append_Nil)
  from sep_inj [OF nul this] have "p = p'" and
    1: "show_bool f @ CHR 0x00 # encode_optional_field (map_option (\<lambda>n. show_nat (unat n)) n) =
      show_bool f' @ CHR 0x00 # encode_optional_field (map_option (\<lambda>n. show_nat (unat n)) n')" by simp_all
  from sep_inj [OF b b 1] have "show_bool f = show_bool f'"
    "map_option (\<lambda>n. show_nat (unat n)) n = map_option (\<lambda>n. show_nat (unat n)) n'" by (simp_all add: encode_inj)
  moreover from this(1) have "f = f'" by (simp add: show_bool_def split: if_splits)
  moreover have "inj (\<lambda>n :: u32. show_nat (unat n))" by (rule injI) (simp add: show_nat_inj word_unat_eq_iff)
  ultimately have "f = f'" "n = n'" by (simp_all add: option.inj_map [THEN inj_eq])
  with \<open>p = p'\<close> show ?thesis by blast
qed blast

lemma feed_digest_inputs_witness:
  "compute_feed_inputs_digest id ''v1'' True None \<noteq> compute_feed_inputs_digest id ''v1'' True (Some 5)"
proof
  assume "compute_feed_inputs_digest id ''v1'' True None = compute_feed_inputs_digest id ''v1'' True (Some 5)"
  from feed_digest_inputs [OF this] show False by simp
qed

end
