(* ===== verification/Dates.thy ===== *)
theory Dates
  imports RString
begin

text \<open>
  Partial ISO 8601 dates (\<open>core/src/dates.rs\<close>): what is accepted, the canonical timestamp shape
  every comparison relies on, and the widening of an inclusive upper bound. The crate \<open>chrono\<close>
  is a parameter: a record of the operations the code calls, over an abstract type of instants.
\<close>

record 'i chrono_api =
  parse_from_rfc3339 :: "string \<Rightarrow> 'i option"
  timestamp_subsec_nanos :: "'i \<Rightarrow> nat"
  checked_add_secs :: "'i \<Rightarrow> int \<Rightarrow> 'i option"
  rfc3339_secs :: "'i \<Rightarrow> string"

definition digits_value :: "string \<Rightarrow> nat" where
  "digits_value s = foldl (\<lambda>n c. 10 * n + (of_char c - 48)) 0 s"

definition digits_in_range :: "string \<Rightarrow> nat \<Rightarrow> nat \<Rightarrow> nat option" where
  "digits_in_range bytes lo hi =
     (if \<not> list_all is_ascii_digit bytes then None
      else if bytes = [] \<or> digits_value bytes \<ge> 2 ^ 32 then None
      else let value = digits_value bytes in if lo \<le> value \<and> value \<le> hi then Some value else None)"

definition sub :: "string \<Rightarrow> nat \<Rightarrow> nat \<Rightarrow> string" where
  "sub s a b = take (b - a) (drop a s)"

definition partial_date_prefix_len :: "string \<Rightarrow> nat option" where
  "partial_date_prefix_len s =
     (if length s < 4 \<or> \<not> list_all is_ascii_digit (take 4 s) then None
      else if length s = 4 then Some 4
      else if length s < 7 \<or> s ! 4 \<noteq> CHR ''-'' then None
      else if digits_in_range (sub s 5 7) 1 12 = None then None
      else if length s = 7 then Some 7
      else if length s < 10 \<or> s ! 7 \<noteq> CHR ''-'' then None
      else if digits_in_range (sub s 8 10) 1 31 = None then None
      else Some 10)"

definition validate_full_datetime_tail :: "'i chrono_api \<Rightarrow> string \<Rightarrow> bool" where
  "validate_full_datetime_tail ch rest \<longleftrightarrow>
     parse_from_rfc3339 ch (''2000-01-01T'' @ rest) \<noteq> None"

text \<open>
  The byte after the prefix is a separator, so the slice past it begins at a character boundary
  and cannot panic.
\<close>

definition parse_partial_iso8601 :: "'i chrono_api \<Rightarrow> string \<Rightarrow> string option" where
  "parse_partial_iso8601 ch raw =
     (let s = trim raw
      in if s = [] then None
         else case partial_date_prefix_len s of
                None \<Rightarrow> None
              | Some len \<Rightarrow>
                  let date_str = take len s
                  in if length s = len then Some date_str
                     else if s ! len \<noteq> CHR ''T'' \<and> s ! len \<noteq> CHR ''t'' then None
                     else if validate_full_datetime_tail ch (drop (len + 1) s) then Some date_str
                     else None)"

text \<open>\<open>DDDD-DD-DDTDD:DD:DDZ\<close>, one class per position.\<close>

definition canonical_pattern :: string where
  "canonical_pattern = ''DDDD-DD-DDTDD:DD:DDZ''"

definition is_canonical_timestamp :: "string \<Rightarrow> bool" where
  "is_canonical_timestamp s \<longleftrightarrow>
     length s = length canonical_pattern \<and>
     list_all (\<lambda>(got, want). if want = CHR ''D'' then is_ascii_digit got else got = want)
       (zip s canonical_pattern)"

definition parse_date_or_datetime :: "'i chrono_api \<Rightarrow> string \<Rightarrow> string option" where
  "parse_date_or_datetime ch raw =
     (let s = trim raw
      in if s = [] then None
         else case partial_date_prefix_len s of
                None \<Rightarrow> None
              | Some len \<Rightarrow>
                  if length s = len then Some (take len s)
                  else if s ! len \<noteq> CHR ''T'' \<and> s ! len \<noteq> CHR ''t'' then None
                  else case parse_from_rfc3339 ch s of
                         None \<Rightarrow> None
                       | Some parsed \<Rightarrow>
                           let normalized = rfc3339_secs ch parsed
                           in if is_canonical_timestamp normalized then Some normalized else None)"

definition widen_date_upper_bound :: "string \<Rightarrow> string" where
  "widen_date_upper_bound value =
     (if length value = 4 then value @ ''-12-31T23:59:59Z''
      else if length value = 7 then value @ ''-31T23:59:59Z''
      else if length value = 10 then value @ ''T23:59:59Z''
      else value)"

section \<open>What the parsers return\<close>

text \<open>A whole partial date: exactly what the prefix check accepts in full.\<close>

definition partial_date :: "string \<Rightarrow> bool" where
  "partial_date s \<longleftrightarrow> partial_date_prefix_len s = Some (length s)"

lemma partial_len_cases: "partial_date_prefix_len s = Some n \<Longrightarrow> n \<in> {4, 7, 10} \<and> n \<le> length s"
  by (auto simp: partial_date_prefix_len_def split: if_splits)

lemma partial_date_length: "partial_date s \<Longrightarrow> length s = 4 \<or> length s = 7 \<or> length s = 10"
  using partial_len_cases [of s "length s"] by (auto simp: partial_date_def)

lemma sub_take: "b \<le> n \<Longrightarrow> sub (take n s) a b = sub s a b"
  by (simp add: sub_def drop_take min_def)

lemma partial_prefix_date:
  assumes "partial_date_prefix_len s = Some n"
  shows "partial_date (take n s)"
proof -
  from partial_len_cases [OF assms] consider "n = 4" "4 \<le> length s" | "n = 7" "7 \<le> length s"
    | "n = 10" "10 \<le> length s" by auto
  then show ?thesis
  proof cases
    case 1
    with assms show ?thesis by (simp add: partial_date_def partial_date_prefix_len_def split: if_splits)
  next
    case 2
    with assms show ?thesis
      by (simp add: partial_date_def partial_date_prefix_len_def sub_take split: if_splits)
  next
    case 3
    with assms show ?thesis
      by (simp add: partial_date_def partial_date_prefix_len_def sub_take split: if_splits)
  qed
qed

lemma digits_in_range_all: "digits_in_range b lo hi \<noteq> None \<Longrightarrow> list_all is_ascii_digit b"
  by (auto simp: digits_in_range_def split: if_splits)

lemma sub_last: "list_all P (sub s a b) \<Longrightarrow> a < b \<Longrightarrow> b \<le> length s \<Longrightarrow> P (s ! (b - 1))"
  by (auto simp: list_all_length sub_def dest!: spec [of _ "b - 1 - a"])

lemma partial_date_shape:
  assumes "partial_date s"
  shows "list_all is_ascii_digit (take 4 s)"
    and "7 \<le> length s \<Longrightarrow> list_all is_ascii_digit (sub s 5 7)"
    and "10 \<le> length s \<Longrightarrow> list_all is_ascii_digit (sub s 8 10)"
  using assms digits_in_range_all [of "sub s 5 7" 1 12] digits_in_range_all [of "sub s 8 10" 1 31]
  by (auto simp: partial_date_def partial_date_prefix_len_def split: if_splits)

lemma partial_date_digits:
  assumes "partial_date s"
  shows "s \<noteq> [] \<and> is_ascii_digit (hd s) \<and> is_ascii_digit (last s)"
proof -
  note l = partial_date_length [OF assms] and sh = partial_date_shape [OF assms]
  have "is_ascii_digit (s ! 0)" "is_ascii_digit (s ! (4 - 1))"
    using l sh(1) by (auto simp: list_all_length)
  moreover have "is_ascii_digit (s ! (7 - 1))" if "7 \<le> length s"
    using sub_last [OF sh(2)] that by simp
  moreover have "is_ascii_digit (s ! (10 - 1))" if "10 \<le> length s"
    using sub_last [OF sh(3)] that by simp
  moreover have "s \<noteq> []" using l by auto
  ultimately show ?thesis using l by (auto simp: hd_conv_nth last_conv_nth)
qed

lemma digit_solid: "is_ascii_digit c \<Longrightarrow> solid c"
  by (simp add: is_ascii_digit_def solid_def)

lemma partial_date_trim: "partial_date s \<Longrightarrow> trim s = s"
  using partial_date_digits digit_solid trim_solid by blast

text \<open>
  What \<open>parse_partial_iso8601\<close> returns is a validated partial date, a year, a month or a day,
  that sits at the front of the trimmed input; returned values parse to themselves, so normalizing
  twice changes nothing.
\<close>

theorem parse_partial_normal_form:
  assumes "parse_partial_iso8601 ch raw = Some d"
  shows "partial_date d \<and> take (length d) (trim raw) = d \<and> parse_partial_iso8601 ch d = Some d"
proof -
  let ?s = "trim raw"
  from assms obtain n where n: "partial_date_prefix_len ?s = Some n" "d = take n ?s"
    by (auto simp: parse_partial_iso8601_def Let_def split: if_splits option.splits)
  have p: "partial_date d" using partial_prefix_date [OF n(1)] n(2) by simp
  have l: "length d = n" using partial_len_cases [OF n(1)] n(2) by auto
  have "parse_partial_iso8601 ch d = Some d"
    using p partial_date_digits [OF p]
    by (simp add: parse_partial_iso8601_def partial_date_trim partial_date_def Let_def)
  with p l n(2) show ?thesis by simp
qed

section \<open>Widening an inclusive upper bound\<close>

lemma append_le_append:
  "length a = length b \<Longrightarrow> (a @ x \<le> b @ y) \<longleftrightarrow> (a < b \<or> a = b \<and> x \<le> y)" for a b :: string
  by (induction a b rule: list_induct2) auto

text \<open>A canonical timestamp whose fields are in the ranges a clock shows.\<close>

definition clock_timestamp :: "string \<Rightarrow> bool" where
  "clock_timestamp v \<longleftrightarrow>
     is_canonical_timestamp v \<and> sub v 5 7 \<le> ''12'' \<and> sub v 8 10 \<le> ''31'' \<and>
     sub v 11 13 \<le> ''23'' \<and> sub v 14 16 \<le> ''59'' \<and> sub v 17 19 \<le> ''59''"

lemma canonical_length: "is_canonical_timestamp v \<Longrightarrow> length v = 20"
  by (simp add: is_canonical_timestamp_def canonical_pattern_def)

lemma canonical_at:
  assumes "is_canonical_timestamp v" "i < 20"
  shows "if canonical_pattern ! i = CHR ''D'' then is_ascii_digit (v ! i) else v ! i = canonical_pattern ! i"
  using assms by (auto simp: is_canonical_timestamp_def canonical_pattern_def list_all_length)

lemma drop_field:
  assumes "a < b" "b \<le> length v"
  shows "drop a v = v ! a # sub v (a + 1) b @ drop b v"
proof -
  have "drop a v = v ! a # drop (a + 1) v"
    using assms by (simp add: Cons_nth_drop_Suc)
  moreover have "drop (a + 1) v = take (b - (a + 1)) (drop (a + 1) v) @ drop b v"
    using append_take_drop_id [of "b - (a + 1)" "drop (a + 1) v"] assms by (simp del: append_take_drop_id)
  ultimately show ?thesis by (simp add: sub_def)
qed

lemma field_le: "length a = length b \<Longrightarrow> a \<le> b \<Longrightarrow> x \<le> y \<Longrightarrow> c # a @ x \<le> c # b @ y" for a b :: string
  by (auto simp: append_le_append order.order_iff_strict [of a b])

lemma clock_tails:
  assumes v: "clock_timestamp v"
  shows "drop 10 v \<le> ''T23:59:59Z''" "drop 7 v \<le> ''-31T23:59:59Z''" "drop 4 v \<le> ''-12-31T23:59:59Z''"
proof -
  have c: "is_canonical_timestamp v" using v by (simp add: clock_timestamp_def)
  note l = canonical_length [OF c]
  have at: "v ! 4 = CHR ''-''" "v ! 7 = CHR ''-''" "v ! 10 = CHR ''T''" "v ! 13 = CHR '':''"
      "v ! 16 = CHR '':''" "v ! 19 = CHR ''Z''"
    using canonical_at [OF c, of 4] canonical_at [OF c, of 7] canonical_at [OF c, of 10]
      canonical_at [OF c, of 13] canonical_at [OF c, of 16] canonical_at [OF c, of 19]
    by (simp_all add: canonical_pattern_def)
  have f: "sub v 5 7 \<le> ''12''" "sub v 8 10 \<le> ''31''" "sub v 11 13 \<le> ''23''" "sub v 14 16 \<le> ''59''"
      "sub v 17 19 \<le> ''59''"
    using v by (simp_all add: clock_timestamp_def)
  have len: "length (sub v a b) = b - a" if "b \<le> 20" "a \<le> b" for a b
    using that l by (simp add: sub_def)
  have "drop 19 v = ''Z''" using at(6) l by (simp add: Cons_nth_drop_Suc [symmetric])
  then have "drop 16 v \<le> CHR '':'' # ''59'' @ ''Z''"
    using drop_field [of 16 19 v] l at(5) f(5) by (simp only:) (rule field_le; simp add: len)
  then have "drop 13 v \<le> CHR '':'' # ''59'' @ '':59Z''"
    using drop_field [of 13 16 v] l at(4) f(4) by (simp only:) (rule field_le; simp add: len)
  then have 10: "drop 10 v \<le> CHR ''T'' # ''23'' @ '':59:59Z''"
    using drop_field [of 10 13 v] l at(3) f(3) by (simp only:) (rule field_le; simp add: len)
  then have 7: "drop 7 v \<le> CHR ''-'' # ''31'' @ ''T23:59:59Z''"
    using drop_field [of 7 10 v] l at(2) f(2) by (simp only:) (rule field_le; simp add: len)
  then have "drop 4 v \<le> CHR ''-'' # ''12'' @ ''-31T23:59:59Z''"
    using drop_field [of 4 7 v] l at(1) f(1) by (simp only:) (rule field_le; simp add: len)
  with 10 7 show "drop 10 v \<le> ''T23:59:59Z''" "drop 7 v \<le> ''-31T23:59:59Z''"
      "drop 4 v \<le> ''-12-31T23:59:59Z''"
    by simp_all
qed

text \<open>
  Widening makes an inclusive upper bound mean what its precision says: a stored timestamp is
  at most the widened bound exactly when its year, its month or its day, whichever the bound names,
  is at most the bound.
\<close>

theorem widen_bound_exact:
  assumes "partial_date b" "clock_timestamp v"
  shows "v \<le> widen_date_upper_bound b \<longleftrightarrow> take (length b) v \<le> b"
proof -
  have l: "length v = 20"
    using assms(2) canonical_length by (simp add: clock_timestamp_def)
  have "v \<le> b @ tl \<longleftrightarrow> take (length b) v \<le> b" if "drop (length b) v \<le> tl" "length b \<le> 20" for tl
    using append_le_append [of "take (length b) v" b "drop (length b) v" tl] that l
    by (auto simp: order.order_iff_strict)
  moreover have "drop (length b) v \<le> drop (length b) (widen_date_upper_bound b)"
      "widen_date_upper_bound b = b @ drop (length b) (widen_date_upper_bound b)" "length b \<le> 20"
    using partial_date_length [OF assms(1)] clock_tails [OF assms(2)]
    by (auto simp: widen_date_upper_bound_def)
  ultimately show ?thesis by metis
qed

lemma partial_2026: "partial_date ''2026-06''"
  by (simp add: partial_date_def partial_date_prefix_len_def digits_in_range_def digits_value_def
      sub_def is_ascii_digit_def)

lemma clock_2026: "clock_timestamp ''2026-06-30T14:30:00Z''"
  by (simp add: clock_timestamp_def is_canonical_timestamp_def canonical_pattern_def sub_def
      is_ascii_digit_def)

lemma widen_bound_exact_witness:
  "''2026-06-30T14:30:00Z'' \<le> widen_date_upper_bound ''2026-06'' \<and>
   \<not> ''2026-06-30T14:30:00Z'' \<le> ''2026-06''"
  using widen_bound_exact [OF partial_2026 clock_2026] by simp

lemma parse_partial_normal_form_witness:
  "parse_partial_iso8601 \<lparr>parse_from_rfc3339 = (\<lambda>_. None), timestamp_subsec_nanos = (\<lambda>_. 0),
      checked_add_secs = (\<lambda>i _. Some i), rfc3339_secs = (\<lambda>_. [])\<rparr> ''2026-06'' = Some ''2026-06''"
  (is "parse_partial_iso8601 ?ch _ = _")
proof -
  have "parse_partial_iso8601 ?ch ''2026-06'' = Some ''2026-06''"
    using partial_2026 by (simp add: parse_partial_iso8601_def partial_date_trim partial_date_def)
  from parse_partial_normal_form [OF this] show ?thesis by simp
qed

end
