(* ===== verification/Floats.thy ===== *)
theory Floats
  imports Prelude "HOL-Library.Log_Nat" Complex_Main
begin

text \<open>
  IEEE floating point as the search code uses it: values are not-a-number, an infinity, or a
  rational; arithmetic rounds to \<open>p\<close> significant bits, ties to even. The exponent is unbounded
  (the scores stay far from overflow and from the subnormal range), and the two zeros are one.
\<close>

datatype flt = NaN | Inf bool | Num rat

text \<open>\<open>f64::partial_cmp\<close>: \<open>None\<close> when either side is not a number. \<open>Inf True\<close> is \<open>+\<close>infinity.\<close>

fun partial_cmp :: "flt \<Rightarrow> flt \<Rightarrow> ordering option" where
  "partial_cmp NaN _ = None"
| "partial_cmp _ NaN = None"
| "partial_cmp (Num x) (Num y) = Some (ord_cmp x y)"
| "partial_cmp (Num x) (Inf p) = Some (if p then Lt else Gt)"
| "partial_cmp (Inf p) (Num y) = Some (if p then Gt else Lt)"
| "partial_cmp (Inf p) (Inf q) = Some (if p = q then Eq else if q then Lt else Gt)"

text \<open>\<open>partial_cmp(..).unwrap_or(Ordering::Equal)\<close>.\<close>

definition cmp_or_equal :: "flt \<Rightarrow> flt \<Rightarrow> ordering" where
  "cmp_or_equal x y = (case partial_cmp x y of Some c \<Rightarrow> c | None \<Rightarrow> Eq)"

lemma cmp_or_equal_num [simp]: "cmp_or_equal (Num x) (Num y) = ord_cmp x y"
  by (simp add: cmp_or_equal_def)

lemma cmp_or_equal_swap: "cmp_or_equal y x = rev_ord (cmp_or_equal x y)"
  by (cases x; cases y) (auto simp: cmp_or_equal_def ord_cmp_rev)

lemma cmp_or_equal_trans:
  "x \<noteq> NaN \<Longrightarrow> y \<noteq> NaN \<Longrightarrow> z \<noteq> NaN \<Longrightarrow> cmp_or_equal x y \<noteq> Gt \<Longrightarrow> cmp_or_equal y z \<noteq> Gt \<Longrightarrow>
   cmp_or_equal x z \<noteq> Gt"
  by (cases x; cases y; cases z) (auto simp: cmp_or_equal_def cmp_simps not_less split: if_splits)

lemma cmp_or_equal_Eq: "x \<noteq> NaN \<Longrightarrow> y \<noteq> NaN \<Longrightarrow> cmp_or_equal x y = Eq \<longleftrightarrow> x = y"
  by (cases x; cases y) (auto simp: cmp_or_equal_def cmp_simps)

section \<open>Rounding\<close>

text \<open>The exponent of a positive rational: \<open>2^e \<le> a < 2^(e+1)\<close>.\<close>

definition exponent :: "rat \<Rightarrow> int" where
  "exponent a =
     (let (n, d) = quotient_of a; k = bitlen n - bitlen d
      in if 2 powi k \<le> a then k else k - 1)"

definition round_even :: "rat \<Rightarrow> int" where
  "round_even m =
     (let f = \<lfloor>m\<rfloor>; d = m - of_int f
      in if d < 1 / 2 then f else if d > 1 / 2 then f + 1 else if even f then f else f + 1)"

definition rnd :: "nat \<Rightarrow> rat \<Rightarrow> rat" where
  "rnd p x =
     (if x = 0 then 0
      else let u = 2 powi (exponent \<bar>x\<bar> - int p + 1)
           in sgn x * of_int (round_even (\<bar>x\<bar> / u)) * u)"

fun f64_add :: "flt \<Rightarrow> flt \<Rightarrow> flt" where
  "f64_add NaN _ = NaN"
| "f64_add _ NaN = NaN"
| "f64_add (Num x) (Num y) = Num (rnd 53 (x + y))"
| "f64_add (Num x) (Inf q) = Inf q"
| "f64_add (Inf p) (Num y) = Inf p"
| "f64_add (Inf p) (Inf q) = (if p = q then Inf p else NaN)"

fun f64_div :: "flt \<Rightarrow> flt \<Rightarrow> flt" where
  "f64_div NaN _ = NaN"
| "f64_div _ NaN = NaN"
| "f64_div (Num x) (Num y) =
     (if y = 0 then (if x = 0 then NaN else Inf (0 < x)) else Num (rnd 53 (x / y)))"
| "f64_div (Num x) (Inf q) = Num 0"
| "f64_div (Inf p) (Num y) = Inf (p = (0 \<le> y))"
| "f64_div (Inf p) (Inf q) = NaN"

definition f64_of_nat :: "nat \<Rightarrow> flt" where
  "f64_of_nat n = Num (rnd 53 (of_nat n))"

lemma two_powi_mono: "i \<le> j \<Longrightarrow> (2::rat) powi i \<le> 2 powi j"
  by (rule power_int_increasing) auto

lemma two_powi_pos [simp]: "0 < (2::rat) powi i"
  by (rule zero_less_power_int) simp

lemma bitlen_powi:
  assumes "0 < n"
  shows "(2::rat) powi (bitlen n - 1) \<le> of_int n \<and> (of_int n :: rat) < 2 powi (bitlen n)"
proof -
  have "0 \<le> \<lfloor>log 2 (real_of_int n)\<rfloor>" using assms by simp
  moreover have "bitlen n = 1 + \<lfloor>log 2 (real_of_int n)\<rfloor>"
    using assms by (simp add: bitlen_def floorlog_def)
  ultimately have b: "0 < bitlen n" by linarith
  have "2 ^ nat (bitlen n - 1) \<le> n" "n < 2 ^ nat (bitlen n)"
    using bitlen_bounds [OF assms] by auto
  then have "(2::rat) ^ nat (bitlen n - 1) \<le> of_int n" "(of_int n :: rat) < 2 ^ nat (bitlen n)"
    by (metis of_int_le_iff of_int_numeral of_int_power) (metis \<open>n < 2 ^ nat (bitlen n)\<close> of_int_less_iff of_int_numeral of_int_power)
  then show ?thesis using b by (simp add: power_int_def)
qed

lemma exponent_bounds:
  assumes "0 < a"
  shows "2 powi exponent a \<le> a \<and> a < 2 powi (exponent a + 1)"
proof -
  obtain n d where q: "quotient_of a = (n, d)" by (metis prod.exhaust)
  have d: "0 < d" using quotient_of_denom_pos [OF q] .
  have a: "a = of_int n / of_int d" using quotient_of_div [OF q] .
  have n: "0 < n" using assms a d by (metis of_int_0_less_iff zero_less_divide_iff less_asym)
  define k where "k = bitlen n - bitlen d"
  note bn = bitlen_powi [OF n] and bd = bitlen_powi [OF d]
  have up: "a < 2 powi (k + 1)"
  proof -
    have "of_int n < 2 powi (k + 1) * (2::rat) powi (bitlen d - 1)"
      using bn by (simp add: k_def flip: power_int_add)
    also have "\<dots> \<le> 2 powi (k + 1) * of_int d"
      using bd by (intro mult_left_mono) auto
    finally show ?thesis using d by (simp add: a pos_divide_less_eq)
  qed
  have lo: "2 powi (k - 1) \<le> a"
  proof -
    have "2 powi (k - 1) * (of_int d :: rat) \<le> 2 powi (k - 1) * 2 powi (bitlen d)"
      using bd by (intro mult_left_mono) auto
    also have "\<dots> = 2 powi (bitlen n - 1)"
      by (simp add: k_def flip: power_int_add)
    also have "\<dots> \<le> of_int n" using bn by simp
    finally show ?thesis using d by (simp add: a pos_le_divide_eq)
  qed
  show ?thesis
    using up lo by (simp add: exponent_def q Let_def k_def [symmetric])
qed

lemma exponent_mono:
  assumes "0 < a" "a \<le> b"
  shows "exponent a \<le> exponent b"
proof (rule ccontr)
  assume "\<not> ?thesis"
  then have "exponent b + 1 \<le> exponent a" by simp
  then have "(2::rat) powi (exponent b + 1) \<le> 2 powi exponent a" by (rule two_powi_mono)
  also have "\<dots> \<le> a" using exponent_bounds [OF assms(1)] by simp
  finally show False using exponent_bounds [of b] assms by linarith
qed

lemma round_even_mono:
  assumes "x \<le> y"
  shows "round_even x \<le> round_even y"
proof -
  have "\<lfloor>x\<rfloor> \<le> \<lfloor>y\<rfloor>" using assms by (rule floor_mono)
  then consider "\<lfloor>x\<rfloor> = \<lfloor>y\<rfloor>" | "\<lfloor>x\<rfloor> + 1 \<le> \<lfloor>y\<rfloor>" by linarith
  then show ?thesis using assms by cases (auto simp: round_even_def Let_def)
qed

lemma round_even_int [simp]: "round_even (of_int i) = i"
  by (simp add: round_even_def)

lemma rnd_pos_form:
  "0 < x \<Longrightarrow> rnd p x = of_int (round_even (x / 2 powi (exponent x - int p + 1))) * 2 powi (exponent x - int p + 1)"
  by (simp add: rnd_def Let_def)

text \<open>Rounding stays between the powers of two around its argument.\<close>

lemma rnd_between:
  assumes "0 < x" "0 < p"
  shows "2 powi exponent x \<le> rnd p x \<and> rnd p x \<le> 2 powi (exponent x + 1)"
proof -
  define e where "e = exponent x"
  define u :: rat where "u = 2 powi (e - int p + 1)"
  have u: "0 < u" by (simp add: u_def)
  have E: "(2::rat) powi e = of_int (2 ^ (p - 1)) * u" "(2::rat) powi (e + 1) = of_int (2 ^ p) * u"
    using assms(2) by (simp_all add: u_def of_nat_diff flip: power_int_of_nat power_int_add)
  have b: "2 powi e \<le> x" "x \<le> 2 powi (e + 1)"
    using exponent_bounds [OF assms(1)] by (auto simp: e_def)
  have "of_int (2 ^ (p - 1)) \<le> x / u" "x / u \<le> of_int (2 ^ p)"
    using b u unfolding E by (simp_all add: pos_le_divide_eq pos_divide_le_eq)
  then have "2 ^ (p - 1) \<le> round_even (x / u)" "round_even (x / u) \<le> 2 ^ p"
    by (metis round_even_int round_even_mono)+
  then have "of_int (2 ^ (p - 1)) * u \<le> of_int (round_even (x / u)) * u"
      "of_int (round_even (x / u)) * u \<le> of_int (2 ^ p) * u"
    using u by (simp_all only: mult_right_mono of_int_le_iff less_imp_le)
  then show ?thesis
    using rnd_pos_form [OF assms(1), of p] by (simp only: E flip: e_def u_def)
qed

lemma rnd_pos: "0 < x \<Longrightarrow> 0 < p \<Longrightarrow> 0 < rnd p x"
  using rnd_between two_powi_pos less_le_trans by blast

lemma rnd_0 [simp]: "rnd p 0 = 0"
  by (simp add: rnd_def)

lemma rnd_mono_pos:
  assumes "0 < x" "x \<le> y" "0 < p"
  shows "rnd p x \<le> rnd p y"
proof (cases "exponent x = exponent y")
  case True
  have y: "0 < y" using assms by linarith
  have "round_even (x / 2 powi (exponent x - int p + 1)) \<le> round_even (y / 2 powi (exponent x - int p + 1))"
    using assms by (intro round_even_mono divide_right_mono) auto
  then show ?thesis
    unfolding rnd_pos_form [OF assms(1)] rnd_pos_form [OF y] True [symmetric]
    by (intro mult_right_mono) auto
next
  case False
  have y: "0 < y" using assms by linarith
  have "exponent x + 1 \<le> exponent y" using False exponent_mono [OF assms(1,2)] by simp
  then have "(2::rat) powi (exponent x + 1) \<le> 2 powi exponent y" by (rule two_powi_mono)
  then show ?thesis
    using rnd_between [OF assms(1,3)] rnd_between [OF y assms(3)] by linarith
qed

lemma rnd_mono: "0 \<le> x \<Longrightarrow> x \<le> y \<Longrightarrow> 0 < p \<Longrightarrow> rnd p x \<le> rnd p y"
  using rnd_mono_pos [of x y p] rnd_pos [of y p] by (cases "x = 0"; cases "y = 0") auto

end
