(* ===== verification/Block.thy ===== *)
theory Block
  imports Prelude
begin

text \<open>
  Content blocks (\<open>core/src/block.rs\<close>): the typed, ordered units a resource is made of. Field
  names that clash across variants or with HOL carry a prefix; a coordinate of a bounding box is a
  floating-point number the model never computes with, kept as its bits.
\<close>

datatype ingestor_kind =
    KFile | KUrl | KNotion | KTelegram | KSignal | KHackMd | KEmail | KTranscription | KFeed

fun ingestor_kind_str :: "ingestor_kind \<Rightarrow> string" where
  "ingestor_kind_str KFile = ''file''"
| "ingestor_kind_str KUrl = ''url''"
| "ingestor_kind_str KNotion = ''notion''"
| "ingestor_kind_str KTelegram = ''telegram''"
| "ingestor_kind_str KSignal = ''signal''"
| "ingestor_kind_str KHackMd = ''hackmd''"
| "ingestor_kind_str KEmail = ''email''"
| "ingestor_kind_str KTranscription = ''transcription''"
| "ingestor_kind_str KFeed = ''feed''"

datatype block_kind =
    BHeading "8 word"
  | BText
  | BCode "string option"
  | BTable "string list" nat
  | BMessage string "string option" "string option" "string option"
  | BSegment "string option" u64 u64
  | BReference string "string option" "string option"
  | BAttachment string "string option" "u64 option"
  | BFrontmatter string
  | BImage "string option" "string option"

fun kind_str :: "block_kind \<Rightarrow> string" where
  "kind_str (BHeading level) = ''heading''"
| "kind_str BText = ''text''"
| "kind_str (BCode language) = ''code''"
| "kind_str (BTable headers rows) = ''table''"
| "kind_str (BMessage sender timestamp message_id reply_to) = ''message''"
| "kind_str (BSegment speaker start_ms end_ms) = ''segment''"
| "kind_str (BReference target label ref_type) = ''reference''"
| "kind_str (BAttachment filename mime size_bytes) = ''attachment''"
| "kind_str (BFrontmatter format) = ''frontmatter''"
| "kind_str (BImage alt src) = ''image''"

record bounding_box =
  bbox_x :: u64
  bbox_y :: u64
  bbox_w :: u64
  bbox_h :: u64

record block_location =
  loc_page :: "u32 option"
  loc_bbox :: "bounding_box option"
  loc_section :: "string list option"
  loc_line_start :: "u32 option"
  loc_line_end :: "u32 option"
  loc_uri_fragment :: "string option"

record block =
  block_seq :: u32
  block_kind_of :: block_kind
  block_text :: string
  block_location_of :: "block_location option"

end
