(* ===== verification/Store.thy ===== *)
theory Store
  imports Ids Dates Floats Block Errors
begin

text \<open>
  The retrieval store's data (\<open>core/src/store.rs\<close>, \<open>core/src/types.rs\<close>): chunk records, the
  metadata filters pushed down to a backend, and the in-memory store. How the in-memory store
  scores a chunk (\<open>cosine_similarity\<close>, \<open>simple_bm25_score\<close>) is an argument of its two searches;
  what they filter, order and cut is modelled. The libsql backend is SQL and is not.
\<close>

record span =
  span_start :: nat
  span_end :: nat

record source_ref =
  sref_id :: string
  sref_kind :: string

record provenance =
  pv_origin_store :: string
  pv_source_ref :: source_ref
  pv_fetched_at :: string
  pv_content_hash :: string
  pv_share_path :: "(string \<times> string) list"

text \<open>\<open>Chunk\<close> of \<open>types.rs\<close>.\<close>

record chunk =
  chunk_id :: string
  chunk_resource_id :: string
  chunk_store_id :: string
  chunk_text :: string
  chunk_span :: span
  chunk_heading_path :: "string list"
  chunk_policy_version :: string
  chunk_provenance :: provenance
  chunk_window_block_seqs :: "u32 list"

record chunk_record =
  cr_id :: string
  cr_resource_id :: string
  cr_store_id :: string
  cr_text :: string
  cr_span :: span
  cr_heading_path :: "string list"
  cr_embedding :: "flt list"
  cr_policy_version :: string
  cr_fetched_at :: string
  cr_modified_at :: "string option"
  cr_content_hash :: string
  cr_origin_store :: string
  cr_source_id :: string
  cr_ingestor_kind :: string
  cr_mime :: "string option"
  cr_uri :: string
  cr_metadata :: metadata
  cr_block_seq :: u32
  cr_seq_in_block :: u32
  cr_block_kind :: "string option"
  cr_page :: "u32 option"
  cr_window_block_seqs :: "u32 list"
  cr_date_original :: "string option"
  cr_date_parsed :: "string option"
  cr_external_id :: "string option"
  cr_external_etag :: "string option"

definition from_chunk :: "chunk \<Rightarrow> flt list \<Rightarrow> string \<Rightarrow> string option \<Rightarrow> metadata \<Rightarrow> chunk_record" where
  "from_chunk c embedding uri mime metadata =
     \<lparr>cr_id = chunk_id c, cr_resource_id = chunk_resource_id c, cr_store_id = chunk_store_id c,
      cr_text = chunk_text c, cr_span = chunk_span c, cr_heading_path = chunk_heading_path c,
      cr_embedding = embedding, cr_policy_version = chunk_policy_version c,
      cr_fetched_at = pv_fetched_at (chunk_provenance c), cr_modified_at = None,
      cr_content_hash = pv_content_hash (chunk_provenance c),
      cr_origin_store = pv_origin_store (chunk_provenance c),
      cr_source_id = sref_id (pv_source_ref (chunk_provenance c)),
      cr_ingestor_kind = sref_kind (pv_source_ref (chunk_provenance c)),
      cr_mime = mime, cr_uri = uri, cr_metadata = metadata, cr_block_seq = 0, cr_seq_in_block = 0,
      cr_block_kind = None, cr_page = None, cr_window_block_seqs = chunk_window_block_seqs c,
      cr_date_original = None, cr_date_parsed = None, cr_external_id = None,
      cr_external_etag = None\<rparr>"

record resource_record =
  rr_metadata :: metadata
  rr_external_id :: "string option"
  rr_external_etag :: "string option"
  rr_external_last_modified :: "string option"
  rr_modified_at :: "string option"
  rr_date_original :: "string option"
  rr_date_parsed :: "string option"

record search_result =
  sr_chunk :: chunk_record
  sr_score :: flt

section \<open>Filters\<close>

datatype date_axis = Added | Updated | Modified | Document

definition all_axes :: "date_axis list" where
  "all_axes = [Added, Updated, Modified, Document]"

fun axis_name :: "date_axis \<Rightarrow> string" where
  "axis_name Added = ''added''"
| "axis_name Updated = ''updated''"
| "axis_name Modified = ''modified''"
| "axis_name Document = ''document''"

fun axis_column :: "date_axis \<Rightarrow> string" where
  "axis_column Added = ''added_at''"
| "axis_column Updated = ''index_updated_at''"
| "axis_column Modified = ''modified_at''"
| "axis_column Document = ''date_parsed''"

fun axis_value_of :: "date_axis \<Rightarrow> chunk_record \<Rightarrow> string option" where
  "axis_value_of Added record = Some (cr_fetched_at record)"
| "axis_value_of Updated record = None"
| "axis_value_of Modified record = cr_modified_at record"
| "axis_value_of Document record = cr_date_parsed record"

datatype metadata_filter =
    Mime string
  | UriPrefix string
  | DateAfter date_axis string
  | DateBefore date_axis string
  | SourceId string
  | ResourceId string
  | PolicyVersion string

fun filter_matches :: "metadata_filter \<Rightarrow> chunk_record \<Rightarrow> bool" where
  "filter_matches (Mime mime) r = (cr_mime r = Some mime)"
| "filter_matches (UriPrefix prefix) r = (take (length prefix) (cr_uri r) = prefix)"
| "filter_matches (DateAfter axis value) r =
     (case axis_value_of axis r of None \<Rightarrow> False | Some v \<Rightarrow> value \<le> v)"
| "filter_matches (DateBefore axis value) r =
     (case axis_value_of axis r of
        None \<Rightarrow> False
      | Some v \<Rightarrow>
          let bound = widen_date_upper_bound value
          in if axis = Document then widen_date_upper_bound v \<le> bound else v \<le> bound)"
| "filter_matches (SourceId i) r = (cr_source_id r = i)"
| "filter_matches (ResourceId i) r = (cr_resource_id r = i)"
| "filter_matches (PolicyVersion v) r = (cr_policy_version r = v)"

definition passes_filters :: "chunk_record \<Rightarrow> metadata_filter list \<Rightarrow> bool" where
  "passes_filters r filters = list_all (\<lambda>f. filter_matches f r) filters"

lemma le_take:
  fixes b v :: string
  assumes "length b \<le> length v"
  shows "b \<le> v \<longleftrightarrow> b \<le> take (length b) v"
proof -
  have "b \<le> v \<longleftrightarrow> b @ [] \<le> take (length b) v @ drop (length b) v" by simp
  also have "\<dots> \<longleftrightarrow> b < take (length b) v \<or> b = take (length b) v"
    using assms by (subst append_le_append) auto
  also have "\<dots> \<longleftrightarrow> b \<le> take (length b) v" by auto
  finally show ?thesis .
qed

text \<open>
  Date bounds cut at the precision they name: for a resource whose source claims the time \<open>v\<close>,
  the filters \<open>DateAfter b\<close> and \<open>DateBefore b'\<close> with partial dates both pass exactly when the
  part of \<open>v\<close> that \<open>b\<close> names is at least \<open>b\<close> and the part that \<open>b'\<close> names is at most \<open>b'\<close>.
\<close>

theorem date_window_exact:
  assumes "partial_date b" "partial_date b'" "clock_timestamp v" "cr_modified_at r = Some v"
  shows "passes_filters r [DateAfter Modified b, DateBefore Modified b'] \<longleftrightarrow>
     b \<le> take (length b) v \<and> take (length b') v \<le> b'"
proof -
  have "length v = 20" using assms(3) canonical_length by (simp add: clock_timestamp_def)
  moreover have "length b \<le> 10" using partial_date_length [OF assms(1)] by auto
  ultimately have "length b \<le> length v" by simp
  then have "b \<le> v \<longleftrightarrow> b \<le> take (length b) v" by (rule le_take)
  then show ?thesis
    using widen_bound_exact [OF assms(2,3)] assms(4)
    by (simp add: passes_filters_def Let_def)
qed

section \<open>The in-memory store\<close>

record document_record =
  dr_uri :: string
  dr_resource_id :: string
  dr_source_id :: string
  dr_content_hash :: string
  dr_policy_version :: string
  dr_metadata_hash :: string
  dr_external_etag :: "string option"
  dr_external_last_modified :: "string option"
  dr_last_checked_at :: "string option"

record store_stats =
  chunk_count :: u64
  document_count :: u64

record fake_store =
  fs_chunks :: "chunk_record list"
  fs_blocks :: "(string \<times> block list) list"
  fs_metadata_updates :: "(string \<times> resource_record) list"
  fs_last_checked :: "(string \<times> string) list"

definition fake_new :: fake_store where
  "fake_new = \<lparr>fs_chunks = [], fs_blocks = [], fs_metadata_updates = [], fs_last_checked = []\<rparr>"

text \<open>One record of an upsert: replace in place, or push and count.\<close>

fun upsert_one :: "chunk_record \<Rightarrow> chunk_record list \<Rightarrow> chunk_record list \<times> nat" where
  "upsert_one r [] = ([r], 1)"
| "upsert_one r (c # cs) =
     (if cr_id c = cr_id r then (r # cs, 0)
      else let (cs', n) = upsert_one r cs in (c # cs', n))"

definition fake_upsert_chunks :: "chunk_record list \<Rightarrow> fake_store \<Rightarrow> fake_store \<times> nat" where
  "fake_upsert_chunks records fs =
     (let (cs, count) = foldl (\<lambda>(cs, count) r. let (cs', n) = upsert_one r cs in (cs', count + n))
            (fs_chunks fs, 0) records
      in (fs\<lparr>fs_chunks := cs\<rparr>, count))"

definition fake_delete_by_resource :: "string \<Rightarrow> fake_store \<Rightarrow> fake_store \<times> nat" where
  "fake_delete_by_resource resource_id fs =
     (let cs = filter (\<lambda>c. cr_resource_id c \<noteq> resource_id) (fs_chunks fs)
      in (fs\<lparr>fs_chunks := cs\<rparr>, length (fs_chunks fs) - length cs))"

definition fake_delete_by_store :: "string \<Rightarrow> fake_store \<Rightarrow> fake_store \<times> nat" where
  "fake_delete_by_store store_id fs =
     (let cs = filter (\<lambda>c. cr_store_id c \<noteq> store_id) (fs_chunks fs)
      in (fs\<lparr>fs_chunks := cs\<rparr>, length (fs_chunks fs) - length cs))"

definition by_score_desc :: "search_result \<Rightarrow> search_result \<Rightarrow> ordering" where
  "by_score_desc a b = cmp_or_equal (sr_score b) (sr_score a)"

definition fake_dense_search ::
  "(flt list \<Rightarrow> flt list \<Rightarrow> flt) \<Rightarrow> flt list \<Rightarrow> nat \<Rightarrow> metadata_filter list \<Rightarrow> fake_store \<Rightarrow> search_result list" where
  "fake_dense_search cosine query_vector limit filters fs =
     take limit (sort_by by_score_desc
       (map (\<lambda>c. \<lparr>sr_chunk = c, sr_score = cosine query_vector (cr_embedding c)\<rparr>)
         (filter (\<lambda>c. passes_filters c filters) (fs_chunks fs))))"

definition positive :: "flt \<Rightarrow> bool" where
  "positive x \<longleftrightarrow> partial_cmp x (Num 0) = Some Gt"

definition fake_bm25_search ::
  "(string \<Rightarrow> string \<Rightarrow> flt) \<Rightarrow> string \<Rightarrow> nat \<Rightarrow> metadata_filter list \<Rightarrow> fake_store \<Rightarrow> search_result list" where
  "fake_bm25_search score query_text limit filters fs =
     take limit (sort_by by_score_desc
       (filter (\<lambda>r. positive (sr_score r))
         (map (\<lambda>c. \<lparr>sr_chunk = c, sr_score = score query_text (cr_text c)\<rparr>)
           (filter (\<lambda>c. passes_filters c filters) (fs_chunks fs)))))"

definition fake_stats :: "fake_store \<Rightarrow> store_stats" where
  "fake_stats fs =
     \<lparr>chunk_count = of_nat (length (fs_chunks fs)),
      document_count = of_nat (length (remdups (map cr_resource_id (fs_chunks fs))))\<rparr>"

definition fake_get_chunk :: "string \<Rightarrow> fake_store \<Rightarrow> chunk_record option" where
  "fake_get_chunk i fs = find (\<lambda>c. cr_id c = i) (fs_chunks fs)"

definition fake_get_chunks_for_resource :: "string \<Rightarrow> fake_store \<Rightarrow> chunk_record list" where
  "fake_get_chunks_for_resource resource_id fs = filter (\<lambda>c. cr_resource_id c = resource_id) (fs_chunks fs)"

definition fake_document_record ::
  "hash_fn \<Rightarrow> (metadata \<Rightarrow> string) \<Rightarrow> fake_store \<Rightarrow> chunk_record \<Rightarrow> document_record" where
  "fake_document_record h js fs c =
     \<lparr>dr_uri = cr_uri c, dr_resource_id = cr_resource_id c, dr_source_id = cr_source_id c,
      dr_content_hash = cr_content_hash c, dr_policy_version = cr_policy_version c,
      dr_metadata_hash = compute_metadata_hash h js (cr_metadata c) (cr_external_id c)
        (cr_external_etag c) (cr_modified_at c),
      dr_external_etag = cr_external_etag c, dr_external_last_modified = None,
      dr_last_checked_at = map_of (fs_last_checked fs) (cr_resource_id c)\<rparr>"

text \<open>\<open>entry(uri).or_insert(..)\<close> per chunk: the first chunk of a URI wins.\<close>

definition fake_list_indexed_documents ::
  "hash_fn \<Rightarrow> (metadata \<Rightarrow> string) \<Rightarrow> fake_store \<Rightarrow> document_record list" where
  "fake_list_indexed_documents h js fs =
     map snd (foldl (\<lambda>seen c. case map_of seen (cr_uri c) of
                         Some _ \<Rightarrow> seen
                       | None \<Rightarrow> AList.update (cr_uri c) (fake_document_record h js fs c) seen)
        [] (fs_chunks fs))"

definition owns :: "string \<Rightarrow> string \<Rightarrow> chunk_record \<Rightarrow> bool" where
  "owns store_id resource_id c \<longleftrightarrow> cr_store_id c = store_id \<and> cr_resource_id c = resource_id"

definition fake_touch_resource_checked ::
  "string \<Rightarrow> string \<Rightarrow> string \<Rightarrow> fake_store \<Rightarrow> fake_store \<times> (error + unit)" where
  "fake_touch_resource_checked now store_id resource_id fs =
     (if \<not> list_ex (owns store_id resource_id) (fs_chunks fs) then (fs, Inl (ResourceNotFound resource_id))
      else (fs\<lparr>fs_last_checked := AList.update resource_id now (fs_last_checked fs)\<rparr>, Inr ()))"

definition apply_record :: "resource_record \<Rightarrow> chunk_record \<Rightarrow> chunk_record" where
  "apply_record rec c =
     c\<lparr>cr_metadata := rr_metadata rec, cr_external_id := rr_external_id rec,
       cr_external_etag := rr_external_etag rec, cr_modified_at := rr_modified_at rec,
       cr_date_original := rr_date_original rec, cr_date_parsed := rr_date_parsed rec\<rparr>"

definition fake_update_resource_metadata ::
  "string \<Rightarrow> string \<Rightarrow> resource_record \<Rightarrow> fake_store \<Rightarrow> fake_store \<times> (error + unit)" where
  "fake_update_resource_metadata store_id resource_id rec fs =
     (let fs1 = fs\<lparr>fs_metadata_updates := fs_metadata_updates fs @ [(resource_id, rec)],
                   fs_chunks := map (\<lambda>c. if owns store_id resource_id c then apply_record rec c else c)
                     (fs_chunks fs)\<rparr>;
          touched = list_ex (owns store_id resource_id) (fs_chunks fs)
      in (fs1, if touched then Inr () else Inl (ResourceNotFound resource_id)))"

definition fake_get_resource_record :: "string \<Rightarrow> string \<Rightarrow> fake_store \<Rightarrow> resource_record option" where
  "fake_get_resource_record store_id resource_id fs =
     map_option (\<lambda>c. \<lparr>rr_metadata = cr_metadata c, rr_external_id = cr_external_id c,
         rr_external_etag = cr_external_etag c, rr_external_last_modified = None,
         rr_modified_at = cr_modified_at c, rr_date_original = cr_date_original c,
         rr_date_parsed = cr_date_parsed c\<rparr>)
       (find (owns store_id resource_id) (fs_chunks fs))"

definition fake_upsert_blocks :: "string \<Rightarrow> block list \<Rightarrow> fake_store \<Rightarrow> fake_store" where
  "fake_upsert_blocks resource_id blocks fs =
     fs\<lparr>fs_blocks := AList.update resource_id blocks (fs_blocks fs)\<rparr>"

definition fake_get_blocks_for_resource :: "string \<Rightarrow> fake_store \<Rightarrow> block list" where
  "fake_get_blocks_for_resource resource_id fs =
     sort_by (\<lambda>a b. ord_cmp (block_seq a) (block_seq b))
       (case map_of (fs_blocks fs) resource_id of Some bs \<Rightarrow> bs | None \<Rightarrow> [])"

text \<open>The trait's default, not atomic: delete, then chunks, then blocks.\<close>

definition upsert_chunks_and_blocks ::
  "string \<Rightarrow> chunk_record list \<Rightarrow> block list \<Rightarrow> string option \<Rightarrow> fake_store \<Rightarrow> fake_store \<times> nat" where
  "upsert_chunks_and_blocks resource_id records blocks replaces fs =
     (let fs1 = (case replaces of Some old \<Rightarrow> fst (fake_delete_by_resource old fs) | None \<Rightarrow> fs);
          (fs2, count) = fake_upsert_chunks records fs1
      in (fake_upsert_blocks resource_id blocks fs2, count))"

section \<open>What the store keeps\<close>

lemma upsert_one_ids: "fst (upsert_one r cs) = ys \<Longrightarrow> map cr_id ys = (if cr_id r \<in> cr_id ` set cs then map cr_id cs else map cr_id cs @ [cr_id r])"
  by (induction cs arbitrary: ys) (auto split: prod.splits)

lemma upsert_one_find:
  "find (\<lambda>c. cr_id c = i) (fst (upsert_one r cs)) =
     (if i = cr_id r then Some r else find (\<lambda>c. cr_id c = i) cs)"
  by (induction cs) (auto split: prod.splits)

lemma upsert_one_count: "snd (upsert_one r cs) = (if cr_id r \<in> cr_id ` set cs then 0 else 1)"
  by (induction cs) (auto split: prod.splits)

lemma length_upsert_one: "length (fst (upsert_one r cs)) = length cs + snd (upsert_one r cs)"
  by (induction cs) (auto split: prod.splits)

definition upsert_all :: "chunk_record list \<Rightarrow> chunk_record list \<Rightarrow> chunk_record list" where
  "upsert_all records cs = foldl (\<lambda>cs r. fst (upsert_one r cs)) cs records"

lemma fold_upsert:
  "fst (foldl (\<lambda>(cs, count) r. let (cs', n) = upsert_one r cs in (cs', count + n)) (cs, k) records) =
     upsert_all records cs"
  by (induction records arbitrary: cs k) (auto simp: upsert_all_def split: prod.splits)

lemma fold_upsert_count:
  "snd (foldl (\<lambda>(cs, count) r. let (cs', n) = upsert_one r cs in (cs', count + n)) (cs, k) records) + length cs =
     k + length (upsert_all records cs)"
proof (induction records arbitrary: cs k)
  case (Cons r records)
  obtain cs' n where u: "upsert_one r cs = (cs', n)" by (metis prod.exhaust)
  then have "length cs' = length cs + n" using length_upsert_one [of r cs] by simp
  with Cons [of cs' "k + n"] u show ?case by (simp add: upsert_all_def)
qed (simp add: upsert_all_def)

lemma upsert_all_find:
  "find (\<lambda>c. cr_id c = i) (upsert_all records cs) =
     (case find (\<lambda>c. cr_id c = i) (rev records) of Some r \<Rightarrow> Some r | None \<Rightarrow> find (\<lambda>c. cr_id c = i) cs)"
  by (induction records rule: rev_induct) (auto simp: upsert_all_def upsert_one_find)

lemma upsert_all_distinct: "distinct (map cr_id cs) \<Longrightarrow> distinct (map cr_id (upsert_all records cs))"
  by (induction records arbitrary: cs) (auto simp: upsert_all_def upsert_one_ids [OF refl])

lemma upsert_chunks_fst: "fs_chunks (fst (fake_upsert_chunks records fs)) = upsert_all records (fs_chunks fs)"
  using fold_upsert [of "fs_chunks fs" 0 records]
  by (simp add: fake_upsert_chunks_def case_prod_unfold Let_def)

text \<open>
  After an upsert the store answers each chunk id with the last record of the batch that has
  it, and every other id as before; ids stay unique, and the count returned is the number of ids
  the store gained.
\<close>

theorem upsert_chunks_spec:
  assumes "distinct (map cr_id (fs_chunks fs))" "(fs', n) = fake_upsert_chunks records fs"
  shows "fake_get_chunk i fs' = (case find (\<lambda>r. cr_id r = i) (rev records) of
            Some r \<Rightarrow> Some r | None \<Rightarrow> fake_get_chunk i fs) \<and>
    distinct (map cr_id (fs_chunks fs')) \<and>
    length (fs_chunks fs') = length (fs_chunks fs) + n \<and> fs_blocks fs' = fs_blocks fs"
proof -
  have c: "fs_chunks fs' = upsert_all records (fs_chunks fs)"
    using upsert_chunks_fst [of records fs] assms(2) by (metis fst_conv)
  have "n + length (fs_chunks fs) = length (upsert_all records (fs_chunks fs))"
    using fold_upsert_count [of "fs_chunks fs" 0 records] assms(2)
    by (simp add: fake_upsert_chunks_def split: prod.splits)
  moreover have "fs_blocks fs' = fs_blocks fs"
    using assms(2) by (simp add: fake_upsert_chunks_def split: prod.splits)
  ultimately show ?thesis
    using assms(1) by (simp add: fake_get_chunk_def c upsert_all_find upsert_all_distinct split: option.split)
qed

text \<open>An example record, of document \<open>d\<close> in store \<open>s\<close>.\<close>

definition demo_chunk :: "string \<Rightarrow> string \<Rightarrow> string \<Rightarrow> chunk_record" where
  "demo_chunk i d s =
     from_chunk \<lparr>chunk_id = i, chunk_resource_id = d, chunk_store_id = s, chunk_text = ''text'',
       chunk_span = \<lparr>span_start = 0, span_end = 4\<rparr>, chunk_heading_path = [], chunk_policy_version = ''p'',
       chunk_provenance = \<lparr>pv_origin_store = s, pv_source_ref = \<lparr>sref_id = ''src'', sref_kind = ''path''\<rparr>,
         pv_fetched_at = ''2026-06-30T14:30:00Z'', pv_content_hash = ''h'', pv_share_path = []\<rparr>,
       chunk_window_block_seqs = []\<rparr> [] ''file:///d'' None default_metadata"

lemma demo_chunk_simps [simp]:
  "cr_id (demo_chunk i d s) = i" "cr_resource_id (demo_chunk i d s) = d" "cr_store_id (demo_chunk i d s) = s"
  by (simp_all add: demo_chunk_def from_chunk_def)

lemma date_window_exact_witness:
  "passes_filters ((demo_chunk ''c'' ''d'' ''s'')\<lparr>cr_modified_at := Some ''2026-06-30T14:30:00Z''\<rparr>)
     [DateAfter Modified ''2026-06'', DateBefore Modified ''2026-06'']"
  using date_window_exact [OF partial_2026 partial_2026 clock_2026,
      of "(demo_chunk ''c'' ''d'' ''s'')\<lparr>cr_modified_at := Some ''2026-06-30T14:30:00Z''\<rparr>"]
  by simp

lemma upsert_chunks_spec_witness:
  "fake_get_chunk ''c'' (fst (fake_upsert_chunks [demo_chunk ''c'' ''d1'' ''s'', demo_chunk ''c'' ''d2'' ''s''] fake_new)) =
     Some (demo_chunk ''c'' ''d2'' ''s'')"
  using upsert_chunks_spec [where i = "''c''" and fs = fake_new, OF _ prod.collapse,
      of "[demo_chunk ''c'' ''d1'' ''s'', demo_chunk ''c'' ''d2'' ''s'']"]
  by (simp add: fake_new_def)

lemma find_apply_record:
  "find (owns s d) (map (\<lambda>c. if owns s d c then apply_record rec c else c) cs) =
     map_option (apply_record rec) (find (owns s d) cs)"
  by (induction cs) (auto simp: owns_def apply_record_def)

lemma find_list_ex: "find P xs = None \<longleftrightarrow> \<not> list_ex P xs"
  by (induction xs) auto

text \<open>
  A metadata-only update reads back: after it succeeds the resource's record is the one
  written, but for the \<open>Last-Modified\<close> validator this store has no column for; it fails with
  \<open>ResourceNotFound\<close> exactly when no chunk belongs to the resource, and then no chunk changes. The
  chunks' ids, texts and embeddings are never touched.
\<close>

theorem metadata_update_roundtrip:
  assumes "(fs', r) = fake_update_resource_metadata s d rec fs"
  shows "(r = Inr () \<longrightarrow> fake_get_resource_record s d fs' = Some (rec\<lparr>rr_external_last_modified := None\<rparr>)) \<and>
    (r \<noteq> Inr () \<longleftrightarrow> fake_get_resource_record s d fs = None) \<and>
    (r \<noteq> Inr () \<longrightarrow> r = Inl (ResourceNotFound d) \<and> fs_chunks fs' = fs_chunks fs) \<and>
    map (\<lambda>c. (cr_id c, cr_text c, cr_embedding c)) (fs_chunks fs') =
    map (\<lambda>c. (cr_id c, cr_text c, cr_embedding c)) (fs_chunks fs)"
proof (cases "find (owns s d) (fs_chunks fs)")
  case None
  then have "\<forall>c \<in> set (fs_chunks fs). \<not> owns s d c" by (simp add: find_None_iff)
  then have "fs_chunks fs' = fs_chunks fs"
    using assms by (simp add: fake_update_resource_metadata_def Let_def cong: map_cong)
  then show ?thesis
    using assms None find_list_ex [of "owns s d" "fs_chunks fs"]
    by (simp add: fake_update_resource_metadata_def fake_get_resource_record_def Let_def)
next
  case (Some c)
  then have "list_ex (owns s d) (fs_chunks fs)" by (metis find_list_ex option.distinct(1))
  moreover have "fs_chunks fs' = map (\<lambda>c. if owns s d c then apply_record rec c else c) (fs_chunks fs)"
    using assms by (simp add: fake_update_resource_metadata_def Let_def)
  ultimately show ?thesis
    using assms Some
    by (simp add: fake_update_resource_metadata_def fake_get_resource_record_def find_apply_record Let_def)
       (auto simp: apply_record_def)
qed

lemma metadata_update_roundtrip_witness:
  "let fs = fst (fake_upsert_chunks [demo_chunk ''c'' ''d'' ''s''] fake_new);
       rec = \<lparr>rr_metadata = default_metadata, rr_external_id = Some ''x'', rr_external_etag = None,
         rr_external_last_modified = None, rr_modified_at = None, rr_date_original = None, rr_date_parsed = None\<rparr>
   in fake_get_resource_record ''s'' ''d'' (fst (fake_update_resource_metadata ''s'' ''d'' rec fs)) = Some rec"
proof -
  let ?fs = "fst (fake_upsert_chunks [demo_chunk ''c'' ''d'' ''s''] fake_new)"
  let ?rec = "\<lparr>rr_metadata = default_metadata, rr_external_id = Some ''x'', rr_external_etag = None,
         rr_external_last_modified = None, rr_modified_at = None, rr_date_original = None, rr_date_parsed = None\<rparr>"
  have "snd (fake_update_resource_metadata ''s'' ''d'' ?rec ?fs) = Inr ()"
    by (simp add: fake_update_resource_metadata_def fake_upsert_chunks_def fake_new_def owns_def Let_def)
  then show ?thesis
    using metadata_update_roundtrip [OF prod.collapse, of "''s''" "''d''" ?rec ?fs] by (simp add: Let_def)
qed

section \<open>The contract of a search leg\<close>

text \<open>
  What the search above the store relies on: a leg returns at most what was asked for, only rows
  of the store, and only rows that pass the filters.
\<close>

locale search_leg =
  fixes leg :: "nat \<Rightarrow> metadata_filter list \<Rightarrow> search_result list"
    and rows :: "chunk_record set"
  assumes leg_limit: "length (leg k fs) \<le> k"
    and leg_rows: "r \<in> set (leg k fs) \<Longrightarrow> sr_chunk r \<in> rows"
    and leg_filter: "r \<in> set (leg k fs) \<Longrightarrow> passes_filters (sr_chunk r) fs"
begin

lemma leg_zero: "leg 0 fs = []"
  using leg_limit [of 0 fs] by simp

lemma leg_weaken: "r \<in> set (leg k (fs @ gs)) \<Longrightarrow> passes_filters (sr_chunk r) fs"
  using leg_filter [of r k "fs @ gs"] by (simp add: passes_filters_def)

end

interpretation fd: search_leg "\<lambda>k f. fake_dense_search cosine qv k f fs" "set (fs_chunks fs)" for cosine qv fs
  by unfold_locales (auto simp: fake_dense_search_def dest!: in_set_takeD)

interpretation fb: search_leg "\<lambda>k f. fake_bm25_search score qt k f fs" "set (fs_chunks fs)" for score qt fs
  by unfold_locales (auto simp: fake_bm25_search_def dest!: in_set_takeD)

end
