(* ===== verification/Search.thy ===== *)
theory Search
  imports Store
begin

text \<open>
  Hybrid search (\<open>core/src/search.rs\<close>, \<open>core/src/citation.rs\<close>): per-store legs are pooled into
  one ranking per leg, fused by reciprocal rank over the composite key of store and chunk, cut and
  shaped into citations. A store's two legs and the embedder are parameters: functions that
  succeed or fail. The fusion map is an association list in insertion order.
\<close>

definition RRF_K :: flt where "RRF_K = Num 60"

definition DEFAULT_LEG_K :: nat where "DEFAULT_LEG_K = 50"

definition DEFAULT_TOP_N :: nat where "DEFAULT_TOP_N = 10"

definition SEARCH_MAX_LIMIT :: nat where "SEARCH_MAX_LIMIT = 100"

definition clamp_search_limit :: "nat \<Rightarrow> nat" where
  "clamp_search_limit limit = min limit SEARCH_MAX_LIMIT"

record store_handle =
  sh_id :: string
  sh_name :: string
  sh_dense :: "flt list \<Rightarrow> nat \<Rightarrow> metadata_filter list \<Rightarrow> error + search_result list"
  sh_bm25 :: "string \<Rightarrow> nat \<Rightarrow> metadata_filter list \<Rightarrow> error + search_result list"

record query_request =
  q_query :: string
  q_leg_k :: "nat option"
  q_top_n :: "nat option"
  q_filters :: "metadata_filter list"

section \<open>Citations\<close>

record citation_store =
  cs_id :: string
  cs_name :: string

record score =
  sc_fused :: flt
  sc_dense :: "flt option"
  sc_bm25 :: "flt option"

record citation_provenance =
  cp_fetched_at :: string
  cp_content_hash :: string

record citation_block =
  cb_seq :: u32
  cb_kind :: "string option"
  cb_page :: "u32 option"

record citation_location =
  cl_span :: span
  cl_window_block_seqs :: "u32 list"

record citation =
  ci_chunk_id :: string
  ci_resource_id :: string
  ci_store :: citation_store
  ci_uri :: string
  ci_title :: "string option"
  ci_heading_path :: "string list"
  ci_block :: citation_block
  ci_seq_in_block :: u32
  ci_location :: citation_location
  ci_snippet :: string
  ci_score :: score
  ci_provenance :: citation_provenance
  ci_metadata :: metadata

record query_response =
  qr_citations :: "citation list"
  qr_total_candidates :: nat

section \<open>Reciprocal rank fusion\<close>

definition rrf_score :: "nat \<Rightarrow> flt \<Rightarrow> flt" where
  "rrf_score rank k = f64_div (Num 1) (f64_add (f64_add k (f64_of_nat rank)) (Num 1))"

record fused_chunk_entry =
  fe_chunk :: chunk_record
  fe_fused_score :: flt
  fe_dense_score :: "flt option"
  fe_bm25_score :: "flt option"

datatype leg = Dense | Bm25

type_synonym fkey = "string \<times> string"

definition fusion_key :: "chunk_record \<Rightarrow> fkey" where
  "fusion_key c = (cr_store_id c, cr_id c)"

text \<open>One result's contribution to its entry.\<close>

definition add_result :: "flt \<Rightarrow> leg \<Rightarrow> nat \<times> search_result \<Rightarrow> fused_chunk_entry \<Rightarrow> fused_chunk_entry" where
  "add_result k l rr e =
     (let e' = e\<lparr>fe_fused_score := f64_add (fe_fused_score e) (rrf_score (fst rr) k)\<rparr>
      in case l of
           Dense \<Rightarrow> e'\<lparr>fe_dense_score := Some (sr_score (snd rr))\<rparr>
         | Bm25 \<Rightarrow> e'\<lparr>fe_bm25_score := Some (sr_score (snd rr))\<rparr>)"

definition new_entry :: "search_result \<Rightarrow> fused_chunk_entry" where
  "new_entry r = \<lparr>fe_chunk = sr_chunk r, fe_fused_score = Num 0, fe_dense_score = None, fe_bm25_score = None\<rparr>"

definition add_leg_step ::
  "flt \<Rightarrow> leg \<Rightarrow> (fkey \<times> fused_chunk_entry) list \<Rightarrow> nat \<times> search_result \<Rightarrow>
   (fkey \<times> fused_chunk_entry) list" where
  "add_leg_step k l entries rr =
     (let key = fusion_key (sr_chunk (snd rr));
          e = (case map_of entries key of Some e \<Rightarrow> e | None \<Rightarrow> new_entry (snd rr))
      in AList.update key (add_result k l rr e) entries)"

definition add_leg ::
  "(fkey \<times> fused_chunk_entry) list \<Rightarrow> search_result list \<Rightarrow> flt \<Rightarrow> leg \<Rightarrow>
   (fkey \<times> fused_chunk_entry) list" where
  "add_leg entries results k l = foldl (add_leg_step k l) entries (enumerate 0 results)"

definition cmp_fused :: "fused_chunk_entry \<Rightarrow> fused_chunk_entry \<Rightarrow> ordering" where
  "cmp_fused a b =
     then_with (cmp_or_equal (fe_fused_score b) (fe_fused_score a))
       (then_with (ord_cmp (cr_store_id (fe_chunk a)) (cr_store_id (fe_chunk b)))
         (ord_cmp (cr_id (fe_chunk a)) (cr_id (fe_chunk b))))"

definition fused_entries :: "search_result list \<Rightarrow> search_result list \<Rightarrow> flt \<Rightarrow> (fkey \<times> fused_chunk_entry) list" where
  "fused_entries dense_results bm25_results k = add_leg (add_leg [] dense_results k Dense) bm25_results k Bm25"

definition rrf_fuse_global :: "search_result list \<Rightarrow> search_result list \<Rightarrow> flt \<Rightarrow> fused_chunk_entry list" where
  "rrf_fuse_global dense_results bm25_results k =
     sort_by cmp_fused (map snd (fused_entries dense_results bm25_results k))"

section \<open>Pooling and shaping\<close>

definition cmp_result :: "search_result \<Rightarrow> search_result \<Rightarrow> ordering" where
  "cmp_result a b =
     then_with (cmp_or_equal (sr_score b) (sr_score a))
       (then_with (ord_cmp (cr_store_id (sr_chunk a)) (cr_store_id (sr_chunk b)))
         (ord_cmp (cr_id (sr_chunk a)) (cr_id (sr_chunk b))))"

definition pool_leg_results :: "search_result list \<Rightarrow> search_result list" where
  "pool_leg_results results = sort_by cmp_result results"

definition retain_own_chunks :: "search_result list \<Rightarrow> store_handle \<Rightarrow> search_result list" where
  "retain_own_chunks results handle = filter (\<lambda>r. cr_store_id (sr_chunk r) = sh_id handle) results"

definition rerank_noop :: "fused_chunk_entry list \<Rightarrow> fused_chunk_entry list" where
  "rerank_noop results = results"

definition shape_citation :: "fused_chunk_entry \<Rightarrow> string \<Rightarrow> string \<Rightarrow> citation" where
  "shape_citation fused store_id store_name =
     (let c = fe_chunk fused
      in \<lparr>ci_chunk_id = cr_id c, ci_resource_id = cr_resource_id c,
          ci_store = \<lparr>cs_id = store_id, cs_name = store_name\<rparr>,
          ci_uri = cr_uri c, ci_title = metadata_title (cr_metadata c),
          ci_heading_path = cr_heading_path c,
          ci_block = \<lparr>cb_seq = cr_block_seq c, cb_kind = cr_block_kind c, cb_page = cr_page c\<rparr>,
          ci_seq_in_block = cr_seq_in_block c,
          ci_location = \<lparr>cl_span = cr_span c, cl_window_block_seqs = cr_window_block_seqs c\<rparr>,
          ci_snippet = cr_text c,
          ci_score = \<lparr>sc_fused = fe_fused_score fused, sc_dense = fe_dense_score fused,
                      sc_bm25 = fe_bm25_score fused\<rparr>,
          ci_provenance = \<lparr>cp_fetched_at = cr_fetched_at c, cp_content_hash = cr_content_hash c\<rparr>,
          ci_metadata = cr_metadata c\<rparr>)"

section \<open>The query\<close>

type_synonym embed_fn = "(string \<times> string list) list \<Rightarrow> error + flt list list list"

definition embed_query :: "embed_fn \<Rightarrow> string \<Rightarrow> error + flt list" where
  "embed_query emb query =
     and_then (emb [(query, [query])])
       (\<lambda>embedded. Inr (case embedded of (v # _) # _ \<Rightarrow> v | _ \<Rightarrow> []))"

definition search_store ::
  "store_handle \<Rightarrow> flt list \<Rightarrow> string \<Rightarrow> nat \<Rightarrow> metadata_filter list \<Rightarrow>
   error + (search_result list \<times> search_result list)" where
  "search_store handle qv qt leg_k filters =
     and_then (sh_dense handle qv leg_k filters) (\<lambda>dense.
       and_then (sh_bm25 handle qt leg_k filters) (\<lambda>bm25. Inr (dense, bm25)))"

text \<open>The fan-out loop's state: the two pools and the store names seen.\<close>

type_synonym pools = "search_result list \<times> search_result list \<times> (string \<times> string) list"

definition fan_out_step ::
  "flt list \<Rightarrow> string \<Rightarrow> nat \<Rightarrow> metadata_filter list \<Rightarrow> store_handle \<Rightarrow> pools \<Rightarrow> error + pools" where
  "fan_out_step qv qt leg_k filters handle ps =
     (case ps of (dense_pool, bm25_pool, names) \<Rightarrow>
        let names = AList.update (sh_id handle) (sh_name handle) names
        in and_then (search_store handle qv qt leg_k filters) (\<lambda>(dense, bm25).
             Inr (dense_pool @ retain_own_chunks dense handle,
                  bm25_pool @ retain_own_chunks bm25 handle, names)))"

definition empty_response :: query_response where
  "empty_response = \<lparr>qr_citations = [], qr_total_candidates = 0\<rparr>"

definition cite_entry :: "(string \<times> string) list \<Rightarrow> fused_chunk_entry \<Rightarrow> citation" where
  "cite_entry names entry =
     (let store_id = cr_store_id (fe_chunk entry)
      in shape_citation entry store_id (case map_of names store_id of Some n \<Rightarrow> n | None \<Rightarrow> []))"

definition query :: "store_handle list \<Rightarrow> embed_fn \<Rightarrow> query_request \<Rightarrow> error + query_response" where
  "query stores emb request =
     (if stores = [] then Inr empty_response
      else
        let leg_k = (case q_leg_k request of Some k \<Rightarrow> k | None \<Rightarrow> DEFAULT_LEG_K);
            top_n = (case q_top_n request of Some n \<Rightarrow> n | None \<Rightarrow> DEFAULT_TOP_N)
        in and_then (embed_query emb (q_query request)) (\<lambda>qv.
           and_then (try_fold (fan_out_step qv (q_query request) leg_k (q_filters request)) stores ([], [], []))
             (\<lambda>(dense_pool, bm25_pool, names).
                let fused = rrf_fuse_global (pool_leg_results dense_pool) (pool_leg_results bm25_pool) RRF_K;
                    total = length fused
                in if total = 0 then Inr empty_response
                   else Inr \<lparr>qr_citations = map (cite_entry names) (take top_n (rerank_noop fused)),
                             qr_total_candidates = total\<rparr>)))"

section \<open>What fusion computes\<close>

abbreviation result_key :: "search_result \<Rightarrow> fkey" where
  "result_key r \<equiv> fusion_key (sr_chunk r)"

abbreviation entry_key :: "fused_chunk_entry \<Rightarrow> fkey" where
  "entry_key e \<equiv> fusion_key (fe_chunk e)"

text \<open>A leg's results for one key, with their ranks.\<close>

definition hits :: "fkey \<Rightarrow> search_result list \<Rightarrow> (nat \<times> search_result) list" where
  "hits x results = filter (\<lambda>rr. result_key (snd rr) = x) (enumerate 0 results)"

lemma add_result_fields [simp]:
  "fe_chunk (add_result k l rr e) = fe_chunk e"
  "fe_fused_score (add_result k l rr e) = f64_add (fe_fused_score e) (rrf_score (fst rr) k)"
  "fe_dense_score (add_result k Dense rr e) = Some (sr_score (snd rr))"
  "fe_dense_score (add_result k Bm25 rr e) = fe_dense_score e"
  "fe_bm25_score (add_result k Bm25 rr e) = Some (sr_score (snd rr))"
  "fe_bm25_score (add_result k Dense rr e) = fe_bm25_score e"
  by (auto simp: add_result_def Let_def split: leg.split)

definition entry_or_new :: "fused_chunk_entry option \<Rightarrow> search_result \<Rightarrow> fused_chunk_entry" where
  "entry_or_new old r = (case old of Some e \<Rightarrow> e | None \<Rightarrow> new_entry r)"

lemma add_leg_lookup_gen:
  "map_of (foldl (add_leg_step k l) entries rrs) x =
     (case filter (\<lambda>rr. result_key (snd rr) = x) rrs of
        [] \<Rightarrow> map_of entries x
      | h # hs \<Rightarrow> Some (foldl (\<lambda>e rr. add_result k l rr e) (entry_or_new (map_of entries x) (snd h)) (h # hs)))"
proof (induction rrs arbitrary: entries)
  case (Cons rr rrs)
  let ?key = "result_key (snd rr)"
  let ?entries = "add_leg_step k l entries rr"
  have look: "map_of ?entries x =
      (if x = ?key then Some (add_result k l rr (entry_or_new (map_of entries x) (snd rr))) else map_of entries x)"
    by (simp add: add_leg_step_def Let_def map_of_update_key entry_or_new_def)
  show ?case
    using Cons [of ?entries]
    by (cases "filter (\<lambda>rr. result_key (snd rr) = x) rrs") (auto simp: look entry_or_new_def)
qed simp

lemma add_leg_lookup:
  "map_of (add_leg entries results k l) x =
     (case hits x results of
        [] \<Rightarrow> map_of entries x
      | h # hs \<Rightarrow> Some (foldl (\<lambda>e rr. add_result k l rr e) (entry_or_new (map_of entries x) (snd h)) (h # hs)))"
  by (simp add: add_leg_def add_leg_lookup_gen hits_def)

lemma add_leg_distinct: "distinct (map fst entries) \<Longrightarrow> distinct (map fst (add_leg entries results k l))"
proof -
  have "distinct (map fst entries) \<Longrightarrow> distinct (map fst (foldl (add_leg_step k l) entries rrs))" for rrs
    by (induction rrs arbitrary: entries) (auto simp: add_leg_step_def Let_def distinct_update)
  then show "distinct (map fst entries) \<Longrightarrow> ?thesis" by (simp add: add_leg_def)
qed

lemma fold_add_result:
  "fe_chunk (foldl (\<lambda>e rr. add_result k l rr e) e hs) = fe_chunk e"
  "fe_fused_score (foldl (\<lambda>e rr. add_result k l rr e) e hs) =
     foldl f64_add (fe_fused_score e) (map (\<lambda>rr. rrf_score (fst rr) k) hs)"
  "fe_dense_score (foldl (\<lambda>e rr. add_result k l rr e) e hs) =
     (if l = Dense \<and> hs \<noteq> [] then Some (sr_score (snd (last hs))) else fe_dense_score e)"
  "fe_bm25_score (foldl (\<lambda>e rr. add_result k l rr e) e hs) =
     (if l = Bm25 \<and> hs \<noteq> [] then Some (sr_score (snd (last hs))) else fe_bm25_score e)"
  by (induction hs arbitrary: e; cases l; simp)+

lemma hits_keys: "hits x results \<noteq> [] \<longleftrightarrow> x \<in> result_key ` set results"
proof -
  have "snd ` set (enumerate 0 results) = set results"
    by (metis image_set map_snd_enumerate)
  then show ?thesis by (force simp: hits_def filter_empty_conv)
qed

lemma hits_chunk: "rr \<in> set (hits x results) \<Longrightarrow> snd rr \<in> set results \<and> result_key (snd rr) = x"
proof -
  assume "rr \<in> set (hits x results)"
  moreover have "snd ` set (enumerate 0 results) = set results"
    by (metis image_set map_snd_enumerate)
  ultimately show ?thesis by (auto simp: hits_def)
qed

definition last_score :: "(nat \<times> search_result) list \<Rightarrow> flt option" where
  "last_score hs = (if hs = [] then None else Some (sr_score (snd (last hs))))"

text \<open>The entry of one key, over both legs.\<close>

lemma fused_lookup:
  assumes "map_of (fused_entries ds bs k) x = Some e"
  shows "entry_key e = x \<and> (\<exists>r \<in> set ds \<union> set bs. fe_chunk e = sr_chunk r) \<and>
    fe_fused_score e = foldl f64_add (Num 0) (map (\<lambda>rr. rrf_score (fst rr) k) (hits x ds @ hits x bs)) \<and>
    fe_dense_score e = last_score (hits x ds) \<and> fe_bm25_score e = last_score (hits x bs)"
proof -
  have hd_in: "snd h \<in> set rs \<and> result_key (snd h) = x" if "hits x rs = h # hs" for h hs rs
    using hits_chunk [of h x rs] that by simp
  show ?thesis
    using assms hd_in [of ds] hd_in [of bs]
    by (cases "hits x ds"; cases "hits x bs")
       (auto simp: fused_entries_def add_leg_lookup entry_or_new_def fold_add_result new_entry_def last_score_def)
qed

lemma fused_keys: "fst ` set (fused_entries ds bs k) = result_key ` set ds \<union> result_key ` set bs"
proof -
  have "map_of (fused_entries ds bs k) x \<noteq> None \<longleftrightarrow> x \<in> result_key ` set ds \<union> result_key ` set bs" for x
    using hits_keys [of x ds] hits_keys [of x bs]
    by (cases "hits x ds"; cases "hits x bs") (simp_all add: fused_entries_def add_leg_lookup)
  then show ?thesis
    by (auto simp flip: dom_map_of_conv_image_fst simp: dom_def)
qed

lemma fused_distinct: "distinct (map fst (fused_entries ds bs k))"
  by (simp add: fused_entries_def add_leg_distinct)

lemma fused_entry_keys: "map (\<lambda>p. entry_key (snd p)) (fused_entries ds bs k) = map fst (fused_entries ds bs k)"
proof (rule map_cong [OF refl])
  fix p assume "p \<in> set (fused_entries ds bs k)"
  then have "map_of (fused_entries ds bs k) (fst p) = Some (snd p)"
    using fused_distinct by (simp add: map_of_eq_Some_iff)
  then show "entry_key (snd p) = fst p" using fused_lookup by blast
qed

lemma fused_chunk_source:
  assumes "e \<in> set (rrf_fuse_global ds bs k)"
  shows "\<exists>r \<in> set ds \<union> set bs. fe_chunk e = sr_chunk r"
proof -
  from assms obtain x where "(x, e) \<in> set (fused_entries ds bs k)" by (auto simp: rrf_fuse_global_def)
  then have "map_of (fused_entries ds bs k) x = Some e"
    using fused_distinct by (simp add: map_of_eq_Some_iff)
  from fused_lookup [OF this] show ?thesis by blast
qed

text \<open>
  C31: Fusion keeps one entry per pair of store and chunk that either leg returned and no other, and
  the entry is the whole account of that chunk: its fused score adds, in order, the reciprocal-rank
  contribution of every rank it has in the dense leg and then in the BM25 leg, and its two leg
  scores are the ones its last hit in each leg carried, absent where the leg has none.
\<close>

theorem fusion_spec:
  fixes ds bs :: "search_result list"
  shows "let out = rrf_fuse_global ds bs k
   in distinct (map entry_key out) \<and>
      entry_key ` set out = result_key ` set ds \<union> result_key ` set bs \<and>
      (\<forall>e \<in> set out. (\<exists>r \<in> set ds \<union> set bs. fe_chunk e = sr_chunk r) \<and>
         fe_fused_score e = foldl f64_add (Num 0)
           (map (\<lambda>rr. rrf_score (fst rr) k) (hits (entry_key e) ds @ hits (entry_key e) bs)) \<and>
         fe_dense_score e = last_score (hits (entry_key e) ds) \<and>
         fe_bm25_score e = last_score (hits (entry_key e) bs))"
proof -
  let ?es = "map snd (fused_entries ds bs k)"
  have m: "mset (rrf_fuse_global ds bs k) = mset ?es" by (simp add: rrf_fuse_global_def)
  have k: "map entry_key ?es = map fst (fused_entries ds bs k)"
    using fused_entry_keys by (simp add: comp_def)
  have "distinct (map entry_key ?es)" unfolding k by (rule fused_distinct)
  then have d: "distinct (map entry_key (rrf_fuse_global ds bs k))"
    using m by (metis mset_map mset_eq_imp_distinct_iff)
  have s: "set (rrf_fuse_global ds bs k) = set ?es" using m by (metis set_mset_mset)
  have keys: "entry_key ` set (rrf_fuse_global ds bs k) = result_key ` set ds \<union> result_key ` set bs"
    unfolding s by (metis k fused_keys list.set_map)
  have "map_of (fused_entries ds bs k) (entry_key e) = Some e" if e: "e \<in> set (rrf_fuse_global ds bs k)" for e
  proof -
    from e s obtain x where x: "(x, e) \<in> set (fused_entries ds bs k)" by auto
    then have "map_of (fused_entries ds bs k) x = Some e"
      using fused_distinct by (simp add: map_of_eq_Some_iff)
    with fused_lookup show ?thesis by blast
  qed
  from fused_lookup [OF this] d keys show ?thesis by (simp add: Let_def)
qed

text \<open>Two results of store \<open>s\<close> for one leg and one of them again for the other.\<close>

definition demo_result :: "string \<Rightarrow> string \<Rightarrow> flt \<Rightarrow> search_result" where
  "demo_result i s x = \<lparr>sr_chunk = demo_chunk i ''d'' s, sr_score = x\<rparr>"

lemma demo_result_simps [simp]:
  "sr_chunk (demo_result i s x) = demo_chunk i ''d'' s" "sr_score (demo_result i s x) = x"
  by (simp_all add: demo_result_def)

lemma fusion_spec_witness:
  "let ds = [demo_result ''a'' ''s'' (Num 1), demo_result ''b'' ''s'' (Num 0)]; bs = [demo_result ''b'' ''s'' (Num 2)];
       out = rrf_fuse_global ds bs RRF_K
   in entry_key ` set out = {(''s'', ''a''), (''s'', ''b'')} \<and>
      (\<exists>e. e \<in> set out \<and> entry_key e = (''s'', ''b'') \<and>
         fe_fused_score e = foldl f64_add (Num 0) [rrf_score 1 RRF_K, rrf_score 0 RRF_K])"
proof -
  let ?ds = "[demo_result ''a'' ''s'' (Num 1), demo_result ''b'' ''s'' (Num 0)]"
  let ?bs = "[demo_result ''b'' ''s'' (Num 2)]"
  let ?out = "rrf_fuse_global ?ds ?bs RRF_K"
  note spec = fusion_spec [of ?ds ?bs RRF_K, unfolded Let_def]
  have keys: "entry_key ` set ?out = {(''s'', ''a''), (''s'', ''b'')}"
    unfolding conjunct1 [OF conjunct2 [OF spec]] by (simp add: fusion_key_def insert_commute)
  then have "(''s'', ''b'') \<in> entry_key ` set ?out" by simp
  then obtain e where e: "e \<in> set ?out" "entry_key e = (''s'', ''b'')" by (elim imageE) simp
  have "fe_fused_score e = foldl f64_add (Num 0)
      (map (\<lambda>rr. rrf_score (fst rr) RRF_K) (hits (entry_key e) ?ds @ hits (entry_key e) ?bs))"
    using bspec [OF conjunct2 [OF conjunct2 [OF spec]] e(1)] by (elim conjE)
  also have "map (\<lambda>rr. rrf_score (fst rr) RRF_K) (hits (entry_key e) ?ds @ hits (entry_key e) ?bs) =
      [rrf_score 1 RRF_K, rrf_score 0 RRF_K]"
    unfolding e(2) by (simp add: hits_def fusion_key_def)
  finally show ?thesis using keys e unfolding Let_def by blast
qed

section \<open>The order of results\<close>

text \<open>A contribution is a positive number that falls with the rank, so a fused score is a number.\<close>

lemma rrf_score_num: "\<exists>x > 0. rrf_score r RRF_K = Num x"
proof -
  have "0 \<le> rnd 53 (of_nat r :: rat)"
    using rnd_pos [of "of_nat r" 53] by (cases "r = 0") (auto simp: less_imp_le)
  then have a: "0 < rnd 53 (60 + rnd 53 (of_nat r))" by (intro rnd_pos) auto
  then have b: "0 < rnd 53 (rnd 53 (60 + rnd 53 (of_nat r)) + 1)" by (intro rnd_pos) auto
  then have "0 < rnd 53 (1 / rnd 53 (rnd 53 (60 + rnd 53 (of_nat r)) + 1))" by (intro rnd_pos) auto
  with b show ?thesis by (simp add: rrf_score_def RRF_K_def f64_of_nat_def)
qed

text \<open>
  A better rank never contributes less: in double precision, with the code's constant, the
  contribution of a rank is a positive number, and that of a later rank is at most that of an
  earlier one.
\<close>

theorem rrf_score_antitone:
  assumes "r \<le> r'"
  shows "\<exists>x y. rrf_score r RRF_K = Num x \<and> rrf_score r' RRF_K = Num y \<and> 0 < y \<and> y \<le> x"
proof -
  define d where "d n = rnd 53 (rnd 53 (60 + rnd 53 (of_nat n :: rat)) + 1)" for n
  have nn: "0 \<le> rnd 53 (of_nat n :: rat)" for n
    using rnd_pos [of "of_nat n" 53] by (cases "n = 0") (auto simp: less_imp_le)
  have pos: "0 < rnd 53 (60 + rnd 53 (of_nat n :: rat))" "0 < d n" for n
  proof -
    show a: "0 < rnd 53 (60 + rnd 53 (of_nat n :: rat))" using nn [of n] by (intro rnd_pos) auto
    then show "0 < d n" unfolding d_def by (intro rnd_pos) auto
  qed
  have score: "rrf_score n RRF_K = Num (rnd 53 (1 / d n))" for n
    using pos [of n] by (simp add: rrf_score_def RRF_K_def f64_of_nat_def d_def)
  have "rnd 53 (of_nat r :: rat) \<le> rnd 53 (of_nat r')" using assms by (intro rnd_mono) auto
  then have "rnd 53 (60 + rnd 53 (of_nat r :: rat)) \<le> rnd 53 (60 + rnd 53 (of_nat r'))"
    using nn [of r] by (intro rnd_mono) auto
  then have "d r \<le> d r'" using pos(1) [of r] unfolding d_def by (intro rnd_mono) auto
  then have "1 / d r' \<le> 1 / d r" using pos(2) [of r] by (intro divide_left_mono) (auto simp: pos)
  then have "rnd 53 (1 / d r') \<le> rnd 53 (1 / d r)" using pos(2) [of r'] by (intro rnd_mono) (auto simp: less_imp_le)
  moreover have "0 < rnd 53 (1 / d r')" using pos(2) [of r'] by (intro rnd_pos) auto
  ultimately show ?thesis using score by auto
qed

lemma rrf_score_antitone_witness:
  "\<exists>x y. rrf_score 0 RRF_K = Num x \<and> rrf_score 50 RRF_K = Num y \<and> 0 < y \<and> y \<le> x"
  by (rule rrf_score_antitone) simp

lemma fold_score_num: "\<exists>y. foldl f64_add (Num x) (map (\<lambda>rr. rrf_score (fst rr) RRF_K) hs) = Num y"
proof (induction hs arbitrary: x)
  case (Cons h hs)
  then show ?case using rrf_score_num [of "fst h"] by auto
qed simp

lemma fused_num:
  assumes "e \<in> set (map snd (fused_entries ds bs RRF_K))"
  shows "fe_fused_score e \<noteq> NaN"
proof -
  from assms obtain x where "(x, e) \<in> set (fused_entries ds bs RRF_K)" by auto
  then have "map_of (fused_entries ds bs RRF_K) x = Some e"
    using fused_distinct by (simp add: map_of_eq_Some_iff)
  from fused_lookup [OF this] fold_score_num show ?thesis by (metis flt.distinct(3))
qed

text \<open>
  The sorting contract on the two orders of the code: entries that are numbers and have distinct
  keys tie only with themselves.
\<close>

text \<open>A descending score, then the key: the shape both comparisons have.\<close>

definition ranked_cmp :: "('a \<Rightarrow> flt) \<Rightarrow> ('a \<Rightarrow> string) \<Rightarrow> ('a \<Rightarrow> string) \<Rightarrow> 'a \<Rightarrow> 'a \<Rightarrow> ordering" where
  "ranked_cmp sc k1 k2 a b =
     then_with (cmp_or_equal (sc b) (sc a)) (then_with (ord_cmp (k1 a) (k1 b)) (ord_cmp (k2 a) (k2 b)))"

definition rankable :: "('a \<Rightarrow> flt) \<Rightarrow> ('a \<Rightarrow> string) \<Rightarrow> ('a \<Rightarrow> string) \<Rightarrow> 'a set \<Rightarrow> bool" where
  "rankable sc k1 k2 X \<longleftrightarrow> (\<forall>x \<in> X. sc x \<noteq> NaN) \<and> inj_on (\<lambda>x. (k1 x, k2 x)) X"

lemma then_with_le: "then_with a b \<noteq> Gt \<longleftrightarrow> a = Lt \<or> (a = Eq \<and> b \<noteq> Gt)"
  by (cases a) auto

lemma ranked_strict: "rankable sc k1 k2 X \<Longrightarrow> strict_comparator (ranked_cmp sc k1 k2) X"
proof (unfold_locales, goal_cases)
  case (1 x y)
  then show ?case
    by (simp add: ranked_cmp_def cmp_simps cmp_or_equal_swap [of "sc x" "sc y"] ord_cmp_rev)
next
  case (2 x y z)
  then have n: "sc x \<noteq> NaN" "sc y \<noteq> NaN" "sc z \<noteq> NaN" by (auto simp: rankable_def)
  have t: "cmp_or_equal (sc z) (sc x) \<noteq> Gt"
    using cmp_or_equal_trans [OF n(3,2,1)] 2(5,6) by (auto simp: ranked_cmp_def then_with_le)
  have le: "cmp_or_equal (sc z) (sc x) = Eq \<Longrightarrow> cmp_or_equal (sc y) (sc x) = Eq \<and> cmp_or_equal (sc z) (sc y) = Eq"
  proof -
    assume "cmp_or_equal (sc z) (sc x) = Eq"
    then have zx: "sc z = sc x" using n by (simp add: cmp_or_equal_Eq)
    have "cmp_or_equal (sc y) (sc x) \<noteq> Gt" "cmp_or_equal (sc x) (sc y) \<noteq> Gt"
      using 2(5,6) zx by (auto simp: ranked_cmp_def then_with_le)
    then have "cmp_or_equal (sc y) (sc x) = Eq"
      using cmp_or_equal_swap [of "sc y" "sc x"] by (cases "cmp_or_equal (sc x) (sc y)") auto
    then show ?thesis using n zx by (simp add: cmp_or_equal_Eq)
  qed
  show ?case
  proof (cases "cmp_or_equal (sc z) (sc x)")
    case Eq
    with le 2(5,6) show ?thesis
      by (auto simp: ranked_cmp_def then_with_le cmp_simps)
  qed (use t in \<open>auto simp: ranked_cmp_def\<close>)
next
  case (3 x y)
  then have "k1 x = k1 y" "k2 x = k2 y" by (simp_all add: ranked_cmp_def cmp_simps)
  with 3 show ?case by (auto simp: rankable_def inj_on_def)
qed

lemma cmp_fused_ranked:
  "cmp_fused = ranked_cmp fe_fused_score (\<lambda>e. cr_store_id (fe_chunk e)) (\<lambda>e. cr_id (fe_chunk e))"
  by (rule ext)+ (simp add: cmp_fused_def ranked_cmp_def)

lemma cmp_result_ranked:
  "cmp_result = ranked_cmp sr_score (\<lambda>r. cr_store_id (sr_chunk r)) (\<lambda>r. cr_id (sr_chunk r))"
  by (rule ext)+ (simp add: cmp_result_def ranked_cmp_def)

lemma fused_rankable:
  "rankable fe_fused_score (\<lambda>e. cr_store_id (fe_chunk e)) (\<lambda>e. cr_id (fe_chunk e))
     (set (map snd (fused_entries ds bs RRF_K)))"
proof -
  have "distinct (map entry_key (map snd (fused_entries ds bs RRF_K)))"
    using fused_distinct [of ds bs RRF_K] by (simp only: map_map comp_def fused_entry_keys)
  then have "inj_on entry_key (set (map snd (fused_entries ds bs RRF_K)))"
    by (simp only: distinct_map)
  then show ?thesis
    using fused_num by (auto simp: rankable_def fusion_key_def)
qed

interpretation fuse: strict_comparator cmp_fused "set (map snd (fused_entries ds bs RRF_K))" for ds bs
  unfolding cmp_fused_ranked by (rule ranked_strict [OF fused_rankable])

lemma fused_sorted: "sorted_by cmp_fused (rrf_fuse_global ds bs RRF_K)"
  unfolding rrf_fuse_global_def by (rule fuse.sorted_sort_by [where ds = ds and bs = bs]) simp

text \<open>
  The fused list is in descending order of score with ties broken by store and then by chunk,
  and this determines it: whatever order the hash map hands its entries out in, sorting them gives
  the same list.
\<close>

theorem fused_order:
  fixes ds bs :: "search_result list"
  shows "sorted_by cmp_fused (rrf_fuse_global ds bs RRF_K) \<and>
    (\<forall>es. mset es = mset (map snd (fused_entries ds bs RRF_K)) \<longrightarrow>
       sort_by cmp_fused es = rrf_fuse_global ds bs RRF_K)"
proof (intro conjI allI impI)
  show "sorted_by cmp_fused (rrf_fuse_global ds bs RRF_K)"
    by (rule fused_sorted)
  fix es assume "mset es = mset (map snd (fused_entries ds bs RRF_K))"
  then show "sort_by cmp_fused es = rrf_fuse_global ds bs RRF_K"
    unfolding rrf_fuse_global_def by (metis fuse.sort_by_perm [where ds = ds and bs = bs] order_refl set_mset_mset)
qed

lemma fused_order_witness:
  "let ds = [demo_result ''a'' ''s'' (Num 1), demo_result ''b'' ''s'' (Num 0)]
   in sort_by cmp_fused (rev (map snd (fused_entries ds [] RRF_K))) = rrf_fuse_global ds [] RRF_K"
  unfolding Let_def using fused_order [of "[demo_result ''a'' ''s'' (Num 1), demo_result ''b'' ''s'' (Num 0)]" "[]"]
  by (metis mset_rev)

section \<open>The query over several stores\<close>

definition store_ok :: "flt list \<Rightarrow> string \<Rightarrow> nat \<Rightarrow> metadata_filter list \<Rightarrow> store_handle \<Rightarrow> bool" where
  "store_ok qv qt k fs h \<longleftrightarrow> (\<exists>d b. sh_dense h qv k fs = Inr d \<and> sh_bm25 h qt k fs = Inr b)"

definition own_dense :: "flt list \<Rightarrow> nat \<Rightarrow> metadata_filter list \<Rightarrow> store_handle \<Rightarrow> search_result list" where
  "own_dense qv k fs h = (case sh_dense h qv k fs of Inr r \<Rightarrow> retain_own_chunks r h | Inl e \<Rightarrow> [])"

definition own_bm25 :: "string \<Rightarrow> nat \<Rightarrow> metadata_filter list \<Rightarrow> store_handle \<Rightarrow> search_result list" where
  "own_bm25 qt k fs h = (case sh_bm25 h qt k fs of Inr r \<Rightarrow> retain_own_chunks r h | Inl e \<Rightarrow> [])"

definition add_names :: "store_handle list \<Rightarrow> (string \<times> string) list \<Rightarrow> (string \<times> string) list" where
  "add_names stores names = foldl (\<lambda>n h. AList.update (sh_id h) (sh_name h) n) names stores"

lemma fan_out_Inr:
  "try_fold (fan_out_step qv qt k fs) stores (dp, bp, nm) = Inr ps \<longleftrightarrow>
     list_all (store_ok qv qt k fs) stores \<and>
     ps = (dp @ concat (map (own_dense qv k fs) stores), bp @ concat (map (own_bm25 qt k fs) stores),
           add_names stores nm)"
proof (induction stores arbitrary: dp bp nm)
  case (Cons h stores)
  show ?case
  proof (cases "store_ok qv qt k fs h")
    case True
    then obtain d b where "sh_dense h qv k fs = Inr d" "sh_bm25 h qt k fs = Inr b"
      by (auto simp: store_ok_def)
    then show ?thesis
      using Cons True by (simp add: fan_out_step_def search_store_def own_dense_def own_bm25_def add_names_def)
  next
    case False
    then show ?thesis
      by (auto simp: fan_out_step_def search_store_def store_ok_def and_then_def split: sum.splits)
  qed
qed (auto simp: add_names_def)

lemma names_lookup:
  "distinct (map sh_id stores) \<Longrightarrow>
   map_of (add_names stores nm) i =
     (case find (\<lambda>h. sh_id h = i) stores of Some h \<Rightarrow> Some (sh_name h) | None \<Rightarrow> map_of nm i)"
proof (induction stores arbitrary: nm)
  case (Cons h stores)
  have "find (\<lambda>h'. sh_id h' = sh_id h) stores = None" using Cons.prems by (force simp: find_None_iff image_iff)
  with Cons show ?case by (auto simp: add_names_def map_of_update_key split: option.split)
qed (simp add: add_names_def)

lemma find_by_id: "h \<in> set hs \<Longrightarrow> distinct (map f hs) \<Longrightarrow> find (\<lambda>x. f x = f h) hs = Some h"
  by (induction hs) auto

lemma find_perm:
  assumes "mset xs = mset ys" "distinct (map f xs)"
  shows "find (\<lambda>x. f x = i) xs = find (\<lambda>x. f x = i) ys"
proof -
  have s: "set xs = set ys" using assms(1) by (metis set_mset_mset)
  have inj: "x = y" if "x \<in> set xs" "y \<in> set xs" "f x = f y" for x y
    using assms(2) that by (auto simp: distinct_map inj_on_def)
  show ?thesis
  proof (cases "find (\<lambda>x. f x = i) xs")
    case None
    moreover from None s have "find (\<lambda>x. f x = i) ys = None" by (simp add: find_None_iff)
    ultimately show ?thesis by simp
  next
    case (Some x)
    then have x: "x \<in> set xs" "f x = i" by (auto simp: find_Some_iff)
    have "find (\<lambda>x. f x = i) ys \<noteq> None" using x s by (auto simp: find_None_iff)
    then obtain y where y: "find (\<lambda>x. f x = i) ys = Some y" by auto
    then have "y \<in> set ys" "f y = i" by (auto simp: find_Some_iff)
    with inj x s y Some show ?thesis by metis
  qed
qed

text \<open>The outcome of a query with at least one store, once the query text is embedded.\<close>

definition answer :: "store_handle list \<Rightarrow> flt list \<Rightarrow> query_request \<Rightarrow> query_response" where
  "answer stores qv request =
     (let k = (case q_leg_k request of Some k \<Rightarrow> k | None \<Rightarrow> DEFAULT_LEG_K);
          top_n = (case q_top_n request of Some n \<Rightarrow> n | None \<Rightarrow> DEFAULT_TOP_N);
          fused = rrf_fuse_global
            (pool_leg_results (concat (map (own_dense qv k (q_filters request)) stores)))
            (pool_leg_results (concat (map (own_bm25 (q_query request) k (q_filters request)) stores))) RRF_K
      in \<lparr>qr_citations = map (cite_entry (add_names stores [])) (take top_n fused),
          qr_total_candidates = length fused\<rparr>)"

definition stores_ok :: "store_handle list \<Rightarrow> flt list \<Rightarrow> query_request \<Rightarrow> bool" where
  "stores_ok stores qv request \<longleftrightarrow>
     list_all (store_ok qv (q_query request) (case q_leg_k request of Some k \<Rightarrow> k | None \<Rightarrow> DEFAULT_LEG_K)
       (q_filters request)) stores"

lemma query_Inr:
  assumes "stores \<noteq> []"
  shows "query stores emb request = Inr resp \<longleftrightarrow>
    (\<exists>qv. embed_query emb (q_query request) = Inr qv \<and> stores_ok stores qv request \<and> resp = answer stores qv request)"
  using assms
  by (auto simp: query_def and_then_eq_Inr fan_out_Inr stores_ok_def answer_def rerank_noop_def
      empty_response_def Let_def cong: option.case_cong split: if_splits prod.splits)

lemma keys_split:
  assumes d: "distinct (map sh_id stores)"
    and own: "\<And>h r. h \<in> set stores \<Longrightarrow> r \<in> set (g h) \<Longrightarrow> cr_store_id (sr_chunk r) = sh_id h"
    and inj: "\<And>h. h \<in> set stores \<Longrightarrow> inj_on (\<lambda>r. cr_id (sr_chunk r)) (set (g h))"
  shows "inj_on (\<lambda>r. (cr_store_id (sr_chunk r), cr_id (sr_chunk r))) (set (concat (map g stores)))"
proof (rule inj_onI)
  fix r r' assume r: "r \<in> set (concat (map g stores))" and r': "r' \<in> set (concat (map g stores))"
    and eq: "(cr_store_id (sr_chunk r), cr_id (sr_chunk r)) = (cr_store_id (sr_chunk r'), cr_id (sr_chunk r'))"
  from r obtain h where h: "h \<in> set stores" "r \<in> set (g h)" by auto
  from r' obtain h' where h': "h' \<in> set stores" "r' \<in> set (g h')" by auto
  have "sh_id h = sh_id h'" using own [OF h] own [OF h'] eq by simp
  then have "h' = h" using d h(1) h'(1) by (auto simp: distinct_map inj_on_def)
  with inj [OF h(1)] h h' eq show "r = r'" by (auto dest: inj_onD)
qed

text \<open>What a leg must return for its pool to be ordered: numbers, and no chunk twice.\<close>

definition leg_results_ok :: "search_result list \<Rightarrow> bool" where
  "leg_results_ok rs \<longleftrightarrow> (\<forall>r \<in> set rs. sr_score r \<noteq> NaN) \<and> inj_on (\<lambda>r. cr_id (sr_chunk r)) (set rs)"

lemma own_dense_store: "r \<in> set (own_dense qv k fs h) \<Longrightarrow> cr_store_id (sr_chunk r) = sh_id h"
  by (auto simp: own_dense_def retain_own_chunks_def split: sum.splits)

lemma own_bm25_store: "r \<in> set (own_bm25 qt k fs h) \<Longrightarrow> cr_store_id (sr_chunk r) = sh_id h"
  by (auto simp: own_bm25_def retain_own_chunks_def split: sum.splits)

lemma mset_concat_map: "mset (concat (map g xs)) = (\<Sum>x \<in># mset xs. mset (g x))"
  by (induction xs) auto

lemma pool_perm:
  assumes "mset stores = mset stores'" "distinct (map sh_id stores)"
    and own: "\<And>h r. r \<in> set (g h) \<Longrightarrow> cr_store_id (sr_chunk r) = sh_id h"
    and ok: "\<forall>h \<in> set stores. leg_results_ok (g h)"
  shows "pool_leg_results (concat (map g stores)) = pool_leg_results (concat (map g stores'))"
proof -
  let ?X = "set (concat (map g stores))"
  have "rankable sr_score (\<lambda>r. cr_store_id (sr_chunk r)) (\<lambda>r. cr_id (sr_chunk r)) ?X"
    unfolding rankable_def
  proof
    show "\<forall>r \<in> ?X. sr_score r \<noteq> NaN" using ok by (auto simp: leg_results_ok_def)
    show "inj_on (\<lambda>r. (cr_store_id (sr_chunk r), cr_id (sr_chunk r))) ?X"
      by (rule keys_split [OF assms(2)]) (use own ok in \<open>auto simp: leg_results_ok_def\<close>)
  qed
  then have sc: "strict_comparator cmp_result ?X"
    unfolding cmp_result_ranked by (rule ranked_strict)
  have "mset (concat (map g stores)) = mset (concat (map g stores'))"
    by (simp only: mset_concat_map assms(1))
  then show ?thesis
    unfolding pool_leg_results_def by (rule strict_comparator.sort_by_perm [OF sc order_refl])
qed

text \<open>
  C32: The order in which stores are listed does not matter: for stores with distinct ids whose legs
  return numbers and no chunk twice, listing them in another order gives the very same answer.
\<close>

theorem query_store_order:
  assumes "mset stores = mset stores'" "distinct (map sh_id stores)"
    and "\<forall>h \<in> set stores. \<forall>qv k. leg_results_ok (own_dense qv k (q_filters request) h) \<and>
           leg_results_ok (own_bm25 (q_query request) k (q_filters request) h)"
    and "query stores emb request = Inr resp"
  shows "query stores' emb request = Inr resp"
proof (cases "stores = []")
  case True
  then show ?thesis using assms by simp
next
  case False
  then have ne: "stores' \<noteq> []" using assms(1) by auto
  have s: "set stores = set stores'" using assms(1) by (metis set_mset_mset)
  from assms(4) False obtain qv where qv: "embed_query emb (q_query request) = Inr qv"
      "stores_ok stores qv request" "resp = answer stores qv request"
    by (auto simp: query_Inr)
  have "stores_ok stores' qv request"
    using qv(2) s by (simp add: stores_ok_def list_all_iff)
  moreover have "answer stores qv request = answer stores' qv request"
  proof -
    let ?k = "case q_leg_k request of Some k \<Rightarrow> k | None \<Rightarrow> DEFAULT_LEG_K"
    have "map_of (add_names stores []) i = map_of (add_names stores' []) i" for i
      using names_lookup [OF assms(2)] names_lookup [of stores'] find_perm [OF assms(1,2)] assms(1,2)
      by (metis mset_map mset_eq_imp_distinct_iff)
    then have "cite_entry (add_names stores []) = cite_entry (add_names stores' [])"
      by (intro ext) (simp add: cite_entry_def)
    moreover have "pool_leg_results (concat (map (own_dense qv ?k (q_filters request)) stores)) =
        pool_leg_results (concat (map (own_dense qv ?k (q_filters request)) stores'))"
      by (rule pool_perm [OF assms(1,2) own_dense_store]) (use assms(3) in auto)
    moreover have "pool_leg_results (concat (map (own_bm25 (q_query request) ?k (q_filters request)) stores)) =
        pool_leg_results (concat (map (own_bm25 (q_query request) ?k (q_filters request)) stores'))"
      by (rule pool_perm [OF assms(1,2) own_bm25_store]) (use assms(3) in auto)
    ultimately show ?thesis by (simp add: answer_def)
  qed
  ultimately show ?thesis using qv ne by (auto simp: query_Inr)
qed

text \<open>A handle over an in-memory store, with a scoring function per leg.\<close>

definition fake_handle ::
  "(flt list \<Rightarrow> flt list \<Rightarrow> flt) \<Rightarrow> (string \<Rightarrow> string \<Rightarrow> flt) \<Rightarrow> string \<Rightarrow> string \<Rightarrow> fake_store \<Rightarrow> store_handle" where
  "fake_handle cosine score i name fs =
     \<lparr>sh_id = i, sh_name = name,
      sh_dense = (\<lambda>qv k f. Inr (fake_dense_search cosine qv k f fs)),
      sh_bm25 = (\<lambda>qt k f. Inr (fake_bm25_search score qt k f fs))\<rparr>"

definition demo_handle :: "string \<Rightarrow> store_handle" where
  "demo_handle i = fake_handle (\<lambda>_ _. Num 1) (\<lambda>_ _. Num 1) i i (fake_new\<lparr>fs_chunks := [demo_chunk ''c'' ''d'' i]\<rparr>)"

definition demo_request :: query_request where
  "demo_request = \<lparr>q_query = ''text'', q_leg_k = None, q_top_n = None, q_filters = []\<rparr>"

lemma demo_legs:
  "own_dense qv k fs (demo_handle i) = take k (filter (\<lambda>r. passes_filters (sr_chunk r) fs) [demo_result ''c'' i (Num 1)])"
  "own_bm25 qt k fs (demo_handle i) = take k (filter (\<lambda>r. passes_filters (sr_chunk r) fs) [demo_result ''c'' i (Num 1)])"
  by (cases k; simp add: own_dense_def own_bm25_def demo_handle_def fake_handle_def fake_dense_search_def
      fake_bm25_search_def retain_own_chunks_def demo_result_def positive_def ord_cmp_def)+

lemma demo_query: "\<exists>resp. query [demo_handle ''s'', demo_handle ''t''] (\<lambda>_. Inr [[[Num 1]]]) demo_request = Inr resp"
  by (simp add: query_Inr embed_query_def stores_ok_def store_ok_def demo_handle_def fake_handle_def)

lemma query_store_order_witness:
  "query [demo_handle ''s'', demo_handle ''t''] (\<lambda>_. Inr [[[Num 1]]]) demo_request =
   query [demo_handle ''t'', demo_handle ''s''] (\<lambda>_. Inr [[[Num 1]]]) demo_request"
proof -
  obtain resp where r: "query [demo_handle ''s'', demo_handle ''t''] (\<lambda>_. Inr [[[Num 1]]]) demo_request = Inr resp"
    using demo_query by blast
  have "leg_results_ok (take k (filter P [demo_result ''c'' i (Num 1)]))" for k P i
    by (cases k) (simp_all add: leg_results_ok_def)
  then show ?thesis
    using query_store_order [OF _ _ _ r, of "[demo_handle ''t'', demo_handle ''s'']"] r
    by (simp add: demo_legs del: filter.simps) (simp add: demo_handle_def fake_handle_def)
qed



end
