(* ===== verification/StrOps.thy ===== *)
theory StrOps
  imports RString
begin

text \<open>
  The string operations of the standard library the chunkers use, on the UTF-8 bytes of a \<open>str\<close>:
  characters and their offsets, lines, words and separators. \<open>utf8\<close> is the part of the validity of
  a \<open>str\<close> the code relies on: every character is a lead byte with the continuation bytes the lead
  byte announces.
\<close>

section \<open>Characters\<close>

function chars :: "string \<Rightarrow> string list" where
  "chars [] = []"
| "chars (c # s) = (c # takeWhile is_cont s) # chars (dropWhile is_cont s)"
  by pat_completeness auto
termination
  by (relation "measure length") (simp_all add: length_dropWhile_le le_imp_less_Suc)

text \<open>\<open>str::char_indices\<close>: each character with the offset of its first byte.\<close>

fun indices_from :: "nat \<Rightarrow> string list \<Rightarrow> (nat \<times> string) list" where
  "indices_from i [] = []"
| "indices_from i (c # cs) = (i, c) # indices_from (i + length c) cs"

definition char_indices :: "string \<Rightarrow> (nat \<times> string) list" where
  "char_indices s = indices_from 0 (chars s)"

text \<open>The number of bytes of a character, from its lead byte.\<close>

definition char_width :: "char \<Rightarrow> nat" where
  "char_width c = (let n = (of_char c :: nat) in
     if n < 128 then 1 else if n < 224 then 2 else if n < 240 then 3 else 4)"

definition utf8 :: "string \<Rightarrow> bool" where
  "utf8 s \<longleftrightarrow> (\<forall>c \<in> set (chars s). \<not> is_cont (hd c) \<and> length c = char_width (hd c))"

text \<open>\<open>char::is_whitespace\<close>.\<close>

definition is_whitespace :: "string \<Rightarrow> bool" where
  "is_whitespace c \<longleftrightarrow> c \<in> set white_space"

lemma concat_chars [simp]: "concat (chars s) = s"
  by (induction s rule: chars.induct) auto

lemma chars_Nil_iff [simp]: "chars s = [] \<longleftrightarrow> s = []"
  by (cases s) auto

lemma chars_nonempty: "c \<in> set (chars s) \<Longrightarrow> c \<noteq> []"
  by (induction s rule: chars.induct) auto

definition starts :: "string \<Rightarrow> bool" where
  "starts s \<longleftrightarrow> s = [] \<or> \<not> is_cont (hd s)"

lemma starts_Nil [simp]: "starts []"
  by (simp add: starts_def)

lemma starts_Cons [simp]: "starts (c # s) \<longleftrightarrow> \<not> is_cont c"
  by (simp add: starts_def)

lemma starts_append: "starts a \<Longrightarrow> starts b \<Longrightarrow> starts (a @ b)"
  by (cases a) auto

lemma starts_dropWhile [simp]: "starts (dropWhile is_cont s)"
  by (induction s) auto

lemma chars_append:
  assumes "starts b"
  shows "chars (a @ b) = chars a @ chars b"
  using assms
proof (induction a rule: chars.induct)
  case (2 c s)
  show ?case
  proof (cases "dropWhile is_cont s = []")
    case True
    then have all: "\<forall>x \<in> set s. is_cont x" by (simp add: dropWhile_eq_Nil_conv)
    then have w: "takeWhile is_cont s = s" by (simp add: takeWhile_eq_all_conv)
    show ?thesis using all True 2(2) by (cases b) (auto simp: dropWhile_append takeWhile_append w)
  next
    case False
    then have "\<exists>x \<in> set s. \<not> is_cont x" by (simp add: dropWhile_eq_Nil_conv)
    then have "dropWhile is_cont (s @ b) = dropWhile is_cont s @ b"
        "takeWhile is_cont (s @ b) = takeWhile is_cont s"
      by (auto simp: dropWhile_append takeWhile_append)
    then show ?thesis using 2 by simp
  qed
qed simp

lemma starts_concat: "\<forall>c \<in> set cs. starts c \<Longrightarrow> starts (concat cs)"
  by (induction cs) (auto intro: starts_append)

lemma chars_concat:
  "\<forall>c \<in> set cs. starts c \<Longrightarrow> chars (concat cs) = concat (map chars cs)"
proof (induction cs)
  case (Cons c cs)
  then show ?case using starts_concat [of cs] by (simp add: chars_append)
qed simp

lemma chars_single:
  assumes "c \<in> set (chars s)" "\<not> is_cont (hd c)"
  shows "chars c = [c]"
  using assms
proof (induction s rule: chars.induct)
  case (2 x s)
  then show ?case
    by (auto simp: dropWhile_eq_Nil_conv takeWhile_eq_all_conv dest: set_takeWhileD)
qed simp

section \<open>Valid strings\<close>

lemma utf8_Nil [simp]: "utf8 []"
  by (simp add: utf8_def)

lemma utf8_starts: "utf8 s \<Longrightarrow> starts s"
  by (cases s) (auto simp: utf8_def)

lemma utf8_append: "utf8 a \<Longrightarrow> utf8 b \<Longrightarrow> utf8 (a @ b)"
  using chars_append [OF utf8_starts, of b a] by (auto simp: utf8_def)

lemma utf8_appendD:
  assumes "utf8 (a @ b)" "starts b"
  shows "utf8 a" "utf8 b"
  using assms by (auto simp: utf8_def chars_append)

lemma utf8_concat_chars:
  assumes "utf8 s" "set cs \<subseteq> set (chars s)"
  shows "utf8 (concat cs)" "chars (concat cs) = cs"
proof -
  have one: "chars c = [c]" "\<not> is_cont (hd c)" "c \<noteq> []" if "c \<in> set cs" for c
  proof -
    have "c \<in> set (chars s)" using that assms(2) by blast
    then show "\<not> is_cont (hd c)" "c \<noteq> []" using assms(1) chars_nonempty by (auto simp: utf8_def)
    then show "chars c = [c]" using \<open>c \<in> set (chars s)\<close> by (intro chars_single)
  qed
  then have "\<forall>c \<in> set cs. starts c" by (auto simp: starts_def)
  then have "chars (concat cs) = concat (map chars cs)" by (rule chars_concat)
  also have "map chars cs = map (\<lambda>c. [c]) cs" using one(1) by simp
  finally show "chars (concat cs) = cs" by simp
  then show "utf8 (concat cs)" using assms by (auto simp: utf8_def)
qed

lemma chars_cont_tail: "c \<in> set (chars s) \<Longrightarrow> x \<in> set (tl c) \<Longrightarrow> is_cont x"
  by (induction s rule: chars.induct) (auto dest: set_takeWhileD)

text \<open>A valid string counts its characters by their lead bytes.\<close>

lemma char_count_chars:
  assumes "utf8 s"
  shows "char_count s = length (chars s)"
proof -
  have "length (filter (\<lambda>c. \<not> is_cont c) c) = 1" if c: "c \<in> set (chars s)" for c
  proof -
    have "filter (\<lambda>c. \<not> is_cont c) (tl c) = []"
      using chars_cont_tail [OF c] by (auto simp: filter_empty_conv)
    moreover have "\<not> is_cont (hd c)" using assms c by (auto simp: utf8_def)
    ultimately show ?thesis using chars_nonempty [OF c] by (cases c) auto
  qed
  then have "length (filter (\<lambda>c. \<not> is_cont c) (concat cs)) = length cs" if "set cs \<subseteq> set (chars s)" for cs
    using that by (induction cs) auto
  from this [of "chars s"] show ?thesis by (simp add: char_count_def)
qed

section \<open>Slices\<close>

text \<open>The parts of a string cut at character boundaries.\<close>

lemma boundary_append: "starts b \<Longrightarrow> is_char_boundary (a @ b) (length a)"
  by (cases b) (auto simp: is_char_boundary_def nth_append)

lemma slice_middle:
  assumes "starts b" "starts c"
  shows "str_slice (a @ b @ c) (length a) (length a + length b) = Some b"
proof -
  have "is_char_boundary ((a @ b) @ c) (length (a @ b))"
    using assms(2) by (rule boundary_append)
  moreover have "is_char_boundary (a @ (b @ c)) (length a)"
    using assms by (intro boundary_append starts_append)
  ultimately show ?thesis by (simp add: str_slice_def)
qed

lemma slice_suffix:
  assumes "starts b"
  shows "str_slice (a @ b) (length a) (length a + length b) = Some b"
  using slice_middle [OF assms, of "[]" a] by simp

lemma slice_prefix:
  assumes "starts c"
  shows "str_slice (b @ c) 0 (length b) = Some b"
  using assms boundary_append [of c b] by (simp add: str_slice_def)

section \<open>Lines, words and separators\<close>

text \<open>\<open>str::split_inclusive('\textbackslash n')\<close>: the pieces end with their line feed.\<close>

fun split_lines :: "string \<Rightarrow> string list" where
  "split_lines [] = []"
| "split_lines (c # s) =
     (if c = CHR 0x0A then [c] # split_lines s
      else case split_lines s of [] \<Rightarrow> [[c]] | l # ls \<Rightarrow> (c # l) # ls)"

lemma concat_split_lines [simp]: "concat (split_lines s) = s"
  by (induction s) (auto split: list.split)

lemma split_lines_nonempty: "l \<in> set (split_lines s) \<Longrightarrow> l \<noteq> []"
  by (induction s arbitrary: l) (auto split: list.splits if_splits)

lemma split_lines_Nil [simp]: "split_lines s = [] \<longleftrightarrow> s = []"
  by (cases s) (auto split: list.split)

text \<open>A line of a valid string begins a character, as a line feed is never followed by a
  continuation byte.\<close>

lemma utf8_after_ascii:
  assumes "utf8 (c # s)" "char_width c = 1"
  shows "utf8 s"
proof -
  have "takeWhile is_cont s = []" using assms by (auto simp: utf8_def)
  then have "dropWhile is_cont s = s" by (metis append_Nil takeWhile_dropWhile_id)
  with assms show ?thesis by (auto simp: utf8_def)
qed

lemma split_lines_ends: "successively (\<lambda>l l'. last l = CHR 0x0A) (split_lines s)"
proof (induction s)
  case (Cons c s)
  then show ?case
    using split_lines_nonempty [of _ s] by (cases "split_lines s") (auto simp: successively_Cons)
qed simp

lemma starts_after_newline:
  assumes "utf8 (l @ s)" "l \<noteq> []" "last l = CHR 0x0A"
  shows "starts s"
proof -
  from assms obtain a where l: "l = a @ [CHR 0x0A]" by (metis append_butlast_last_id)
  have "starts (CHR 0x0A # s)" by (simp add: is_cont_def)
  with assms(1) l have "utf8 (CHR 0x0A # s)" using utf8_appendD(2) [of a "CHR 0x0A # s"] by simp
  then have "utf8 s" by (rule utf8_after_ascii) (simp add: char_width_def)
  then show ?thesis by (rule utf8_starts)
qed

lemma utf8_pieces:
  assumes "utf8 (concat ls)" "\<forall>l \<in> set ls. l \<noteq> []" "successively (\<lambda>l l'. last l = CHR 0x0A) ls"
  shows "\<forall>l \<in> set ls. utf8 l"
  using assms
proof (induction ls)
  case (Cons l ls)
  have "starts (concat ls)"
  proof (cases ls)
    case (Cons l' ls')
    then have "last l = CHR 0x0A" using Cons.prems(3) by simp
    then show ?thesis using starts_after_newline [of l "concat ls"] Cons.prems by simp
  qed simp
  then have "utf8 l" "utf8 (concat ls)"
    using Cons.prems(1) utf8_appendD [of l "concat ls"] by simp_all
  with Cons show ?case by (auto simp: successively_Cons)
qed simp

lemma utf8_split_lines: "utf8 s \<Longrightarrow> l \<in> set (split_lines s) \<Longrightarrow> utf8 l"
  using utf8_pieces [of "split_lines s"] split_lines_nonempty split_lines_ends by auto

text \<open>Each line with the offset of its first byte, and \<open>str::lines\<close>, which drops the line ends.\<close>

definition line_offsets :: "string \<Rightarrow> (nat \<times> string) list" where
  "line_offsets s = indices_from 0 (split_lines s)"

definition strip_line_end :: "string \<Rightarrow> string" where
  "strip_line_end l =
     (if l \<noteq> [] \<and> last l = CHR 0x0A
      then let m = butlast l in if m \<noteq> [] \<and> last m = CHR 0x0D then butlast m else m
      else l)"

definition lines_at :: "string \<Rightarrow> (nat \<times> string) list" where
  "lines_at s = map (\<lambda>(i, l). (i, strip_line_end l)) (line_offsets s)"

lemma map_snd_indices [simp]: "map snd (indices_from i cs) = cs"
  by (induction cs arbitrary: i) auto

text \<open>\<open>str::split_whitespace\<close>.\<close>

fun words_of :: "string list \<Rightarrow> string list" where
  "words_of [] = [[]]"
| "words_of (c # cs) =
     (case words_of cs of
        [] \<Rightarrow> []
      | w # ws \<Rightarrow> if is_whitespace c then [] # w # ws else (c @ w) # ws)"

definition split_whitespace :: "string \<Rightarrow> string list" where
  "split_whitespace s = filter (\<lambda>w. w \<noteq> []) (words_of (chars s))"

text \<open>\<open>str::split(c)\<close>, \<open>str::trim_matches(c)\<close> and \<open>[\&str]::join(sep)\<close> for an ASCII
  character.\<close>

fun split_on :: "char \<Rightarrow> string \<Rightarrow> string list" where
  "split_on c [] = [[]]"
| "split_on c (x # s) =
     (if x = c then [] # split_on c s
      else case split_on c s of [] \<Rightarrow> [[x]] | w # ws \<Rightarrow> (x # w) # ws)"

definition trim_char :: "char \<Rightarrow> string \<Rightarrow> string" where
  "trim_char c s = rev (dropWhile (\<lambda>x. x = c) (rev (dropWhile (\<lambda>x. x = c) s)))"

fun join :: "string \<Rightarrow> string list \<Rightarrow> string" where
  "join sep [] = []"
| "join sep [s] = s"
| "join sep (s # ss) = s @ sep @ join sep ss"

end
