(* ===== verification/Chunker.thy ===== *)
theory Chunker
  imports StrOps Block Store Ids
begin

text \<open>
  The data the chunkers share (\<open>core/src/chunker/config.rs\<close>, \<open>output.rs\<close>, \<open>sizers.rs\<close>) and the
  heading paths they attach (\<open>markdown_blocks.rs\<close>, \<open>heading_index.rs\<close>). A chunker returns a chunk
  list, raises an error or panics, which happens where a byte range of a \<open>str\<close> is off a character
  boundary. The Markdown parser is a parameter: the events it reports with their offsets.
\<close>

section \<open>Configuration\<close>

record chunker_config =
  cc_preset :: string
  cc_target_tokens :: "nat option"
  cc_overlap_tokens :: "nat option"
  cc_window_turns :: "nat option"
  cc_stride_turns :: "nat option"

definition config_prose :: chunker_config where
  "config_prose = \<lparr>cc_preset = ''prose'', cc_target_tokens = Some 256, cc_overlap_tokens = Some 0,
     cc_window_turns = None, cc_stride_turns = None\<rparr>"

definition config_code :: chunker_config where
  "config_code = \<lparr>cc_preset = ''code'', cc_target_tokens = Some 3000, cc_overlap_tokens = Some 0,
     cc_window_turns = None, cc_stride_turns = None\<rparr>"

definition config_messages :: chunker_config where
  "config_messages = \<lparr>cc_preset = ''messages'', cc_target_tokens = Some 512, cc_overlap_tokens = Some 0,
     cc_window_turns = Some 6, cc_stride_turns = Some 3\<rparr>"

definition from_preset :: "string \<Rightarrow> error + chunker_config" where
  "from_preset preset =
     (if preset = ''prose'' then Inr config_prose
      else if preset = ''code'' then Inr config_code
      else if preset = ''messages'' then Inr config_messages
      else Inl (InvalidRequest (''unknown chunking preset '' @ [CHR 0x27] @ preset @ [CHR 0x27] @
        ''; valid values: prose, code, messages'')))"

definition resolved_target_tokens :: "chunker_config \<Rightarrow> nat" where
  "resolved_target_tokens c = (case cc_target_tokens c of Some n \<Rightarrow> n | None \<Rightarrow> 256)"

definition resolved_overlap_tokens :: "chunker_config \<Rightarrow> nat" where
  "resolved_overlap_tokens c = (case cc_overlap_tokens c of Some n \<Rightarrow> n | None \<Rightarrow> 0)"

definition resolved_window_turns :: "chunker_config \<Rightarrow> nat" where
  "resolved_window_turns c = (case cc_window_turns c of Some n \<Rightarrow> n | None \<Rightarrow> 6)"

definition resolved_stride_turns :: "chunker_config \<Rightarrow> nat" where
  "resolved_stride_turns c = (case cc_stride_turns c of Some n \<Rightarrow> n | None \<Rightarrow> 3)"

text \<open>\<open>ChunkSizer\<close>: a measure of texts; \<open>CharSizer\<close> counts characters.\<close>

type_synonym sizer = "string \<Rightarrow> nat"

definition char_sizer :: sizer where
  "char_sizer t = char_count t"

section \<open>Chunks\<close>

record chunk_output =
  co_id :: string
  co_text :: string
  co_span :: span
  co_heading_path :: "string list"
  co_block_seq :: u32
  co_seq_in_block :: u32
  co_window_block_seqs :: "u32 list"
  co_block_kind :: "string option"

definition span_of :: "nat \<Rightarrow> nat \<Rightarrow> span" where
  "span_of a b = \<lparr>span_start = a, span_end = b\<rparr>"

definition placeholder :: "string \<Rightarrow> span \<Rightarrow> string list \<Rightarrow> u32 \<Rightarrow> u32 \<Rightarrow> chunk_output" where
  "placeholder text sp heading_path seq seq_in_block =
     \<lparr>co_id = [], co_text = text, co_span = sp, co_heading_path = heading_path,
      co_block_seq = seq, co_seq_in_block = seq_in_block, co_window_block_seqs = [],
      co_block_kind = None\<rparr>"

definition finalize_id :: "hash_fn \<Rightarrow> string \<Rightarrow> chunk_output \<Rightarrow> chunk_output" where
  "finalize_id h resource_id c =
     c\<lparr>co_id := chunk_id_of h resource_id (co_block_seq c) (co_text c) (co_seq_in_block c)\<rparr>"

definition finalize_ids :: "hash_fn \<Rightarrow> string \<Rightarrow> chunk_output list \<Rightarrow> chunk_output list" where
  "finalize_ids h resource_id cs = map (finalize_id h resource_id) cs"

lemma span_of_simps [simp]: "span_start (span_of a b) = a" "span_end (span_of a b) = b"
  by (simp_all add: span_of_def)

lemma placeholder_simps [simp]:
  "co_id (placeholder t sp hp b q) = []" "co_text (placeholder t sp hp b q) = t"
  "co_span (placeholder t sp hp b q) = sp" "co_heading_path (placeholder t sp hp b q) = hp"
  "co_block_seq (placeholder t sp hp b q) = b" "co_seq_in_block (placeholder t sp hp b q) = q"
  "co_window_block_seqs (placeholder t sp hp b q) = []" "co_block_kind (placeholder t sp hp b q) = None"
  by (simp_all add: placeholder_def)

lemma finalize_id_simps [simp]:
  "co_text (finalize_id h r c) = co_text c" "co_span (finalize_id h r c) = co_span c"
  "co_heading_path (finalize_id h r c) = co_heading_path c"
  "co_block_seq (finalize_id h r c) = co_block_seq c"
  "co_seq_in_block (finalize_id h r c) = co_seq_in_block c"
  "co_window_block_seqs (finalize_id h r c) = co_window_block_seqs c"
  "co_block_kind (finalize_id h r c) = co_block_kind c"
  by (simp_all add: finalize_id_def)

lemma map_finalize [simp]:
  "map co_text (finalize_ids h r cs) = map co_text cs"
  "map co_span (finalize_ids h r cs) = map co_span cs"
  "map co_block_seq (finalize_ids h r cs) = map co_block_seq cs"
  "map co_seq_in_block (finalize_ids h r cs) = map co_seq_in_block cs"
  "length (finalize_ids h r cs) = length cs"
  by (simp_all add: finalize_ids_def comp_def)

lemma finalize_ids_append: "finalize_ids h r (a @ b) = finalize_ids h r a @ finalize_ids h r b"
  by (simp add: finalize_ids_def)

lemma finalize_ids_idem: "finalize_ids h r (finalize_ids h r cs) = finalize_ids h r cs"
  by (simp add: finalize_ids_def comp_def finalize_id_def)

section \<open>Heading paths\<close>

text \<open>
  \<open>heading_path_from_blocks\<close>: the headings before a block, by level 1 to 6; a heading clears the
  deeper levels. A missing level inside the path is the empty string.
\<close>

definition set_level :: "nat \<Rightarrow> string \<Rightarrow> string option list \<Rightarrow> string option list" where
  "set_level lv text path =
     take lv (path[lv - 1 := Some text]) @ map (\<lambda>_. None) (drop lv path)"

definition clamp_level :: "u8 \<Rightarrow> nat" where
  "clamp_level level = min 6 (max 1 (unat level))"

definition note_heading :: "block \<Rightarrow> string option list \<Rightarrow> string option list" where
  "note_heading b path =
     (case block_kind_of b of
        BHeading level \<Rightarrow> set_level (clamp_level level) (block_text b) path
      | _ \<Rightarrow> path)"

definition unwrap_or_default :: "string option \<Rightarrow> string" where
  "unwrap_or_default e = (case e of Some t \<Rightarrow> t | None \<Rightarrow> [])"

definition drop_trailing_none :: "'a option list \<Rightarrow> 'a option list" where
  "drop_trailing_none path = rev (dropWhile (\<lambda>e. e = None) (rev path))"

definition heading_path_from_blocks :: "block list \<Rightarrow> u32 \<Rightarrow> string list" where
  "heading_path_from_blocks blocks target_seq =
     (let path = fold note_heading (takeWhile (\<lambda>b. \<not> target_seq \<le> block_seq b) blocks) (replicate 6 None)
      in map unwrap_or_default (drop_trailing_none path))"

text \<open>
  \<open>build_heading_index\<close> folds over the parser's events: the text of a heading is collected between
  its start and its end, and the entry is made at the end with the offset of the start.
\<close>

datatype md_event = StartHeading nat | MdText string | EndHeading | OtherEvent

record heading_scan =
  hs_levels :: "string option list"
  hs_in_heading :: "(nat \<times> nat) option"
  hs_text_buf :: string
  hs_result :: "(nat \<times> string list) list"

definition heading_event :: "md_event \<times> nat \<Rightarrow> heading_scan \<Rightarrow> heading_scan" where
  "heading_event ev st =
     (case fst ev of
        StartHeading level \<Rightarrow> st\<lparr>hs_text_buf := [], hs_in_heading := Some (level, snd ev)\<rparr>
      | MdText t \<Rightarrow>
          if hs_in_heading st \<noteq> None then st\<lparr>hs_text_buf := hs_text_buf st @ t\<rparr> else st
      | EndHeading \<Rightarrow>
          (case hs_in_heading st of
             Some (lvl, offset) \<Rightarrow>
               let levels = set_level lvl (hs_text_buf st) (hs_levels st)
               in st\<lparr>hs_in_heading := None, hs_text_buf := [], hs_levels := levels,
                    hs_result := hs_result st @ [(offset, List.map_filter (\<lambda>x. x) (take lvl levels))]\<rparr>
           | None \<Rightarrow> st)
      | OtherEvent \<Rightarrow> st)"

type_synonym md_parser = "string \<Rightarrow> (md_event \<times> nat) list"

definition build_heading_index :: "md_parser \<Rightarrow> string \<Rightarrow> (nat \<times> string list) list" where
  "build_heading_index parser markdown =
     hs_result (fold heading_event (parser markdown)
       \<lparr>hs_levels = replicate 6 None, hs_in_heading = None, hs_text_buf = [], hs_result = []\<rparr>)"

text \<open>
  The binary search of \<open>heading_path_at\<close> over the offsets, which ascend and are distinct: the entry
  at the offset, else the last one before it.
\<close>

definition heading_path_at :: "(nat \<times> string list) list \<Rightarrow> nat \<Rightarrow> string list" where
  "heading_path_at index offset =
     (case rev (takeWhile (\<lambda>e. fst e \<le> offset) index) of
        [] \<Rightarrow> []
      | e # _ \<Rightarrow> snd e)"

section \<open>The two heading paths\<close>

lemma set_level_length [simp]: "0 < lv \<Longrightarrow> lv \<le> length path \<Longrightarrow> length (set_level lv t path) = length path"
  by (simp add: set_level_def)

lemma set_level_split:
  assumes "0 < lv" "lv \<le> length path"
  shows "set_level lv t path = (take (lv - 1) path @ [Some t]) @ replicate (length path - lv) None"
proof -
  have "take lv (path[lv - 1 := Some t]) = take (lv - 1) path @ [Some t]"
    using assms take_Suc_conv_app_nth [of "lv - 1" "path[lv - 1 := Some t]"] by simp
  then show ?thesis by (simp add: set_level_def map_replicate_const)
qed

lemma drop_trailing_set_level:
  assumes "0 < lv" "lv \<le> length path"
  shows "drop_trailing_none (set_level lv t path) = take lv (set_level lv t path)"
proof -
  have "dropWhile (\<lambda>e. e = None) (replicate n None @ xs) = dropWhile (\<lambda>e. e = None) xs" for n and xs :: "string option list"
    by (induction n) auto
  then show ?thesis
    using assms unfolding set_level_split [OF assms] drop_trailing_none_def by simp
qed

text \<open>A run of events that are the headings in order: start, its text, end.\<close>

definition heading_events :: "nat \<times> string \<times> nat \<Rightarrow> (md_event \<times> nat) list" where
  "heading_events h = (case h of (lv, t, off) \<Rightarrow> [(StartHeading lv, off), (MdText t, off), (EndHeading, off)])"

definition heading_blocks :: "(nat \<times> string \<times> nat) list \<Rightarrow> block list" where
  "heading_blocks hs = map (\<lambda>(i, lv, t, off). \<lparr>block_seq = word_of_nat i, block_kind_of = BHeading (word_of_nat lv),
     block_text = t, block_location_of = None\<rparr>) (zip [0..<length hs] hs)"

text \<open>What the scan of the headings leaves, and the entry it makes for the last of them.\<close>

lemma heading_events_step:
  "fold heading_event (heading_events (lv, t, off))
     \<lparr>hs_levels = levels, hs_in_heading = None, hs_text_buf = [], hs_result = res\<rparr> =
   \<lparr>hs_levels = set_level lv t levels, hs_in_heading = None, hs_text_buf = [],
    hs_result = res @ [(off, List.map_filter (\<lambda>x. x) (take lv (set_level lv t levels)))]\<rparr>"
  by (simp add: heading_events_def heading_event_def Let_def)

lemma heading_scan_levels:
  "\<exists>res'. fold heading_event (concat (map heading_events hs))
     \<lparr>hs_levels = levels, hs_in_heading = None, hs_text_buf = [], hs_result = res\<rparr> =
   \<lparr>hs_levels = fold (\<lambda>(lv, t, off). set_level lv t) hs levels, hs_in_heading = None, hs_text_buf = [],
    hs_result = res'\<rparr>"
proof (induction hs arbitrary: levels res)
  case (Cons h hs)
  obtain lv t off where h: "h = (lv, t, off)" by (metis prod_cases3)
  show ?case using Cons by (simp add: h heading_events_step)
qed simp

lemma index_last:
  fixes hs :: "(nat \<times> string \<times> nat) list"
  assumes "parser md = concat (map heading_events (hs @ [(lv, t, off)]))"
  shows "\<exists>front. build_heading_index parser md = front @
    [(off, List.map_filter (\<lambda>x. x) (take lv (set_level lv t (fold (\<lambda>(lv, t, off). set_level lv t) hs (replicate 6 None)))))]"
  using heading_scan_levels [of hs "replicate 6 None" "[]"] assms
  by (auto simp: build_heading_index_def heading_events_step)

lemma clamp_level_of_nat:
  "0 < lv \<Longrightarrow> lv \<le> 6 \<Longrightarrow> clamp_level (word_of_nat lv) = lv"
  by (simp add: clamp_level_def unat_of_nat)

lemma fold_note_headings:
  "\<forall>h \<in> set hs. 0 < fst h \<and> fst h \<le> 6 \<Longrightarrow> length is = length hs \<Longrightarrow>
    fold note_heading (map (\<lambda>(i, lv, t, off). \<lparr>block_seq = word_of_nat i, block_kind_of = BHeading (word_of_nat lv),
       block_text = t, block_location_of = None\<rparr>) (zip is hs)) path =
    fold (\<lambda>(lv, t, off). set_level lv t) hs path"
proof (induction hs arbitrary: path "is")
  case (Cons h hs)
  then show ?case by (cases "is"; cases h) (auto simp: note_heading_def clamp_level_of_nat)
qed simp

lemma heading_blocks_before:
  assumes "length hs < 2 ^ 32"
  shows "takeWhile (\<lambda>b. \<not> word_of_nat (length hs) \<le> block_seq b) (heading_blocks hs) = heading_blocks hs"
proof -
  have "\<not> (word_of_nat (length hs) :: u32) \<le> word_of_nat i" if "i < length hs" for i
    using that assms by (simp add: word_le_nat_alt unat_of_nat)
  then show ?thesis
    by (auto simp: takeWhile_eq_all_conv heading_blocks_def in_set_zip)
qed

lemma map_filter_id_all: "None \<notin> set xs \<Longrightarrow> List.map_filter (\<lambda>x. x) xs = map unwrap_or_default xs"
proof (induction xs)
  case (Cons x xs)
  then show ?case by (cases x) (auto simp: List.map_filter_simps unwrap_or_default_def)
qed (simp add: List.map_filter_simps)

lemma map_filter_id_le: "length (List.map_filter (\<lambda>x. x) xs) \<le> length xs"
  by (induction xs) (auto simp: List.map_filter_simps split: option.split)

lemma map_filter_id_less: "None \<in> set xs \<Longrightarrow> length (List.map_filter (\<lambda>x. x) xs) < length xs"
proof (induction xs)
  case (Cons x xs)
  then show ?case
    using map_filter_id_le [of xs] by (cases x) (auto simp: List.map_filter_simps)
qed simp

text \<open>
  The two heading paths of a document, the one read off its heading blocks and the one its
  heading index gives, are read off the same levels, but agree exactly when no level is skipped: a
  skipped level is an empty string in the one and left out of the other.
\<close>

theorem heading_paths_agree_iff:
  assumes "hs \<noteq> []" "length hs < 2 ^ 32" "\<forall>h \<in> set hs. 0 < fst h \<and> fst h \<le> 6"
    and "parser md = concat (map heading_events hs)"
  shows "let blocks_path = heading_path_from_blocks (heading_blocks hs) (word_of_nat (length hs));
             index_path = snd (last (build_heading_index parser md));
             levels = drop_trailing_none (fold (\<lambda>(lv, t, off). set_level lv t) hs (replicate 6 None))
         in blocks_path = map unwrap_or_default levels \<and> index_path = List.map_filter (\<lambda>x. x) levels \<and>
            (blocks_path = index_path \<longleftrightarrow> None \<notin> set levels)"
proof -
  obtain hs' lv t off where hs: "hs = hs' @ [(lv, t, off)]"
    using assms(1) by (metis rev_exhaust prod_cases3)
  define before where "before = fold (\<lambda>(lv, t, off). set_level lv t) hs' (replicate 6 None)"
  have len: "length (fold (\<lambda>(lv, t, off). set_level lv t) hs' path) = length path"
    if "length path = 6" for path
    using that assms(3) unfolding hs by (induction hs' arbitrary: path) auto
  have lv: "0 < lv" "lv \<le> 6" "length before = 6"
    using assms(3) len [of "replicate 6 None"] by (auto simp: hs before_def)
  define levels where "levels = drop_trailing_none (fold (\<lambda>(lv, t, off). set_level lv t) hs (replicate 6 None))"
  have levels: "levels = take lv (set_level lv t before)"
    using drop_trailing_set_level [of lv before t] lv by (simp add: levels_def hs before_def)
  obtain front where "build_heading_index parser md = front @ [(off, List.map_filter (\<lambda>x. x) levels)]"
    using index_last [of parser md hs' lv t off] assms(4) by (auto simp: hs levels before_def)
  then have ip: "snd (last (build_heading_index parser md)) = List.map_filter (\<lambda>x. x) levels" by simp
  have bp: "heading_path_from_blocks (heading_blocks hs) (word_of_nat (length hs)) = map unwrap_or_default levels"
    unfolding heading_path_from_blocks_def heading_blocks_before [OF assms(2)] Let_def levels_def
    by (simp add: heading_blocks_def fold_note_headings [OF assms(3)])
  have "map unwrap_or_default levels = List.map_filter (\<lambda>x. x) levels \<longleftrightarrow> None \<notin> set levels"
    using map_filter_id_less [of levels] map_filter_id_all [of levels] by (metis length_map less_irrefl)
  with ip bp show ?thesis unfolding Let_def levels_def by simp
qed

text \<open>A third-level heading right under a first-level one.\<close>

lemma heading_paths_witness:
  "let hs = [(1, ''A'', 0), (3, ''C'', 4)]; parser = (\<lambda>_. concat (map heading_events hs))
   in heading_path_from_blocks (heading_blocks hs) 2 = [''A'', [], ''C''] \<and>
      snd (last (build_heading_index parser [])) = [''A'', ''C'']"
proof -
  let ?hs = "[(1, ''A'', 0), (3, ''C'', 4)] :: (nat \<times> string \<times> nat) list"
  have levels: "drop_trailing_none (fold (\<lambda>(lv, t, off). set_level lv t) ?hs (replicate 6 None)) =
      [Some ''A'', None, Some ''C'']"
    by (simp add: set_level_def drop_trailing_none_def eval_nat_numeral)
  have two: "word_of_nat (length ?hs) = (2 :: u32)" by simp
  have ok: "?hs \<noteq> []" "length ?hs < 2 ^ 32" "\<forall>h \<in> set ?hs. 0 < fst h \<and> fst h \<le> 6" by simp_all
  note spec = heading_paths_agree_iff [of ?hs "\<lambda>_. concat (map heading_events ?hs)" "[]",
      OF ok refl, unfolded Let_def levels two]
  have "map unwrap_or_default [Some ''A'', None, Some ''C''] = [''A'', [], ''C'']"
      "List.map_filter (\<lambda>x. x) [Some ''A'', None, Some ''C''] = [''A'', ''C'']"
    by (simp_all add: unwrap_or_default_def List.map_filter_simps)
  then show ?thesis unfolding Let_def using spec by metis
qed

end
