(* ===== verification/ChunkCode.thy ===== *)
theory ChunkCode
  imports Chunker
begin

text \<open>
  The line packer (\<open>core/src/chunker/formats/code.rs\<close>): lines are collected up to the byte budget
  and a line of more characters than the budget is cut, at white space where there is some in the
  second half of the window. The lemmas show that no range it slices is off a character boundary,
  that the chunks put the text together again and that none is empty or over the budget.
\<close>

section \<open>Code\<close>

fun floor_from :: "string \<Rightarrow> nat \<Rightarrow> nat" where
  "floor_from s 0 = 0"
| "floor_from s (Suc i) = (if is_char_boundary s (Suc i) then Suc i else floor_from s i)"

definition floor_char_boundary :: "string \<Rightarrow> nat \<Rightarrow> nat" where
  "floor_char_boundary s index = floor_from s (min index (length s))"

record chunk_sink =
  sk_block_seq :: u32
  sk_seq_in_block :: u32
  sk_chunks :: "chunk_output list"

definition sink_push :: "string \<Rightarrow> span \<Rightarrow> chunk_sink \<Rightarrow> chunk_sink" where
  "sink_push text sp sink =
     sink\<lparr>sk_chunks := sk_chunks sink @
            [placeholder text sp [] (sk_block_seq sink) (sk_seq_in_block sink)],
          sk_seq_in_block := sk_seq_in_block sink + 1\<rparr>"

definition flush_range :: "string \<Rightarrow> nat \<Rightarrow> nat \<Rightarrow> chunk_sink \<Rightarrow> fault + chunk_sink" where
  "flush_range markdown start finish sink =
     (let cs = floor_char_boundary markdown start; ce = floor_char_boundary markdown finish
      in if cs < ce
         then and_then (or_panic (str_slice markdown cs ce)) (\<lambda>text. Inr (sink_push text (span_of cs ce) sink))
         else Inr sink)"

text \<open>The bytes of the first \<open>target\<close> characters, and where the window is cut.\<close>

definition window_len :: "nat \<Rightarrow> string \<Rightarrow> nat" where
  "window_len target sl =
     (let w = take target (char_indices sl)
      in if w = [] then length sl else fst (last w) + length (snd (last w)))"

definition cut_len :: "string \<Rightarrow> nat \<Rightarrow> nat" where
  "cut_len window byte_len =
     (case find (\<lambda>ic. is_whitespace (snd ic)) (rev (char_indices window)) of
        Some (i, c) \<Rightarrow> (let candidate_len = i + length c
                        in if byte_len < candidate_len * 2 then candidate_len else byte_len)
      | None \<Rightarrow> byte_len)"

lemma cut_len_pos: "0 < n \<Longrightarrow> 0 < cut_len w n"
  by (auto simp: cut_len_def Let_def split: option.split)

function split_overlong_line :: "string \<Rightarrow> nat \<Rightarrow> nat \<Rightarrow> nat \<Rightarrow> chunk_sink \<Rightarrow> fault + chunk_sink" where
  "split_overlong_line markdown pos line_end target sink =
     (if pos < line_end then
        case str_slice markdown pos line_end of
          None \<Rightarrow> Inl Panicked
        | Some sl \<Rightarrow>
            let byte_len = window_len target sl
            in if byte_len = 0 then Inr sink
               else case str_slice sl 0 byte_len of
                  None \<Rightarrow> Inl Panicked
                | Some window \<Rightarrow>
                    let piece_end = min (pos + cut_len window byte_len) line_end
                    in if pos < piece_end
                       then case str_slice markdown pos piece_end of
                              None \<Rightarrow> Inl Panicked
                            | Some piece \<Rightarrow> split_overlong_line markdown piece_end line_end target
                                (sink_push piece (span_of pos piece_end) sink)
                       else split_overlong_line markdown piece_end line_end target sink
      else Inr sink)"
  by pat_completeness auto
termination
proof (relation "measure (\<lambda>(_, pos, line_end, _, _). line_end - pos)", goal_cases)
  case (2 markdown pos line_end target sink sl n w piece_end piece)
  then show ?case by simp
next
  case (3 markdown pos line_end target sink sl n w piece_end)
  then have "0 < cut_len w n" by (intro cut_len_pos) simp
  with 3 show ?case by simp
qed simp

declare split_overlong_line.simps [simp del]

definition code_line ::
  "string \<Rightarrow> nat \<Rightarrow> nat \<times> string \<Rightarrow> nat \<times> nat \<times> chunk_sink \<Rightarrow> fault + nat \<times> nat \<times> chunk_sink" where
  "code_line markdown target ll st =
     (let (line_start, line) = ll; (current_start, current_end, sink) = st;
          line_end = line_start + length line
      in if target < char_count line
         then and_then (if current_start < current_end
                        then flush_range markdown current_start current_end sink else Inr sink)
                (\<lambda>sink. and_then (split_overlong_line markdown line_start line_end target sink)
                  (\<lambda>sink. Inr (line_end, line_end, sink)))
         else let current_size = current_end - current_start
              in and_then (if 0 < current_size \<and> target < current_size + (line_end - line_start)
                           then and_then (flush_range markdown current_start current_end sink)
                                  (\<lambda>sink. Inr (line_start, sink))
                           else Inr (current_start, sink))
                   (\<lambda>(current_start, sink).
                      Inr (if current_size = 0 then line_start else current_start, line_end, sink)))"

definition chunk_code ::
  "hash_fn \<Rightarrow> string \<Rightarrow> string \<Rightarrow> chunker_config \<Rightarrow> u32 \<Rightarrow> fault + chunk_output list" where
  "chunk_code h resource_id markdown config seq =
     (if markdown = [] then Inr []
      else and_then (try_fold (code_line markdown (resolved_target_tokens config)) (line_offsets markdown)
                      (0, 0, \<lparr>sk_block_seq = seq, sk_seq_in_block = 0, sk_chunks = []\<rparr>))
             (\<lambda>(current_start, current_end, sink).
                and_then (if current_start < current_end
                          then flush_range markdown current_start current_end sink else Inr sink)
                  (\<lambda>sink. Inr (finalize_ids h resource_id (sk_chunks sink)))))"

section \<open>Cuts at characters\<close>

lemma last_indices:
  "cs \<noteq> [] \<Longrightarrow> fst (last (indices_from i cs)) + length (snd (last (indices_from i cs))) = i + length (concat cs)"
proof (induction cs arbitrary: i)
  case (Cons c cs)
  then show ?case by (cases cs) auto
qed simp

lemma indices_in:
  "(i, c) \<in> set (indices_from k cs) \<Longrightarrow> \<exists>xs ys. cs = xs @ c # ys \<and> i = k + length (concat xs)"
proof (induction cs arbitrary: k)
  case (Cons d cs)
  then consider "i = k" "c = d" | "(i, c) \<in> set (indices_from (k + length d) cs)" by auto
  then show ?case
  proof cases
    case 2
    from Cons.IH [OF this] obtain xs ys where "cs = xs @ c # ys" "i = k + length d + length (concat xs)" by blast
    then show ?thesis by (intro exI [of _ "d # xs"] exI [of _ ys]) simp
  qed (use Cons in fastforce)
qed simp

lemma take_indices: "take n (indices_from i cs) = indices_from i (take n cs)"
proof (induction cs arbitrary: n i)
  case (Cons c cs)
  then show ?case by (cases n) auto
qed simp

lemma indices_Nil [simp]: "indices_from i cs = [] \<longleftrightarrow> cs = []"
  by (cases cs) auto

lemma window_chars:
  assumes "sl \<noteq> []"
  obtains j where "0 < j" "window_len target sl = length (concat (take j (chars sl)))"
    "0 < target \<longrightarrow> j \<le> target"
proof (cases target)
  case 0
  then show ?thesis
    using assms that [of "length (chars sl)"] by (simp add: window_len_def)
next
  case (Suc n)
  then have "take target (chars sl) \<noteq> []" using assms by simp
  then show ?thesis
    using that [of target] last_indices [of "take target (chars sl)" 0] Suc
    by (simp add: window_len_def char_indices_def take_indices)
qed

text \<open>Wherever the window is cut, it is between two characters.\<close>

lemma cut_chars:
  assumes "utf8 w" "w \<noteq> []"
  obtains j where "0 < j" "cut_len w (length w) = length (concat (take j (chars w)))"
proof (cases "find (\<lambda>ic. is_whitespace (snd ic)) (rev (char_indices w))")
  case None
  then show ?thesis
    using assms that [of "length (chars w)"] by (simp add: cut_len_def)
next
  case (Some ic)
  obtain i c where ic: "ic = (i, c)" by (cases ic)
  from Some have "ic \<in> set (char_indices w)" by (metis find_Some_iff nth_mem set_rev)
  then obtain xs ys where w: "chars w = xs @ c # ys" "i = length (concat xs)"
    using indices_in [of i c 0 "chars w"] by (auto simp: ic char_indices_def)
  show ?thesis
  proof (cases "length w < (i + length c) * 2")
    case True
    have "take (Suc (length xs)) (chars w) = xs @ [c]" by (simp add: w(1))
    then show ?thesis using that [of "Suc (length xs)"] True by (simp add: cut_len_def Some ic w(2))
  next
    case False
    then show ?thesis
      using assms that [of "length (chars w)"] by (simp add: cut_len_def Some ic)
  qed
qed

lemma take_chars:
  assumes "utf8 s"
  shows "utf8 (concat (take j (chars s)))" "utf8 (concat (drop j (chars s)))"
    "chars (concat (take j (chars s))) = take j (chars s)"
    "s = concat (take j (chars s)) @ concat (drop j (chars s))"
  using utf8_concat_chars [OF assms set_take_subset] utf8_concat_chars(1) [OF assms set_drop_subset]
  by (simp_all flip: concat_append)

section \<open>Pieces\<close>

text \<open>Consecutive pieces of the text from an offset on, pushed in order.\<close>

fun push_pieces :: "nat \<Rightarrow> string list \<Rightarrow> chunk_sink \<Rightarrow> chunk_sink" where
  "push_pieces a [] sink = sink"
| "push_pieces a (p # ps) sink =
     push_pieces (a + length p) ps (sink_push p (span_of a (a + length p)) sink)"

lemma push_pieces_append:
  "push_pieces a (ps @ qs) sink = push_pieces (a + length (concat ps)) qs (push_pieces a ps sink)"
  by (induction ps arbitrary: a sink) (simp_all add: add.assoc)

definition piece_ok :: "nat \<Rightarrow> string \<Rightarrow> bool" where
  "piece_ok target p \<longleftrightarrow> p \<noteq> [] \<and> utf8 p \<and> (0 < target \<longrightarrow> char_count p \<le> target)"

text \<open>A window of an overlong line: one piece is cut off it, and the rest of the line remains.\<close>

lemma window_piece:
  assumes "utf8 line" "line \<noteq> []"
  obtains w p q where "str_slice line 0 (window_len target line) = Some w" "window_len target line = length w"
    "w \<noteq> []" "line = p @ q" "cut_len w (length w) = length p" "utf8 q" "piece_ok target p"
proof -
  obtain j where j: "0 < j" "window_len target line = length (concat (take j (chars line)))"
      "0 < target \<longrightarrow> j \<le> target"
    using window_chars [OF assms(2)] by blast
  define w where "w = concat (take j (chars line))"
  note wl = take_chars [OF assms(1), of j, folded w_def]
  have wn: "w \<noteq> []" using j(1) assms(2) wl(3) by (metis chars_Nil_iff take_eq_Nil2 less_irrefl)
  obtain k where k: "0 < k" "cut_len w (length w) = length (concat (take k (chars w)))"
    using cut_chars [OF wl(1) wn] by blast
  have cw: "take k (chars w) = take (min k j) (chars line)" by (simp add: wl(3))
  let ?p = "concat (take (min k j) (chars line))" and ?q = "concat (drop (min k j) (chars line))"
  note pl = take_chars [OF assms(1), of "min k j"]
  have "?p \<noteq> []" using pl(3) assms(2) j(1) k(1) by (metis chars_Nil_iff take_eq_Nil2 min_less_iff_conj less_irrefl)
  moreover have "char_count ?p \<le> target" if "0 < target"
    using j(3) that by (simp add: char_count_chars [OF pl(1)] pl(3))
  ultimately have "piece_ok target ?p" using pl(1) by (simp add: piece_ok_def)
  moreover have "str_slice line 0 (length w) = Some w"
    using slice_prefix [OF utf8_starts [OF wl(2)], of w] wl(4) by metis
  moreover have "window_len target line = length w" by (simp add: j(2) w_def)
  moreover have "cut_len w (length w) = length ?p" by (simp only: k(2) cw)
  ultimately show ?thesis
    using that [of w ?p ?q] wn pl(2,4) by metis
qed

lemma split_step:
  assumes "pos < line_end" "str_slice md pos line_end = Some sl" "str_slice sl 0 (window_len target sl) = Some w"
    and "window_len target sl = length w" "w \<noteq> []" "cut_len w (length w) = length p" "pos + length p \<le> line_end"
    and "p \<noteq> []" "str_slice md pos (pos + length p) = Some p"
  shows "split_overlong_line md pos line_end target sink =
    split_overlong_line md (pos + length p) line_end target (sink_push p (span_of pos (pos + length p)) sink)"
  using assms(1-3,5-9)
  by (subst split_overlong_line.simps) (simp add: assms(4) Let_def min_absorb1)

lemma split_overlong:
  assumes "utf8 line" "starts rest"
  shows "\<exists>ps. split_overlong_line (a @ line @ rest) (length a) (length a + length line) target sink =
      Inr (push_pieces (length a) ps sink) \<and> concat ps = line \<and> (\<forall>p \<in> set ps. piece_ok target p)"
  using assms(1)
proof (induction "length line" arbitrary: line a sink rule: less_induct)
  case less
  show ?case
  proof (cases "line = []")
    case True
    then show ?thesis by (intro exI [of _ "[]"]) (simp add: split_overlong_line.simps)
  next
    case False
    obtain w p q where w: "str_slice line 0 (window_len target line) = Some w" "window_len target line = length w"
        "w \<noteq> []" "line = p @ q" "cut_len w (length w) = length p" "utf8 q" "piece_ok target p"
      using window_piece [OF less(2) False] by blast
    have pn: "p \<noteq> []" "utf8 p" using w(7) by (auto simp: piece_ok_def)
    then have "length q < length line" using w(4) by simp
    from less(1) [OF this w(6), of "a @ p" "sink_push p (span_of (length a) (length a + length p)) sink"]
    obtain ps where ps: "split_overlong_line (a @ p @ q @ rest) (length a + length p)
          (length a + length p + length q) target (sink_push p (span_of (length a) (length a + length p)) sink) =
        Inr (push_pieces (length a + length p) ps (sink_push p (span_of (length a) (length a + length p)) sink))"
        "concat ps = q" "\<forall>p \<in> set ps. piece_ok target p"
      by auto
    have s1: "str_slice (a @ line @ rest) (length a) (length a + length line) = Some line"
      using slice_middle [OF utf8_starts [OF less(2)] assms(2), of a] .
    have s2: "str_slice (a @ p @ q @ rest) (length a) (length a + length p) = Some p"
      using slice_middle [OF utf8_starts [OF pn(2)] starts_append [OF utf8_starts [OF w(6)] assms(2)], of a] .
    have "split_overlong_line (a @ line @ rest) (length a) (length a + length line) target sink =
        split_overlong_line (a @ line @ rest) (length a + length p) (length a + length line) target
          (sink_push p (span_of (length a) (length a + length p)) sink)"
      by (rule split_step [OF _ s1 w(1,2,3,5) _ pn(1)]) (use False w(4) s2 in simp_all)
    also have "\<dots> = Inr (push_pieces (length a + length p) ps (sink_push p (span_of (length a) (length a + length p)) sink))"
      using ps(1) w(4) by (simp add: add.assoc)
    finally have "split_overlong_line (a @ line @ rest) (length a) (length a + length line) target sink =
        Inr (push_pieces (length a) (p # ps) sink)" by simp
    then show ?thesis
      using ps(2,3) w(4,7) by (intro exI [of _ "p # ps"]) simp
  qed
qed

section \<open>The packing loop\<close>

lemma floor_boundary:
  assumes "is_char_boundary s i" "i \<le> length s"
  shows "floor_char_boundary s i = i"
  using assms by (cases i) (simp_all add: floor_char_boundary_def min_absorb1)

lemma flush_middle:
  assumes "starts b" "starts c" "b \<noteq> []"
  shows "flush_range (a @ b @ c) (length a) (length a + length b) sink = Inr (push_pieces (length a) [b] sink)"
proof -
  have "is_char_boundary (a @ (b @ c)) (length a)"
    using assms by (intro boundary_append starts_append)
  moreover have "is_char_boundary ((a @ b) @ c) (length (a @ b))"
    using assms(2) by (rule boundary_append)
  ultimately have "floor_char_boundary (a @ b @ c) (length a) = length a"
      "floor_char_boundary (a @ b @ c) (length a + length b) = length a + length b"
    by (simp_all add: floor_boundary)
  then show ?thesis
    using assms(3) slice_middle [OF assms(1,2), of a] by (simp add: flush_range_def Let_def)
qed

definition fits :: "nat \<Rightarrow> string \<Rightarrow> bool" where
  "fits target s \<longleftrightarrow> utf8 s \<and> (0 < target \<longrightarrow> char_count s \<le> target)"

lemma fits_piece: "fits target s \<Longrightarrow> s \<noteq> [] \<Longrightarrow> piece_ok target s"
  by (simp add: fits_def piece_ok_def)

lemma fits_Nil [simp]: "fits target []"
  by (simp add: fits_def)

text \<open>One line: the sink gains pieces, and what is collected stays within the budget.\<close>

lemma code_line_step:
  assumes "md = a @ cur @ line @ rest" "fits target cur" "utf8 line" "line \<noteq> []" "starts rest"
  shows "\<exists>ps cur'. code_line md target (length a + length cur, line) (length a, length a + length cur, sink) =
      Inr (length a + length (concat ps), length a + length cur + length line, push_pieces (length a) ps sink) \<and>
    cur @ line = concat ps @ cur' \<and> (\<forall>p \<in> set ps. piece_ok target p) \<and> fits target cur'"
proof -
  have cur: "utf8 cur" "starts (line @ rest)" "starts cur"
    using assms utf8_starts by (auto simp: fits_def intro: starts_append)
  define fl where "fl = (if cur = [] then [] else [cur])"
  have flush: "flush_range md (length a) (length a + length cur) sink = Inr (push_pieces (length a) fl sink)"
    if "cur \<noteq> []"
    using flush_middle [OF cur(3,2) that, of a sink] that by (simp add: assms(1) fl_def)
  have fl: "concat fl = cur" "\<forall>p \<in> set fl. piece_ok target p"
    using fits_piece [OF assms(2)] by (simp_all add: fl_def)
  show ?thesis
  proof (cases "target < char_count line")
    case True
    obtain ps where ps: "split_overlong_line ((a @ cur) @ line @ rest) (length (a @ cur))
          (length (a @ cur) + length line) target (push_pieces (length a) fl sink) =
        Inr (push_pieces (length (a @ cur)) ps (push_pieces (length a) fl sink))"
        "concat ps = line" "\<forall>p \<in> set ps. piece_ok target p"
      using split_overlong [OF assms(3,5), of "a @ cur" target "push_pieces (length a) fl sink"] by blast
    have "code_line md target (length a + length cur, line) (length a, length a + length cur, sink) =
        Inr (length a + length cur + length line, length a + length cur + length line,
             push_pieces (length a) (fl @ ps) sink)"
    proof (cases "cur = []")
      case True
      then show ?thesis
        using \<open>target < char_count line\<close> ps(1) by (simp add: code_line_def Let_def assms(1) fl_def)
    next
      case False
      then show ?thesis
        using \<open>target < char_count line\<close> ps(1) flush
        by (simp add: code_line_def Let_def assms(1) fl_def push_pieces_append add.assoc)
    qed
    then show ?thesis
      using fl ps by (intro exI [of _ "fl @ ps"] exI [of _ "[]"]) (auto simp: add.assoc)
  next
    case False
    show ?thesis
    proof (cases "cur \<noteq> [] \<and> target < length cur + length line")
      case True
      then have "code_line md target (length a + length cur, line) (length a, length a + length cur, sink) =
          Inr (length a + length cur, length a + length cur + length line, push_pieces (length a) fl sink)"
        using False flush unfolding code_line_def Let_def by simp
      moreover have "fits target line" using False assms(3) by (simp add: fits_def)
      ultimately show ?thesis using fl by (intro exI [of _ fl] exI [of _ line]) simp
    next
      case small: False
      have "char_count (cur @ line) \<le> target" if "0 < target"
        using small False char_count_le [of cur] char_count_le [of line] by (cases "cur = []") auto
      then have "fits target (cur @ line)"
        using cur(1) assms(3) by (simp add: fits_def utf8_append)
      moreover have "code_line md target (length a + length cur, line) (length a, length a + length cur, sink) =
          Inr (length a, length a + length cur + length line, sink)"
        using False small unfolding code_line_def Let_def by auto
      ultimately show ?thesis by (intro exI [of _ "[]"] exI [of _ "cur @ line"]) simp
    qed
  qed
qed

lemma code_lines:
  assumes "md = a @ cur @ concat ls" "fits target cur" "\<forall>l \<in> set ls. utf8 l \<and> l \<noteq> []"
  shows "\<exists>ps cur'. try_fold (code_line md target) (indices_from (length a + length cur) ls)
        (length a, length a + length cur, sink) =
      Inr (length a + length (concat ps), length md, push_pieces (length a) ps sink) \<and>
    cur @ concat ls = concat ps @ cur' \<and> (\<forall>p \<in> set ps. piece_ok target p) \<and> fits target cur'"
  using assms
proof (induction ls arbitrary: a cur sink)
  case Nil
  then show ?case by (intro exI [of _ "[]"] exI [of _ cur]) simp
next
  case (Cons l ls)
  have rest: "starts (concat ls)" using Cons.prems(3) utf8_starts by (intro starts_concat) auto
  obtain ps cur' where st: "code_line md target (length a + length cur, l) (length a, length a + length cur, sink) =
      Inr (length a + length (concat ps), length a + length cur + length l, push_pieces (length a) ps sink)"
      "cur @ l = concat ps @ cur'" "\<forall>p \<in> set ps. piece_ok target p" "fits target cur'"
    using code_line_step [of md a cur l "concat ls" target sink] Cons.prems rest by auto
  have len: "length a + length cur + length l = length (a @ concat ps) + length cur'"
    using arg_cong [OF st(2), of length] by simp
  have md: "md = (a @ concat ps) @ cur' @ concat ls" using Cons.prems(1) st(2) by simp
  obtain ps' cur'' where r: "try_fold (code_line md target) (indices_from (length (a @ concat ps) + length cur') ls)
        (length (a @ concat ps), length (a @ concat ps) + length cur', push_pieces (length a) ps sink) =
      Inr (length (a @ concat ps) + length (concat ps'), length md,
        push_pieces (length (a @ concat ps)) ps' (push_pieces (length a) ps sink))"
      "cur' @ concat ls = concat ps' @ cur''" "\<forall>p \<in> set ps'. piece_ok target p" "fits target cur''"
    using Cons.IH [OF md st(4), of "push_pieces (length a) ps sink"] Cons.prems(3) by auto
  have "try_fold (code_line md target) (indices_from (length a + length cur) (l # ls))
        (length a, length a + length cur, sink) =
      Inr (length a + length (concat (ps @ ps')), length md, push_pieces (length a) (ps @ ps') sink)"
    using st(1) r(1) len by (simp add: push_pieces_append add.assoc)
  moreover have "cur @ concat (l # ls) = concat (ps @ ps') @ cur''"
    using st(2) r(2) by (metis append.assoc concat.simps(2) concat_append)
  ultimately show ?case using st(3) r(3,4) by (intro exI [of _ "ps @ ps'"] exI [of _ cur'']) auto
qed

lemma code_pieces:
  assumes "utf8 md"
  shows "\<exists>ps. chunk_code h rid md config seq =
      Inr (finalize_ids h rid (sk_chunks (push_pieces 0 ps \<lparr>sk_block_seq = seq, sk_seq_in_block = 0, sk_chunks = []\<rparr>))) \<and>
    concat ps = md \<and> (\<forall>p \<in> set ps. piece_ok (resolved_target_tokens config) p)"
proof (cases "md = []")
  case True
  then show ?thesis by (intro exI [of _ "[]"]) (simp add: chunk_code_def finalize_ids_def)
next
  case False
  define sink :: chunk_sink where "sink = \<lparr>sk_block_seq = seq, sk_seq_in_block = 0, sk_chunks = []\<rparr>"
  define target where "target = resolved_target_tokens config"
  have ls: "\<forall>l \<in> set (split_lines md). utf8 l \<and> l \<noteq> []"
    using utf8_split_lines [OF assms] split_lines_nonempty by blast
  obtain ps cur where r: "try_fold (code_line md target) (line_offsets md) (0, 0, sink) =
      Inr (length (concat ps), length md, push_pieces 0 ps sink)"
      "md = concat ps @ cur" "\<forall>p \<in> set ps. piece_ok target p" "fits target cur"
    using code_lines [of md "[]" "[]" "split_lines md" target sink] ls by (auto simp: line_offsets_def)
  define fl where "fl = (if cur = [] then [] else [cur])"
  have starts: "starts cur" using r(4) by (simp add: fits_def utf8_starts)
  have flush: "flush_range md (length (concat ps)) (length md) (push_pieces 0 ps sink) =
      Inr (push_pieces (length (concat ps)) fl (push_pieces 0 ps sink))" if "cur \<noteq> []"
    using flush_middle [OF starts starts_Nil that, of "concat ps" "push_pieces 0 ps sink"] that
    by (simp add: r(2) fl_def)
  have "chunk_code h rid md config seq = Inr (finalize_ids h rid (sk_chunks (push_pieces 0 (ps @ fl) sink)))"
  proof (cases "cur = []")
    case True
    then have "length (concat ps) = length md" by (simp add: r(2))
    then show ?thesis
      using False r(1) True by (simp add: chunk_code_def fl_def flip: target_def sink_def)
  next
    case cur: False
    then have "length (concat ps) < length md" by (simp add: r(2))
    then show ?thesis
      using False r(1) flush [OF cur] by (simp add: chunk_code_def push_pieces_append flip: target_def sink_def)
  qed
  moreover have "\<forall>p \<in> set fl. piece_ok target p" using fits_piece [OF r(4)] by (simp add: fl_def)
  ultimately show ?thesis
    using r(2,3) by (intro exI [of _ "ps @ fl"]) (auto simp: sink_def target_def fl_def)
qed

section \<open>What the chunks are\<close>

lemma push_pieces_chunks:
  "sk_block_seq (push_pieces a ps sink) = sk_block_seq sink \<and>
   (\<exists>cs. sk_chunks (push_pieces a ps sink) = sk_chunks sink @ cs \<and> map co_text cs = ps \<and>
     map co_seq_in_block cs = map (\<lambda>i. sk_seq_in_block sink + word_of_nat i) [0..<length ps] \<and>
     map (\<lambda>c. span_start (co_span c)) cs = map (\<lambda>i. a + length (concat (take i ps))) [0..<length ps] \<and>
     (\<forall>c \<in> set cs. co_block_seq c = sk_block_seq sink \<and>
        span_end (co_span c) = span_start (co_span c) + length (co_text c)))"
proof (induction ps arbitrary: a sink)
  case (Cons p ps)
  let ?sink = "sink_push p (span_of a (a + length p)) sink"
  obtain cs where cs: "sk_chunks (push_pieces (a + length p) ps ?sink) = sk_chunks ?sink @ cs"
      "map co_text cs = ps"
      "map co_seq_in_block cs = map (\<lambda>i. sk_seq_in_block ?sink + word_of_nat i) [0..<length ps]"
      "map (\<lambda>c. span_start (co_span c)) cs = map (\<lambda>i. a + length p + length (concat (take i ps))) [0..<length ps]"
      "\<forall>c \<in> set cs. co_block_seq c = sk_block_seq ?sink \<and>
        span_end (co_span c) = span_start (co_span c) + length (co_text c)"
    using Cons.IH [of "a + length p" ?sink] by blast
  let ?c = "placeholder p (span_of a (a + length p)) [] (sk_block_seq sink) (sk_seq_in_block sink)"
  have up: "[0..<length (p # ps)] = 0 # map Suc [0..<length ps]"
    by (simp add: upt_conv_Cons map_Suc_upt del: upt_Suc)
  have "sk_chunks (push_pieces a (p # ps) sink) = sk_chunks sink @ (?c # cs)"
    using cs(1) by (simp add: sink_push_def)
  moreover have "map co_seq_in_block (?c # cs) =
      map (\<lambda>i. sk_seq_in_block sink + word_of_nat i) [0..<length (p # ps)]"
    unfolding up using cs(3) by (simp add: sink_push_def add.assoc)
  moreover have "map (\<lambda>c. span_start (co_span c)) (?c # cs) =
      map (\<lambda>i. a + length (concat (take i (p # ps)))) [0..<length (p # ps)]"
    unfolding up using cs(4) by simp
  moreover have "map co_text (?c # cs) = p # ps" using cs(2) by simp
  moreover have "\<forall>c \<in> set (?c # cs). co_block_seq c = sk_block_seq sink \<and>
      span_end (co_span c) = span_start (co_span c) + length (co_text c)"
    using cs(5) by (simp add: sink_push_def)
  moreover have "sk_block_seq (push_pieces a (p # ps) sink) = sk_block_seq sink"
    using Cons.IH [of "a + length p" ?sink] by (simp add: sink_push_def)
  ultimately show ?case by (intro conjI exI [of _ "?c # cs"])
qed simp

definition code_chunks_ok :: "string \<Rightarrow> nat \<Rightarrow> u32 \<Rightarrow> chunk_output list \<Rightarrow> bool" where
  "code_chunks_ok markdown target seq cs \<longleftrightarrow>
     concat (map co_text cs) = markdown \<and>
     map co_seq_in_block cs = map word_of_nat [0..<length cs] \<and>
     map (\<lambda>c. span_start (co_span c)) cs = map (\<lambda>i. length (concat (take i (map co_text cs)))) [0..<length cs] \<and>
     list_all (\<lambda>c. co_block_seq c = seq \<and> piece_ok target (co_text c) \<and>
       span_end (co_span c) = span_start (co_span c) + length (co_text c)) cs"

lemma chunk_code_ok:
  assumes "utf8 markdown"
  shows "\<exists>cs. chunk_code h resource_id markdown config seq = Inr (finalize_ids h resource_id cs) \<and>
    code_chunks_ok markdown (resolved_target_tokens config) seq cs"
proof -
  let ?sink = "\<lparr>sk_block_seq = seq, sk_seq_in_block = 0, sk_chunks = []\<rparr>"
  obtain ps where ps: "chunk_code h resource_id markdown config seq =
        Inr (finalize_ids h resource_id (sk_chunks (push_pieces 0 ps ?sink)))"
      "concat ps = markdown" "\<forall>p \<in> set ps. piece_ok (resolved_target_tokens config) p"
    using code_pieces [OF assms] by blast
  obtain cs where cs: "sk_chunks (push_pieces 0 ps ?sink) = cs" "map co_text cs = ps"
      "map co_seq_in_block cs = map word_of_nat [0..<length ps]"
      "map (\<lambda>c. span_start (co_span c)) cs = map (\<lambda>i. length (concat (take i ps))) [0..<length ps]"
      "\<forall>c \<in> set cs. co_block_seq c = seq \<and> span_end (co_span c) = span_start (co_span c) + length (co_text c)"
    using push_pieces_chunks [of 0 ps ?sink] by auto
  have "length ps = length cs" using cs(2) by auto
  moreover have "\<forall>c \<in> set cs. piece_ok (resolved_target_tokens config) (co_text c)"
    using ps(3) cs(2) by auto
  ultimately show ?thesis
    using ps(1,2) cs by (auto simp: code_chunks_ok_def list_all_iff)
qed

text \<open>
  C39: Packing a text into chunks loses nothing and never panics: for every valid string the chunks
  are returned, their texts joined give the text back, each is the slice its span names, starting
  where the one before ended, numbered from 0, non-empty, and of at most the target number of
  characters when the target is positive.
\<close>

theorem chunk_code_lossless:
  assumes "utf8 markdown"
  shows "\<exists>cs. chunk_code h resource_id markdown config seq = Inr cs \<and>
    concat (map co_text cs) = markdown \<and>
    map co_seq_in_block cs = map word_of_nat [0..<length cs] \<and>
    map (\<lambda>c. span_start (co_span c)) cs = map (\<lambda>i. length (concat (take i (map co_text cs)))) [0..<length cs] \<and>
    (\<forall>c \<in> set cs. co_block_seq c = seq \<and> co_text c \<noteq> [] \<and>
       (0 < resolved_target_tokens config \<longrightarrow> char_count (co_text c) \<le> resolved_target_tokens config) \<and>
       str_slice markdown (span_start (co_span c)) (span_end (co_span c)) = Some (co_text c))"
proof -
  obtain cs where cs: "chunk_code h resource_id markdown config seq = Inr (finalize_ids h resource_id cs)"
      "code_chunks_ok markdown (resolved_target_tokens config) seq cs"
    using chunk_code_ok [OF assms] by blast
  have "str_slice markdown (span_start (co_span c)) (span_end (co_span c)) = Some (co_text c)"
    if "c \<in> set cs" for c
  proof -
    from that obtain i where i: "i < length cs" "c = cs ! i" by (metis in_set_conv_nth)
    let ?ts = "map co_text cs"
    have ok: "\<forall>t \<in> set ?ts. starts t" "concat ?ts = markdown"
      using cs(2) utf8_starts by (auto simp: code_chunks_ok_def piece_ok_def list_all_iff)
    have "map (\<lambda>c. span_start (co_span c)) cs = map (\<lambda>i. length (concat (take i ?ts))) [0..<length cs]"
      using cs(2) by (simp add: code_chunks_ok_def)
    then have "map (\<lambda>c. span_start (co_span c)) cs ! i = map (\<lambda>i. length (concat (take i ?ts))) [0..<length cs] ! i"
      by (rule arg_cong)
    then have "span_start (co_span c) = length (concat (take i ?ts))"
      using i by simp
    moreover have "span_end (co_span c) = span_start (co_span c) + length (co_text c)"
      using cs(2) that by (simp add: code_chunks_ok_def list_all_iff)
    moreover have "markdown = concat (take i ?ts) @ co_text c @ concat (drop (Suc i) ?ts)"
      using id_take_nth_drop [of i ?ts] i ok(2) by (metis concat.simps(2) concat_append length_map nth_map)
    moreover have "starts (co_text c)" "starts (concat (drop (Suc i) ?ts))"
      using ok(1) that starts_concat [of "drop (Suc i) ?ts"] in_set_dropD [of _ "Suc i" ?ts] by auto
    ultimately show ?thesis using slice_middle by metis
  qed
  with cs show ?thesis
    by (intro exI [of _ "finalize_ids h resource_id cs"])
       (auto simp: code_chunks_ok_def piece_ok_def list_all_iff finalize_ids_def comp_def)
qed

text \<open>Two characters a chunk: a line of five bytes, one of them a character of two bytes.\<close>

lemma chunk_code_witness:
  "\<exists>cs. chunk_code id ''d'' [CHR ''a'', CHR 0xC3, CHR 0xA9, CHR ''b'', CHR 0x0A]
     (config_code\<lparr>cc_target_tokens := Some 2\<rparr>) 0 = Inr cs \<and>
   concat (map co_text cs) = [CHR ''a'', CHR 0xC3, CHR 0xA9, CHR ''b'', CHR 0x0A]"
proof -
  have "utf8 [CHR ''a'', CHR 0xC3, CHR 0xA9, CHR ''b'', CHR 0x0A]"
    by (simp add: utf8_def is_cont_def char_width_def)
  from chunk_code_lossless [OF this] show ?thesis by blast
qed

end
