(* ===== verification/ChunkProse.thy ===== *)
theory ChunkProse
  imports ChunkCode
begin

text \<open>
  The prose chunker (\<open>core/src/chunker/formats/prose.rs\<close>) and the table chunker
  (\<open>formats/table.rs\<close>). The Markdown splitter (the \<open>text-splitter\<close> crate) and the Markdown
  parser are parameters, gathered with the hash in one record; the lemmas use of the splitter only
  that it returns offsets and texts.
\<close>

section \<open>Prose\<close>

record splitter_config =
  sp_cap_start :: nat
  sp_cap_end :: nat
  sp_overlap :: "nat option"

record chunk_ext =
  ext_hash :: hash_fn
  ext_parser :: md_parser
  ext_accepts_overlap :: "splitter_config \<Rightarrow> nat \<Rightarrow> bool"
  ext_chunk_indices :: "splitter_config \<Rightarrow> sizer \<Rightarrow> string \<Rightarrow> (nat \<times> string) list"

definition STRUCTURELESS_RUN_MULTIPLIER :: nat where
  "STRUCTURELESS_RUN_MULTIPLIER = 8"

definition OVERLONG_LINE_MULTIPLIER :: nat where
  "OVERLONG_LINE_MULTIPLIER = 64"

definition max_or_zero :: "nat list \<Rightarrow> nat" where
  "max_or_zero ns = fold max ns 0"

text \<open>The backstop: text without structure goes to the line packer.\<close>

definition is_structureless :: "nat \<Rightarrow> string \<Rightarrow> bool" where
  "is_structureless target markdown =
     (let max_run_len = max_or_zero (map char_count (split_whitespace markdown));
          max_line_len = max_or_zero (map (char_count \<circ> snd) (lines_at markdown))
      in STRUCTURELESS_RUN_MULTIPLIER * target < max_run_len \<or>
         OVERLONG_LINE_MULTIPLIER * target < max_line_len)"

definition splitter_for :: "chunk_ext \<Rightarrow> nat \<Rightarrow> nat \<Rightarrow> splitter_config" where
  "splitter_for ext target overlap =
     (let cap_start = target * 3 div 4;
          cfg = \<lparr>sp_cap_start = cap_start, sp_cap_end = target, sp_overlap = None\<rparr>
      in if 0 < overlap \<and> overlap < cap_start \<and> ext_accepts_overlap ext cfg overlap
         then cfg\<lparr>sp_overlap := Some overlap\<rparr> else cfg)"

definition prose_chunk :: "(nat \<times> string list) list \<Rightarrow> u32 \<Rightarrow> nat \<times> nat \<times> string \<Rightarrow> chunk_output" where
  "prose_chunk heading_idx seq ic =
     (case ic of (i, byte_off, chunk) \<Rightarrow>
        placeholder chunk (span_of byte_off (byte_off + length chunk))
          (heading_path_at heading_idx byte_off) seq (word_of_nat i))"

definition chunk_prose ::
  "chunk_ext \<Rightarrow> string \<Rightarrow> string \<Rightarrow> chunker_config \<Rightarrow> sizer \<Rightarrow> u32 \<Rightarrow> fault + chunk_output list" where
  "chunk_prose ext resource_id markdown config sizer seq =
     (if markdown = [] then Inr []
      else let target = resolved_target_tokens config
      in if is_structureless target markdown
         then chunk_code (ext_hash ext) resource_id markdown config seq
         else let heading_idx = build_heading_index (ext_parser ext) markdown;
                  cfg = splitter_for ext target (resolved_overlap_tokens config);
                  pieces = ext_chunk_indices ext cfg sizer markdown
              in Inr (finalize_ids (ext_hash ext) resource_id
                   (map (prose_chunk heading_idx seq) (zip [0..<length pieces] pieces))))"

text \<open>Whatever a chunker returns for one block: chunks of that block, numbered from 0.\<close>

definition numbered :: "u32 \<Rightarrow> chunk_output list \<Rightarrow> bool" where
  "numbered seq cs \<longleftrightarrow> list_all (\<lambda>c. co_block_seq c = seq) cs \<and>
     map co_seq_in_block cs = map word_of_nat [0..<length cs]"

lemma numbered_finalize [simp]: "numbered seq (finalize_ids h r cs) = numbered seq cs"
  by (simp add: numbered_def finalize_ids_def list_all_iff comp_def)

lemma finalize_pieces [simp]:
  "map (\<lambda>c. (span_start (co_span c), co_text c)) (finalize_ids h r cs) =
   map (\<lambda>c. (span_start (co_span c), co_text c)) cs"
  by (simp add: finalize_ids_def comp_def)

lemma code_numbered: "code_chunks_ok md target seq cs \<Longrightarrow> numbered seq cs"
  by (auto simp: code_chunks_ok_def numbered_def list_all_iff)

lemma chunk_prose_run:
  assumes "utf8 markdown"
  shows "\<exists>cs. chunk_prose ext resource_id markdown config sizer seq = Inr cs \<and> numbered seq cs \<and>
    (if is_structureless (resolved_target_tokens config) markdown
     then concat (map co_text cs) = markdown
     else map (\<lambda>c. (span_start (co_span c), co_text c)) cs =
       (if markdown = [] then []
        else ext_chunk_indices ext (splitter_for ext (resolved_target_tokens config) (resolved_overlap_tokens config))
               sizer markdown))"
proof -
  let ?target = "resolved_target_tokens config"
  consider "markdown = []" | "markdown \<noteq> []" "is_structureless ?target markdown"
    | "markdown \<noteq> []" "\<not> is_structureless ?target markdown" by blast
  then show ?thesis
  proof cases
    case 1
    then show ?thesis by (simp add: chunk_prose_def numbered_def)
  next
    case 2
    obtain cs where cs: "chunk_code (ext_hash ext) resource_id markdown config seq =
          Inr (finalize_ids (ext_hash ext) resource_id cs)" "code_chunks_ok markdown ?target seq cs"
      using chunk_code_ok [OF assms] by blast
    then have "concat (map co_text cs) = markdown" by (simp add: code_chunks_ok_def)
    with 2 cs code_numbered [OF cs(2)] show ?thesis by (simp add: chunk_prose_def Let_def)
  next
    case 3
    define cfg where "cfg = splitter_for ext ?target (resolved_overlap_tokens config)"
    define ps where "ps = ext_chunk_indices ext cfg sizer markdown"
    define cs where "cs = map (prose_chunk (build_heading_index (ext_parser ext) markdown) seq) (zip [0..<length ps] ps)"
    have "chunk_prose ext resource_id markdown config sizer seq = Inr (finalize_ids (ext_hash ext) resource_id cs)"
      using 3 by (simp add: chunk_prose_def Let_def cs_def ps_def cfg_def)
    moreover have "map co_seq_in_block cs = map word_of_nat [0..<length cs]"
      by (rule nth_equalityI) (auto simp: cs_def prose_chunk_def split: prod.split)
    then have "numbered seq cs"
      by (auto simp: numbered_def cs_def prose_chunk_def list_all_iff)
    moreover have "map (\<lambda>c. (span_start (co_span c), co_text c)) cs = ps"
      by (rule nth_equalityI) (auto simp: cs_def prose_chunk_def split: prod.split)
    ultimately show ?thesis
      using 3 by (intro exI [of _ "finalize_ids (ext_hash ext) resource_id cs"])
        (simp add: ps_def cfg_def)
  qed
qed

text \<open>
  The prose chunker returns for every valid string, whatever the splitter does: either the
  splitter's pieces with the spans it reported, or, for a structureless text, the pieces of the
  line packer, which give the text back.
\<close>

theorem chunk_prose_returns:
  assumes "utf8 markdown"
  shows "\<exists>cs. chunk_prose ext resource_id markdown config sizer seq = Inr cs \<and> numbered seq cs \<and>
    (if is_structureless (resolved_target_tokens config) markdown
     then concat (map co_text cs) = markdown
     else map (\<lambda>c. (span_start (co_span c), co_text c)) cs =
       (if markdown = [] then []
        else ext_chunk_indices ext (splitter_for ext (resolved_target_tokens config) (resolved_overlap_tokens config))
               sizer markdown))"
  using assms by (rule chunk_prose_run)

text \<open>A splitter that returns the whole text, on a two-word text.\<close>

definition whole_ext :: chunk_ext where
  "whole_ext = \<lparr>ext_hash = id, ext_parser = (\<lambda>_. []), ext_accepts_overlap = (\<lambda>_ _. False),
     ext_chunk_indices = (\<lambda>_ _ s. [(0, s)])\<rparr>"

lemma utf8_hi: "utf8 ''hi you''"
  by (simp add: utf8_def is_cont_def char_width_def)

lemma chunk_prose_witness:
  "\<exists>cs. chunk_prose whole_ext ''d'' ''hi you'' config_prose char_sizer 4 = Inr cs \<and> numbered 4 cs"
  using chunk_prose_returns [OF utf8_hi] by blast

end
