(* ===== verification/ChunkTable.thy ===== *)
theory ChunkTable
  imports ChunkProse
begin

text \<open>
  The table chunker (\<open>core/src/chunker/formats/table.rs\<close>): data rows are packed greedily into
  chunks that repeat the header, and a row too big for a chunk of its own goes to the line packer.
\<close>

section \<open>Code\<close>

definition is_table_separator_row :: "string \<Rightarrow> bool" where
  "is_table_separator_row line =
     (let trimmed = trim line; inner = trim_char (CHR ''|'') trimmed
      in trimmed \<noteq> [] \<and> inner \<noteq> [] \<and>
         list_all (\<lambda>cell. let cell = trim cell
            in cell \<noteq> [] \<and> CHR ''-'' \<in> set cell \<and>
               list_all (\<lambda>c. c = ''-'' \<or> c = '':'' \<or> is_whitespace c) (chars cell))
           (split_on (CHR ''|'') inner))"

text \<open>The header line is the first line that is not blank, the separator the next line.\<close>

definition parse_table :: "(nat \<times> string) list \<Rightarrow> (string \<times> string \<times> (nat \<times> string) list) option" where
  "parse_table lines =
     (case dropWhile (\<lambda>l. trim (snd l) = []) lines of
        hdr # sep # rest \<Rightarrow>
          if CHR ''|'' \<in> set (snd hdr) \<and> is_table_separator_row (snd sep)
          then Some (snd hdr, snd sep, rest) else None
      | _ \<Rightarrow> None)"

definition table_text :: "string \<Rightarrow> string list \<Rightarrow> string" where
  "table_text header_block rows = header_block @ [CHR 0x0A] @ join [CHR 0x0A] rows"

record table_state =
  ts_pending :: "string list"
  ts_chunks :: "chunk_output list"
  ts_seq_in_block :: u32

definition flush_table_batch :: "string \<Rightarrow> u32 \<Rightarrow> table_state \<Rightarrow> table_state" where
  "flush_table_batch header_block seq st =
     (if ts_pending st = [] then st
      else st\<lparr>ts_chunks := ts_chunks st @
                [placeholder (table_text header_block (ts_pending st)) (span_of 0 0) [] seq (ts_seq_in_block st)],
              ts_seq_in_block := ts_seq_in_block st + 1,
              ts_pending := []\<rparr>)"

text \<open>A chunk of a split row: its span moves to the block, its number goes on.\<close>

definition push_row_chunk :: "u32 \<Rightarrow> nat \<Rightarrow> chunk_output \<Rightarrow> table_state \<Rightarrow> table_state" where
  "push_row_chunk seq row_off rc st =
     st\<lparr>ts_chunks := ts_chunks st @
          [rc\<lparr>co_span := span_of (span_start (co_span rc) + row_off) (span_end (co_span rc) + row_off),
              co_block_seq := seq, co_seq_in_block := ts_seq_in_block st\<rparr>],
        ts_seq_in_block := ts_seq_in_block st + 1\<rparr>"

definition table_row ::
  "hash_fn \<Rightarrow> string \<Rightarrow> chunker_config \<Rightarrow> sizer \<Rightarrow> u32 \<Rightarrow> string \<Rightarrow> nat \<times> string \<Rightarrow> table_state \<Rightarrow>
   fault + table_state" where
  "table_row h resource_id config sizer seq header_block orow st =
     (let (row_off, row) = orow; target = resolved_target_tokens config
      in if target < sizer (table_text header_block [row])
         then and_then (chunk_code h resource_id row config seq) (\<lambda>row_chunks.
                Inr (fold (push_row_chunk seq row_off) row_chunks (flush_table_batch header_block seq st)))
         else if sizer (table_text header_block (ts_pending st @ [row])) \<le> target
         then Inr (st\<lparr>ts_pending := ts_pending st @ [row]\<rparr>)
         else Inr ((flush_table_batch header_block seq st)\<lparr>ts_pending := [row]\<rparr>))"

definition data_rows :: "(nat \<times> string) list \<Rightarrow> (nat \<times> string) list" where
  "data_rows lines = filter (\<lambda>l. trim (snd l) \<noteq> []) lines"

definition chunk_table ::
  "hash_fn \<Rightarrow> string \<Rightarrow> string \<Rightarrow> chunker_config \<Rightarrow> sizer \<Rightarrow> u32 \<Rightarrow> fault + chunk_output list" where
  "chunk_table h resource_id markdown config sizer seq =
     (if markdown = [] then Inr []
      else case parse_table (lines_at markdown) of
        None \<Rightarrow> chunk_code h resource_id markdown config seq
      | Some (hdr, sep, rest) \<Rightarrow>
          let header_block = hdr @ [CHR 0x0A] @ sep; rows = data_rows rest
          in if rows = []
             then Inr (finalize_ids h resource_id [placeholder header_block (span_of 0 0) [] seq 0])
             else and_then (try_fold (table_row h resource_id config sizer seq header_block) rows
                              \<lparr>ts_pending = [], ts_chunks = [], ts_seq_in_block = 0\<rparr>)
                    (\<lambda>st. Inr (finalize_ids h resource_id
                        (ts_chunks (flush_table_batch header_block seq st)))))"

section \<open>What the chunks of a table are\<close>

text \<open>
  The rows in order, in groups: a batch shares one chunk, a split row is cut into pieces.
\<close>

datatype row_group = Batch "string list" | SplitRow string "string list"

fun group_rows :: "row_group \<Rightarrow> string list" where
  "group_rows (Batch rs) = rs"
| "group_rows (SplitRow r ps) = [r]"

fun group_texts :: "string \<Rightarrow> row_group \<Rightarrow> string list" where
  "group_texts hb (Batch rs) = [table_text hb rs]"
| "group_texts hb (SplitRow r ps) = ps"

fun group_ok :: "sizer \<Rightarrow> nat \<Rightarrow> string \<Rightarrow> row_group \<Rightarrow> bool" where
  "group_ok sizer target hb (Batch rs) \<longleftrightarrow> rs \<noteq> [] \<and> sizer (table_text hb rs) \<le> target"
| "group_ok sizer target hb (SplitRow r ps) \<longleftrightarrow>
     target < sizer (table_text hb [r]) \<and> concat ps = r \<and> list_all (piece_ok target) ps"

definition table_inv :: "sizer \<Rightarrow> nat \<Rightarrow> string \<Rightarrow> u32 \<Rightarrow> string list \<Rightarrow> table_state \<Rightarrow> bool" where
  "table_inv sizer target hb seq done st \<longleftrightarrow>
     (ts_pending st \<noteq> [] \<longrightarrow> sizer (table_text hb (ts_pending st)) \<le> target) \<and>
     numbered seq (ts_chunks st) \<and> ts_seq_in_block st = word_of_nat (length (ts_chunks st)) \<and>
     (\<exists>gs. concat (map group_rows gs) @ ts_pending st = done \<and> list_all (group_ok sizer target hb) gs \<and>
        map co_text (ts_chunks st) = concat (map (group_texts hb) gs))"

lemma numbered_snoc:
  "numbered seq cs \<Longrightarrow> co_block_seq c = seq \<Longrightarrow> co_seq_in_block c = word_of_nat (length cs) \<Longrightarrow>
    numbered seq (cs @ [c])"
  by (simp add: numbered_def)

lemma flush_inv:
  assumes "table_inv sizer target hb seq done st"
  shows "table_inv sizer target hb seq done (flush_table_batch hb seq st) \<and>
    ts_pending (flush_table_batch hb seq st) = []"
proof (cases "ts_pending st = []")
  case False
  from assms obtain gs where gs: "concat (map group_rows gs) @ ts_pending st = done"
      "list_all (group_ok sizer target hb) gs" "map co_text (ts_chunks st) = concat (map (group_texts hb) gs)"
    by (auto simp: table_inv_def)
  let ?gs = "gs @ [Batch (ts_pending st)]"
  have "concat (map group_rows ?gs) @ [] = done" "list_all (group_ok sizer target hb) ?gs"
    using gs assms False by (auto simp: table_inv_def)
  with False assms gs(3) show ?thesis
    by (auto simp: table_inv_def flush_table_batch_def intro!: numbered_snoc exI [of _ ?gs])
qed (use assms in \<open>simp add: flush_table_batch_def\<close>)

lemma push_rows:
  "numbered seq (ts_chunks st) \<and> ts_seq_in_block st = word_of_nat (length (ts_chunks st)) \<Longrightarrow>
   (let st' = fold (push_row_chunk seq off) rcs st
    in numbered seq (ts_chunks st') \<and> ts_seq_in_block st' = word_of_nat (length (ts_chunks st')) \<and>
       map co_text (ts_chunks st') = map co_text (ts_chunks st) @ map co_text rcs \<and>
       ts_pending st' = ts_pending st)"
proof (induction rcs arbitrary: st)
  case (Cons rc rcs)
  let ?st = "push_row_chunk seq off rc st"
  have "numbered seq (ts_chunks ?st) \<and> ts_seq_in_block ?st = word_of_nat (length (ts_chunks ?st))"
    using Cons.prems by (auto simp: push_row_chunk_def intro: numbered_snoc)
  from Cons.IH [OF this] show ?case by (simp add: Let_def push_row_chunk_def)
qed (simp add: Let_def)

lemma table_row_inv:
  assumes "table_inv sizer (resolved_target_tokens config) hb seq done st" "utf8 (snd orow)"
  shows "\<exists>st'. table_row h rid config sizer seq hb orow st = Inr st' \<and>
    table_inv sizer (resolved_target_tokens config) hb seq (done @ [snd orow]) st'"
proof -
  obtain off row where orow: "orow = (off, row)" by (cases orow)
  let ?target = "resolved_target_tokens config"
  let ?fl = "flush_table_batch hb seq st"
  note fl = flush_inv [OF assms(1)]
  consider "?target < sizer (table_text hb [row])"
    | "sizer (table_text hb [row]) \<le> ?target" "sizer (table_text hb (ts_pending st @ [row])) \<le> ?target"
    | "sizer (table_text hb [row]) \<le> ?target" "?target < sizer (table_text hb (ts_pending st @ [row]))"
    by linarith
  then show ?thesis
  proof cases
    case 1
    obtain cs where cs: "chunk_code h rid row config seq = Inr (finalize_ids h rid cs)" "code_chunks_ok row ?target seq cs"
      using chunk_code_ok [of row h rid config seq] assms(2) orow by auto
    define st' where "st' = fold (push_row_chunk seq off) (finalize_ids h rid cs) ?fl"
    from fl obtain gs where gs: "concat (map group_rows gs) = done" "list_all (group_ok sizer ?target hb) gs"
        "map co_text (ts_chunks ?fl) = concat (map (group_texts hb) gs)"
      by (auto simp: table_inv_def)
    let ?gs = "gs @ [SplitRow row (map co_text cs)]"
    have "numbered seq (ts_chunks ?fl) \<and> ts_seq_in_block ?fl = word_of_nat (length (ts_chunks ?fl))"
      using fl by (simp add: table_inv_def)
    from push_rows [OF this, of off "finalize_ids h rid cs"]
    have st': "numbered seq (ts_chunks st')" "ts_seq_in_block st' = word_of_nat (length (ts_chunks st'))"
        "map co_text (ts_chunks st') = map co_text (ts_chunks ?fl) @ map co_text cs" "ts_pending st' = []"
      using fl by (simp_all add: Let_def st'_def)
    have "list_all (group_ok sizer ?target hb) ?gs"
      using gs(2) 1 cs(2) by (auto simp: code_chunks_ok_def list_all_iff)
    then have "table_inv sizer ?target hb seq (done @ [row]) st'"
      using st' gs(1,3) unfolding table_inv_def by (intro conjI exI [of _ ?gs]) simp_all
    with 1 cs(1) show ?thesis by (simp add: table_row_def orow st'_def)
  next
    case 2
    then have "table_inv sizer ?target hb seq (done @ [row]) (st\<lparr>ts_pending := ts_pending st @ [row]\<rparr>)"
      using assms(1) by (auto simp: table_inv_def)
    with 2 show ?thesis by (simp add: table_row_def orow)
  next
    case 3
    then have "table_inv sizer ?target hb seq (done @ [row]) (?fl\<lparr>ts_pending := [row]\<rparr>)"
      using fl by (auto simp: table_inv_def)
    with 3 show ?thesis by (simp add: table_row_def orow)
  qed
qed

lemma utf8_strip_line_end:
  assumes "utf8 l"
  shows "utf8 (strip_line_end l)"
proof -
  have cut: "utf8 (butlast s)" if "utf8 s" "s \<noteq> []" "last s = CHR 0x0A \<or> last s = CHR 0x0D" for s
  proof -
    have "s = butlast s @ [last s]" using that(2) by simp
    moreover have "starts [last s]" using that(3) by (auto simp: is_cont_def)
    ultimately show ?thesis using that(1) utf8_appendD(1) by metis
  qed
  show ?thesis
    using assms cut [of l] cut [of "butlast l"] by (auto simp: strip_line_end_def Let_def)
qed

lemma parse_table_rest:
  "parse_table lines = Some (hdr, sep, rest) \<Longrightarrow> set rest \<subseteq> set lines"
  by (auto simp: parse_table_def split: list.splits if_splits dest!: arg_cong [of _ _ set] set_dropWhileD)

lemma rows_utf8:
  assumes "utf8 markdown" "parse_table (lines_at markdown) = Some (hdr, sep, rest)" "orow \<in> set (data_rows rest)"
  shows "utf8 (snd orow)"
proof -
  have "orow \<in> set (lines_at markdown)"
    using assms(3) parse_table_rest [OF assms(2)] by (auto simp: data_rows_def)
  then obtain i l where "orow = (i, strip_line_end l)" "(i, l) \<in> set (line_offsets markdown)"
    by (auto simp: lines_at_def)
  moreover from this(2) have "l \<in> set (split_lines markdown)"
    using map_snd_indices [of 0 "split_lines markdown"] by (metis line_offsets_def list.set_map image_eqI snd_conv)
  ultimately show ?thesis using utf8_split_lines [OF assms(1)] utf8_strip_line_end by simp
qed

lemma table_rows_inv:
  assumes "table_inv sizer (resolved_target_tokens config) hb seq done st" "\<forall>r \<in> set rows. utf8 (snd r)"
  shows "\<exists>st'. try_fold (table_row h rid config sizer seq hb) rows st = Inr st' \<and>
    table_inv sizer (resolved_target_tokens config) hb seq (done @ map snd rows) st'"
  using assms
proof (induction rows arbitrary: "done" st)
  case (Cons r rows)
  obtain st' where st': "table_row h rid config sizer seq hb r st = Inr st'"
      "table_inv sizer (resolved_target_tokens config) hb seq (done @ [snd r]) st'"
    using table_row_inv [OF Cons.prems(1), of r h rid] Cons.prems(2) by auto
  from Cons.IH [OF st'(2)] Cons.prems(2) st'(1) show ?case by simp
qed simp

lemma chunk_table_run:
  assumes "utf8 markdown" "markdown \<noteq> []" "parse_table (lines_at markdown) = Some (hdr, sep, rest)"
    and "data_rows rest \<noteq> []"
  shows "\<exists>cs gs. chunk_table h resource_id markdown config sizer seq = Inr cs \<and>
    concat (map group_rows gs) = map snd (data_rows rest) \<and>
    list_all (group_ok sizer (resolved_target_tokens config) (hdr @ [CHR 0x0A] @ sep)) gs \<and>
    map co_text cs = concat (map (group_texts (hdr @ [CHR 0x0A] @ sep)) gs) \<and> numbered seq cs"
proof -
  let ?hb = "hdr @ [CHR 0x0A] @ sep" and ?st = "\<lparr>ts_pending = [], ts_chunks = [], ts_seq_in_block = 0\<rparr>"
  have rows: "\<forall>r \<in> set (data_rows rest). utf8 (snd r)" using rows_utf8 [OF assms(1,3)] by blast
  have "table_inv sizer (resolved_target_tokens config) ?hb seq [] ?st"
    by (auto simp: table_inv_def numbered_def intro: exI [of _ "[]"])
  from table_rows_inv [OF this rows, of h resource_id] obtain st where
      st: "try_fold (table_row h resource_id config sizer seq ?hb) (data_rows rest) ?st = Inr st"
        "table_inv sizer (resolved_target_tokens config) ?hb seq (map snd (data_rows rest)) st" by auto
  let ?st' = "flush_table_batch ?hb seq st"
  have inv: "table_inv sizer (resolved_target_tokens config) ?hb seq (map snd (data_rows rest)) ?st'"
      and empty: "ts_pending ?st' = []"
    using flush_inv [OF st(2)] by blast+
  obtain gs where gs: "numbered seq (ts_chunks ?st')"
      "concat (map group_rows gs) = map snd (data_rows rest)"
      "list_all (group_ok sizer (resolved_target_tokens config) ?hb) gs"
      "map co_text (ts_chunks ?st') = concat (map (group_texts ?hb) gs)"
    using inv unfolding table_inv_def empty append_Nil2 by blast
  have "chunk_table h resource_id markdown config sizer seq = Inr (finalize_ids h resource_id (ts_chunks ?st'))"
    using assms(2-4) st(1) by (simp add: chunk_table_def Let_def)
  with gs show ?thesis
    by (intro exI [of _ "finalize_ids h resource_id (ts_chunks ?st')"] exI [of _ gs]) simp
qed

lemma chunk_table_returns:
  assumes "utf8 markdown"
  shows "\<exists>cs. chunk_table h resource_id markdown config sizer seq = Inr cs"
proof (cases "markdown = [] \<or> parse_table (lines_at markdown) = None")
  case True
  then show ?thesis
    using chunk_code_ok [OF assms, of h resource_id config seq] by (auto simp: chunk_table_def)
next
  case False
  then obtain hdr sep rest where p: "parse_table (lines_at markdown) = Some (hdr, sep, rest)" by auto
  show ?thesis
  proof (cases "data_rows rest = []")
    case True
    with False p show ?thesis by (simp add: chunk_table_def Let_def)
  next
    case rows: False
    from False have "markdown \<noteq> []" by simp
    from chunk_table_run [OF assms this p rows, of h resource_id config sizer seq] show ?thesis by blast
  qed
qed

text \<open>
  A well-formed table is chunked without losing, repeating or reordering a row, and without
  panicking: the chunks are those of a partition of the data rows in order, where a batch of rows
  shares one chunk that repeats the header and measures at most the target, and a row that no
  chunk of its own could hold is cut into pieces that join to it. They are numbered from 0.
\<close>

theorem chunk_table_spec:
  assumes "utf8 markdown" "markdown \<noteq> []" "parse_table (lines_at markdown) = Some (hdr, sep, rest)"
    and "data_rows rest \<noteq> []"
  shows "\<exists>cs gs. chunk_table h resource_id markdown config sizer seq = Inr cs \<and>
    concat (map group_rows gs) = map snd (data_rows rest) \<and>
    list_all (group_ok sizer (resolved_target_tokens config) (hdr @ [CHR 0x0A] @ sep)) gs \<and>
    map co_text cs = concat (map (group_texts (hdr @ [CHR 0x0A] @ sep)) gs) \<and> numbered seq cs"
  using assms by (rule chunk_table_run)

text \<open>A table of two columns and one row.\<close>

definition demo_table :: string where
  "demo_table = ''|a|b|'' @ [CHR 0x0A] @ ''|-|-|'' @ [CHR 0x0A] @ ''|1|2|''"

lemma demo_table_parsed:
  "parse_table (lines_at demo_table) = Some (''|a|b|'', ''|-|-|'', [(12, ''|1|2|'')])"
proof -
  have lines: "lines_at demo_table = [(0, ''|a|b|''), (6, ''|-|-|''), (12, ''|1|2|'')]"
    by (simp add: lines_at_def line_offsets_def demo_table_def strip_line_end_def Let_def)
  have t: "trim ''|a|b|'' = ''|a|b|''" "trim ''|-|-|'' = ''|-|-|''" "trim ''-'' = ''-''"
    by (rule trim_solid; simp add: solid_def)+
  have "is_table_separator_row ''|-|-|''"
    by (simp add: is_table_separator_row_def Let_def t trim_char_def is_cont_def)
  then show ?thesis by (simp add: lines parse_table_def t)
qed

lemma chunk_table_witness:
  "\<exists>cs. chunk_table id ''d'' demo_table config_prose char_sizer 7 = Inr cs \<and> numbered 7 cs"
proof -
  have u: "utf8 demo_table"
    by (simp add: demo_table_def utf8_def is_cont_def char_width_def)
  have rows: "data_rows [(12, ''|1|2|'')] \<noteq> []"
    using trim_solid [of "''|1|2|''"] by (simp add: data_rows_def solid_def)
  have "demo_table \<noteq> []" by (simp add: demo_table_def)
  from chunk_table_spec [OF u this demo_table_parsed rows] show ?thesis by blast
qed

end
