(* ===== verification/ChunkMessages.thy ===== *)
theory ChunkMessages
  imports ChunkProse
begin

text \<open>
  The messages chunker (\<open>core/src/chunker/formats/messages.rs\<close>): a window slides over the turns of
  a conversation, shrinks from its end until its text fits, and an oversized turn alone in its
  window goes to the prose chunker. Every slice the code takes is in range, as the loop keeps
  \<open>window_start < n\<close>.
\<close>

section \<open>Code\<close>

definition format_message_prefix :: "string \<Rightarrow> string option \<Rightarrow> string" where
  "format_message_prefix sender timestamp =
     (case timestamp of
        Some ts \<Rightarrow> ''['' @ sender @ ''] ('' @ ts @ ''): ''
      | None \<Rightarrow> ''['' @ sender @ '']: '')"

definition format_segment_prefix :: "string option \<Rightarrow> u64 \<Rightarrow> u64 \<Rightarrow> string" where
  "format_segment_prefix speaker start_ms end_ms =
     (case speaker of
        Some sp \<Rightarrow> ''['' @ sp @ ''] ('' @ show_nat (unat start_ms) @ ''-'' @ show_nat (unat end_ms) @ ''): ''
      | None \<Rightarrow> ''('' @ show_nat (unat start_ms) @ ''-'' @ show_nat (unat end_ms) @ ''): '')"

fun is_turn_block :: "block_kind \<Rightarrow> bool" where
  "is_turn_block (BMessage sender timestamp message_id reply_to) = True"
| "is_turn_block (BSegment speaker start_ms end_ms) = True"
| "is_turn_block k = False"

text \<open>The prefix of a turn; \<open>unreachable!()\<close> for any other block.\<close>

fun turn_prefix :: "block_kind \<Rightarrow> string option" where
  "turn_prefix (BMessage sender timestamp message_id reply_to) = Some (format_message_prefix sender timestamp)"
| "turn_prefix (BSegment speaker start_ms end_ms) = Some (format_segment_prefix speaker start_ms end_ms)"
| "turn_prefix k = None"

definition turn_text :: "block \<Rightarrow> fault + string" where
  "turn_text b = and_then (or_panic (turn_prefix (block_kind_of b))) (\<lambda>p. Inr (p @ block_text b))"

fun try_map :: "('a \<Rightarrow> 'e + 'b) \<Rightarrow> 'a list \<Rightarrow> 'e + 'b list" where
  "try_map f [] = Inr []"
| "try_map f (x # xs) = and_then (f x) (\<lambda>y. and_then (try_map f xs) (\<lambda>ys. Inr (y # ys)))"

text \<open>\<open>\&xs[a..b]\<close> in range.\<close>

definition sub :: "'a list \<Rightarrow> nat \<Rightarrow> nat \<Rightarrow> 'a list" where
  "sub xs a b = take (b - a) (drop a xs)"

definition chunk_oversized_turn ::
  "chunk_ext \<Rightarrow> string \<Rightarrow> block \<Rightarrow> chunker_config \<Rightarrow> sizer \<Rightarrow> fault + chunk_output list" where
  "chunk_oversized_turn ext resource_id b config sizer =
     and_then (or_panic (turn_prefix (block_kind_of b))) (\<lambda>prefix.
       and_then (chunk_prose ext resource_id (block_text b) config sizer (block_seq b)) (\<lambda>prose_chunks.
         Inr (map (\<lambda>(i, pc). \<lparr>co_id = [], co_text = prefix @ co_text pc, co_span = co_span pc,
                   co_heading_path = [], co_block_seq = block_seq b, co_seq_in_block = word_of_nat i,
                   co_window_block_seqs = [block_seq b], co_block_kind = Some (kind_str (block_kind_of b))\<rparr>)
                (zip [0..<length prose_chunks] prose_chunks))))"

definition window_text :: "string list \<Rightarrow> nat \<Rightarrow> nat \<Rightarrow> string" where
  "window_text turn_texts a b = join [CHR 0x0A, CHR 0x0A] (sub turn_texts a b)"

function shrink_window :: "string list \<Rightarrow> nat \<Rightarrow> sizer \<Rightarrow> nat \<Rightarrow> nat \<Rightarrow> nat" where
  "shrink_window turn_texts window_start sizer max_tokens actual_end =
     (if window_start + 1 < actual_end then
        if sizer (window_text turn_texts window_start actual_end) \<le> max_tokens then actual_end
        else shrink_window turn_texts window_start sizer max_tokens (actual_end - 1)
      else actual_end)"
  by pat_completeness auto
termination by (relation "measure (\<lambda>(_, _, _, _, e). e)") auto

declare shrink_window.simps [simp del]

definition fit_window_end :: "string list \<Rightarrow> nat \<Rightarrow> nat \<Rightarrow> sizer \<Rightarrow> nat \<Rightarrow> nat" where
  "fit_window_end turn_texts window_start window_end_excl sizer max_tokens =
     (if sizer (window_text turn_texts window_start window_end_excl) \<le> max_tokens then window_end_excl
      else shrink_window turn_texts window_start sizer max_tokens window_end_excl)"

text \<open>The chunks of one window of the turns.\<close>

definition window_chunks ::
  "chunk_ext \<Rightarrow> string \<Rightarrow> chunker_config \<Rightarrow> sizer \<Rightarrow> block list \<Rightarrow> string list \<Rightarrow> nat \<Rightarrow> nat \<Rightarrow> chunk_output list \<Rightarrow>
   fault + chunk_output list" where
  "window_chunks ext resource_id config sizer turns turn_texts window_start actual_end out =
     (if actual_end = window_start + 1 \<and> resolved_target_tokens config < sizer (turn_texts ! window_start)
      then and_then (chunk_oversized_turn ext resource_id (turns ! window_start) config sizer)
             (\<lambda>cs. Inr (out @ cs))
      else let b = turns ! window_start
           in Inr (out @ [\<lparr>co_id = [], co_text = window_text turn_texts window_start actual_end,
                co_span = span_of 0 0, co_heading_path = [], co_block_seq = block_seq b,
                co_seq_in_block = word_of_nat (length out),
                co_window_block_seqs = map block_seq (sub turns window_start actual_end),
                co_block_kind = Some (kind_str (block_kind_of b))\<rparr>]))"

lemma shrink_window_bounds:
  "window_start < e \<Longrightarrow>
   window_start < shrink_window turn_texts window_start sizer max_tokens e \<and>
   shrink_window turn_texts window_start sizer max_tokens e \<le> e \<and>
   (sizer (window_text turn_texts window_start (shrink_window turn_texts window_start sizer max_tokens e)) \<le> max_tokens \<or>
    shrink_window turn_texts window_start sizer max_tokens e = window_start + 1)"
proof (induction turn_texts window_start sizer max_tokens e rule: shrink_window.induct)
  case (1 turn_texts window_start sizer max_tokens e)
  show ?case
  proof (cases "window_start + 1 < e \<and> \<not> sizer (window_text turn_texts window_start e) \<le> max_tokens")
    case True
    then have "shrink_window turn_texts window_start sizer max_tokens e =
        shrink_window turn_texts window_start sizer max_tokens (e - 1)"
      by (subst shrink_window.simps) simp
    with 1 True show ?thesis by fastforce
  next
    case False
    then have "shrink_window turn_texts window_start sizer max_tokens e = e"
      by (subst shrink_window.simps) simp
    with False 1(2) show ?thesis by auto
  qed
qed

lemma fit_window_end_bounds:
  assumes "window_start < e"
  shows "window_start < fit_window_end turn_texts window_start e sizer max_tokens"
    "fit_window_end turn_texts window_start e sizer max_tokens \<le> e"
    "sizer (window_text turn_texts window_start (fit_window_end turn_texts window_start e sizer max_tokens)) \<le> max_tokens \<or>
     fit_window_end turn_texts window_start e sizer max_tokens = window_start + 1"
  using assms shrink_window_bounds [OF assms] by (simp_all add: fit_window_end_def)

text \<open>The end of a window and the start of the next one.\<close>

definition next_start :: "nat \<Rightarrow> nat \<Rightarrow> nat \<Rightarrow> nat \<Rightarrow> nat" where
  "next_start window_start window_end_excl actual_end stride_turns =
     (if actual_end < window_end_excl then window_start + (actual_end - window_start)
      else window_start + max stride_turns 1)"

lemma fit_window_empty:
  assumes "e \<le> window_start"
  shows "fit_window_end turn_texts window_start e sizer max_tokens = e"
  using assms by (subst fit_window_end_def, subst shrink_window.simps) simp

lemma next_start_progress:
  "window_start < next_start window_start e (fit_window_end turn_texts window_start e sizer max_tokens) stride"
  using fit_window_end_bounds(1) [of window_start e] fit_window_empty [of e window_start]
  by (cases "window_start < e") (auto simp: next_start_def)

function message_loop ::
  "chunk_ext \<Rightarrow> string \<Rightarrow> chunker_config \<Rightarrow> sizer \<Rightarrow> block list \<Rightarrow> string list \<Rightarrow> nat \<Rightarrow> chunk_output list \<Rightarrow>
   fault + chunk_output list" where
  "message_loop ext resource_id config sizer turns turn_texts window_start out =
     (if window_start < length turns then
        let window_end_excl = min (window_start + resolved_window_turns config) (length turns);
            actual_end = fit_window_end turn_texts window_start window_end_excl sizer (resolved_target_tokens config)
        in case window_chunks ext resource_id config sizer turns turn_texts window_start actual_end out of
             Inl e \<Rightarrow> Inl e
           | Inr out' \<Rightarrow> message_loop ext resource_id config sizer turns turn_texts
               (next_start window_start window_end_excl actual_end (resolved_stride_turns config)) out'
      else Inr out)"
  by pat_completeness auto
termination
proof (relation "measure (\<lambda>(_, _, _, _, turns, _, window_start, _). length turns - window_start)", goal_cases)
  case (2 ext rid config sizer turns texts window_start out e a out')
  then show ?case using next_start_progress [of window_start e texts sizer] by (simp add: diff_less_mono2)
qed simp

declare message_loop.simps [simp del]

definition renumber :: "chunk_output list \<Rightarrow> chunk_output list" where
  "renumber out = map (\<lambda>(i, c). c\<lparr>co_seq_in_block := word_of_nat i\<rparr>) (zip [0..<length out] out)"

definition turns_of :: "block list \<Rightarrow> block list" where
  "turns_of blocks = filter (\<lambda>b. block_text b \<noteq> [] \<and> is_turn_block (block_kind_of b)) blocks"

definition chunk_messages ::
  "chunk_ext \<Rightarrow> string \<Rightarrow> block list \<Rightarrow> chunker_config \<Rightarrow> sizer \<Rightarrow> fault + chunk_output list" where
  "chunk_messages ext resource_id blocks config sizer =
     (let turns = turns_of blocks
      in if turns = [] then Inr []
         else and_then (try_map turn_text turns) (\<lambda>turn_texts.
           and_then (message_loop ext resource_id config sizer turns turn_texts 0 [])
             (\<lambda>out. Inr (finalize_ids (ext_hash ext) resource_id (renumber out)))))"

section \<open>What the windows hold\<close>

lemma join_infix: "x \<in> set xs \<Longrightarrow> \<exists>before after. join sep xs = before @ x @ after"
proof (induction sep xs rule: join.induct)
  case (3 sep a b xs)
  show ?case
  proof (cases "x = a")
    case True
    then show ?thesis by (intro exI [of _ "[]"] exI [of _ "sep @ join sep (b # xs)"]) simp
  next
    case False
    then obtain u v where "join sep (b # xs) = u @ x @ v" using 3 by auto
    then show ?thesis by (intro exI [of _ "a @ sep @ u"] exI [of _ v]) simp
  qed
qed (auto intro: exI [of _ "[]"])

lemma sub_one: "i < length xs \<Longrightarrow> sub xs i (Suc i) = [xs ! i]"
  by (simp add: sub_def take_Suc_conv_app_nth hd_drop_conv_nth take_Suc drop_eq_Nil2 not_le)

lemma nth_in_sub: "a \<le> i \<Longrightarrow> i < b \<Longrightarrow> i < length xs \<Longrightarrow> xs ! i \<in> set (sub xs a b)"
  by (auto simp: sub_def in_set_conv_nth intro!: exI [of _ "i - a"])

text \<open>The turns with their texts, the way the loop receives them.\<close>

definition texts_ok :: "block list \<Rightarrow> string list \<Rightarrow> bool" where
  "texts_ok turns texts \<longleftrightarrow> length texts = length turns \<and>
     (\<forall>i < length turns. turn_text (turns ! i) = Inr (texts ! i)) \<and>
     (\<forall>b \<in> set turns. is_turn_block (block_kind_of b) \<and> utf8 (block_text b))"

definition window_chunk_ok :: "sizer \<Rightarrow> nat \<Rightarrow> block list \<Rightarrow> string list \<Rightarrow> chunk_output \<Rightarrow> bool" where
  "window_chunk_ok sizer target turns texts c \<longleftrightarrow>
     (\<exists>b \<in> set turns. co_block_seq c = block_seq b) \<and>
     (sizer (co_text c) \<le> target \<or>
      (\<exists>i < length turns. target < sizer (texts ! i) \<and> co_window_block_seqs c = [block_seq (turns ! i)]))"

definition covers :: "block list \<Rightarrow> string list \<Rightarrow> chunk_output \<Rightarrow> nat \<Rightarrow> bool" where
  "covers turns texts c t \<longleftrightarrow> block_seq (turns ! t) \<in> set (co_window_block_seqs c) \<and>
     (\<exists>before after. co_text c = before @ texts ! t @ after)"

lemma turn_prefix_Some: "is_turn_block k \<Longrightarrow> \<exists>p. turn_prefix k = Some p"
  by (cases k) auto

lemma oversized_turn:
  assumes "is_turn_block (block_kind_of b)" "utf8 (block_text b)"
  shows "\<exists>cs. chunk_oversized_turn ext rid b config sizer = Inr cs \<and>
    (\<forall>c \<in> set cs. co_block_seq c = block_seq b \<and> co_window_block_seqs c = [block_seq b])"
proof -
  obtain p where "turn_prefix (block_kind_of b) = Some p" using turn_prefix_Some [OF assms(1)] by blast
  moreover obtain cs where "chunk_prose ext rid (block_text b) config sizer (block_seq b) = Inr cs"
    using chunk_prose_run [OF assms(2)] by blast
  ultimately show ?thesis by (auto simp: chunk_oversized_turn_def)
qed

lemma window_chunks_result:
  assumes "texts_ok turns texts" "a < length turns" "e \<le> length turns"
    and fit: "0 < w \<longrightarrow> a < e \<and> (sizer (window_text texts a e) \<le> resolved_target_tokens config \<or> e = a + 1)"
  shows "\<exists>cs. window_chunks ext rid config sizer turns texts a e out = Inr (out @ cs) \<and>
    (\<forall>c \<in> set cs. \<exists>b \<in> set turns. co_block_seq c = block_seq b) \<and>
    (0 < w \<longrightarrow> (\<forall>c \<in> set cs. window_chunk_ok sizer (resolved_target_tokens config) turns texts c)) \<and>
    (0 < w \<longrightarrow> (\<forall>t. a \<le> t \<and> t < e \<and> sizer (texts ! t) \<le> resolved_target_tokens config \<longrightarrow> (\<exists>c \<in> set cs. covers turns texts c t)))"
proof (cases "e = a + 1 \<and> resolved_target_tokens config < sizer (texts ! a)")
  case True
  have mem: "turns ! a \<in> set turns" using assms(2) by simp
  have "is_turn_block (block_kind_of (turns ! a))" "utf8 (block_text (turns ! a))"
    using assms(1) mem unfolding texts_ok_def by blast+
  from oversized_turn [OF this] obtain cs where cs: "chunk_oversized_turn ext rid (turns ! a) config sizer = Inr cs"
      "\<forall>c \<in> set cs. co_block_seq c = block_seq (turns ! a) \<and> co_window_block_seqs c = [block_seq (turns ! a)]"
    by blast
  have w: "window_chunks ext rid config sizer turns texts a e out = Inr (out @ cs)"
    using True cs(1) by (simp add: window_chunks_def)
  have ok: "window_chunk_ok sizer (resolved_target_tokens config) turns texts c" if "c \<in> set cs" for c
    unfolding window_chunk_ok_def
  proof (intro conjI disjI2 exI [of _ a] bexI [OF _ mem])
    show "co_block_seq c = block_seq (turns ! a)" "co_window_block_seqs c = [block_seq (turns ! a)]"
      using cs(2) that by simp_all
  qed (use True assms(2) in simp_all)
  have none: "\<not> sizer (texts ! t) \<le> resolved_target_tokens config" if "a \<le> t" "t < e" for t
  proof -
    have "t = a" using that True by simp
    then show ?thesis using True by simp
  qed
  show ?thesis
  proof (intro exI [of _ cs] conjI impI allI ballI)
    fix t assume "a \<le> t \<and> t < e \<and> sizer (texts ! t) \<le> resolved_target_tokens config"
    with none show "\<exists>c \<in> set cs. covers turns texts c t" by blast
  qed (use w ok cs(2) mem in blast)+
next
  case False
  define c where "c = \<lparr>co_id = [], co_text = window_text texts a e, co_span = span_of 0 0, co_heading_path = [],
      co_block_seq = block_seq (turns ! a), co_seq_in_block = word_of_nat (length out),
      co_window_block_seqs = map block_seq (sub turns a e),
      co_block_kind = Some (kind_str (block_kind_of (turns ! a)))\<rparr>"
  have c: "window_chunks ext rid config sizer turns texts a e out = Inr (out @ [c])"
      "co_text c = window_text texts a e" "co_block_seq c = block_seq (turns ! a)"
      "co_window_block_seqs c = map block_seq (sub turns a e)"
    using False by (auto simp: window_chunks_def Let_def c_def)
  have len: "length texts = length turns" using assms(1) by (simp add: texts_ok_def)
  have "window_chunk_ok sizer (resolved_target_tokens config) turns texts c" if "0 < w"
  proof (cases "e = a + 1")
    case True
    then have "window_text texts a e = texts ! a"
      using assms(2) len by (simp add: window_text_def sub_one)
    with False True c assms(2) show ?thesis by (auto simp: window_chunk_ok_def)
  next
    case False
    with fit that c assms(2) show ?thesis by (auto simp: window_chunk_ok_def)
  qed
  moreover have "covers turns texts c t" if "a \<le> t" "t < e" for t
  proof -
    have "t < length turns" using that assms(3) by simp
    then show ?thesis
      using that c len nth_in_sub [of a t e turns] nth_in_sub [of a t e texts]
      by (auto simp: covers_def window_text_def intro: join_infix)
  qed
  moreover have "turns ! a \<in> set turns" using assms(2) by simp
  ultimately show ?thesis using c(1,3) by (intro exI [of _ "[c]"]) auto
qed

lemma message_loop_result:
  assumes "texts_ok turns texts"
  shows "\<exists>cs. message_loop ext rid config sizer turns texts a out = Inr (out @ cs) \<and>
    (\<forall>c \<in> set cs. \<exists>b \<in> set turns. co_block_seq c = block_seq b) \<and>
    (0 < resolved_window_turns config \<longrightarrow>
       (\<forall>c \<in> set cs. window_chunk_ok sizer (resolved_target_tokens config) turns texts c)) \<and>
    (0 < resolved_window_turns config \<and> resolved_stride_turns config \<le> resolved_window_turns config \<longrightarrow>
       (\<forall>t. a \<le> t \<and> t < length turns \<and> sizer (texts ! t) \<le> resolved_target_tokens config \<longrightarrow>
          (\<exists>c \<in> set cs. covers turns texts c t)))"
  using assms
proof (induction ext rid config sizer turns texts a out rule: message_loop.induct)
  case (1 ext rid config sizer turns texts a out)
  show ?case
  proof (cases "a < length turns")
    case False
    then have "message_loop ext rid config sizer turns texts a out = Inr out" by (subst message_loop.simps) simp
    with False show ?thesis by (intro exI [of _ "[]"]) auto
  next
    case True
    let ?w = "resolved_window_turns config" and ?max = "resolved_target_tokens config"
    define e where "e = min (a + ?w) (length turns)"
    define f where "f = fit_window_end texts a e sizer ?max"
    define a' where "a' = next_start a e f (resolved_stride_turns config)"
    have ae: "0 < ?w \<Longrightarrow> a < e" using True by (simp add: e_def)
    have fe: "f \<le> e"
      using fit_window_end_bounds(2) [where turn_texts = texts and window_start = a and e = e and sizer = sizer and max_tokens = ?max]
        fit_window_empty [of e a texts sizer ?max]
      by (cases "a < e") (simp_all add: f_def)
    then have fn: "f \<le> length turns" by (simp add: e_def)
    have fit: "0 < ?w \<longrightarrow> a < f \<and> (sizer (window_text texts a f) \<le> ?max \<or> f = a + 1)"
      using fit_window_end_bounds(1,3) [where turn_texts = texts and window_start = a and e = e and sizer = sizer and max_tokens = ?max] ae
      by (auto simp: f_def)
    obtain cs where cs: "window_chunks ext rid config sizer turns texts a f out = Inr (out @ cs)"
        "\<forall>c \<in> set cs. \<exists>b \<in> set turns. co_block_seq c = block_seq b"
        "0 < ?w \<longrightarrow> (\<forall>c \<in> set cs. window_chunk_ok sizer ?max turns texts c)"
        "0 < ?w \<longrightarrow> (\<forall>t. a \<le> t \<and> t < f \<and> sizer (texts ! t) \<le> ?max \<longrightarrow> (\<exists>c \<in> set cs. covers turns texts c t))"
      using window_chunks_result [where w = ?w and sizer = sizer and config = config, OF 1(2) True fn fit, of ext rid out]
      by (elim exE conjE)
    have step: "message_loop ext rid config sizer turns texts a out =
        message_loop ext rid config sizer turns texts a' (out @ cs)"
      using True cs(1) by (subst message_loop.simps) (simp add: Let_def flip: e_def f_def a'_def)
    obtain cs' where cs': "message_loop ext rid config sizer turns texts a' (out @ cs) = Inr ((out @ cs) @ cs')"
        "\<forall>c \<in> set cs'. \<exists>b \<in> set turns. co_block_seq c = block_seq b"
        "0 < ?w \<longrightarrow> (\<forall>c \<in> set cs'. window_chunk_ok sizer ?max turns texts c)"
        "0 < ?w \<and> resolved_stride_turns config \<le> ?w \<longrightarrow>
           (\<forall>t. a' \<le> t \<and> t < length turns \<and> sizer (texts ! t) \<le> ?max \<longrightarrow> (\<exists>c \<in> set cs'. covers turns texts c t))"
      using 1(1) [OF True e_def f_def cs(1) 1(2), folded a'_def] by (elim exE conjE)
    have before: "t < f" if "0 < ?w" "resolved_stride_turns config \<le> ?w" "t < a'" "t < length turns" for t
      using that fe fit by (auto simp: a'_def next_start_def e_def split: if_splits)
    have "\<exists>c \<in> set (cs @ cs'). covers turns texts c t"
      if "0 < ?w" "resolved_stride_turns config \<le> ?w" "a \<le> t" "t < length turns" "sizer (texts ! t) \<le> ?max" for t
    proof (cases "t < a'")
      case True
      then have "t < f" using before that by blast
      then have "\<exists>c \<in> set cs. covers turns texts c t" using that cs(4) by blast
      then show ?thesis by auto
    next
      case False
      then have "\<exists>c \<in> set cs'. covers turns texts c t" using that cs'(4) by (simp add: not_less)
      then show ?thesis by auto
    qed
    then show ?thesis
      using step cs(2,3) cs'(1-3) by (intro exI [of _ "cs @ cs'"]) auto
  qed
qed

section \<open>The chunker\<close>

lemma turn_text_Inr: "is_turn_block (block_kind_of b) \<Longrightarrow> \<exists>t. turn_text b = Inr t"
  using turn_prefix_Some [of "block_kind_of b"] by (auto simp: turn_text_def)

lemma try_map_all:
  "\<forall>x \<in> set xs. \<exists>y. f x = Inr y \<Longrightarrow>
    \<exists>ys. try_map f xs = Inr ys \<and> length ys = length xs \<and> (\<forall>i < length xs. f (xs ! i) = Inr (ys ! i))"
proof (induction xs)
  case (Cons x xs)
  then obtain y ys where "f x = Inr y" "try_map f xs = Inr ys" "length ys = length xs"
      "\<forall>i < length xs. f (xs ! i) = Inr (ys ! i)" by auto
  then show ?case by (auto simp: nth_Cons split: nat.split)
qed simp

lemma renumber_simps [simp]:
  "length (renumber cs) = length cs" "map co_text (renumber cs) = map co_text cs"
  "map co_seq_in_block (renumber cs) = map word_of_nat [0..<length cs]"
  by (auto simp: renumber_def intro: nth_equalityI)

lemma renumber_set: "c \<in> set (renumber cs) \<longleftrightarrow> (\<exists>i < length cs. c = (cs ! i)\<lparr>co_seq_in_block := word_of_nat i\<rparr>)"
proof -
  have "renumber cs ! i = (cs ! i)\<lparr>co_seq_in_block := word_of_nat i\<rparr>" if "i < length cs" for i
    using that by (simp add: renumber_def)
  then show ?thesis by (auto simp: in_set_conv_nth [of _ "renumber cs"])
qed

definition text_of_turn :: "block \<Rightarrow> string" where
  "text_of_turn b = (case turn_text b of Inr t \<Rightarrow> t | Inl _ \<Rightarrow> [])"

lemma messages_loop_run:
  assumes "\<forall>b \<in> set (turns_of blocks). utf8 (block_text b)" "turns_of blocks \<noteq> []"
  obtains texts cs where "texts_ok (turns_of blocks) texts"
    "message_loop ext rid config sizer (turns_of blocks) texts 0 [] = Inr cs"
    "chunk_messages ext rid blocks config sizer = Inr (finalize_ids (ext_hash ext) rid (renumber cs))"
proof -
  have turns: "\<forall>b \<in> set (turns_of blocks). is_turn_block (block_kind_of b)" by (simp add: turns_of_def)
  then obtain texts where texts: "try_map turn_text (turns_of blocks) = Inr texts"
      "length texts = length (turns_of blocks)" "\<forall>i < length (turns_of blocks). turn_text (turns_of blocks ! i) = Inr (texts ! i)"
    using try_map_all [of "turns_of blocks" turn_text] turn_text_Inr by blast
  then have ok: "texts_ok (turns_of blocks) texts" using turns assms(1) by (simp add: texts_ok_def)
  obtain cs where cs: "message_loop ext rid config sizer (turns_of blocks) texts 0 [] = Inr cs"
    using message_loop_result [OF ok, of ext rid config sizer 0 "[]"] by auto
  show ?thesis
    using that [OF ok cs] texts(1) cs assms(2) by (simp add: chunk_messages_def Let_def)
qed


text \<open>Two short turns.\<close>

definition demo_turn :: "u32 \<Rightarrow> string \<Rightarrow> string \<Rightarrow> block" where
  "demo_turn i who what = \<lparr>block_seq = i, block_kind_of = BMessage who None None None,
     block_text = what, block_location_of = None\<rparr>"


end
