(* ===== verification/Chunking.thy ===== *)
theory Chunking
  imports ChunkTable ChunkMessages
begin

text \<open>
  The dispatch of a document's blocks to the chunkers (\<open>core/src/chunker/mod.rs\<close>,
  \<open>formats/mod.rs\<close> and the \<open>FormatChunker\<close> impls): the first format of the registry that claims a
  block chunks it, the conversation turns of a document together and ahead of everything else, the
  other blocks in runs of one format.
\<close>

section \<open>Formats\<close>

datatype format = FmtMessages | FmtCode | FmtProse | FmtTable | FmtPassthrough

datatype group_scope = DocumentScope | RunScope

definition FORMATS :: "format list" where
  "FORMATS = [FmtMessages, FmtCode, FmtProse, FmtTable, FmtPassthrough]"

fun fmt_scope :: "format \<Rightarrow> group_scope" where
  "fmt_scope FmtMessages = DocumentScope"
| "fmt_scope f = RunScope"

fun claims :: "format \<Rightarrow> block \<Rightarrow> chunker_config \<Rightarrow> bool" where
  "claims FmtMessages b config = is_turn_block (block_kind_of b)"
| "claims FmtCode b config =
     (case block_kind_of b of
        BCode language \<Rightarrow> True
      | BHeading level \<Rightarrow> cc_preset config = ''code''
      | BText \<Rightarrow> cc_preset config = ''code''
      | _ \<Rightarrow> False)"
| "claims FmtProse b config = (case block_kind_of b of BHeading level \<Rightarrow> True | BText \<Rightarrow> True | _ \<Rightarrow> False)"
| "claims FmtTable b config = (case block_kind_of b of BTable headers rows \<Rightarrow> True | _ \<Rightarrow> False)"
| "claims FmtPassthrough b config =
     (case block_kind_of b of
        BReference target label ref_type \<Rightarrow> True
      | BAttachment filename mime size_bytes \<Rightarrow> True
      | BFrontmatter fmt \<Rightarrow> True
      | BImage alt src \<Rightarrow> True
      | _ \<Rightarrow> False)"

record chunk_context =
  cx_ext :: chunk_ext
  cx_resource_id :: string
  cx_config :: chunker_config
  cx_sizer :: sizer
  cx_blocks :: "block list"

text \<open>What \<open>chunk_each\<close> writes into the chunks of a block.\<close>

definition stamp :: "chunk_context \<Rightarrow> block \<Rightarrow> nat \<times> chunk_output \<Rightarrow> chunk_output" where
  "stamp ctx b ic =
     (case ic of (i, c) \<Rightarrow>
        c\<lparr>co_block_seq := block_seq b, co_seq_in_block := word_of_nat i,
          co_block_kind := Some (kind_str (block_kind_of b)),
          co_heading_path := (if co_heading_path c = [] then heading_path_from_blocks (cx_blocks ctx) (block_seq b)
                              else co_heading_path c)\<rparr>)"

definition chunk_each_step ::
  "chunk_context \<Rightarrow> (block \<Rightarrow> fault + chunk_output list) \<Rightarrow> block \<Rightarrow> chunk_output list \<Rightarrow> fault + chunk_output list" where
  "chunk_each_step ctx f b out =
     and_then (f b) (\<lambda>sub_chunks. Inr (out @ map (stamp ctx b) (zip [0..<length sub_chunks] sub_chunks)))"

definition chunk_each ::
  "chunk_context \<Rightarrow> block list \<Rightarrow> (block \<Rightarrow> fault + chunk_output list) \<Rightarrow> fault + chunk_output list" where
  "chunk_each ctx blocks f = try_fold (chunk_each_step ctx f) blocks []"

definition passthrough_chunk :: "block \<Rightarrow> fault + chunk_output list" where
  "passthrough_chunk b =
     Inr [placeholder (block_text b) (span_of 0 (length (block_text b))) [] (block_seq b) 0]"

text \<open>The \<open>chunk\<close> of each format; the messages chunker takes the document's blocks.\<close>

fun fmt_chunk :: "format \<Rightarrow> chunk_context \<Rightarrow> block list \<Rightarrow> fault + chunk_output list" where
  "fmt_chunk FmtMessages ctx blocks =
     chunk_messages (cx_ext ctx) (cx_resource_id ctx) (cx_blocks ctx) (cx_config ctx) (cx_sizer ctx)"
| "fmt_chunk FmtCode ctx blocks = chunk_each ctx blocks (\<lambda>b.
     chunk_code (ext_hash (cx_ext ctx)) (cx_resource_id ctx) (block_text b) (cx_config ctx) (block_seq b))"
| "fmt_chunk FmtProse ctx blocks = chunk_each ctx blocks (\<lambda>b.
     chunk_prose (cx_ext ctx) (cx_resource_id ctx) (block_text b) (cx_config ctx) (cx_sizer ctx) (block_seq b))"
| "fmt_chunk FmtTable ctx blocks = chunk_each ctx blocks (\<lambda>b.
     chunk_table (ext_hash (cx_ext ctx)) (cx_resource_id ctx) (block_text b) (cx_config ctx) (cx_sizer ctx) (block_seq b))"
| "fmt_chunk FmtPassthrough ctx blocks = chunk_each ctx blocks passthrough_chunk"

section \<open>Dispatch\<close>

text \<open>\<open>FORMATS.iter().position(..)\<close>, or \<open>unreachable!()\<close>.\<close>

definition claimed_by :: "chunker_config \<Rightarrow> block \<Rightarrow> fault + block \<times> nat" where
  "claimed_by config b =
     (case filter (\<lambda>i. claims (FORMATS ! i) b config) [0..<length FORMATS] of
        i # _ \<Rightarrow> Inr (b, i)
      | [] \<Rightarrow> Inl Panicked)"

text \<open>\<open>slice::chunk_by\<close>: maximal runs of elements related to their neighbour.\<close>

fun chunk_by :: "('a \<Rightarrow> 'a \<Rightarrow> bool) \<Rightarrow> 'a list \<Rightarrow> 'a list list" where
  "chunk_by eq [] = []"
| "chunk_by eq [x] = [[x]]"
| "chunk_by eq (x # y # ys) =
     (if eq x y then (case chunk_by eq (y # ys) of r # rs \<Rightarrow> (x # r) # rs | [] \<Rightarrow> [[x]])
      else [x] # chunk_by eq (y # ys))"

definition document_pass ::
  "chunk_context \<Rightarrow> (block \<times> nat) list \<Rightarrow> nat \<Rightarrow> chunk_output list \<Rightarrow> fault + chunk_output list" where
  "document_pass ctx claimed fmt_idx out =
     (if fmt_scope (FORMATS ! fmt_idx) \<noteq> DocumentScope then Inr out
      else let group = map fst (filter (\<lambda>bi. snd bi = fmt_idx) claimed)
           in if group = [] then Inr out
              else and_then (fmt_chunk (FORMATS ! fmt_idx) ctx group) (\<lambda>cs. Inr (out @ cs)))"

definition run_pass ::
  "chunk_context \<Rightarrow> (block \<times> nat) list \<Rightarrow> chunk_output list \<Rightarrow> fault + chunk_output list" where
  "run_pass ctx run out =
     (let fmt = FORMATS ! snd (hd run)
      in if fmt_scope fmt = DocumentScope then Inr out
         else and_then (fmt_chunk fmt ctx (map fst run)) (\<lambda>cs. Inr (out @ cs)))"

definition chunk_blocks ::
  "chunk_ext \<Rightarrow> string \<Rightarrow> block list \<Rightarrow> chunker_config \<Rightarrow> sizer \<Rightarrow> fault + chunk_output list" where
  "chunk_blocks ext resource_id blocks config sizer =
     (let ctx = \<lparr>cx_ext = ext, cx_resource_id = resource_id, cx_config = config, cx_sizer = sizer, cx_blocks = blocks\<rparr>
      in and_then (try_map (claimed_by config) (filter (\<lambda>b. block_text b \<noteq> []) blocks)) (\<lambda>claimed.
           and_then (try_fold (document_pass ctx claimed) [0..<length FORMATS] []) (\<lambda>out.
             and_then (try_fold (run_pass ctx) (chunk_by (\<lambda>a b. snd a = snd b) claimed) out) (\<lambda>out.
               Inr (finalize_ids (ext_hash ext) resource_id out)))))"

section \<open>Every block has a format\<close>

text \<open>The format of a block, block by block.\<close>

definition format_index :: "chunker_config \<Rightarrow> block \<Rightarrow> nat" where
  "format_index config b =
     (case block_kind_of b of
        BMessage sender timestamp message_id reply_to \<Rightarrow> 0
      | BSegment speaker start_ms end_ms \<Rightarrow> 0
      | BCode language \<Rightarrow> 1
      | BHeading level \<Rightarrow> if cc_preset config = ''code'' then 1 else 2
      | BText \<Rightarrow> if cc_preset config = ''code'' then 1 else 2
      | BTable headers rows \<Rightarrow> 3
      | _ \<Rightarrow> 4)"

lemma claimed_index: "claimed_by config b = Inr (b, format_index config b)"
  by (cases "block_kind_of b") (simp_all add: claimed_by_def FORMATS_def format_index_def upt_rec)

lemma format_index_turn: "format_index config b = 0 \<longleftrightarrow> is_turn_block (block_kind_of b)"
  by (cases "block_kind_of b") (simp_all add: format_index_def)

lemma format_index_other: "0 < format_index config b \<longleftrightarrow> \<not> is_turn_block (block_kind_of b)"
  using format_index_turn [of config b] by auto

lemma and_then_self [simp]: "and_then r (\<lambda>x. Inr x) = r"
  by (cases r) simp_all

lemma format_index_bound: "format_index config b < length FORMATS"
  by (cases "block_kind_of b") (simp_all add: format_index_def FORMATS_def)

lemma try_map_Inr: "try_map (\<lambda>x. Inr (g x)) xs = Inr (map g xs)"
  by (induction xs) auto

lemma scope_index:
  "i < length FORMATS \<Longrightarrow> fmt_scope (FORMATS ! i) = DocumentScope \<longleftrightarrow> i = 0"
  by (auto simp: FORMATS_def nth_Cons split: nat.splits)

section \<open>Runs and single blocks\<close>

lemma concat_chunk_by [simp]: "concat (chunk_by eq xs) = xs"
proof (induction eq xs rule: chunk_by.induct)
  case (3 eq x y ys)
  then show ?case by (auto split: list.split)
qed auto

lemma chunk_by_nonempty: "r \<in> set (chunk_by eq xs) \<Longrightarrow> r \<noteq> []"
proof (induction eq xs arbitrary: r rule: chunk_by.induct)
  case (3 eq x y ys)
  then show ?case by (auto split: if_splits list.splits)
qed auto

lemma chunk_by_hd: "xs \<noteq> [] \<Longrightarrow> \<exists>r rs. chunk_by eq xs = r # rs \<and> r \<noteq> [] \<and> hd r = hd xs"
proof (induction eq xs rule: chunk_by.induct)
  case (3 eq x y ys)
  then show ?case by (cases "eq x y") auto
qed auto

lemma chunk_by_same:
  "r \<in> set (chunk_by (\<lambda>a b. f a = f b) xs) \<Longrightarrow> x \<in> set r \<Longrightarrow> f x = f (hd r)"
proof (induction "\<lambda>a b. f a = f b" xs arbitrary: r rule: chunk_by.induct)
  case (3 x' y ys)
  obtain r0 rs where r0: "chunk_by (\<lambda>a b. f a = f b) (y # ys) = r0 # rs" "r0 \<noteq> []" "hd r0 = y"
    using chunk_by_hd [of "y # ys" "\<lambda>a b. f a = f b"] by auto
  show ?case
  proof (cases "f x' = f y")
    case True
    with 3(3) r0 consider "r = x' # r0" | "r \<in> set rs" by auto
    then show ?thesis
    proof cases
      case 1
      then show ?thesis using 3(1) [OF True, of r0] 3(4) r0 True by auto
    next
      case 2
      then show ?thesis using 3(1) [OF True, of r] 3(4) r0 by simp
    qed
  next
    case False
    with 3(3) consider "r = [x']" | "r \<in> set (chunk_by (\<lambda>a b. f a = f b) (y # ys))" by auto
    then show ?thesis using 3(2) [OF False] 3(4) by cases auto
  qed
qed auto

text \<open>Chunking blocks one by one is the loop of \<open>chunk_each\<close>.\<close>

definition block_chunks :: "chunk_context \<Rightarrow> block \<Rightarrow> fault + chunk_output list" where
  "block_chunks ctx b = fmt_chunk (FORMATS ! format_index (cx_config ctx) b) ctx [b]"

definition add_block :: "chunk_context \<Rightarrow> block \<Rightarrow> chunk_output list \<Rightarrow> fault + chunk_output list" where
  "add_block ctx b out = and_then (block_chunks ctx b) (\<lambda>cs. Inr (out @ cs))"

lemma chunk_each_from:
  "and_then (try_fold (chunk_each_step ctx f) bs acc) (\<lambda>cs. Inr (out @ cs)) =
   try_fold (chunk_each_step ctx f) bs (out @ acc)"
proof (induction bs arbitrary: acc)
  case (Cons b bs)
  then show ?case
    by (cases "f b") (simp_all add: chunk_each_step_def)
qed simp

lemma run_scoped_each:
  assumes "0 < i" "i < length FORMATS"
  obtains f where "\<And>bs. fmt_chunk (FORMATS ! i) ctx bs = chunk_each ctx bs f"
proof -
  have "i = 1 \<or> i = 2 \<or> i = 3 \<or> i = 4" using assms by (auto simp: FORMATS_def)
  then show ?thesis using that by (elim disjE) (simp_all add: FORMATS_def)
qed

text \<open>A run: blocks with the index of their common format.\<close>

definition uniform_run :: "chunk_context \<Rightarrow> (block \<times> nat) list \<Rightarrow> bool" where
  "uniform_run ctx run \<longleftrightarrow> run \<noteq> [] \<and>
     (\<exists>i. \<forall>x \<in> set run. snd x = i \<and> format_index (cx_config ctx) (fst x) = i)"

lemma run_pass_blocks:
  assumes "uniform_run ctx run"
  shows "run_pass ctx run out = try_fold (add_block ctx) (map fst (filter (\<lambda>x. 0 < snd x) run)) out"
proof -
  from assms obtain i where i: "\<forall>x \<in> set run. snd x = i \<and> format_index (cx_config ctx) (fst x) = i"
      and ne: "run \<noteq> []"
    by (auto simp: uniform_run_def)
  have hd: "hd run \<in> set run" using ne by simp
  then have bound: "i < length FORMATS" using i format_index_bound by metis
  have hd_i: "snd (hd run) = i" using i hd by blast
  show ?thesis
  proof (cases "i = 0")
    case True
    then have "filter (\<lambda>x. 0 < snd x) run = []" using i by (simp add: filter_empty_conv)
    then show ?thesis using True scope_index [OF bound] by (simp add: run_pass_def Let_def hd_i)
  next
    case False
    then have all: "filter (\<lambda>x. 0 < snd x) run = run" using i by (simp add: filter_id_conv)
    obtain f where f: "\<And>bs. fmt_chunk (FORMATS ! i) ctx bs = chunk_each ctx bs f"
      using run_scoped_each [of i ctx] False bound by blast
    have "add_block ctx b out = chunk_each_step ctx f b out" if "b \<in> set (map fst run)" for b out
    proof -
      have "format_index (cx_config ctx) b = i" using that i by auto
      then show ?thesis
        by (cases "f b") (simp_all add: add_block_def block_chunks_def f chunk_each_def chunk_each_step_def)
    qed
    then have "try_fold (add_block ctx) bs out = try_fold (chunk_each_step ctx f) bs out"
      if "set bs \<subseteq> set (map fst run)" for bs out
      using that by (induction bs arbitrary: out) (auto split: sum.split)
    then have "try_fold (add_block ctx) (map fst run) out = try_fold (chunk_each_step ctx f) (map fst run) out" by simp
    also have "\<dots> = and_then (chunk_each ctx (map fst run) f) (\<lambda>cs. Inr (out @ cs))"
      using chunk_each_from [of ctx f "map fst run" "[]" out] by (simp add: chunk_each_def)
    finally show ?thesis
      using False scope_index [OF bound] f by (simp add: run_pass_def Let_def all hd_i)
  qed
qed

lemma run_passes_blocks:
  assumes "\<forall>run \<in> set runs. uniform_run ctx run"
  shows "try_fold (run_pass ctx) runs out =
    try_fold (add_block ctx) (map fst (filter (\<lambda>x. 0 < snd x) (concat runs))) out"
  using assms
proof (induction runs arbitrary: out)
  case (Cons run runs)
  then show ?case by (simp add: try_fold_append run_pass_blocks split: sum.split)
qed simp

lemma claimed_runs:
  assumes "run \<in> set (chunk_by (\<lambda>a b. snd a = snd b) (map (\<lambda>b. (b, format_index (cx_config ctx) b)) bs))"
  shows "uniform_run ctx run"
proof -
  have "snd x = snd (hd run) \<and> format_index (cx_config ctx) (fst x) = snd (hd run)" if "x \<in> set run" for x
  proof -
    have "x \<in> set (concat (chunk_by (\<lambda>a b. snd a = snd b) (map (\<lambda>b. (b, format_index (cx_config ctx) b)) bs)))"
      unfolding set_concat using that assms by blast
    then have idx: "snd x = format_index (cx_config ctx) (fst x)"
      unfolding concat_chunk_by set_map by (elim imageE) simp
    have same: "snd x = snd (hd run)" by (rule chunk_by_same [OF assms that])
    show ?thesis using idx same by simp
  qed
  then show ?thesis
    using chunk_by_nonempty [OF assms] unfolding uniform_run_def by blast
qed

text \<open>The specification: conversation windows first, then block by block in document order.\<close>

definition chunk_block_by_block ::
  "chunk_ext \<Rightarrow> string \<Rightarrow> block list \<Rightarrow> chunker_config \<Rightarrow> sizer \<Rightarrow> fault + chunk_output list" where
  "chunk_block_by_block ext resource_id blocks config sizer =
     (let ctx = \<lparr>cx_ext = ext, cx_resource_id = resource_id, cx_config = config, cx_sizer = sizer, cx_blocks = blocks\<rparr>;
          others = filter (\<lambda>b. block_text b \<noteq> [] \<and> \<not> is_turn_block (block_kind_of b)) blocks
      in and_then (chunk_messages ext resource_id blocks config sizer) (\<lambda>messages.
           and_then (try_fold (add_block ctx) others messages) (\<lambda>out.
             Inr (finalize_ids (ext_hash ext) resource_id out))))"

lemma document_passes:
  "try_fold (document_pass ctx (map (\<lambda>b. (b, format_index (cx_config ctx) b)) (filter (\<lambda>b. block_text b \<noteq> []) (cx_blocks ctx))))
     [0..<length FORMATS] [] =
   chunk_messages (cx_ext ctx) (cx_resource_id ctx) (cx_blocks ctx) (cx_config ctx) (cx_sizer ctx)"
proof -
  let ?claimed = "map (\<lambda>b. (b, format_index (cx_config ctx) b)) (filter (\<lambda>b. block_text b \<noteq> []) (cx_blocks ctx))"
  have later: "document_pass ctx ?claimed i out = Inr out" if "i \<in> {1..<length FORMATS}" for i out
    using that scope_index [of i] by (simp add: document_pass_def)
  have "try_fold (document_pass ctx ?claimed) is out = Inr out" if "set is \<subseteq> {1..<length FORMATS}" for "is" out
    using that by (induction "is") (auto simp: later)
  moreover have "[0..<length FORMATS] = 0 # [1..<length FORMATS]" by (simp add: upt_rec FORMATS_def)
  ultimately have all: "try_fold (document_pass ctx ?claimed) [0..<length FORMATS] [] = document_pass ctx ?claimed 0 []"
    by (simp split: sum.split del: upt_Suc)
  have group: "map fst (filter (\<lambda>bi. snd bi = 0) ?claimed) = turns_of (cx_blocks ctx)"
    by (simp add: filter_map comp_def turns_of_def format_index_turn conj_commute)
  have fmt: "FORMATS ! 0 = FmtMessages" by (simp add: FORMATS_def)
  show ?thesis
  proof (cases "turns_of (cx_blocks ctx) = []")
    case True
    then have "chunk_messages (cx_ext ctx) (cx_resource_id ctx) (cx_blocks ctx) (cx_config ctx) (cx_sizer ctx) = Inr []"
      by (simp add: chunk_messages_def)
    then show ?thesis unfolding all document_pass_def Let_def group using True by (simp add: fmt)
  next
    case False
    then show ?thesis unfolding all document_pass_def Let_def group fmt by simp
  qed
qed

lemma chunk_blocks_run:
  "chunk_blocks ext resource_id blocks config sizer = chunk_block_by_block ext resource_id blocks config sizer"
proof -
  define ctx where "ctx = \<lparr>cx_ext = ext, cx_resource_id = resource_id, cx_config = config, cx_sizer = sizer, cx_blocks = blocks\<rparr>"
  have c: "cx_config ctx = config" "cx_blocks ctx = blocks" "cx_ext ctx = ext" "cx_resource_id ctx = resource_id"
      "cx_sizer ctx = sizer" by (simp_all add: ctx_def)
  let ?claimed = "map (\<lambda>b. (b, format_index config b)) (filter (\<lambda>b. block_text b \<noteq> []) blocks)"
  have claimed: "try_map (claimed_by config) (filter (\<lambda>b. block_text b \<noteq> []) blocks) = Inr ?claimed"
  proof -
    have "claimed_by config = (\<lambda>b. Inr (b, format_index config b))" by (rule ext) (rule claimed_index)
    then show ?thesis by (simp only: try_map_Inr)
  qed
  have "try_fold (run_pass ctx) (chunk_by (\<lambda>a b. snd a = snd b) ?claimed) out =
      try_fold (add_block ctx) (map fst (filter (\<lambda>x. 0 < snd x) ?claimed)) out" for out
    using run_passes_blocks [of "chunk_by (\<lambda>a b. snd a = snd b) ?claimed" ctx out] claimed_runs [of _ ctx] by (simp add: c)
  moreover have "map fst (filter (\<lambda>x. 0 < snd x) ?claimed) =
      filter (\<lambda>b. block_text b \<noteq> [] \<and> \<not> is_turn_block (block_kind_of b)) blocks"
    by (simp add: filter_map comp_def format_index_other conj_commute)
  ultimately show ?thesis
    using document_passes [of ctx] unfolding chunk_blocks_def chunk_block_by_block_def Let_def claimed
    by (simp add: c flip: ctx_def)
qed

text \<open>
  Dispatching a document in runs of one format is dispatching it block by block: the chunks are
  those of the conversation windows, followed by those of every other non-empty block in document
  order, each chunked alone by its format; every block has a format, so the dispatch itself never
  fails.
\<close>

theorem chunk_blocks_by_block:
  "chunk_blocks ext resource_id blocks config sizer = chunk_block_by_block ext resource_id blocks config sizer"
  by (rule chunk_blocks_run)

section \<open>Identities of the chunks of a document\<close>

lemma stamped_numbered: "numbered (block_seq b) (map (stamp ctx b) (zip [0..<length cs] cs))"
proof -
  have "map co_seq_in_block (map (stamp ctx b) (zip [0..<length cs] cs)) = map word_of_nat [0..<length cs]"
    by (rule nth_equalityI) (simp_all add: stamp_def)
  then show ?thesis by (auto simp: numbered_def list_all_iff stamp_def)
qed

lemma block_chunks_result:
  assumes "utf8 (block_text b)" "\<not> is_turn_block (block_kind_of b)"
  shows "\<exists>cs. block_chunks ctx b = Inr cs \<and> numbered (block_seq b) cs"
proof -
  have one: "\<exists>cs. chunk_each ctx [b] f = Inr cs \<and> numbered (block_seq b) cs" if "\<exists>cs. f b = Inr cs" for f
    using that stamped_numbered [of b ctx] by (auto simp: chunk_each_def chunk_each_step_def)
  let ?i = "format_index (cx_config ctx) b"
  have "0 < ?i" using assms(2) format_index_other by blast
  then have "?i = 1 \<or> ?i = 2 \<or> ?i = 3 \<or> ?i = 4"
    using format_index_bound [of "cx_config ctx" b] by (auto simp: FORMATS_def)
  moreover have "\<exists>cs. chunk_code (ext_hash (cx_ext ctx)) (cx_resource_id ctx) (block_text b) (cx_config ctx) (block_seq b) = Inr cs"
    using chunk_code_ok [OF assms(1)] by blast
  moreover have "\<exists>cs. chunk_prose (cx_ext ctx) (cx_resource_id ctx) (block_text b) (cx_config ctx) (cx_sizer ctx) (block_seq b) = Inr cs"
    using chunk_prose_run [OF assms(1)] by blast
  moreover have "\<exists>cs. chunk_table (ext_hash (cx_ext ctx)) (cx_resource_id ctx) (block_text b) (cx_config ctx) (cx_sizer ctx) (block_seq b) = Inr cs"
    by (rule chunk_table_returns [OF assms(1)])
  ultimately show ?thesis
    by (elim disjE) (auto simp: block_chunks_def FORMATS_def passthrough_chunk_def intro!: one)
qed

lemma add_blocks_result:
  assumes "\<forall>b \<in> set bs. utf8 (block_text b) \<and> \<not> is_turn_block (block_kind_of b)"
  shows "\<exists>css. try_fold (add_block ctx) bs out = Inr (out @ concat css) \<and>
    list_all2 (\<lambda>b cs. numbered (block_seq b) cs) bs css"
  using assms
proof (induction bs arbitrary: out)
  case (Cons b bs)
  obtain cs where cs: "block_chunks ctx b = Inr cs" "numbered (block_seq b) cs"
    using block_chunks_result [of b ctx] Cons.prems by auto
  obtain css where "try_fold (add_block ctx) bs (out @ cs) = Inr ((out @ cs) @ concat css)"
      "list_all2 (\<lambda>b cs. numbered (block_seq b) cs) bs css"
    using Cons.IH [of "out @ cs"] Cons.prems by auto
  moreover have "add_block ctx b out = Inr (out @ cs)" using cs(1) by (simp add: add_block_def)
  ultimately show ?case using cs(2) by (intro exI [of _ "cs # css"]) simp
qed simp

text \<open>The position of a chunk: its block and its number there.\<close>

definition position :: "chunk_output \<Rightarrow> u32 \<times> u32" where
  "position c = (co_block_seq c, co_seq_in_block c)"

lemma distinct_numbers: "n \<le> 2 ^ 32 \<Longrightarrow> distinct (map (word_of_nat :: nat \<Rightarrow> u32) [0..<n])"
  by (auto simp: distinct_map inj_on_def dest!: arg_cong [where f = unat] simp: unat_of_nat)

lemma distinct_positions:
  assumes "map co_seq_in_block cs = map word_of_nat [0..<length cs]" "length cs \<le> 2 ^ 32"
  shows "distinct (map position cs)"
proof -
  have "distinct (map snd (map position cs))"
    using assms distinct_numbers [of "length cs"] by (simp add: position_def comp_def)
  then show ?thesis unfolding distinct_map [of snd] ..
qed

lemma distinct_positions_append:
  assumes "distinct (map position as)" "distinct (map position bs)"
    and "fst ` position ` set as \<inter> fst ` position ` set bs = {}"
  shows "distinct (map position (as @ bs))"
proof -
  have "position ` set as \<inter> position ` set bs = {}" using assms(3) by blast
  with assms(1,2) show ?thesis by simp
qed

lemma position_finalize [simp]: "map position (finalize_ids h r cs) = map position cs"
  by (simp add: finalize_ids_def position_def comp_def)

lemma distinct_groups:
  assumes "list_all2 (\<lambda>b cs. numbered (block_seq b) cs) bs css" "distinct (map block_seq bs)" "length (concat css) \<le> 2 ^ 32"
  shows "distinct (map position (concat css)) \<and> fst ` position ` set (concat css) \<subseteq> block_seq ` set bs"
  using assms
proof (induction bs css rule: list_all2_induct)
  case (Cons b bs cs css)
  have a: "distinct (map position cs)" "fst ` position ` set cs \<subseteq> {block_seq b}"
    using Cons.hyps(1) Cons.prems(2) by (auto simp: numbered_def list_all_iff position_def intro!: distinct_positions)
  have b: "distinct (map position (concat css))" "fst ` position ` set (concat css) \<subseteq> block_seq ` set bs"
    using Cons by auto
  have notin: "block_seq b \<notin> block_seq ` set bs" using Cons.prems(1) by simp
  have "fst ` position ` set cs \<inter> fst ` position ` set (concat css) = {}"
  proof (rule equals0I)
    fix z assume z: "z \<in> fst ` position ` set cs \<inter> fst ` position ` set (concat css)"
    have "z = block_seq b" using a(2) z by (elim IntE) (drule (1) subsetD, simp)
    moreover have "z \<in> block_seq ` set bs" using b(2) z by (elim IntE) (drule (1) subsetD)
    ultimately show False using notin by simp
  qed
  from distinct_positions_append [OF a(1) b(1) this]
  have "distinct (map position (concat (cs # css)))" by simp
  moreover have "fst ` position ` set (concat (cs # css)) = fst ` position ` set cs \<union> fst ` position ` set (concat css)"
    by (simp add: image_Un del: set_concat)
  then have "fst ` position ` set (concat (cs # css)) \<subseteq> block_seq ` set (b # bs)"
    using a(2) b(2) by (simp del: set_concat) blast
  ultimately show ?case ..
qed simp

lemma messages_positions:
  assumes "\<forall>b \<in> set blocks. utf8 (block_text b)"
  obtains cs where "chunk_messages ext rid blocks config sizer = Inr cs"
    "map co_seq_in_block cs = map word_of_nat [0..<length cs]"
    "fst ` position ` set cs \<subseteq> block_seq ` set (turns_of blocks)"
proof (cases "turns_of blocks = []")
  case True
  then show ?thesis using that [of "[]"] by (simp add: chunk_messages_def)
next
  case False
  have "\<forall>b \<in> set (turns_of blocks). utf8 (block_text b)" using assms by (simp add: turns_of_def)
  from messages_loop_run [OF this False, of ext rid config sizer] obtain texts cs where
    run: "texts_ok (turns_of blocks) texts" "message_loop ext rid config sizer (turns_of blocks) texts 0 [] = Inr cs"
      "chunk_messages ext rid blocks config sizer = Inr (finalize_ids (ext_hash ext) rid (renumber cs))" by blast
  have "\<forall>c \<in> set cs. \<exists>b \<in> set (turns_of blocks). co_block_seq c = block_seq b"
    using message_loop_result [OF run(1), of ext rid config sizer 0 "[]"] run(2) by auto
  then have "fst ` position ` set (finalize_ids (ext_hash ext) rid (renumber cs)) \<subseteq> block_seq ` set (turns_of blocks)"
    by (force simp: finalize_ids_def renumber_set position_def)
  then show ?thesis using that [OF run(3)] by simp
qed

text \<open>
  C35: Chunking a document of valid blocks with distinct numbers returns, and no two of its chunks
  share an id unless the hash collides: every chunk is finalized with the content hash of its block
  number, text and number in the block, and no two chunks share both numbers, as long as there are
  at most \<open>2^32\<close> of them.
\<close>

theorem chunk_blocks_ids:
  assumes "\<forall>b \<in> set blocks. utf8 (block_text b)" "distinct (map block_seq blocks)"
  shows "\<exists>cs. chunk_blocks ext resource_id blocks config sizer = Inr cs \<and>
    (\<forall>c \<in> set cs. co_id c = chunk_id_of (ext_hash ext) resource_id (co_block_seq c) (co_text c) (co_seq_in_block c)) \<and>
    (length cs \<le> 2 ^ 32 \<longrightarrow> distinct (map co_id cs) \<or> (\<exists>x y. x \<noteq> y \<and> ext_hash ext x = ext_hash ext y))"
proof -
  define ctx where "ctx = \<lparr>cx_ext = ext, cx_resource_id = resource_id, cx_config = config, cx_sizer = sizer, cx_blocks = blocks\<rparr>"
  define others where "others = filter (\<lambda>b. block_text b \<noteq> [] \<and> \<not> is_turn_block (block_kind_of b)) blocks"
  obtain ms where ms: "chunk_messages ext resource_id blocks config sizer = Inr ms"
      "map co_seq_in_block ms = map word_of_nat [0..<length ms]"
      "fst ` position ` set ms \<subseteq> block_seq ` set (turns_of blocks)"
    using messages_positions [OF assms(1)] by blast
  obtain css where css: "try_fold (add_block ctx) others ms = Inr (ms @ concat css)"
      "list_all2 (\<lambda>b cs. numbered (block_seq b) cs) others css"
    using add_blocks_result [of others ctx ms] assms(1) by (auto simp: others_def)
  let ?cs = "finalize_ids (ext_hash ext) resource_id (ms @ concat css)"
  have run: "chunk_blocks ext resource_id blocks config sizer = Inr ?cs"
    using ms(1) css(1) unfolding chunk_blocks_run chunk_block_by_block_def Let_def
    by (simp flip: ctx_def others_def)
  have id: "\<forall>c \<in> set ?cs. co_id c = chunk_id_of (ext_hash ext) resource_id (co_block_seq c) (co_text c) (co_seq_in_block c)"
    by (auto simp: finalize_ids_def finalize_id_def)
  have "distinct (map co_id ?cs) \<or> (\<exists>x y. x \<noteq> y \<and> ext_hash ext x = ext_hash ext y)" if len: "length ?cs \<le> 2 ^ 32"
  proof -
    have d: "distinct (map block_seq others)" using assms(2) by (simp add: others_def distinct_map_filter)
    have apart: "block_seq ` set (turns_of blocks) \<inter> block_seq ` set others = {}"
      using assms(2) by (auto simp: distinct_map inj_on_def turns_of_def others_def)
    have dm: "distinct (map position ms)" using ms(2) len by (intro distinct_positions) simp_all
    have dg: "distinct (map position (concat css))" "fst ` position ` set (concat css) \<subseteq> block_seq ` set others"
      using distinct_groups [OF css(2) d] len by simp_all
    have "fst ` position ` set ms \<inter> fst ` position ` set (concat css) = {}"
      using ms(3) dg(2) apart by blast
    from distinct_positions_append [OF dm dg(1) this] have pos: "distinct (map position ?cs)"
      by (simp only: position_finalize)
    show ?thesis
    proof (rule ccontr)
      assume no: "\<not> ?thesis"
      have same: "position c = position d" if "c \<in> set ?cs" "d \<in> set ?cs" "co_id c = co_id d" for c d
      proof -
        have "chunk_id_of (ext_hash ext) resource_id (co_block_seq c) (co_text c) (co_seq_in_block c) =
            chunk_id_of (ext_hash ext) resource_id (co_block_seq d) (co_text d) (co_seq_in_block d)"
          using id that by metis
        from chunk_id_inj [OF this refl] no show ?thesis unfolding position_def by blast
      qed
      have "inj_on co_id (set ?cs)"
        using same pos unfolding distinct_map by (intro inj_onI) (meson inj_onD)
      moreover have "distinct ?cs" using pos unfolding distinct_map by blast
      ultimately have "distinct (map co_id ?cs)" unfolding distinct_map by blast
      with no show False by blast
    qed
  qed
  with run id show ?thesis by blast
qed

text \<open>A heading, a paragraph and two turns.\<close>

definition demo_document :: "block list" where
  "demo_document =
     [\<lparr>block_seq = 0, block_kind_of = BHeading 1, block_text = ''hi you'', block_location_of = None\<rparr>,
      demo_turn 1 ''ann'' ''hi you'', demo_turn 2 ''bob'' ''hi you'']"

lemma chunk_blocks_ids_witness:
  "\<exists>cs. chunk_blocks whole_ext ''d'' demo_document config_prose char_sizer = Inr cs \<and>
    (\<forall>c \<in> set cs. co_id c = chunk_id_of id ''d'' (co_block_seq c) (co_text c) (co_seq_in_block c))"
proof -
  have "\<forall>b \<in> set demo_document. utf8 (block_text b)"
    using utf8_hi by (simp add: demo_document_def demo_turn_def)
  moreover have "distinct (map block_seq demo_document)" by (simp add: demo_document_def demo_turn_def)
  ultimately show ?thesis
    using chunk_blocks_ids [of demo_document whole_ext "''d''" config_prose char_sizer] by (auto simp: whole_ext_def)
qed

end
