(* ===== verification/SearchFilters.thy ===== *)
theory SearchFilters
  imports Store
begin

text \<open>
  The search-scoping filters of the three surfaces (\<open>core/src/search_filters.rs\<close>): ten optional
  strings become metadata filters, each date field by the grammar of dates, datetimes and relative
  durations. The clock, \<open>humantime\<close> and the conversions of durations are parameters beside
  \<open>chrono\<close>; \<open>debug_str\<close> is the \<open>Debug\<close> rendering of a string in error messages.
\<close>

record search_filters =
  sf_path :: "string option"
  sf_mime :: "string option"
  sf_added_after :: "string option"
  sf_added_before :: "string option"
  sf_updated_after :: "string option"
  sf_updated_before :: "string option"
  sf_modified_after :: "string option"
  sf_modified_before :: "string option"
  sf_document_after :: "string option"
  sf_document_before :: "string option"

record ('i, 'd) time_api =
  ta_chrono :: "'i chrono_api"
  ta_parse_duration :: "string \<Rightarrow> 'd option"
  ta_in_range :: "'d \<Rightarrow> bool"
  ta_now_minus :: "'d \<Rightarrow> 'i option"
  ta_debug_str :: "string \<Rightarrow> string"

definition is_any_set :: "search_filters \<Rightarrow> bool" where
  "is_any_set sf \<longleftrightarrow> list_ex (\<lambda>f. f \<noteq> None)
     [sf_path sf, sf_mime sf, sf_added_after sf, sf_added_before sf, sf_updated_after sf, sf_updated_before sf,
      sf_modified_after sf, sf_modified_before sf, sf_document_after sf, sf_document_before sf]"

definition ceil_to_next_second :: "'i chrono_api \<Rightarrow> string \<Rightarrow> string option" where
  "ceil_to_next_second ch raw =
     (case parse_from_rfc3339 ch (trim raw) of
        None \<Rightarrow> None
      | Some utc \<Rightarrow>
          if timestamp_subsec_nanos ch utc = 0 then None
          else case checked_add_secs ch utc 1 of
                 None \<Rightarrow> None
               | Some ceiled \<Rightarrow>
                   let formatted = rfc3339_secs ch ceiled
                   in if is_canonical_timestamp formatted then Some formatted else None)"

datatype bound = Lower | Upper

definition out_of_range :: "('i, 'd) time_api \<Rightarrow> string \<Rightarrow> string \<Rightarrow> error" where
  "out_of_range ta field raw = InvalidRequest (field @ '': duration out of range: '' @ ta_debug_str ta raw)"

definition not_a_date :: "('i, 'd) time_api \<Rightarrow> string \<Rightarrow> string \<Rightarrow> error" where
  "not_a_date ta field raw =
     InvalidRequest (field @ '': not a valid date (YYYY, YYYY-MM, YYYY-MM-DD), datetime (RFC 3339), or '' @
       ''relative duration (e.g. '' @ [CHR 0x22] @ ''7d'' @ [CHR 0x22] @ ''): '' @ ta_debug_str ta raw)"

definition parse_filter_date_value ::
  "('i, 'd) time_api \<Rightarrow> string \<Rightarrow> string \<Rightarrow> bound \<Rightarrow> error + string" where
  "parse_filter_date_value ta field raw bnd =
     (case parse_date_or_datetime (ta_chrono ta) raw of
        Some value \<Rightarrow>
          (case (if bnd = Lower then ceil_to_next_second (ta_chrono ta) raw else None) of
             Some ceiled \<Rightarrow> Inr ceiled
           | None \<Rightarrow> Inr value)
      | None \<Rightarrow>
          (case ta_parse_duration ta raw of
             Some duration \<Rightarrow>
               if \<not> ta_in_range ta duration then Inl (out_of_range ta field raw)
               else (case ta_now_minus ta duration of
                       None \<Rightarrow> Inl (out_of_range ta field raw)
                     | Some instant \<Rightarrow>
                         let rendered = rfc3339_secs (ta_chrono ta) instant
                         in if \<not> is_canonical_timestamp rendered then Inl (out_of_range ta field raw)
                            else Inr rendered)
           | None \<Rightarrow> Inl (not_a_date ta field raw)))"

definition filter_axes :: "search_filters \<Rightarrow> (date_axis \<times> string \<times> string option \<times> string \<times> string option) list" where
  "filter_axes sf =
     [(Added, ''added_after'', sf_added_after sf, ''added_before'', sf_added_before sf),
      (Updated, ''updated_after'', sf_updated_after sf, ''updated_before'', sf_updated_before sf),
      (Modified, ''modified_after'', sf_modified_after sf, ''modified_before'', sf_modified_before sf),
      (Document, ''document_after'', sf_document_after sf, ''document_before'', sf_document_before sf)]"

definition push_bound ::
  "('i, 'd) time_api \<Rightarrow> (string \<Rightarrow> metadata_filter) \<Rightarrow> string \<Rightarrow> string option \<Rightarrow> bound \<Rightarrow>
   metadata_filter list \<Rightarrow> error + metadata_filter list" where
  "push_bound ta mk field raw bnd filters =
     (case raw of
        None \<Rightarrow> Inr filters
      | Some r \<Rightarrow> and_then (parse_filter_date_value ta field r bnd) (\<lambda>value. Inr (filters @ [mk value])))"

definition axis_step ::
  "('i, 'd) time_api \<Rightarrow> date_axis \<times> string \<times> string option \<times> string \<times> string option \<Rightarrow>
   metadata_filter list \<Rightarrow> error + metadata_filter list" where
  "axis_step ta ax filters =
     (case ax of (axis, after_field, after, before_field, before) \<Rightarrow>
        and_then (push_bound ta (DateAfter axis) after_field after Lower filters)
          (\<lambda>filters. push_bound ta (DateBefore axis) before_field before Upper filters))"

definition into_metadata_filters :: "('i, 'd) time_api \<Rightarrow> search_filters \<Rightarrow> error + metadata_filter list" where
  "into_metadata_filters ta sf =
     (let filters = (case sf_path sf of Some p \<Rightarrow> [UriPrefix p] | None \<Rightarrow> []) @
                    (case sf_mime sf of Some m \<Rightarrow> [Mime m] | None \<Rightarrow> [])
      in try_fold (axis_step ta) (filter_axes sf) filters)"

section \<open>Parsed bounds\<close>

text \<open>A bound the stores can compare with a stored timestamp.\<close>

definition comparable_bound :: "string \<Rightarrow> bool" where
  "comparable_bound b \<longleftrightarrow> partial_date b \<or> is_canonical_timestamp b"

lemma canonical_comparable: "is_canonical_timestamp b \<Longrightarrow> comparable_bound b"
  by (simp add: comparable_bound_def)

lemma parse_date_comparable:
  assumes "parse_date_or_datetime ch raw = Some b"
  shows "comparable_bound b"
proof -
  from assms obtain n where n: "partial_date_prefix_len (trim raw) = Some n"
    by (auto simp: parse_date_or_datetime_def Let_def split: if_splits option.splits)
  have "partial_date (take n (trim raw))" by (rule partial_prefix_date [OF n])
  with assms n show ?thesis
    by (auto simp: parse_date_or_datetime_def comparable_bound_def Let_def split: if_splits option.splits)
qed

lemma ceil_comparable: "ceil_to_next_second ch raw = Some b \<Longrightarrow> comparable_bound b"
  by (auto simp: ceil_to_next_second_def comparable_bound_def Let_def split: if_splits option.splits)

lemma filter_value_comparable:
  "parse_filter_date_value ta field raw bnd = Inr b \<Longrightarrow> comparable_bound b"
  using parse_date_comparable [of "ta_chrono ta" raw] ceil_comparable [of "ta_chrono ta" raw]
  by (auto simp: parse_filter_date_value_def canonical_comparable Let_def split: if_splits option.splits)

definition names_field :: "error \<Rightarrow> string \<Rightarrow> bool" where
  "names_field e field \<longleftrightarrow> (\<exists>rest. e = InvalidRequest (field @ '': '' @ rest))"

lemma filter_value_error:
  "parse_filter_date_value ta field raw bnd = Inl e \<Longrightarrow> names_field e field"
  by (auto simp: parse_filter_date_value_def names_field_def out_of_range_def not_a_date_def Let_def
      split: if_splits option.splits)

text \<open>One field: what the list gains, or the error that names it.\<close>

definition filter_value :: "metadata_filter \<Rightarrow> string option" where
  "filter_value f = (case f of DateAfter axis v \<Rightarrow> Some v | DateBefore axis v \<Rightarrow> Some v | _ \<Rightarrow> None)"

lemma push_bound_result:
  "case push_bound ta mk field raw bnd filters of
     Inl e \<Rightarrow> raw \<noteq> None \<and> names_field e field
   | Inr filters' \<Rightarrow> (\<exists>new. filters' = filters @ new \<and> length new = (if raw = None then 0 else 1) \<and>
       (\<forall>f \<in> set new. \<exists>b. f = mk b \<and> comparable_bound b))"
proof (cases raw)
  case (Some r)
  show ?thesis
  proof (cases "parse_filter_date_value ta field r bnd")
    case (Inl e)
    with Some filter_value_error [OF Inl] show ?thesis by (simp add: push_bound_def)
  next
    case (Inr b)
    with Some filter_value_comparable [OF Inr] show ?thesis by (auto simp: push_bound_def)
  qed
qed (simp add: push_bound_def)

lemma axis_step_result:
  "case axis_step ta (axis, af, a, bf, b) filters of
     Inl e \<Rightarrow> (a \<noteq> None \<and> names_field e af) \<or> (b \<noteq> None \<and> names_field e bf)
   | Inr filters' \<Rightarrow> (\<exists>new. filters' = filters @ new \<and>
       length new = (if a = None then 0 else 1) + (if b = None then 0 else 1) \<and>
       (\<forall>f \<in> set new. \<exists>v. filter_value f = Some v \<and> comparable_bound v))"
proof (cases "push_bound ta (DateAfter axis) af a Lower filters")
  case (Inl e)
  then show ?thesis
    using push_bound_result [where ta = ta and mk = "DateAfter axis" and field = af and raw = a and bnd = Lower and filters = filters] by (simp add: axis_step_def)
next
  case (Inr f1)
  from push_bound_result [where ta = ta and mk = "DateAfter axis" and field = af and raw = a and bnd = Lower and filters = filters] Inr
  obtain n1 where n1: "f1 = filters @ n1" "length n1 = (if a = None then 0 else 1)"
      "\<forall>f \<in> set n1. \<exists>v. f = DateAfter axis v \<and> comparable_bound v" by auto
  show ?thesis
  proof (cases "push_bound ta (DateBefore axis) bf b Upper f1")
    case (Inl e)
    then show ?thesis
      using push_bound_result [where ta = ta and mk = "DateBefore axis" and field = bf and raw = b and bnd = Upper and filters = f1] Inr by (simp add: axis_step_def)
  next
    case (Inr f2)
    from push_bound_result [where ta = ta and mk = "DateBefore axis" and field = bf and raw = b and bnd = Upper and filters = f1] Inr
    obtain n2 where n2: "f2 = f1 @ n2" "length n2 = (if b = None then 0 else 1)"
        "\<forall>f \<in> set n2. \<exists>v. f = DateBefore axis v \<and> comparable_bound v" by auto
    have "axis_step ta (axis, af, a, bf, b) filters = Inr (filters @ (n1 @ n2))"
      using Inr \<open>push_bound ta (DateAfter axis) af a Lower filters = Inr f1\<close> n1(1) n2(1)
      by (simp add: axis_step_def)
    moreover have "\<forall>f \<in> set (n1 @ n2). \<exists>v. filter_value f = Some v \<and> comparable_bound v"
      using n1(3) n2(3) by (auto simp: filter_value_def)
    ultimately show ?thesis using n1(2) n2(2) by auto
  qed
qed

lemma axes_result:
  "case try_fold (axis_step ta) axes filters of
     Inl e \<Rightarrow> (\<exists>(axis, af, a, bf, b) \<in> set axes. (a \<noteq> None \<and> names_field e af) \<or> (b \<noteq> None \<and> names_field e bf))
   | Inr filters' \<Rightarrow> (\<exists>new. filters' = filters @ new \<and>
       length new = (\<Sum>(axis, af, a, bf, b) \<leftarrow> axes. (if a = None then 0 else 1) + (if b = None then 0 else 1)) \<and>
       (\<forall>f \<in> set new. \<exists>v. filter_value f = Some v \<and> comparable_bound v))"
proof (induction axes arbitrary: filters)
  case (Cons ax axes)
  obtain axis af a bf b where ax: "ax = (axis, af, a, bf, b)" by (metis prod_cases5)
  show ?case
  proof (cases "axis_step ta ax filters")
    case (Inl e)
    then show ?thesis using axis_step_result [where ta = ta and axis = axis and af = af and a = a and bf = bf and b = b and filters = filters] by (simp add: ax)
  next
    case (Inr f1)
    from axis_step_result [where ta = ta and axis = axis and af = af and a = a and bf = bf and b = b and filters = filters] Inr
    obtain n1 where n1: "f1 = filters @ n1"
        "length n1 = (if a = None then 0 else 1) + (if b = None then 0 else 1)"
        "\<forall>f \<in> set n1. \<exists>v. filter_value f = Some v \<and> comparable_bound v"
      unfolding ax by auto
    show ?thesis
    proof (cases "try_fold (axis_step ta) axes f1")
      case (Inl e)
      then show ?thesis using Cons.IH [of f1] Inr by auto
    next
      case (Inr f2)
      from Cons.IH [of f1] Inr obtain n2 where n2: "f2 = f1 @ n2"
          "length n2 = (\<Sum>(axis, af, a, bf, b) \<leftarrow> axes. (if a = None then 0 else 1) + (if b = None then 0 else 1))"
          "\<forall>f \<in> set n2. \<exists>v. filter_value f = Some v \<and> comparable_bound v" by auto
      have "try_fold (axis_step ta) (ax # axes) filters = Inr (filters @ (n1 @ n2))"
        using \<open>axis_step ta ax filters = Inr f1\<close> Inr n1(1) n2(1) by simp
      then show ?thesis using n1(2,3) n2(2,3) by (auto simp: ax)
    qed
  qed
qed simp

text \<open>The fields with their values, path and mime apart.\<close>

definition date_fields :: "search_filters \<Rightarrow> (string \<times> string option) list" where
  "date_fields sf = concat (map (\<lambda>(axis, af, a, bf, b). [(af, a), (bf, b)]) (filter_axes sf))"

lemma axis_fields:
  "(axis, af, a, bf, b) \<in> set (filter_axes sf) \<Longrightarrow> (af, a) \<in> set (date_fields sf) \<and> (bf, b) \<in> set (date_fields sf)"
  unfolding date_fields_def set_concat set_map by (auto intro!: bexI)

text \<open>
  Converting the filters of a request either yields one metadata filter per field that is set,
  so none exactly when no field is set, and every date among them is a partial date or a canonical
  timestamp, which is what the stores compare; or it is refused as an invalid request that names a
  date field that is set.
\<close>

theorem into_metadata_filters_spec:
  "case into_metadata_filters ta sf of
     Inr filters \<Rightarrow> (filters = [] \<longleftrightarrow> \<not> is_any_set sf) \<and>
       list_all (\<lambda>f. case filter_value f of None \<Rightarrow> True | Some v \<Rightarrow> comparable_bound v) filters
   | Inl e \<Rightarrow> \<exists>field raw. (field, Some raw) \<in> set (date_fields sf) \<and> names_field e field"
proof -
  define start where "start = (case sf_path sf of Some p \<Rightarrow> [UriPrefix p] | None \<Rightarrow> []) @
    (case sf_mime sf of Some m \<Rightarrow> [Mime m] | None \<Rightarrow> [])"
  have eq: "into_metadata_filters ta sf = try_fold (axis_step ta) (filter_axes sf) start"
    by (simp add: into_metadata_filters_def start_def)
  have start: "start = [] \<longleftrightarrow> sf_path sf = None \<and> sf_mime sf = None"
      "list_all (\<lambda>f. filter_value f = None) start"
    by (auto simp: start_def filter_value_def split: option.splits)
  note r = axes_result [where ta = ta and axes = "filter_axes sf" and filters = start]
  show ?thesis
  proof (cases "try_fold (axis_step ta) (filter_axes sf) start")
    case (Inl e)
    with r have "\<exists>(axis, af, a, bf, b) \<in> set (filter_axes sf). (a \<noteq> None \<and> names_field e af) \<or> (b \<noteq> None \<and> names_field e bf)"
      by simp
    then obtain axis af a bf b where ax: "(axis, af, a, bf, b) \<in> set (filter_axes sf)"
        and "(a \<noteq> None \<and> names_field e af) \<or> (b \<noteq> None \<and> names_field e bf)"
      by (elim bexE) (simp split: prod.splits)
    with axis_fields [OF ax] have "\<exists>field raw. (field, Some raw) \<in> set (date_fields sf) \<and> names_field e field"
      by (elim disjE conjE) (metis not_None_eq)+
    then show ?thesis by (simp add: eq Inl)
  next
    case (Inr filters)
    with r obtain new where new: "filters = start @ new"
        "length new = (\<Sum>(axis, af, a, bf, b) \<leftarrow> filter_axes sf. (if a = None then 0 else 1) + (if b = None then 0 else 1))"
        "\<forall>f \<in> set new. \<exists>v. filter_value f = Some v \<and> comparable_bound v" by auto
    have "new = [] \<longleftrightarrow> length new = 0" by simp
    then have "filters = [] \<longleftrightarrow> \<not> is_any_set sf"
      unfolding new(1) new(2) by (auto simp: start(1) is_any_set_def filter_axes_def)
    moreover have "list_all (\<lambda>f. case filter_value f of None \<Rightarrow> True | Some v \<Rightarrow> comparable_bound v) filters"
      using start(2) new(3) by (auto simp: new(1) list_all_iff)
    ultimately show ?thesis by (simp add: eq Inr)
  qed
qed

section \<open>Bounds below a second\<close>

text \<open>
  What the code relies on of \<open>chrono\<close>: an instant has a time in nanoseconds, whose sub-second part,
  whose sum with a second and whose order on canonical renderings are what the operations give.
\<close>

definition chrono_ok :: "'i chrono_api \<Rightarrow> ('i \<Rightarrow> int) \<Rightarrow> bool" where
  "chrono_ok ch t \<longleftrightarrow>
     (\<forall>i. timestamp_subsec_nanos ch i = nat (t i mod 10 ^ 9)) \<and>
     (\<forall>i j. checked_add_secs ch i 1 = Some j \<longrightarrow> t j = t i + 10 ^ 9) \<and>
     (\<forall>i j. is_canonical_timestamp (rfc3339_secs ch i) \<and> is_canonical_timestamp (rfc3339_secs ch j) \<longrightarrow>
        (rfc3339_secs ch i \<le> rfc3339_secs ch j \<longleftrightarrow> t i div 10 ^ 9 \<le> t j div 10 ^ 9))"

text \<open>The raw value is a datetime: it parses to the instant, which has a canonical rendering.\<close>

definition datetime_value :: "'i chrono_api \<Rightarrow> string \<Rightarrow> 'i \<Rightarrow> bool" where
  "datetime_value ch raw p \<longleftrightarrow>
     (\<exists>n. partial_date_prefix_len (trim raw) = Some n \<and> n < length (trim raw) \<and>
        trim raw ! n \<in> {CHR ''T'', CHR ''t''}) \<and>
     parse_from_rfc3339 ch (trim raw) = Some p \<and> is_canonical_timestamp (rfc3339_secs ch p)"

lemma datetime_parsed:
  "datetime_value ch raw p \<Longrightarrow> parse_date_or_datetime ch raw = Some (rfc3339_secs ch p)"
  by (auto simp: datetime_value_def parse_date_or_datetime_def Let_def)

lemma floor_le: "N * k \<le> x \<longleftrightarrow> k \<le> x div N" if "0 < N" for N k x :: int
proof -
  define d m where "d = x div N" and "m = x mod N"
  have x: "x = N * d + m" "0 \<le> m" "m < N"
    using that mult_div_mod_eq [of N x] by (simp_all add: d_def m_def)
  show ?thesis
    unfolding d_def [symmetric]
  proof
    assume "N * k \<le> x"
    with x(1,3) have "N * k < N * (d + 1)" by (simp add: distrib_left)
    then show "k \<le> d" using that by simp
  next
    assume "k \<le> d"
    then have "N * k \<le> N * d" using that by simp
    with x(1,2) show "N * k \<le> x" by linarith
  qed
qed


text \<open>A clock of four half seconds, on which half a second past midnight is asked for.\<close>

definition half_render :: "nat \<Rightarrow> string" where
  "half_render i =
     (if i div 2 = 0 then ''2026-06-10T00:00:00Z'' else if i div 2 = 1 then ''2026-06-10T00:00:01Z'' else [])"

definition half_api :: "(nat, unit) time_api" where
  "half_api = \<lparr>ta_chrono = \<lparr>parse_from_rfc3339 = (\<lambda>_. Some 1),
        timestamp_subsec_nanos = (\<lambda>i. if even i then 0 else 5 * 10 ^ 8),
        checked_add_secs = (\<lambda>i n. Some (i + 2)), rfc3339_secs = half_render\<rparr>,
     ta_parse_duration = (\<lambda>_. None), ta_in_range = (\<lambda>_. True), ta_now_minus = (\<lambda>_. None),
     ta_debug_str = (\<lambda>s. s)\<rparr>"

lemma half_canonical: "is_canonical_timestamp (half_render i) \<longleftrightarrow> i div 2 \<le> 1"
  by (simp add: half_render_def is_canonical_timestamp_def canonical_pattern_def is_ascii_digit_def)

definition half_time :: "nat \<Rightarrow> int" where
  "half_time i = int (i div 2) * 10 ^ 9 + (if even i then 0 else 5 * 10 ^ 8)"

lemma half_time_parts:
  "half_time i div 10 ^ 9 = int (i div 2)" "half_time i mod 10 ^ 9 = (if even i then 0 else 5 * 10 ^ 8)"
  by (cases "even i"; simp add: half_time_def)+

lemma half_ok: "chrono_ok (ta_chrono half_api) half_time"
proof -
  have "half_render i \<le> half_render j \<longleftrightarrow> int (i div 2) \<le> int (j div 2)"
    if "i div 2 \<le> 1" "j div 2 \<le> 1" for i j
  proof -
    have "i div 2 = 0 \<or> i div 2 = 1" "j div 2 = 0 \<or> j div 2 = 1" using that by auto
    then show ?thesis by (elim disjE) (simp_all add: half_render_def)
  qed
  then show ?thesis
    unfolding chrono_ok_def half_time_parts
    by (auto simp: half_api_def half_canonical half_time_def)
qed

lemma half_datetime: "datetime_value (ta_chrono half_api) ''2026-06-10T00:00:00.5Z'' 1"
proof -
  have t: "trim ''2026-06-10T00:00:00.5Z'' = ''2026-06-10T00:00:00.5Z''"
    by (rule trim_solid) (simp_all add: solid_def)
  have "partial_date_prefix_len ''2026-06-10T00:00:00.5Z'' = Some 10"
    by (simp add: partial_date_prefix_len_def digits_in_range_def digits_value_def Dates.sub_def is_ascii_digit_def)
  then show ?thesis
    unfolding datetime_value_def t by (simp add: half_api_def half_canonical)
qed


end
