(* ===== verification/Schema.thy ===== *)
theory Schema
  imports Ids Errors
begin

text \<open>
  The statements of \<open>schema::create_schema\<close> (\<open>store-libsql/src/schema.rs\<close>), in the order it executes
  them, and the parts of \<open>store-libsql/src/vectors.rs\<close> that render the embedding column and its index.
  A statement is its text; what it does to a database is the SQL engine's, a parameter.
\<close>

abbreviation nl :: string where
  "nl \<equiv> [CHR 0x0A]"

datatype vector_encoding = Float32 | Binary

text \<open>\<open>vectors::vector_index_params\<close> and \<open>vectors::vector_index_ddl\<close>.\<close>

fun vector_index_params :: "vector_encoding \<Rightarrow> string" where
  "vector_index_params Binary = [CHR 0x27] @ ''metric=cosine'' @ [CHR 0x27]"
| "vector_index_params Float32 = [CHR 0x27] @ ''metric=cosine'' @ [CHR 0x27] @ '', '' @ [CHR 0x27] @ ''max_neighbors=64'' @ [CHR 0x27] @
    '', '' @ [CHR 0x27] @ ''compress_neighbors=float8'' @ [CHR 0x27]"

definition vector_index_ddl :: "vector_encoding \<Rightarrow> string" where
  "vector_index_ddl encoding =
     ''CREATE INDEX IF NOT EXISTS chunks_vec_idx ON chunks(libsql_vector_idx(embedding, '' @ vector_index_params encoding @ ''))''"

definition embedding_column_type :: "nat \<Rightarrow> vector_encoding \<Rightarrow> string" where
  "embedding_column_type dim encoding =
     (case encoding of
        Float32 \<Rightarrow> ''F32_BLOB('' @ show_nat dim @ '')''
      | Binary \<Rightarrow> ''F1BIT_BLOB('' @ show_nat dim @ '')'')"

section \<open>The schema at the head version\<close>

definition create_stores :: "string list" where
  "create_stores =
     [''CREATE TABLE IF NOT EXISTS stores ('' @ nl @
      ''            id              TEXT PRIMARY KEY NOT NULL,'' @ nl @
      ''            name            TEXT NOT NULL UNIQUE,'' @ nl @
      ''            visibility      TEXT NOT NULL DEFAULT '' @ [CHR 0x27] @ ''private'' @ [CHR 0x27] @ '','' @ nl @
      ''            backend         TEXT NOT NULL DEFAULT '' @ [CHR 0x27] @ ''libsql'' @ [CHR 0x27] @ '','' @ nl @
      ''            indexing_policy TEXT NOT NULL,'' @ nl @
      ''            policy_version  TEXT NOT NULL,'' @ nl @
      ''            acl             TEXT NOT NULL DEFAULT '' @ [CHR 0x27] @ ''{}'' @ [CHR 0x27] @ '','' @ nl @
      ''            created_at      TEXT NOT NULL'' @ nl @
      ''        )'']"

definition create_sources :: "string list" where
  "create_sources =
     [''CREATE TABLE IF NOT EXISTS sources ('' @ nl @
      ''            id          TEXT PRIMARY KEY NOT NULL,'' @ nl @
      ''            store_id    TEXT NOT NULL REFERENCES stores(id) ON DELETE CASCADE,'' @ nl @
      ''            kind        TEXT NOT NULL,'' @ nl @
      ''            root        TEXT,'' @ nl @
      ''            url         TEXT,'' @ nl @
      ''            include     TEXT NOT NULL DEFAULT '' @ [CHR 0x27] @ ''[]'' @ [CHR 0x27] @ '','' @ nl @
      ''            exclude     TEXT NOT NULL DEFAULT '' @ [CHR 0x27] @ ''[]'' @ [CHR 0x27] @ '','' @ nl @
      ''            preset      TEXT NOT NULL DEFAULT '' @ [CHR 0x27] @ ''prose'' @ [CHR 0x27] @ '','' @ nl @
      ''            refresh     TEXT,'' @ nl @
      ''            created_at  TEXT NOT NULL,'' @ nl @
      ''            config_json TEXT, feed_etag TEXT, feed_last_modified TEXT, feed_inputs_digest TEXT,'' @ nl @
      ''            CHECK ('' @ nl @
      ''                (kind = '' @ [CHR 0x27] @ ''path'' @ [CHR 0x27] @ '' AND root IS NOT NULL)'' @ nl @
      ''                OR (kind = '' @ [CHR 0x27] @ ''url'' @ [CHR 0x27] @ ''  AND url  IS NOT NULL)'' @ nl @
      ''                OR (kind NOT IN ('' @ [CHR 0x27] @ ''path'' @ [CHR 0x27] @ '', '' @ [CHR 0x27] @ ''url'' @ [CHR 0x27] @ ''))'' @ nl @
      ''            ),'' @ nl @
      ''            UNIQUE (store_id, id)'' @ nl @
      ''        )'',
      ''CREATE INDEX IF NOT EXISTS idx_sources_store_id ON sources(store_id)'',
      ''CREATE UNIQUE INDEX IF NOT EXISTS idx_sources_store_root ON sources(store_id, root) WHERE root IS NOT NULL'',
      ''CREATE UNIQUE INDEX IF NOT EXISTS idx_sources_store_url ON sources(store_id, url) WHERE url IS NOT NULL'']"

definition create_resources :: "string list" where
  "create_resources =
     [''CREATE TABLE IF NOT EXISTS resources ('' @ nl @
      ''            rowid             INTEGER PRIMARY KEY,'' @ nl @
      ''            store_id          TEXT NOT NULL REFERENCES stores(id) ON DELETE CASCADE,'' @ nl @
      ''            id                TEXT NOT NULL,'' @ nl @
      ''            source_id         TEXT NOT NULL,'' @ nl @
      ''            ingestor_kind     TEXT NOT NULL,'' @ nl @
      ''            resource_kind     TEXT NOT NULL,'' @ nl @
      ''            uri               TEXT NOT NULL,'' @ nl @
      ''            external_id       TEXT,'' @ nl @
      ''            external_etag     TEXT,'' @ nl @
      ''            content_hash      TEXT NOT NULL,'' @ nl @
      ''            title             TEXT,'' @ nl @
      ''            mime              TEXT,'' @ nl @
      ''            language          TEXT,'' @ nl @
      ''            date_original     TEXT,'' @ nl @
      ''            date_parsed       TEXT,'' @ nl @
      ''            added_at          TEXT NOT NULL,'' @ nl @
      ''            thread_id         TEXT,'' @ nl @
      ''            channel           TEXT,'' @ nl @
      ''            participants      TEXT DEFAULT '' @ [CHR 0x27] @ ''[]'' @ [CHR 0x27] @ '','' @ nl @
      ''            metadata_json     TEXT NOT NULL,'' @ nl @
      ''            origin_store      TEXT NOT NULL,'' @ nl @
      ''            policy_version    TEXT NOT NULL,'' @ nl @
      ''            share_path        TEXT,'' @ nl @
      ''            extractor_version TEXT NOT NULL, modified_at TEXT, index_updated_at TEXT, external_last_modified TEXT, last_checked_at TEXT,'' @ nl @
      ''            UNIQUE (store_id, id),'' @ nl @
      ''            FOREIGN KEY (store_id, source_id) REFERENCES sources(store_id, id) ON DELETE CASCADE'' @ nl @
      ''        )'',
      ''CREATE INDEX IF NOT EXISTS idx_resources_store_uri ON resources(store_id, uri)'',
      ''CREATE INDEX IF NOT EXISTS idx_resources_source_id ON resources(source_id)'']"

definition create_blocks :: "string list" where
  "create_blocks =
     [''CREATE TABLE IF NOT EXISTS blocks ('' @ nl @
      ''            rowid         INTEGER PRIMARY KEY,'' @ nl @
      ''            store_id      TEXT NOT NULL,'' @ nl @
      ''            resource_id   TEXT NOT NULL,'' @ nl @
      ''            seq           INTEGER NOT NULL,'' @ nl @
      ''            kind          TEXT NOT NULL,'' @ nl @
      ''            text          TEXT NOT NULL,'' @ nl @
      ''            metadata_json TEXT,'' @ nl @
      ''            location_json TEXT,'' @ nl @
      ''            UNIQUE (store_id, resource_id, seq),'' @ nl @
      ''            FOREIGN KEY (store_id, resource_id) REFERENCES resources(store_id, id) ON DELETE CASCADE'' @ nl @
      ''        )'',
      ''CREATE INDEX IF NOT EXISTS idx_blocks_resource ON blocks(store_id, resource_id)'']"

definition create_chunks :: "nat \<Rightarrow> vector_encoding \<Rightarrow> string list" where
  "create_chunks embedding_dim encoding =
     [''CREATE TABLE IF NOT EXISTS chunks ('' @ nl @
      ''            rowid         INTEGER PRIMARY KEY,'' @ nl @
      ''            store_id      TEXT NOT NULL,'' @ nl @
      ''            id            TEXT NOT NULL,'' @ nl @
      ''            resource_id   TEXT NOT NULL,'' @ nl @
      ''            block_seq     INTEGER NOT NULL,'' @ nl @
      ''            seq_in_block  INTEGER NOT NULL DEFAULT 0,'' @ nl @
      ''            block_kind    TEXT,'' @ nl @
      ''            text          TEXT NOT NULL,'' @ nl @
      ''            heading_path  TEXT NOT NULL,'' @ nl @
      ''            embedding     '' @ embedding_column_type embedding_dim encoding @
      '' NOT NULL,'' @ nl @
      ''            location_json TEXT,'' @ nl @
      ''            UNIQUE (store_id, id),'' @ nl @
      ''            FOREIGN KEY (store_id, resource_id)'' @ nl @
      ''                REFERENCES resources(store_id, id) ON DELETE CASCADE'' @ nl @
      ''        )'',
      ''CREATE INDEX IF NOT EXISTS idx_chunks_store_resource_pos ON chunks(store_id, resource_id, block_seq, seq_in_block)'',
      vector_index_ddl encoding]"

definition create_fts :: "string list" where
  "create_fts =
     [''CREATE VIRTUAL TABLE IF NOT EXISTS chunks_fts USING fts5('' @ nl @
      ''            text,'' @ nl @
      ''            content='' @ [CHR 0x27] @ ''chunks'' @ [CHR 0x27] @ '','' @ nl @
      ''            content_rowid='' @ [CHR 0x27] @ ''rowid'' @ [CHR 0x27] @ nl @
      ''        )'']"

definition create_triggers :: "string list" where
  "create_triggers =
     [''CREATE TRIGGER IF NOT EXISTS chunks_ai AFTER INSERT ON chunks BEGIN'' @ nl @
      ''            INSERT INTO chunks_fts(rowid, text) VALUES (new.rowid, new.text);'' @ nl @
      ''        END'',
      ''CREATE TRIGGER IF NOT EXISTS chunks_ad AFTER DELETE ON chunks BEGIN'' @ nl @
      ''            INSERT INTO chunks_fts(chunks_fts, rowid, text) VALUES('' @ [CHR 0x27] @ ''delete'' @ [CHR 0x27] @ '', old.rowid, old.text);'' @ nl @
      ''        END'',
      ''CREATE TRIGGER IF NOT EXISTS chunks_au AFTER UPDATE ON chunks BEGIN'' @ nl @
      ''            INSERT INTO chunks_fts(chunks_fts, rowid, text) VALUES('' @ [CHR 0x27] @ ''delete'' @ [CHR 0x27] @ '', old.rowid, old.text);'' @ nl @
      ''            INSERT INTO chunks_fts(rowid, text) VALUES (new.rowid, new.text);'' @ nl @
      ''        END'']"

definition create_sync_state :: "string list" where
  "create_sync_state =
     [''CREATE TABLE IF NOT EXISTS sync_state ('' @ nl @
      ''            source_id    TEXT PRIMARY KEY,'' @ nl @
      ''            cursor_json  TEXT,'' @ nl @
      ''            last_sync_at TEXT,'' @ nl @
      ''            items_synced INTEGER DEFAULT 0'' @ nl @
      ''        )'']"

definition create_credentials :: "string list" where
  "create_credentials =
     [''CREATE TABLE IF NOT EXISTS credentials ('' @ nl @
      ''            ingestor_kind   TEXT NOT NULL,'' @ nl @
      ''            source_id       TEXT NOT NULL,'' @ nl @
      ''            key             TEXT NOT NULL,'' @ nl @
      ''            value_encrypted BLOB,'' @ nl @
      ''            updated_at      TEXT NOT NULL,'' @ nl @
      ''            PRIMARY KEY (ingestor_kind, source_id, key)'' @ nl @
      ''        )'']"


definition create_schema_sql :: "nat \<Rightarrow> vector_encoding \<Rightarrow> string list" where
  "create_schema_sql embedding_dim encoding =
     create_stores @ create_sources @ create_resources @ create_blocks @ create_chunks embedding_dim encoding @
     create_fts @ create_triggers @ create_sync_state @ create_credentials"

end
