(* ===== verification/Migrations.thy ===== *)
theory Migrations
  imports Schema RString
begin

text \<open>
  Schema migrations (\<open>store-libsql/src/migrations/\<close>): the chain, the bookkeeping table
  \<open>schema_migrations\<close>, the checksums and their verification (\<open>mod.rs\<close>, \<open>chain.rs\<close>, \<open>table.rs\<close>,
  \<open>checksum.rs\<close>). A database is its \<open>user_version\<close>, its bookkeeping rows and its remaining content,
  an abstract value that only the SQL engine, a parameter, changes. A version is an \<open>int\<close>; the
  JSON of \<open>down_sql\<close> is the list it encodes.
\<close>

record migration_row =
  row_version :: int
  row_name :: string
  row_applied_at :: string
  row_down_sql :: "string list option"
  row_down_unsupported_reason :: "string option"
  row_checksum :: string

record 'd database =
  db_user_version :: int
  db_rows :: "migration_row list option"
  db_content :: 'd

text \<open>
  The parameters: the hash; one SQL statement on the content; the engine's texts for a violated
  constraint and for a \<open>SqliteFailure\<close>; the trigger and table names of \<open>sqlite_master\<close>; the declared
  type of \<open>chunks.embedding\<close>; two \<open>Debug\<close> renderings; the clock. An engine error is its text.
\<close>

record 'd mig_ext =
  mx_hash :: hash_fn
  mx_execute :: "string \<Rightarrow> 'd \<Rightarrow> string + 'd"
  mx_unique_err :: string
  mx_check_err :: string
  mx_sqlite_failure :: "string \<Rightarrow> string"
  mx_triggers :: "'d \<Rightarrow> string + string list"
  mx_tables :: "'d database \<Rightarrow> string + string list"
  mx_embedding_type :: "'d \<Rightarrow> string + string option"
  mx_debug_sql :: "string list option \<Rightarrow> string"
  mx_debug_str :: "string option \<Rightarrow> string"
  mx_now :: string

definition BASELINE_VERSION :: int where
  "BASELINE_VERSION = 4"

section \<open>The chain that has shipped\<close>

definition V5_VECTOR_INDEX_DDL :: string where
  "V5_VECTOR_INDEX_DDL =
     ''CREATE INDEX IF NOT EXISTS chunks_vec_idx ON chunks(libsql_vector_idx(embedding, '' @ [CHR 0x27] @
     ''metric=cosine'' @ [CHR 0x27] @ '', '' @ [CHR 0x27] @ ''max_neighbors=64'' @ [CHR 0x27] @ '', '' @
     [CHR 0x27] @ ''compress_neighbors=float8'' @ [CHR 0x27] @ ''))''"

record mig_context =
  mc_embedding_dim :: nat
  mc_encoding :: vector_encoding

definition drop_chunks_block_id_and_retag_resource_metadata_up :: "mig_context \<Rightarrow> string list" where
  "drop_chunks_block_id_and_retag_resource_metadata_up ctx =
     [''ALTER TABLE chunks DROP COLUMN block_id'',
      ''DROP INDEX IF EXISTS idx_chunks_store_resource'',
      ''CREATE INDEX IF NOT EXISTS idx_chunks_store_resource_pos ON chunks(store_id, resource_id, '' @
      ''block_seq, seq_in_block)'',
      ''UPDATE resources SET metadata_json = json_set( metadata_json, '' @ [CHR 0x27] @ ''$.kind'' @
      [CHR 0x27] @ '', '' @ [CHR 0x27] @ ''document'' @ [CHR 0x27] @ '', '' @ [CHR 0x27] @ ''$.page_count'' @
      [CHR 0x27] @ '', NULL, '' @ [CHR 0x27] @ ''$.word_count'' @ [CHR 0x27] @
      '', NULL ) WHERE json_valid(metadata_json) AND json_extract(metadata_json, '' @ [CHR 0x27] @
      ''$.kind'' @ [CHR 0x27] @ '') IS NULL'']"

definition relax_modified_at_and_add_index_updated_at_up :: "mig_context \<Rightarrow> string list" where
  "relax_modified_at_and_add_index_updated_at_up ctx =
     [''ALTER TABLE resources ADD COLUMN modified_at_new TEXT'',
      ''UPDATE resources SET modified_at_new = modified_at'',
      ''ALTER TABLE resources DROP COLUMN modified_at'',
      ''ALTER TABLE resources RENAME COLUMN modified_at_new TO modified_at'',
      ''ALTER TABLE resources ADD COLUMN index_updated_at TEXT'',
      ''UPDATE resources SET index_updated_at = added_at WHERE index_updated_at IS NULL'']"

definition add_conditional_get_validators_up :: "mig_context \<Rightarrow> string list" where
  "add_conditional_get_validators_up ctx =
     [''ALTER TABLE resources ADD COLUMN external_last_modified TEXT'',
      ''ALTER TABLE resources ADD COLUMN last_checked_at TEXT'',
      ''ALTER TABLE sources ADD COLUMN feed_etag TEXT'',
      ''ALTER TABLE sources ADD COLUMN feed_last_modified TEXT'',
      ''ALTER TABLE sources ADD COLUMN feed_inputs_digest TEXT'']"

definition add_conditional_get_validators_down :: "mig_context \<Rightarrow> string list" where
  "add_conditional_get_validators_down ctx =
     [''ALTER TABLE resources DROP COLUMN external_last_modified'',
      ''ALTER TABLE resources DROP COLUMN last_checked_at'',
      ''ALTER TABLE sources DROP COLUMN feed_etag'',
      ''ALTER TABLE sources DROP COLUMN feed_last_modified'',
      ''ALTER TABLE sources DROP COLUMN feed_inputs_digest'']"

definition shrink_vector_index_up :: "mig_context \<Rightarrow> string list" where
  "shrink_vector_index_up ctx =
     (case mc_encoding ctx of
        Binary \<Rightarrow> [''DROP INDEX IF EXISTS chunks_vec_idx'', vector_index_ddl Binary]
      | Float32 \<Rightarrow> [])"

definition shrink_vector_index_down :: "mig_context \<Rightarrow> string list" where
  "shrink_vector_index_down ctx =
     (case mc_encoding ctx of
        Binary \<Rightarrow> [''DROP INDEX IF EXISTS chunks_vec_idx'', V5_VECTOR_INDEX_DDL]
      | Float32 \<Rightarrow> [])"

text \<open>A step in Rust works on the content and is hashed by its description.\<close>

datatype 'd up =
    UpSql "mig_context \<Rightarrow> string list"
  | UpRust "mig_context \<Rightarrow> 'd \<Rightarrow> string + 'd" string

datatype down = DownSql "mig_context \<Rightarrow> string list" | DownUnsupported string

record 'd migration =
  mg_version :: int
  mg_name :: string
  mg_summary :: string
  mg_up :: "'d up"
  mg_down :: down
  mg_needs_reindex :: bool

definition migrations :: "'d migration list" where
  "migrations =
     [\<lparr>mg_version = BASELINE_VERSION + 1,
       mg_name = ''drop_chunks_block_id_and_retag_resource_metadata'',
       mg_summary = ''drops chunks.block_id, replaces idx_chunks_store_resource with idx_chunks_store_resource_pos, '' @
         ''retags resources.metadata_json from the retired flat Dublin-Core shape to the tagged '' @
         ''Metadata::Document encoding'',
       mg_up = UpSql drop_chunks_block_id_and_retag_resource_metadata_up,
       mg_down = DownUnsupported (''chunks.block_id cannot be reconstructed; re-index required after downgrade''),
       mg_needs_reindex = True\<rparr>,
      \<lparr>mg_version = BASELINE_VERSION + 2,
       mg_name = ''shrink_vector_index'',
       mg_summary = ''rebuilds chunks_vec_idx without compress_neighbors=float8/max_neighbors=64 on binary-encoded '' @
         ''stores, cutting the per-chunk DiskANN block from 67,216 to 7,488 bytes (9.0x); run '' @
         ''`localdb db vacuum` afterwards to return the freed pages to the filesystem'',
       mg_up = UpSql shrink_vector_index_up,
       mg_down = DownSql shrink_vector_index_down,
       mg_needs_reindex = False\<rparr>,
      \<lparr>mg_version = BASELINE_VERSION + 3,
       mg_name = ''relax_modified_at_and_add_index_updated_at'',
       mg_summary = ''relaxes resources.modified_at'' @ [CHR 0x27] @
         ''s NOT NULL constraint (via an add/copy/drop/ rename column dance, since chunks/blocks '' @
         ''foreign keys to resources make a table rebuild unsafe here) and adds resources.index_updated_at '' @
         ''(write-time clock of the last index write for a resource), backfilled from added_at '' @
         ''so no row is left NULL'',
       mg_up = UpSql relax_modified_at_and_add_index_updated_at_up,
       mg_down = DownUnsupported (''resources.modified_at'' @ [CHR 0x27] @
         ''s NOT NULL constraint and original column position cannot be restored by ALTER TABLE '' @
         ''alone (SQLite can only append columns); downgrading would require rebuilding the '' @
         ''resources table, which chunks/blocks'' @ [CHR 0x27] @
         '' foreign keys to it make unsafe inside a migration transaction''),
       mg_needs_reindex = False\<rparr>,
      \<lparr>mg_version = BASELINE_VERSION + 4,
       mg_name = ''add_conditional_get_validators'',
       mg_summary = ''adds resources.external_last_modified (raw HTTP Last-Modified conditional-GET validator, '' @
         ''replayed byte-exact in If-Modified-Since) and resources.last_checked_at (last successful '' @
         ''origin contact for the resource'' @ [CHR 0x27] @
         ''s URI, advanced by the entry loop, url sources, single-document feed mode and the '' @
         ''liveness sweep, except the liveness sweep also advances it on a Blocked or transport-error '' @
         ''probe outcome, its one deliberate exception, so permanently-blocked entries don'' @ [CHR 0x27] @
         ''t monopolize its oldest-first ordering; distinct from index_updated_at because a '' @
         ''successful check that leaves content and metadata unchanged writes nothing), plus '' @
         ''sources.feed_etag and sources.feed_last_modified (the feed document'' @ [CHR 0x27] @
         ''s own validators, kept on sources since a feed document never becomes a Resource '' @
         ''in discovery mode) and sources.feed_inputs_digest (the local inputs behind the last '' @
         ''feed run, so a policy change stops those validators being replayed); all five nullable, '' @
         ''no default. Downgrading past this migration discards any accumulated validators, '' @
         ''costing one full re-fetch of every URL and feed entry on the next upgrade'',
       mg_up = UpSql add_conditional_get_validators_up,
       mg_down = DownSql add_conditional_get_validators_down,
       mg_needs_reindex = False\<rparr>]"

definition head_version :: "'d migration list \<Rightarrow> int" where
  "head_version chain = BASELINE_VERSION + int (length chain)"

definition show_int :: "int \<Rightarrow> string" where
  "show_int n = (if n < 0 then CHR ''-'' # show_nat (nat (- n)) else show_nat (nat n))"

definition quoted :: "string \<Rightarrow> string" where
  "quoted s = [CHR 0x27] @ s @ [CHR 0x27]"

text \<open>\<open>validate_chain\<close>: the first entry off its expected version is named.\<close>

fun validate_from :: "nat \<Rightarrow> 'd migration list \<Rightarrow> error + unit" where
  "validate_from i [] = Inr ()"
| "validate_from i (m # ms) =
     (let expected = BASELINE_VERSION + 1 + int i
      in if mg_version m \<noteq> expected
         then Inl (Internal (''migration chain is not contiguous: entry '' @ quoted (mg_name m) @ '' at index '' @
                show_nat i @ '' has version '' @ show_int (mg_version m) @ '', expected version '' @ show_int expected)
                ''libsql_migrations_invalid_chain'')
         else validate_from (Suc i) ms)"

definition validate_chain :: "'d migration list \<Rightarrow> error + unit" where
  "validate_chain chain = validate_from 0 chain"

section \<open>Checksums\<close>

definition frame_statements :: "string list \<Rightarrow> string" where
  "frame_statements statements =
     concat (map (\<lambda>stmt. show_nat (length stmt) @ [CHR 0x00] @ stmt) statements)"

definition rendered_up :: "mig_context \<Rightarrow> 'd up \<Rightarrow> string" where
  "rendered_up ctx u = (case u of UpSql render \<Rightarrow> frame_statements (render ctx) | UpRust step repr \<Rightarrow> repr)"

definition rendered_down :: "mig_context \<Rightarrow> down \<Rightarrow> string" where
  "rendered_down ctx d = (case d of DownSql render \<Rightarrow> frame_statements (render ctx) | DownUnsupported reason \<Rightarrow> reason)"

definition checksum_input :: "'d migration \<Rightarrow> mig_context \<Rightarrow> string" where
  "checksum_input m ctx =
     show_int (mg_version m) @ [CHR 0x00] @ mg_name m @ [CHR 0x00] @ rendered_up ctx (mg_up m) @
       [CHR 0x00] @ rendered_down ctx (mg_down m)"

definition migration_checksum :: "hash_fn \<Rightarrow> 'd migration \<Rightarrow> mig_context \<Rightarrow> string" where
  "migration_checksum h m ctx = h (checksum_input m ctx)"

definition baseline_checksum :: "hash_fn \<Rightarrow> string" where
  "baseline_checksum h =
     h (show_int BASELINE_VERSION @ [CHR 0x00] @ ''baseline'' @ [CHR 0x00] @ ''<frozen-v4-baseline>'')"

section \<open>The bookkeeping table\<close>

definition rows_of :: "'d database \<Rightarrow> migration_row list" where
  "rows_of db = (case db_rows db of Some rows \<Rightarrow> rows | None \<Rightarrow> [])"

definition ensure_table :: "'d database \<Rightarrow> 'd database" where
  "ensure_table db = (case db_rows db of Some rows \<Rightarrow> db | None \<Rightarrow> db\<lparr>db_rows := Some []\<rparr>)"

definition baseline_row :: "'d mig_ext \<Rightarrow> migration_row" where
  "baseline_row mx = \<lparr>row_version = BASELINE_VERSION, row_name = ''baseline'', row_applied_at = mx_now mx,
     row_down_sql = None,
     row_down_unsupported_reason = Some ''baseline schema predates the migration framework; cannot downgrade below v4'',
     row_checksum = baseline_checksum (mx_hash mx)\<rparr>"

text \<open>\<open>INSERT OR IGNORE\<close> on the primary key.\<close>

definition ensure_baseline_row :: "'d mig_ext \<Rightarrow> 'd database \<Rightarrow> 'd database" where
  "ensure_baseline_row mx db =
     (if BASELINE_VERSION \<in> row_version ` set (rows_of db) then db
      else db\<lparr>db_rows := Some (rows_of db @ [baseline_row mx])\<rparr>)"

definition list_rows_desc_above :: "'d database \<Rightarrow> int \<Rightarrow> migration_row list" where
  "list_rows_desc_above db target =
     sort_by (\<lambda>a b. ord_cmp (row_version b) (row_version a)) (filter (\<lambda>r. target < row_version r) (rows_of db))"

definition find_row :: "'d database \<Rightarrow> int \<Rightarrow> migration_row option" where
  "find_row db version = find (\<lambda>r. row_version r = version) (list_rows_desc_above db (version - 1))"

text \<open>The insert fails on the table's constraints: the primary key, and exactly one of the two columns.\<close>

definition insert_row :: "'d mig_ext \<Rightarrow> migration_row \<Rightarrow> 'd database \<Rightarrow> string + 'd database" where
  "insert_row mx row db =
     (if row_version row \<in> row_version ` set (rows_of db)
      then Inl (mx_unique_err mx)
      else if (row_down_sql row = None) = (row_down_unsupported_reason row = None)
      then Inl (mx_check_err mx)
      else Inr (db\<lparr>db_rows := Some (rows_of db @ [row])\<rparr>))"

definition delete_row :: "int \<Rightarrow> 'd database \<Rightarrow> 'd database" where
  "delete_row version db = db\<lparr>db_rows := Some (filter (\<lambda>r. row_version r \<noteq> version) (rows_of db))\<rparr>"

section \<open>Verification\<close>

definition mismatch_err :: "string \<Rightarrow> int \<Rightarrow> string \<Rightarrow> string \<Rightarrow> error" where
  "mismatch_err name version stored expected =
     Internal (''checksum mismatch for migration '' @ quoted name @ '' (version '' @ show_int version @ ''): stored='' @
        stored @ '', expected='' @ expected @ ''. The compiled migration'' @ [CHR 0x27] @
        ''s SQL has changed since it was applied to this database.'') ''libsql_migrations_checksum_mismatch''"

definition payload_mismatch_err :: "string \<Rightarrow> int \<Rightarrow> string \<Rightarrow> string \<Rightarrow> string \<Rightarrow> error" where
  "payload_mismatch_err name version field stored expected =
     Internal (''stored '' @ field @ '' for migration '' @ quoted name @ '' (version '' @ show_int version @
        '') does not match the compiled migration even though its checksum column reads correctly: stored='' @ stored @
        '', expected='' @ expected @ ''. This store'' @ [CHR 0x27] @
        ''s schema_migrations bookkeeping has been tampered with or corrupted.'') ''libsql_migrations_checksum_mismatch''"

definition missing_row_err :: "int \<Rightarrow> string \<Rightarrow> error" where
  "missing_row_err version name =
     Internal (''schema_migrations is missing a row for migration '' @ quoted name @ '' (version '' @ show_int version @
        ''): this store'' @ [CHR 0x27] @ ''s migration bookkeeping is corrupt or incomplete.'')
       ''libsql_migrations_missing_row''"

definition verify_payload :: "'d mig_ext \<Rightarrow> migration_row \<Rightarrow> 'd migration \<Rightarrow> mig_context \<Rightarrow> error + unit" where
  "verify_payload mx row m ctx =
     (if row_name row \<noteq> mg_name m
      then Inl (payload_mismatch_err (mg_name m) (row_version row) ''name'' (row_name row) (mg_name m))
      else case mg_down m of
        DownSql render \<Rightarrow>
          if row_down_sql row \<noteq> Some (render ctx)
          then Inl (payload_mismatch_err (mg_name m) (row_version row) ''down_sql''
                 (mx_debug_sql mx (row_down_sql row)) (mx_debug_sql mx (Some (render ctx))))
          else Inr ()
      | DownUnsupported reason \<Rightarrow>
          if row_down_unsupported_reason row \<noteq> Some reason
          then Inl (payload_mismatch_err (mg_name m) (row_version row) ''down_unsupported_reason''
                 (mx_debug_str mx (row_down_unsupported_reason row)) (mx_debug_str mx (Some reason)))
          else Inr ())"

definition verify_row ::
  "'d mig_ext \<Rightarrow> 'd migration list \<Rightarrow> mig_context \<Rightarrow> migration_row \<Rightarrow> int set \<Rightarrow> error + int set" where
  "verify_row mx chain ctx row seen =
     (let seen' = insert (row_version row) seen
      in if row_version row = BASELINE_VERSION then
           (if row_checksum row \<noteq> baseline_checksum (mx_hash mx)
            then Inl (mismatch_err ''baseline'' (row_version row) (row_checksum row) (baseline_checksum (mx_hash mx)))
            else Inr seen')
         else if head_version chain < row_version row then Inr seen'
         else case find (\<lambda>m. mg_version m = row_version row) chain of
           None \<Rightarrow> Inl (Internal (''schema_migrations has row for version '' @ show_int (row_version row) @
                '' but no matching chain entry (head_version='' @ show_int (head_version chain) @ '')'')
                ''libsql_migrations_checksum_mismatch'')
         | Some m \<Rightarrow>
             (let expected = migration_checksum (mx_hash mx) m ctx
              in if row_checksum row \<noteq> expected
                 then Inl (mismatch_err (mg_name m) (row_version row) (row_checksum row) expected)
                 else and_then (verify_payload mx row m ctx) (\<lambda>_. Inr seen')))"

definition verify_checksums ::
  "'d mig_ext \<Rightarrow> 'd database \<Rightarrow> 'd migration list \<Rightarrow> mig_context \<Rightarrow> int \<Rightarrow> error + unit" where
  "verify_checksums mx db chain ctx up_to =
     (let required_upper = min up_to (head_version chain)
      in and_then (try_fold (verify_row mx chain ctx) (list_rows_desc_above db (BASELINE_VERSION - 1)) {}) (\<lambda>seen.
           if BASELINE_VERSION \<notin> seen then Inl (missing_row_err BASELINE_VERSION ''baseline'')
           else case find (\<lambda>m. mg_version m \<le> required_upper \<and> mg_version m \<notin> seen) chain of
             Some m \<Rightarrow> Inl (missing_row_err (mg_version m) (mg_name m))
           | None \<Rightarrow> Inr ()))"

section \<open>Framing and checksums determine what they hash\<close>

lemma show_nat_digits: "\<forall>c \<in> set (show_nat n). is_ascii_digit c"
  by (induction n rule: show_nat.induct) (subst show_nat.simps, auto simp: is_ascii_digit_def)

lemma show_nat_nonempty: "show_nat n \<noteq> []"
  by (subst show_nat.simps) simp

lemma nul_not_digit: "\<not> is_ascii_digit (CHR 0x00)"
  by (simp add: is_ascii_digit_def)

lemma nul_not_in_show_nat: "CHR 0x00 \<notin> set (show_nat n)"
  using show_nat_digits nul_not_digit by blast

lemma split_at_sep:
  assumes "c \<notin> set a" "c \<notin> set b" "a @ c # x = b @ c # y"
  shows "a = b \<and> x = y"
  using assms by (induction a arbitrary: b) (auto simp: Cons_eq_append_conv)

lemma framed_append:
  "frame_statements us @ CHR 0x00 # x = frame_statements vs @ CHR 0x00 # y \<Longrightarrow> us = vs \<and> x = y"
proof (induction us arbitrary: vs)
  case Nil
  show ?case
  proof (cases vs)
    case (Cons v vs')
    with Nil have "CHR 0x00 \<in> set (show_nat (length v))"
      using show_nat_nonempty [of "length v"] by (cases "show_nat (length v)") (auto simp: frame_statements_def)
    then show ?thesis using nul_not_in_show_nat by blast
  qed (use Nil in \<open>simp add: frame_statements_def\<close>)
next
  case (Cons u us)
  show ?case
  proof (cases vs)
    case Nil
    with Cons.prems have "CHR 0x00 \<in> set (show_nat (length u))"
      using show_nat_nonempty [of "length u"] by (cases "show_nat (length u)") (auto simp: frame_statements_def)
    then show ?thesis using nul_not_in_show_nat by blast
  next
    case (Cons v vs')
    have "show_nat (length u) @ CHR 0x00 # (u @ frame_statements us @ CHR 0x00 # x) =
          show_nat (length v) @ CHR 0x00 # (v @ frame_statements vs' @ CHR 0x00 # y)"
      using Cons.prems unfolding Cons by (simp add: frame_statements_def)
    then have h: "show_nat (length u) = show_nat (length v)"
      and t: "u @ frame_statements us @ CHR 0x00 # x = v @ frame_statements vs' @ CHR 0x00 # y"
      using split_at_sep [OF nul_not_in_show_nat nul_not_in_show_nat] by blast+
    have "u = v" and "frame_statements us @ CHR 0x00 # x = frame_statements vs' @ CHR 0x00 # y"
      using h t by (auto simp: show_nat_inj)
    with Cons.IH show ?thesis unfolding Cons by blast
  qed
qed

lemma frame_statements_inject: "frame_statements us = frame_statements vs \<longleftrightarrow> us = vs"
  using framed_append [of us "[]" vs "[]"] by auto

lemma nul_not_in_show_int: "CHR 0x00 \<notin> set (show_int n)"
  using nul_not_in_show_nat by (simp add: show_int_def)

lemma show_int_inj: "show_int m = show_int n \<longleftrightarrow> m = n"
proof -
  have minus: "CHR ''-'' # x \<noteq> show_nat k" for x k
  proof -
    have "\<not> is_ascii_digit (CHR ''-'')" by (simp add: is_ascii_digit_def)
    then show ?thesis using show_nat_digits [of k] by (metis list.set_intros(1))
  qed
  show ?thesis using minus minus [symmetric] by (auto simp: show_int_def show_nat_inj)
qed

lemma checksum_input_determines:
  assumes "CHR 0x00 \<notin> set (mg_name m)" "CHR 0x00 \<notin> set (mg_name n)"
    and "mg_up m = UpSql f" "mg_up n = UpSql g"
    and "checksum_input m ctx = checksum_input n ctx'"
  shows "mg_version m = mg_version n \<and> mg_name m = mg_name n \<and> f ctx = g ctx' \<and>
         rendered_down ctx (mg_down m) = rendered_down ctx' (mg_down n)"
proof -
  let ?rest = "\<lambda>m ctx. rendered_up ctx (mg_up m) @ CHR 0x00 # rendered_down ctx (mg_down m)"
  have "show_int (mg_version m) @ CHR 0x00 # (mg_name m @ CHR 0x00 # ?rest m ctx) =
        show_int (mg_version n) @ CHR 0x00 # (mg_name n @ CHR 0x00 # ?rest n ctx')"
    using assms(5) by (simp add: checksum_input_def)
  then have v: "show_int (mg_version m) = show_int (mg_version n)"
    and r: "mg_name m @ CHR 0x00 # ?rest m ctx = mg_name n @ CHR 0x00 # ?rest n ctx'"
    using split_at_sep [OF nul_not_in_show_int nul_not_in_show_int] by blast+
  from split_at_sep [OF assms(1,2) r] have n: "mg_name m = mg_name n" and q: "?rest m ctx = ?rest n ctx'"
    by blast+
  from q have "f ctx = g ctx' \<and> rendered_down ctx (mg_down m) = rendered_down ctx' (mg_down n)"
    using framed_append by (simp add: assms(3,4) rendered_up_def)
  with v n show ?thesis by (simp add: show_int_inj)
qed

text \<open>A checksum determines what the migration does. Two SQL migrations whose names hold no NUL
  byte and whose checksums agree have the same version, the same name, the same list of up-statements
  with the same statement boundaries, and, when both are reversible, the same down-statements, unless
  their two inputs are a collision of the hash.\<close>

theorem checksum_determines_migration:
  assumes "CHR 0x00 \<notin> set (mg_name m)" "CHR 0x00 \<notin> set (mg_name n)"
    and "mg_up m = UpSql f" "mg_up n = UpSql g"
    and "inj_on h {checksum_input m ctx, checksum_input n ctx'}"
    and "migration_checksum h m ctx = migration_checksum h n ctx'"
  shows "mg_version m = mg_version n \<and> mg_name m = mg_name n \<and> f ctx = g ctx' \<and>
         (case (mg_down m, mg_down n) of
            (DownSql d, DownSql e) \<Rightarrow> d ctx = e ctx'
          | (DownUnsupported r, DownUnsupported r') \<Rightarrow> r = r'
          | _ \<Rightarrow> rendered_down ctx (mg_down m) = rendered_down ctx' (mg_down n))"
proof -
  have "checksum_input m ctx = checksum_input n ctx'"
    using assms(5) assms(6) [unfolded migration_checksum_def] by (rule inj_onD) simp_all
  from checksum_input_determines [OF assms(1-4) this] show ?thesis
    by (cases "mg_down m"; cases "mg_down n"; simp add: rendered_down_def frame_statements_inject)
qed

text \<open>An engine that keeps the statements not undone and rejects one of them, for concrete runs.\<close>

definition sample_mx :: "string list mig_ext" where
  "sample_mx = \<lparr>mx_hash = id, mx_execute = (\<lambda>stmt d. if stmt = ''BOOM'' then Inl ''syntax error''
       else if stmt = ''DROP TABLE a'' then Inr (tl d) else Inr (stmt # d)),
     mx_unique_err = ''unique'', mx_check_err = ''check'', mx_sqlite_failure = id, mx_triggers = (\<lambda>d. Inr []),
     mx_tables = (\<lambda>db. Inr [''schema_migrations'']), mx_embedding_type = (\<lambda>d. Inr (Some ''F32_BLOB(384)'')),
     mx_debug_sql = (\<lambda>_. []), mx_debug_str = (\<lambda>_. []), mx_now = ''2024-01-01T00:00:00Z''\<rparr>"

definition sample_ctx :: mig_context where
  "sample_ctx = \<lparr>mc_embedding_dim = 384, mc_encoding = Float32\<rparr>"

definition sample_db :: "string list database" where
  "sample_db = \<lparr>db_user_version = 4, db_rows = Some [baseline_row sample_mx], db_content = []\<rparr>"

definition sample_migration :: "string list \<Rightarrow> string list migration" where
  "sample_migration stmts = \<lparr>mg_version = 5, mg_name = ''add_a'', mg_summary = ''adds table a'',
     mg_up = UpSql (\<lambda>_. stmts), mg_down = DownSql (\<lambda>_. [''DROP TABLE a'']), mg_needs_reindex = False\<rparr>"

lemma checksum_determines_migration_witness:
  "let m = sample_migration [''A'', ''B'']; n = m\<lparr>mg_summary := ''reworded''\<rparr>;
       ctx = sample_ctx
   in migration_checksum id m ctx = migration_checksum id n ctx \<and> m \<noteq> n \<and> mg_version m = mg_version n \<and>
      mg_name m = mg_name n \<and> rendered_up ctx (mg_up m) = rendered_up ctx (mg_up n)"
  using checksum_determines_migration [of "sample_migration [''A'', ''B'']"
      "sample_migration [''A'', ''B'']\<lparr>mg_summary := ''reworded''\<rparr>"
      "\<lambda>_. [''A'', ''B'']" "\<lambda>_. [''A'', ''B'']" id sample_ctx sample_ctx]
  by (simp add: sample_migration_def migration_checksum_def checksum_input_def)

section \<open>What verification accepts\<close>

text \<open>The content of one row that this binary can check.\<close>

definition row_ok :: "'d mig_ext \<Rightarrow> 'd migration list \<Rightarrow> mig_context \<Rightarrow> migration_row \<Rightarrow> bool" where
  "row_ok mx chain ctx row \<longleftrightarrow>
     (if row_version row = BASELINE_VERSION then row_checksum row = baseline_checksum (mx_hash mx)
      else head_version chain < row_version row \<or>
        (case find (\<lambda>m. mg_version m = row_version row) chain of
           None \<Rightarrow> False
         | Some m \<Rightarrow>
             row_checksum row = migration_checksum (mx_hash mx) m ctx \<and> row_name row = mg_name m \<and>
             (case mg_down m of
                DownSql render \<Rightarrow> row_down_sql row = Some (render ctx)
              | DownUnsupported reason \<Rightarrow> row_down_unsupported_reason row = Some reason)))"

definition history_complete :: "'d migration list \<Rightarrow> int \<Rightarrow> migration_row list \<Rightarrow> bool" where
  "history_complete chain up_to rows \<longleftrightarrow>
     BASELINE_VERSION \<in> row_version ` set rows \<and>
     (\<forall>m \<in> set chain. mg_version m \<le> min up_to (head_version chain) \<longrightarrow> mg_version m \<in> row_version ` set rows)"

lemma verify_row_iff:
  "verify_row mx chain ctx row seen = Inr seen' \<longleftrightarrow> row_ok mx chain ctx row \<and> seen' = insert (row_version row) seen"
  by (auto simp: verify_row_def row_ok_def verify_payload_def Let_def and_then_eq_Inr
      split: option.splits down.splits if_splits)

lemma verify_rows_iff:
  "try_fold (verify_row mx chain ctx) rows seen = Inr seen' \<longleftrightarrow>
   (\<forall>r \<in> set rows. row_ok mx chain ctx r) \<and> seen' = seen \<union> row_version ` set rows"
proof (induction rows arbitrary: seen)
  case (Cons r rows)
  show ?case
  proof (cases "verify_row mx chain ctx r seen")
    case (Inl e)
    then have "\<not> row_ok mx chain ctx r"
      using verify_row_iff [of mx chain ctx r seen "insert (row_version r) seen"] by auto
    with Inl show ?thesis by simp
  next
    case (Inr s)
    then have "row_ok mx chain ctx r \<and> s = insert (row_version r) seen" by (simp add: verify_row_iff)
    with Inr Cons.IH show ?thesis by auto
  qed
qed auto

lemma set_list_rows_desc_above: "set (list_rows_desc_above db v) = {r \<in> set (rows_of db). v < row_version r}"
  by (auto simp: list_rows_desc_above_def)

lemma validate_from_versions:
  "validate_from i ms = Inr () \<Longrightarrow> j < length ms \<Longrightarrow> mg_version (ms ! j) = BASELINE_VERSION + 1 + int i + int j"
proof (induction ms arbitrary: i j)
  case (Cons m ms)
  then show ?case by (cases j) (auto simp: Let_def split: if_splits)
qed simp

lemma validate_chain_versions:
  "validate_chain chain = Inr () \<Longrightarrow> j < length chain \<Longrightarrow> mg_version (chain ! j) = BASELINE_VERSION + 1 + int j"
  using validate_from_versions [of 0 chain j] by (simp add: validate_chain_def)

lemma validate_chain_above:
  assumes "validate_chain chain = Inr ()" "m \<in> set chain"
  shows "BASELINE_VERSION < mg_version m \<and> mg_version m \<le> head_version chain"
proof -
  from assms(2) obtain j where "j < length chain" "m = chain ! j" by (auto simp: in_set_conv_nth)
  with validate_chain_versions [OF assms(1) this(1)] show ?thesis by (simp add: head_version_def)
qed

lemma verify_checksums_iff_run:
  assumes "validate_chain chain = Inr ()"
  shows "verify_checksums mx db chain ctx up_to = Inr () \<longleftrightarrow>
    (\<forall>r \<in> set (rows_of db). BASELINE_VERSION \<le> row_version r \<longrightarrow> row_ok mx chain ctx r) \<and>
    history_complete chain up_to (rows_of db)"
proof -
  let ?rows = "list_rows_desc_above db (BASELINE_VERSION - 1)"
  have rows: "set ?rows = {r \<in> set (rows_of db). BASELINE_VERSION \<le> row_version r}"
    by (auto simp: set_list_rows_desc_above)
  have seen: "v \<in> row_version ` set ?rows \<longleftrightarrow> v \<in> row_version ` set (rows_of db)" if "BASELINE_VERSION \<le> v" for v
    using that rows by auto
  have chain: "mg_version m \<in> row_version ` set ?rows \<longleftrightarrow> mg_version m \<in> row_version ` set (rows_of db)"
    if "m \<in> set chain" for m
    using validate_chain_above [OF assms that] by (intro seen) simp
  have none: "find (\<lambda>m. mg_version m \<le> u \<and> mg_version m \<notin> S) chain = None \<longleftrightarrow>
      (\<forall>m \<in> set chain. mg_version m \<le> u \<longrightarrow> mg_version m \<in> S)" for u S
    by (auto simp: find_None_iff)
  show ?thesis
  proof (cases "try_fold (verify_row mx chain ctx) ?rows {}")
    case (Inl e)
    then have "\<not> (\<forall>r \<in> set ?rows. row_ok mx chain ctx r)"
      using verify_rows_iff [of mx chain ctx ?rows "{}"] by auto
    with Inl rows show ?thesis by (auto simp: verify_checksums_def Let_def)
  next
    case (Inr S)
    then have ok: "\<forall>r \<in> set ?rows. row_ok mx chain ctx r" and S: "S = row_version ` set ?rows"
      by (simp_all add: verify_rows_iff)
    have "verify_checksums mx db chain ctx up_to = Inr () \<longleftrightarrow>
        BASELINE_VERSION \<in> S \<and> find (\<lambda>m. mg_version m \<le> min up_to (head_version chain) \<and> mg_version m \<notin> S) chain = None"
      using Inr by (simp add: verify_checksums_def Let_def split: option.split)
    also have "\<dots> \<longleftrightarrow> history_complete chain up_to (rows_of db)"
      unfolding history_complete_def S none using seen [of BASELINE_VERSION] chain by auto
    finally show ?thesis using ok rows by auto
  qed
qed

text \<open>verification accepts exactly the complete and unaltered histories. For a contiguous chain,
  \<open>verify_checksums\<close> succeeds if and only if every recorded row from the baseline up agrees with what
  the compiled chain renders (or belongs to a newer binary), and the baseline and every migration up
  to the bound have a row; the order of the rows never matters.\<close>

theorem verify_checksums_iff:
  assumes "validate_chain chain = Inr ()"
  shows "verify_checksums mx db chain ctx up_to = Inr () \<longleftrightarrow>
    (\<forall>r \<in> set (rows_of db). BASELINE_VERSION \<le> row_version r \<longrightarrow> row_ok mx chain ctx r) \<and>
    history_complete chain up_to (rows_of db)"
  using assms by (rule verify_checksums_iff_run)

lemma sample_verified:
  assumes "validate_chain chain = Inr ()"
  shows "verify_checksums sample_mx sample_db chain ctx BASELINE_VERSION = Inr ()"
proof -
  have "\<not> mg_version m \<le> BASELINE_VERSION" if "m \<in> set chain" for m
    using validate_chain_above [OF assms that] by simp
  then show ?thesis
    by (auto simp: verify_checksums_iff_run [OF assms] sample_db_def rows_of_def baseline_row_def row_ok_def
        history_complete_def)
qed

lemma validate_migrations: "validate_chain migrations = Inr ()"
  by (simp add: validate_chain_def migrations_def Let_def)

lemma verify_checksums_iff_witness:
  "validate_chain (migrations :: string list migration list) = Inr () \<and>
   verify_checksums sample_mx sample_db migrations sample_ctx BASELINE_VERSION = Inr () \<and>
   history_complete (migrations :: string list migration list) BASELINE_VERSION (rows_of sample_db)"
  using verify_checksums_iff [OF validate_migrations, of sample_mx sample_db sample_ctx BASELINE_VERSION]
    validate_migrations sample_verified [OF validate_migrations] by simp

end
