(* ===== verification/StoreErrors.thy ===== *)
theory StoreErrors
  imports Errors
begin

text \<open>
  What the libsql backend makes of an error of SQLite (\<open>map_libsql_err\<close> of
  \<open>store-libsql/src/connection.rs\<close>): it looks for words in the text of the error.
\<close>

fun str_contains :: "string \<Rightarrow> string \<Rightarrow> bool" where
  "str_contains pat [] = (pat = [])"
| "str_contains pat (c # cs) = (take (length pat) (c # cs) = pat \<or> str_contains pat cs)"

definition map_libsql_err :: "string \<Rightarrow> error" where
  "map_libsql_err msg =
     (if str_contains ''database is locked'' msg \<or> str_contains ''SQLITE_BUSY'' msg then RuntimeStateLocked
      else Internal (''unified DB error: '' @ msg) ''libsql_db'')"

end
