(* ===== verification/MigrationRunner.thy ===== *)
theory MigrationRunner
  imports Migrations StoreErrors
begin

text \<open>
  Running the migrations (\<open>runner.rs\<close>, \<open>migrate.rs\<close>, \<open>downgrade.rs\<close> and the dispatch of
  \<open>LibsqlDb::open\<close> in \<open>connection.rs\<close>, all under \<open>store-libsql/src\<close>). Every operation takes the database and
  returns it, changed or not, with its result; a transaction that fails gives back the database it
  began with. The statements that only touch the bookkeeping table outside a transaction are taken
  to succeed; \<open>BEGIN\<close>, \<open>COMMIT\<close> and every other statement may fail.
\<close>

datatype migration_progress_event =
    MigrationStarted nat
  | Initializing
  | RebuildingLegacy
  | ApplyingStep nat nat int string
  | MigrationFinished

record applied_step =
  step_version :: int
  step_name :: string

text \<open>\<open>BEGIN IMMEDIATE\<close> and \<open>COMMIT\<close>: \<open>Some\<close> is the engine's error.\<close>

record tx_ext =
  tx_begin :: "string option"
  tx_commit :: "string option"

section \<open>Transactions\<close>

definition transact ::
  "(error \<Rightarrow> 'e) \<Rightarrow> tx_ext \<Rightarrow> ('d database \<Rightarrow> 'e + 'd database) \<Rightarrow> 'd database \<Rightarrow> 'd database \<times> ('e + unit)" where
  "transact wrap tx body db =
     (case tx_begin tx of
        Some e \<Rightarrow> (db, Inl (wrap (map_libsql_err e)))
      | None \<Rightarrow>
          (case body db of
             Inl e \<Rightarrow> (db, Inl e)
           | Inr db' \<Rightarrow>
               (case tx_commit tx of
                  Some e \<Rightarrow> (db, Inl (wrap (map_libsql_err e)))
                | None \<Rightarrow> (db', Inr ()))))"

text \<open>
  \<open>wrap\<close> places the engine's error in the caller's kind of failure. An error or a panic of the body
  rolls back.
\<close>

text \<open>Statements one after another: inside a transaction, and outside (what ran stays).\<close>

definition exec_all :: "'d mig_ext \<Rightarrow> string list \<Rightarrow> 'd database \<Rightarrow> string + 'd database" where
  "exec_all mx stmts db =
     (case try_fold (mx_execute mx) stmts (db_content db) of
        Inl e \<Rightarrow> Inl e
      | Inr d \<Rightarrow> Inr (db\<lparr>db_content := d\<rparr>))"

fun exec_autocommit :: "'d mig_ext \<Rightarrow> string list \<Rightarrow> 'd database \<Rightarrow> 'd database \<times> (string + unit)" where
  "exec_autocommit mx [] db = (db, Inr ())"
| "exec_autocommit mx (stmt # stmts) db =
     (case mx_execute mx stmt (db_content db) of
        Inl e \<Rightarrow> (db, Inl e)
      | Inr d \<Rightarrow> exec_autocommit mx stmts (db\<lparr>db_content := d\<rparr>))"

section \<open>Applying pending migrations\<close>

definition render_down :: "'d migration \<Rightarrow> mig_context \<Rightarrow> string list option \<times> string option" where
  "render_down m ctx =
     (case mg_down m of
        DownSql render \<Rightarrow> (Some (render ctx), None)
      | DownUnsupported reason \<Rightarrow> (None, Some reason))"

definition row_for :: "'d mig_ext \<Rightarrow> mig_context \<Rightarrow> 'd migration \<Rightarrow> migration_row" where
  "row_for mx ctx m =
     (case render_down m ctx of (down_sql, down_unsupported_reason) \<Rightarrow>
        \<lparr>row_version = mg_version m, row_name = mg_name m, row_applied_at = mx_now mx,
         row_down_sql = down_sql, row_down_unsupported_reason = down_unsupported_reason,
         row_checksum = migration_checksum (mx_hash mx) m ctx\<rparr>)"

definition run_up :: "'d mig_ext \<Rightarrow> mig_context \<Rightarrow> 'd up \<Rightarrow> 'd database \<Rightarrow> string + 'd database" where
  "run_up mx ctx u db =
     (case u of
        UpSql render \<Rightarrow> exec_all mx (render ctx) db
      | UpRust step repr \<Rightarrow>
          (case step ctx (db_content db) of Inl e \<Rightarrow> Inl e | Inr d \<Rightarrow> Inr (db\<lparr>db_content := d\<rparr>)))"

definition apply_one :: "'d mig_ext \<Rightarrow> mig_context \<Rightarrow> 'd migration \<Rightarrow> 'd database \<Rightarrow> string + 'd database" where
  "apply_one mx ctx m db =
     and_then (run_up mx ctx (mg_up m) db) (\<lambda>db.
     and_then (insert_row mx (row_for mx ctx m) db) (\<lambda>db.
     Inr (db\<lparr>db_user_version := mg_version m\<rparr>)))"

definition apply_step :: "'d mig_ext \<Rightarrow> mig_context \<Rightarrow> 'd migration \<Rightarrow> 'd database \<Rightarrow> error + 'd database" where
  "apply_step mx ctx m db =
     (case apply_one mx ctx m db of
        Inl e \<Rightarrow> Inl (Internal (''migration '' @ quoted (mg_name m) @ '' (version '' @ show_int (mg_version m) @
                   '') failed and was rolled back: '' @ e) ''libsql_migrations_apply_failed'')
      | Inr db' \<Rightarrow> Inr db')"

text \<open>The loop over the pending migrations; \<open>txs\<close> says how each step's \<open>BEGIN\<close> and \<open>COMMIT\<close> end.\<close>

fun apply_steps :: "'d mig_ext \<Rightarrow> mig_context \<Rightarrow> (nat \<Rightarrow> tx_ext) \<Rightarrow> nat \<Rightarrow> nat \<Rightarrow> 'd migration list \<Rightarrow> 'd database \<Rightarrow>
    'd database \<times> migration_progress_event list \<times> (error + applied_step list)" where
  "apply_steps mx ctx txs n_total i [] db = (db, [], Inr [])"
| "apply_steps mx ctx txs n_total i (m # ms) db =
     (let event = ApplyingStep (i + 1) n_total (mg_version m) (mg_name m)
      in case transact id (txs i) (apply_step mx ctx m) db of
           (db', Inl e) \<Rightarrow> (db', [event], Inl e)
         | (db', Inr _) \<Rightarrow>
             (case apply_steps mx ctx txs n_total (i + 1) ms db' of
                (db'', events, Inl e) \<Rightarrow> (db'', event # events, Inl e)
              | (db'', events, Inr steps) \<Rightarrow>
                  (db'', event # events, Inr (\<lparr>step_version = mg_version m, step_name = mg_name m\<rparr> # steps))))"

definition apply_pending :: "'d mig_ext \<Rightarrow> (nat \<Rightarrow> tx_ext) \<Rightarrow> 'd migration list \<Rightarrow> mig_context \<Rightarrow> 'd database \<Rightarrow>
    'd database \<times> migration_progress_event list \<times> (error + applied_step list)" where
  "apply_pending mx txs chain ctx db =
     (case validate_chain chain of
        Inl e \<Rightarrow> (db, [], Inl e)
      | Inr _ \<Rightarrow>
          (let db = ensure_baseline_row mx (ensure_table db); current = db_user_version db
           in if current < BASELINE_VERSION
              then (db, [], Inl (Internal (''migration runner invoked on a database at schema version '' @ show_int current @
                     '', which is below the frozen baseline version '' @ show_int BASELINE_VERSION @
                     ''; a legacy upgrade must bring it to baseline before the migration chain can run'')
                     ''libsql_migrations_below_baseline''))
              else let pending = filter (\<lambda>m. current < mg_version m) chain
                in case apply_steps mx ctx txs (length pending) 0 pending db of
                     (db', events, r) \<Rightarrow> (db', MigrationStarted (length pending) # events, r)))"

section \<open>Seeding a database created at head\<close>

definition seed_one :: "'d mig_ext \<Rightarrow> mig_context \<Rightarrow> 'd migration \<Rightarrow> 'd database \<Rightarrow> string + 'd database" where
  "seed_one mx ctx m db =
     (case find_row db (mg_version m) of
        Some existing \<Rightarrow>
          (if row_checksum existing = migration_checksum (mx_hash mx) m ctx then Inr db
           else Inl (mx_sqlite_failure mx (''schema_migrations already has a row for version '' @ show_int (mg_version m) @
                  '' ('' @ quoted (row_name existing) @ '') that doesn'' @ [CHR 0x27] @ ''t match migration '' @
                  quoted (mg_name m) @ '' being seeded (checksum '' @ row_checksum existing @ '' != '' @
                  migration_checksum (mx_hash mx) m ctx @
                  ''); this is not the benign concurrent-fresh-create race seeding tolerates, refusing to overwrite it'')))
      | None \<Rightarrow> insert_row mx (row_for mx ctx m) db)"

definition seed_all_and_stamp :: "'d mig_ext \<Rightarrow> mig_context \<Rightarrow> 'd migration list \<Rightarrow> 'd database \<Rightarrow> string + 'd database" where
  "seed_all_and_stamp mx ctx chain db =
     and_then (try_fold (seed_one mx ctx) chain db) (\<lambda>db. Inr (db\<lparr>db_user_version := head_version chain\<rparr>))"

definition seed_for_fresh_create :: "'d mig_ext \<Rightarrow> tx_ext \<Rightarrow> 'd migration list \<Rightarrow> mig_context \<Rightarrow> 'd database \<Rightarrow>
    'd database \<times> (error + unit)" where
  "seed_for_fresh_create mx tx chain ctx db =
     (case validate_chain chain of
        Inl e \<Rightarrow> (db, Inl e)
      | Inr _ \<Rightarrow>
          transact id tx (\<lambda>db. case seed_all_and_stamp mx ctx chain db of
               Inl e \<Rightarrow> Inl (Internal (''seeding schema_migrations for fresh create failed: '' @ e) ''libsql_migrations_seed_failed'')
             | Inr db' \<Rightarrow> Inr db')
            (ensure_baseline_row mx (ensure_table db)))"

section \<open>A step of the runner\<close>

lemma transact_cases:
  obtains (kept) e where "transact wrap tx body db = (db, Inl e)"
    | (committed) db' where "body db = Inr db'" "transact wrap tx body db = (db', Inr ())"
proof (cases "tx_begin tx")
  case (Some e)
  then show ?thesis by (intro kept) (simp add: transact_def)
next
  case None
  then show ?thesis by (cases "body db"; cases "tx_commit tx") (auto simp: transact_def intro: kept committed)
qed

lemma exec_all_Inr:
  "exec_all mx stmts db = Inr db' \<longleftrightarrow>
   (\<exists>d. try_fold (mx_execute mx) stmts (db_content db) = Inr d \<and> db' = db\<lparr>db_content := d\<rparr>)"
  by (auto simp: exec_all_def split: sum.splits)

lemma run_up_Inr: "run_up mx ctx u db = Inr db' \<Longrightarrow> \<exists>d. db' = db\<lparr>db_content := d\<rparr>"
  by (auto simp: run_up_def exec_all_Inr split: up.splits sum.splits)

lemma row_for_fields:
  "row_version (row_for mx ctx m) = mg_version m" "row_name (row_for mx ctx m) = mg_name m"
  "row_checksum (row_for mx ctx m) = migration_checksum (mx_hash mx) m ctx"
  "row_down_sql (row_for mx ctx m) = fst (render_down m ctx)"
  "row_down_unsupported_reason (row_for mx ctx m) = snd (render_down m ctx)"
  by (simp_all add: row_for_def split: prod.split)

lemma insert_row_Inr:
  "insert_row mx row db = Inr db' \<Longrightarrow>
   row_version row \<notin> row_version ` set (rows_of db) \<and> db' = db\<lparr>db_rows := Some (rows_of db @ [row])\<rparr>"
  by (simp add: insert_row_def split: if_splits)

lemma apply_one_Inr:
  assumes "apply_one mx ctx m db = Inr db'"
  obtains d where "run_up mx ctx (mg_up m) db = Inr (db\<lparr>db_content := d\<rparr>)"
    and "mg_version m \<notin> row_version ` set (rows_of db)"
    and "db' = \<lparr>db_user_version = mg_version m, db_rows = Some (rows_of db @ [row_for mx ctx m]), db_content = d\<rparr>"
proof -
  from assms obtain db1 db2 where 1: "run_up mx ctx (mg_up m) db = Inr db1"
    and 2: "insert_row mx (row_for mx ctx m) db1 = Inr db2" and 3: "db' = db2\<lparr>db_user_version := mg_version m\<rparr>"
    by (auto simp: apply_one_def and_then_eq_Inr)
  from run_up_Inr [OF 1] obtain d where d: "db1 = db\<lparr>db_content := d\<rparr>" by blast
  have rows: "rows_of (db\<lparr>db_content := d\<rparr>) = rows_of db" by (simp add: rows_of_def)
  show thesis
    using that [of d] insert_row_Inr [OF 2] 1 3 unfolding d by (simp add: rows row_for_fields)
qed

lemma find_in_chain:
  assumes "validate_chain chain = Inr ()" "m \<in> set chain"
  shows "find (\<lambda>x. mg_version x = mg_version m) chain = Some m"
proof -
  from assms(2) obtain j where j: "j < length chain" "m = chain ! j" by (auto simp: in_set_conv_nth)
  have "mg_version (chain ! i) \<noteq> mg_version m" if "i < j" for i
    using validate_chain_versions [OF assms(1)] that j by simp
  with j show ?thesis by (auto simp: find_Some_iff intro!: exI [of _ j])
qed

lemma row_for_ok:
  assumes "validate_chain chain = Inr ()" "m \<in> set chain"
  shows "row_ok mx chain ctx (row_for mx ctx m)"
  using validate_chain_above [OF assms] find_in_chain [OF assms]
  by (simp add: row_ok_def row_for_fields render_down_def split: down.split)

abbreviation verified :: "'d mig_ext \<Rightarrow> 'd migration list \<Rightarrow> mig_context \<Rightarrow> 'd database \<Rightarrow> bool" where
  "verified mx chain ctx db \<equiv> verify_checksums mx db chain ctx (db_user_version db) = Inr ()"

lemma apply_one_verified:
  assumes "validate_chain chain = Inr ()" "m \<in> set chain" "mg_version m = db_user_version db + 1"
    and "verified mx chain ctx db" and "apply_one mx ctx m db = Inr db'"
  shows "verified mx chain ctx db' \<and> db_user_version db' = db_user_version db + 1"
proof -
  from apply_one_Inr [OF assms(5)] obtain d where db':
    "db' = \<lparr>db_user_version = mg_version m, db_rows = Some (rows_of db @ [row_for mx ctx m]), db_content = d\<rparr>" by metis
  have rows: "rows_of db' = rows_of db @ [row_for mx ctx m]" by (simp add: db' rows_of_def)
  from assms(4) have ok: "\<forall>r \<in> set (rows_of db). BASELINE_VERSION \<le> row_version r \<longrightarrow> row_ok mx chain ctx r"
    and c: "history_complete chain (db_user_version db) (rows_of db)"
    by (simp_all add: verify_checksums_iff_run [OF assms(1)])
  have "history_complete chain (mg_version m) (rows_of db')"
    unfolding history_complete_def
  proof (intro conjI ballI impI)
    show "BASELINE_VERSION \<in> row_version ` set (rows_of db')" using c by (auto simp: rows history_complete_def)
    fix x assume x: "x \<in> set chain" "mg_version x \<le> min (mg_version m) (head_version chain)"
    then consider "mg_version x = mg_version m" | "mg_version x \<le> min (db_user_version db) (head_version chain)"
      using assms(3) by linarith
    then show "mg_version x \<in> row_version ` set (rows_of db')"
    proof cases
      case 2
      with c x(1) show ?thesis by (auto simp: rows history_complete_def)
    qed (simp add: rows row_for_fields)
  qed
  moreover have "\<forall>r \<in> set (rows_of db'). BASELINE_VERSION \<le> row_version r \<longrightarrow> row_ok mx chain ctx r"
    using ok row_for_ok [OF assms(1,2)] by (auto simp: rows)
  ultimately show ?thesis
    by (simp add: verify_checksums_iff_run [OF assms(1)] db' assms(3))
qed

section \<open>A run of the runner\<close>

abbreviation step_of :: "'d migration \<Rightarrow> applied_step" where
  "step_of m \<equiv> \<lparr>step_version = mg_version m, step_name = mg_name m\<rparr>"

lemma pending_is_drop:
  assumes "validate_chain chain = Inr ()"
  shows "filter (\<lambda>m. BASELINE_VERSION + int k < mg_version m) chain = drop k chain"
proof -
  have below: "\<not> BASELINE_VERSION + int k < mg_version m" if "m \<in> set (take k chain)" for m
    using that validate_chain_versions [OF assms] by (auto simp: in_set_conv_nth)
  have above: "BASELINE_VERSION + int k < mg_version m" if m: "m \<in> set (drop k chain)" for m
  proof -
    from m obtain j where "j < length chain - k" "m = chain ! (k + j)" by (auto simp: in_set_conv_nth)
    then show ?thesis using validate_chain_versions [OF assms, of "k + j"] by simp
  qed
  have "filter (\<lambda>m. BASELINE_VERSION + int k < mg_version m) (take k chain @ drop k chain) = drop k chain"
    unfolding filter_append using below above by (simp add: filter_id_conv filter_empty_conv)
  then show ?thesis by simp
qed

lemma apply_steps_run:
  assumes "validate_chain chain = Inr ()"
  shows "ms = drop k chain \<Longrightarrow> db_user_version db = BASELINE_VERSION + int k \<Longrightarrow> verified mx chain ctx db \<Longrightarrow>
    apply_steps mx ctx txs n i ms db = (db', events, r) \<Longrightarrow>
    \<exists>j \<le> length ms. try_fold (apply_one mx ctx) (take j ms) db = Inr db' \<and>
      db_user_version db' = db_user_version db + int j \<and> verified mx chain ctx db' \<and>
      (\<forall>steps. r = Inr steps \<longrightarrow> j = length ms \<and> steps = map step_of ms)"
proof (induction ms arbitrary: k i db db' events r)
  case (Cons m ms)
  have k: "k < length chain" using Cons.prems(1) by (metis drop_eq_Nil list.distinct(1) not_less)
  have m: "m = chain ! k" and ms: "ms = drop (Suc k) chain"
    using Cons.prems(1) Cons_nth_drop_Suc [OF k] by (metis list.inject)+
  have inchain: "m \<in> set chain" and ver: "mg_version m = db_user_version db + 1"
    using k m validate_chain_versions [OF assms k] Cons.prems(2) by simp_all
  show ?case
  proof (cases rule: transact_cases [where wrap = id and tx = "txs i" and body = "apply_step mx ctx m" and db = db])
    case (kept e)
    with Cons.prems(4) have "db' = db" "r = Inl e" by (auto simp: Let_def)
    with Cons.prems(3) show ?thesis by (intro exI [of _ 0]) simp
  next
    case (committed db1)
    then have one: "apply_one mx ctx m db = Inr db1" by (simp add: apply_step_def split: sum.splits)
    have v1: "verified mx chain ctx db1" and u1: "db_user_version db1 = db_user_version db + 1"
      using apply_one_verified [OF assms inchain ver Cons.prems(3) one] by blast+
    obtain db2 ev2 r2 where rest: "apply_steps mx ctx txs n (i + 1) ms db1 = (db2, ev2, r2)"
      by (metis prod_cases3)
    have "db_user_version db1 = BASELINE_VERSION + int (Suc k)" using u1 Cons.prems(2) by simp
    from Cons.IH [OF ms this v1 rest] obtain j where j: "j \<le> length ms"
      "try_fold (apply_one mx ctx) (take j ms) db1 = Inr db2"
      "db_user_version db2 = db_user_version db1 + int j" "verified mx chain ctx db2"
      "\<forall>steps. r2 = Inr steps \<longrightarrow> j = length ms \<and> steps = map step_of ms" by blast
    have res: "db' = db2" "\<forall>steps. r = Inr steps \<longrightarrow> (\<exists>t. r2 = Inr t \<and> steps = step_of m # t)"
      using Cons.prems(4) committed(2) rest by (auto simp: Let_def split: sum.splits)
    show ?thesis
    proof (intro exI [of _ "Suc j"] conjI)
      show "try_fold (apply_one mx ctx) (take (Suc j) (m # ms)) db = Inr db'" using one j(2) res(1) by simp
      show "\<forall>steps. r = Inr steps \<longrightarrow> Suc j = length (m # ms) \<and> steps = map step_of (m # ms)"
        using j(5) res(2) by auto
    qed (use j u1 res(1) in simp_all)
  qed
qed auto

lemma verified_bookkeeping:
  assumes "validate_chain chain = Inr ()" "verify_checksums mx db chain ctx v = Inr ()"
  shows "ensure_baseline_row mx (ensure_table db) = db"
proof -
  have b: "BASELINE_VERSION \<in> row_version ` set (rows_of db)"
    using assms by (simp add: verify_checksums_iff_run history_complete_def)
  then have "ensure_table db = db" by (auto simp: ensure_table_def rows_of_def split: option.splits)
  with b show ?thesis by (simp add: ensure_baseline_row_def)
qed

lemma apply_pending_run:
  assumes "verified mx chain ctx db" and "BASELINE_VERSION \<le> db_user_version db" "db_user_version db \<le> head_version chain"
    and "apply_pending mx txs chain ctx db = (db', events, r)"
  shows "let pending = filter (\<lambda>m. db_user_version db < mg_version m) chain
    in \<exists>j \<le> length pending. try_fold (apply_one mx ctx) (take j pending) db = Inr db' \<and>
      db_user_version db' = db_user_version db + int j \<and> verified mx chain ctx db' \<and>
      (\<forall>steps. r = Inr steps \<longrightarrow> db_user_version db' = head_version chain \<and> j = length pending \<and> steps = map step_of pending)"
proof (cases "validate_chain chain")
  case (Inl e)
  then have "db' = db" "r = Inl e" using assms(4) by (auto simp: apply_pending_def)
  with assms(1) show ?thesis unfolding Let_def by (intro exI [of _ 0]) simp
next
  case (Inr u)
  then have valid: "validate_chain chain = Inr ()" by simp
  obtain k where k: "db_user_version db = BASELINE_VERSION + int k"
    using assms(2) by (metis zle_iff_zadd)
  have klen: "k \<le> length chain" using k assms(3) by (simp add: head_version_def)
  have pend: "filter (\<lambda>m. db_user_version db < mg_version m) chain = drop k chain"
    using pending_is_drop [OF valid] k by simp
  obtain ev where run: "apply_steps mx ctx txs (length (drop k chain)) 0 (drop k chain) db = (db', ev, r)"
    using assms(2,4) verified_bookkeeping [OF valid assms(1)] pend
    by (auto simp: apply_pending_def valid Let_def split: prod.splits)
  from apply_steps_run [OF valid refl k assms(1) run] show ?thesis
    unfolding pend Let_def using k klen by (auto simp: head_version_def)
qed

text \<open>C34: a run of the migrations never leaves a database in between. Started on a verified history at a
  version between the baseline and the head, \<open>apply_pending\<close> ends, whatever fails, in the database that
  some number of whole pending migrations, applied in order, produce; its version is advanced by
  exactly that number and its history is again verified. When it reports success every pending
  migration was applied, the version is the head, and the report lists the steps in order.\<close>

theorem apply_pending_whole_steps:
  assumes "verify_checksums mx db chain ctx (db_user_version db) = Inr ()"
    and "BASELINE_VERSION \<le> db_user_version db" "db_user_version db \<le> head_version chain"
    and "apply_pending mx txs chain ctx db = (db', events, r)"
  shows "let pending = filter (\<lambda>m. db_user_version db < mg_version m) chain
    in \<exists>j \<le> length pending. try_fold (apply_one mx ctx) (take j pending) db = Inr db' \<and>
      db_user_version db' = db_user_version db + int j \<and>
      verify_checksums mx db' chain ctx (db_user_version db') = Inr () \<and>
      (\<forall>steps. r = Inr steps \<longrightarrow>
        db_user_version db' = head_version chain \<and> j = length pending \<and>
        steps = map (\<lambda>m. \<lparr>step_version = mg_version m, step_name = mg_name m\<rparr>) pending)"
  using assms by (rule apply_pending_run)

lemma apply_pending_whole_steps_witness:
  "\<exists>db' events r. apply_pending sample_mx (\<lambda>_. \<lparr>tx_begin = None, tx_commit = None\<rparr>) migrations sample_ctx sample_db =
     (db', events, r) \<and> 4 \<le> db_user_version db' \<and> db_user_version db' \<le> 8 \<and>
     verify_checksums sample_mx db' migrations sample_ctx (db_user_version db') = Inr ()"
proof -
  let ?txs = "\<lambda>_. \<lparr>tx_begin = None, tx_commit = None\<rparr>"
  obtain db' events r where run: "apply_pending sample_mx ?txs migrations sample_ctx sample_db = (db', events, r)"
    by (metis prod_cases3)
  have v: "verify_checksums sample_mx sample_db migrations sample_ctx (db_user_version sample_db) = Inr ()"
    using sample_verified [OF validate_migrations] by (simp add: sample_db_def BASELINE_VERSION_def)
  have b: "BASELINE_VERSION \<le> db_user_version sample_db" and h: "db_user_version sample_db \<le> head_version migrations"
    by (simp_all add: sample_db_def BASELINE_VERSION_def head_version_def)
  have "length (filter (\<lambda>m. db_user_version sample_db < mg_version m) (migrations :: string list migration list)) = 4"
    by (simp add: migrations_def sample_db_def BASELINE_VERSION_def)
  with apply_pending_whole_steps [OF v b h run] run show ?thesis
    unfolding Let_def by (auto simp: sample_db_def)
qed

end
