(* ===== verification/MigrateStore.thy ===== *)
theory MigrateStore
  imports MigrationRunner
begin

text \<open>
  The two callers of the migration machinery: \<open>migrate_store_with_chain\<close>
  (\<open>store-libsql/src/migrations/migrate.rs\<close>) and the version dispatch of \<open>LibsqlDb::open\<close>
  (\<open>store-libsql/src/connection.rs\<close>), with \<open>create_schema\<close> and \<open>drop_all_tables\<close> of
  \<open>store-libsql/src/schema.rs\<close>, which run outside a transaction. The file, its directory, the
  connection pragmas and the reader pool are not modelled.
\<close>

section \<open>Schema operations\<close>

definition create_schema :: "'d mig_ext \<Rightarrow> nat \<Rightarrow> vector_encoding \<Rightarrow> 'd database \<Rightarrow> 'd database \<times> (string + unit)" where
  "create_schema mx embedding_dim encoding = exec_autocommit mx (create_schema_sql embedding_dim encoding)"

text \<open>Dropping \<open>schema_migrations\<close> drops the bookkeeping; any other name is content.\<close>

fun drop_each :: "'d mig_ext \<Rightarrow> string list \<Rightarrow> 'd database \<Rightarrow> 'd database \<times> (string + unit)" where
  "drop_each mx [] db = (db, Inr ())"
| "drop_each mx (name # names) db =
     (if name = ''schema_migrations'' then drop_each mx names (db\<lparr>db_rows := None\<rparr>)
      else case mx_execute mx (''DROP TABLE IF EXISTS '' @ [CHR 0x22] @ name @ [CHR 0x22]) (db_content db) of
             Inl e \<Rightarrow> (db, Inl e)
           | Inr d \<Rightarrow> drop_each mx names (db\<lparr>db_content := d\<rparr>))"

definition then_auto ::
  "'d database \<times> (string + unit) \<Rightarrow> ('d database \<Rightarrow> 'd database \<times> (string + unit)) \<Rightarrow> 'd database \<times> (string + unit)" where
  "then_auto r f = (case r of (db, Inl e) \<Rightarrow> (db, Inl e) | (db, Inr _) \<Rightarrow> f db)"

definition drop_all_tables :: "'d mig_ext \<Rightarrow> 'd database \<Rightarrow> 'd database \<times> (string + unit)" where
  "drop_all_tables mx db =
     (case mx_triggers mx (db_content db) of
        Inl e \<Rightarrow> (db, Inl e)
      | Inr triggers \<Rightarrow>
          then_auto (exec_autocommit mx
              (map (\<lambda>name. ''DROP TRIGGER IF EXISTS '' @ [CHR 0x22] @ name @ [CHR 0x22]) triggers) db) (\<lambda>db.
          case mx_tables mx db of
            Inl e \<Rightarrow> (db, Inl e)
          | Inr tables \<Rightarrow>
              then_auto (exec_autocommit mx [''PRAGMA foreign_keys = OFF''] db) (\<lambda>db.
              then_auto (drop_each mx tables db) (\<lambda>db.
              then_auto (exec_autocommit mx [''PRAGMA foreign_keys = ON''] db) (\<lambda>db.
              (db\<lparr>db_user_version := 0\<rparr>, Inr ()))))))"

definition eq_ignore_ascii_case :: "string \<Rightarrow> string \<Rightarrow> bool" where
  "eq_ignore_ascii_case a b = (map to_ascii_lower a = map to_ascii_lower b)"

definition validate_embedding_column :: "'d mig_ext \<Rightarrow> 'd database \<Rightarrow> nat \<Rightarrow> vector_encoding \<Rightarrow> error + unit" where
  "validate_embedding_column mx db embedding_dim encoding =
     (let expected = embedding_column_type embedding_dim encoding
      in case mx_embedding_type mx (db_content db) of
           Inl e \<Rightarrow> Inl (map_libsql_err e)
         | Inr None \<Rightarrow> Inl (Internal ''chunks.embedding column missing after schema creation; database is corrupt''
               ''libsql_db_missing_embedding_col'')
         | Inr (Some actual) \<Rightarrow>
             if \<not> eq_ignore_ascii_case actual expected
             then Inl (InvalidConfig (''embedding schema mismatch: expected '' @ expected @ '', found '' @ actual @
                    ''. Re-create the database to change embedding model/encoding.''))
             else Inr ())"

definition post_check :: "'d mig_ext \<Rightarrow> 'd database \<Rightarrow> 'd migration list \<Rightarrow> mig_context \<Rightarrow> error + unit" where
  "post_check mx db chain ctx =
     and_then (validate_chain chain) (\<lambda>_. verify_checksums mx db chain ctx (head_version chain))"

section \<open>Migrating a store\<close>

record migrate_report =
  mr_from_version :: int
  mr_to_version :: int
  mr_applied :: "applied_step list"
  mr_legacy_rebuilt :: bool
  mr_staleness_marked :: bool

text \<open>Seeding and the check after it, shared by the paths that create the schema.\<close>

definition seed_and_check :: "'d mig_ext \<Rightarrow> tx_ext \<Rightarrow> 'd migration list \<Rightarrow> mig_context \<Rightarrow> 'd database \<Rightarrow>
    'd database \<times> (error + unit)" where
  "seed_and_check mx tx chain ctx db =
     (case seed_for_fresh_create mx tx chain ctx db of
        (db', Inl e) \<Rightarrow> (db', Inl e)
      | (db', Inr _) \<Rightarrow> (db', post_check mx db' chain ctx))"

definition migrate_fresh :: "'d mig_ext \<Rightarrow> tx_ext \<Rightarrow> mig_context \<Rightarrow> 'd migration list \<Rightarrow> 'd database \<Rightarrow>
    'd database \<times> (error + unit)" where
  "migrate_fresh mx tx ctx chain db =
     (case create_schema mx (mc_embedding_dim ctx) (mc_encoding ctx) db of
        (db', Inl e) \<Rightarrow> (db', Inl (Internal (''create_schema during migrate (fresh store): '' @ e) ''libsql_migrate_fresh_create''))
      | (db', Inr _) \<Rightarrow>
          (case validate_embedding_column mx db' (mc_embedding_dim ctx) (mc_encoding ctx) of
             Inl e \<Rightarrow> (db', Inl e)
           | Inr _ \<Rightarrow> seed_and_check mx tx chain ctx db'))"

definition migrate_legacy :: "'d mig_ext \<Rightarrow> tx_ext \<Rightarrow> mig_context \<Rightarrow> 'd migration list \<Rightarrow> 'd database \<Rightarrow>
    'd database \<times> (error + unit)" where
  "migrate_legacy mx tx ctx chain db =
     (case drop_all_tables mx db of
        (db', Inl e) \<Rightarrow> (db', Inl (map_libsql_err e))
      | (db', Inr _) \<Rightarrow>
          (case create_schema mx (mc_embedding_dim ctx) (mc_encoding ctx) db' of
             (db'', Inl e) \<Rightarrow> (db'', Inl (Internal (''create_schema during legacy rebuild: '' @ e) ''libsql_migrate_legacy_rebuild''))
           | (db'', Inr _) \<Rightarrow> seed_and_check mx tx chain ctx db''))"

definition staleness :: "'d migration list \<Rightarrow> applied_step list \<Rightarrow> bool" where
  "staleness chain applied = list_ex (\<lambda>step.
     case find (\<lambda>m. mg_version m = step_version step) chain of Some m \<Rightarrow> mg_needs_reindex m | None \<Rightarrow> False) applied"

definition migrate_incremental :: "'d mig_ext \<Rightarrow> (nat \<Rightarrow> tx_ext) \<Rightarrow> mig_context \<Rightarrow> 'd migration list \<Rightarrow> 'd database \<Rightarrow>
    'd database \<times> migration_progress_event list \<times> (error + migrate_report)" where
  "migrate_incremental mx txs ctx chain db =
     (let current = db_user_version db
      in case validate_embedding_column mx db (mc_embedding_dim ctx) (mc_encoding ctx) of
           Inl e \<Rightarrow> (db, [], Inl e)
         | Inr _ \<Rightarrow>
             (let db = ensure_baseline_row mx (ensure_table db)
              in case verify_checksums mx db chain ctx current of
                   Inl e \<Rightarrow> (db, [], Inl e)
                 | Inr _ \<Rightarrow>
                     (case apply_pending mx txs chain ctx db of
                        (db', events, Inl e) \<Rightarrow> (db', events, Inl e)
                      | (db', events, Inr applied) \<Rightarrow>
                          (case post_check mx db' chain ctx of
                             Inl e \<Rightarrow> (db', events, Inl e)
                           | Inr _ \<Rightarrow> (db', events @ [MigrationFinished],
                               Inr \<lparr>mr_from_version = current, mr_to_version = head_version chain, mr_applied = applied,
                                 mr_legacy_rebuilt = False, mr_staleness_marked = staleness chain applied\<rparr>)))))"

definition finish :: "migration_progress_event \<Rightarrow> migrate_report \<Rightarrow> 'd database \<times> (error + unit) \<Rightarrow>
    'd database \<times> migration_progress_event list \<times> (error + migrate_report)" where
  "finish event report r =
     (case r of
        (db, Inl e) \<Rightarrow> (db, [event], Inl e)
      | (db, Inr _) \<Rightarrow> (db, [event, MigrationFinished], Inr report))"

definition migrate_store :: "'d mig_ext \<Rightarrow> (nat \<Rightarrow> tx_ext) \<Rightarrow> mig_context \<Rightarrow> bool \<Rightarrow> 'd migration list \<Rightarrow> 'd database \<Rightarrow>
    'd database \<times> migration_progress_event list \<times> (error + migrate_report)" where
  "migrate_store mx txs ctx allow_legacy_rebuild chain db =
     (let current = db_user_version db; head = head_version chain
      in if current = 0 then
           finish Initializing \<lparr>mr_from_version = 0, mr_to_version = head, mr_applied = [], mr_legacy_rebuilt = False,
               mr_staleness_marked = False\<rparr> (migrate_fresh mx (txs 0) ctx chain db)
         else if current < BASELINE_VERSION then
           (if \<not> allow_legacy_rebuild then
              (db, [], Inl (InvalidConfig (''database schema version '' @ show_int current @
                 '' predates the migration baseline (v'' @ show_int BASELINE_VERSION @
                 ''); rebuilding it is destructive '' @ [CHR 0xE2, CHR 0x80, CHR 0x94] @ '' all indexed data is lost and '' @
                 quoted ''localdb index'' @ '' must re-run afterward '' @ [CHR 0xE2, CHR 0x80, CHR 0x94] @
                 '' and requires explicit confirmation before it proceeds; nothing was changed'')))
            else finish RebuildingLegacy \<lparr>mr_from_version = current, mr_to_version = head, mr_applied = [],
                   mr_legacy_rebuilt = True, mr_staleness_marked = True\<rparr> (migrate_legacy mx (txs 0) ctx chain db))
         else if head < current then
           (db, [], Inl (InvalidConfig (''database schema version '' @ show_int current @ '' is newer than this build (v'' @
              show_int head @ ''); run '' @ quoted ''localdb db downgrade'' @
              '' with this binary to step it back, or upgrade localdb'')))
         else migrate_incremental mx txs ctx chain db)"

section \<open>Opening a store\<close>

datatype version_disposition = FreshStore | Legacy | BehindHead | AtHead | TooNew

definition classify_version :: "int \<Rightarrow> int \<Rightarrow> version_disposition" where
  "classify_version version head =
     (if version = 0 then FreshStore
      else if version < BASELINE_VERSION then Legacy
      else if version < head then BehindHead
      else if version = head then AtHead
      else TooNew)"

definition schema_or_err :: "'d mig_ext \<Rightarrow> nat \<Rightarrow> vector_encoding \<Rightarrow> 'd database \<Rightarrow> 'd database \<times> (error + unit)" where
  "schema_or_err mx embedding_dim encoding db =
     (case create_schema mx embedding_dim encoding db of
        (db', Inl e) \<Rightarrow> (db', Inl (Internal (''create_schema: '' @ e) ''libsql_db_schema''))
      | (db', Inr _) \<Rightarrow> (db', Inr ()))"

text \<open>\<open>?\<close> between operations that return the database: an error ends the run where it is.\<close>

definition then_db :: "'d database \<times> ('e + unit) \<Rightarrow> ('d database \<Rightarrow> 'd database \<times> ('e + unit)) \<Rightarrow> 'd database \<times> ('e + unit)" where
  "then_db r f = (case r of (db, Inl e) \<Rightarrow> (db, Inl e) | (db, Inr _) \<Rightarrow> f db)"

definition open_store :: "'d mig_ext \<Rightarrow> tx_ext \<Rightarrow> nat \<Rightarrow> vector_encoding \<Rightarrow> 'd database \<Rightarrow> 'd database \<times> (error + unit)" where
  "open_store mx tx embedding_dim encoding db =
     (let version = db_user_version db; head = head_version (migrations :: 'd migration list);
          ctx = \<lparr>mc_embedding_dim = embedding_dim, mc_encoding = encoding\<rparr>;
          validate = (\<lambda>db. (db, validate_embedding_column mx db embedding_dim encoding))
      in then_db
          (case classify_version version head of
             FreshStore \<Rightarrow>
               then_db (schema_or_err mx embedding_dim encoding db) (\<lambda>db.
               then_db (validate db) (\<lambda>db.
               seed_for_fresh_create mx tx migrations ctx db))
           | Legacy \<Rightarrow>
               (db, Inl (InvalidConfig (''database schema version '' @ show_int version @
                 '' predates the migration baseline (v'' @ show_int BASELINE_VERSION @ ''); run '' @
                 quoted ''localdb db migrate'' @ '' to erase and rebuild it (all indexed data is lost, then re-run '' @
                 quoted ''localdb index'' @ ''), or delete the database file'')))
           | BehindHead \<Rightarrow>
               (db, Inl (InvalidConfig (''database schema version '' @ show_int version @ '' is behind this build (v'' @
                 show_int head @ ''); run '' @ quoted ''localdb db migrate'' @ '' to apply pending migrations'')))
           | AtHead \<Rightarrow>
               (let db = (if db_rows db = None \<and> head = BASELINE_VERSION then ensure_baseline_row mx (ensure_table db) else db)
                in then_db (validate db) (\<lambda>db.
                   then_db (db, verify_checksums mx db migrations ctx head) (\<lambda>db.
                   schema_or_err mx embedding_dim encoding db)))
           | TooNew \<Rightarrow>
               (db, Inl (InvalidConfig (''database schema version '' @ show_int version @ '' is newer than this build (v'' @
                 show_int head @ ''); run '' @ quoted ''localdb db downgrade'' @
                 '' with this binary to step it back, or upgrade localdb''))))
          validate)"

section \<open>What migrating leaves behind\<close>

lemma seed_success_version:
  assumes "seed_for_fresh_create mx tx chain ctx db = (db', Inr ())"
  shows "db_user_version db' = head_version chain"
  using assms by (auto simp: seed_for_fresh_create_def transact_def seed_all_and_stamp_def and_then_eq_Inr
      split: sum.splits option.splits)

lemma post_check_Inr:
  "post_check mx db chain ctx = Inr () \<longleftrightarrow>
   validate_chain chain = Inr () \<and> verify_checksums mx db chain ctx (head_version chain) = Inr ()"
  by (auto simp: post_check_def and_then_eq_Inr)

lemma seed_and_check_success:
  "seed_and_check mx tx chain ctx db = (db', Inr ()) \<Longrightarrow>
   db_user_version db' = head_version chain \<and> verify_checksums mx db' chain ctx (head_version chain) = Inr ()"
  using seed_success_version by (auto simp: seed_and_check_def post_check_Inr split: prod.splits sum.splits)

lemma migrate_fresh_success:
  "migrate_fresh mx tx ctx chain db = (db', Inr ()) \<Longrightarrow>
   db_user_version db' = head_version chain \<and> verify_checksums mx db' chain ctx (head_version chain) = Inr ()"
  by (auto simp: migrate_fresh_def dest: seed_and_check_success split: prod.splits sum.splits)

lemma migrate_legacy_success:
  "migrate_legacy mx tx ctx chain db = (db', Inr ()) \<Longrightarrow>
   db_user_version db' = head_version chain \<and> verify_checksums mx db' chain ctx (head_version chain) = Inr ()"
  by (auto simp: migrate_legacy_def dest: seed_and_check_success split: prod.splits sum.splits)

lemma finish_Inr:
  "finish event report r = (db', events, Inr rep) \<longleftrightarrow>
   r = (db', Inr ()) \<and> events = [event, MigrationFinished] \<and> rep = report"
  by (auto simp: finish_def split: prod.splits sum.splits)

definition bookkept :: "'d mig_ext \<Rightarrow> 'd database \<Rightarrow> 'd database" where
  "bookkept mx db = ensure_baseline_row mx (ensure_table db)"

lemma bookkept_version [simp]: "db_user_version (bookkept mx db) = db_user_version db"
  by (simp add: bookkept_def ensure_baseline_row_def ensure_table_def split: option.split)

lemma migrate_incremental_run:
  assumes "BASELINE_VERSION \<le> db_user_version db" "db_user_version db \<le> head_version chain"
    and "migrate_incremental mx txs ctx chain db = (db', events, r)"
  shows "(\<exists>e. r = Inl e) \<and> (db' = db \<or> db' = bookkept mx db) \<or>
    db_user_version db \<le> db_user_version db' \<and> db_user_version db' \<le> head_version chain \<and>
    verify_checksums mx db' chain ctx (db_user_version db') = Inr () \<and>
    (\<forall>rep. r = Inr rep \<longrightarrow> db_user_version db' = head_version chain \<and> mr_to_version rep = head_version chain \<and>
       map step_version (mr_applied rep) = [db_user_version db + 1..head_version chain] \<and> last events = MigrationFinished)"
proof (cases "validate_embedding_column mx db (mc_embedding_dim ctx) (mc_encoding ctx) = Inr () \<and>
    verified mx chain ctx (bookkept mx db)")
  case False
  then show ?thesis
    using assms(3) unfolding migrate_incremental_def Let_def bookkept_def [symmetric] bookkept_version
    by (auto split: sum.splits prod.splits)
next
  case True
  obtain db1 ev r1 where run: "apply_pending mx txs chain ctx (bookkept mx db) = (db1, ev, r1)" by (metis prod_cases3)
  have "db' = db1 \<and> (\<forall>rep. r = Inr rep \<longrightarrow> (\<exists>applied. r1 = Inr applied \<and> mr_applied rep = applied \<and>
      mr_to_version rep = head_version chain) \<and> last events = MigrationFinished \<and> validate_chain chain = Inr ())"
    using assms(3) True run unfolding migrate_incremental_def Let_def bookkept_def [symmetric]
    by (auto simp: post_check_Inr split: sum.splits)
  then have db': "db' = db1" and rep: "\<forall>rep. r = Inr rep \<longrightarrow> (\<exists>applied. r1 = Inr applied \<and> mr_applied rep = applied \<and>
      mr_to_version rep = head_version chain) \<and> last events = MigrationFinished \<and> validate_chain chain = Inr ()" by blast+
  define pending where "pending = filter (\<lambda>m. db_user_version db < mg_version m) chain"
  have "verified mx chain ctx (bookkept mx db)" using True by blast
  from apply_pending_run [OF this _ _ run] assms(1,2) obtain j where j: "j \<le> length pending"
    "db_user_version db1 = db_user_version db + int j" "verified mx chain ctx db1"
    "\<forall>steps. r1 = Inr steps \<longrightarrow> db_user_version db1 = head_version chain \<and> j = length pending \<and> steps = map step_of pending"
    unfolding pending_def Let_def bookkept_version by blast
  obtain k where k: "db_user_version db = BASELINE_VERSION + int k" using assms(1) by (metis zle_iff_zadd)
  have len: "length pending \<le> length chain - k" if "validate_chain chain = Inr ()"
    unfolding pending_def k pending_is_drop [OF that] by simp
  have vers: "map mg_version pending = [db_user_version db + 1..head_version chain]" if valid: "validate_chain chain = Inr ()"
  proof (rule nth_equalityI)
    show "length (map mg_version pending) = length [db_user_version db + 1..head_version chain]"
      unfolding pending_def k pending_is_drop [OF valid] by (simp add: head_version_def)
    fix i assume i: "i < length (map mg_version pending)"
    then show "map mg_version pending ! i = [db_user_version db + 1..head_version chain] ! i"
      unfolding pending_def k pending_is_drop [OF valid]
      using validate_chain_versions [OF valid, of "k + i"] by (simp add: head_version_def)
  qed
  have top: "db_user_version db1 \<le> head_version chain"
  proof (cases "validate_chain chain")
    case (Inl e)
    then show ?thesis using run assms(2) by (auto simp: apply_pending_def)
  next
    case (Inr u)
    then show ?thesis using len j(1,2) k assms(2) by (simp add: head_version_def)
  qed
  have "map step_version (mr_applied rep) = [db_user_version db + 1..head_version chain] \<and>
      db_user_version db1 = head_version chain" if "r = Inr rep" for rep
    using rep that j(4) vers by (force simp: comp_def)
  with j top rep show ?thesis unfolding db' by auto
qed

text \<open>\<open>db migrate\<close> either succeeds at the head with a verified history or stops short in a safe place. On
  success, whichever of the three paths ran, the version is the head, the report says so and the whole
  history verifies. A legacy store without permission to rebuild and a store newer than the binary are
  left exactly as they were. When the incremental path fails, the store is as it was (at most with the
  bookkeeping table and baseline row added) or it stands, verified, at a version between the old one and the head.\<close>

theorem migrate_store_outcomes:
  assumes "migrate_store mx txs ctx allow chain db = (db', events, r)"
  shows "(\<forall>rep. r = Inr rep \<longrightarrow> db_user_version db' = head_version chain \<and> mr_to_version rep = head_version chain \<and>
       mr_from_version rep = db_user_version db \<and> last events = MigrationFinished \<and>
       verify_checksums mx db' chain ctx (head_version chain) = Inr ()) \<and>
    (db_user_version db \<noteq> 0 \<and> db_user_version db < BASELINE_VERSION \<and> \<not> allow \<or>
       head_version chain < db_user_version db \<and> BASELINE_VERSION \<le> db_user_version db \<longrightarrow>
       db' = db \<and> (\<exists>msg. r = Inl (InvalidConfig msg))) \<and>
    (BASELINE_VERSION \<le> db_user_version db \<and> db_user_version db \<le> head_version chain \<and> (\<exists>e. r = Inl e) \<longrightarrow>
       db' = db \<or> db' = ensure_baseline_row mx (ensure_table db) \<or>
       db_user_version db \<le> db_user_version db' \<and> db_user_version db' \<le> head_version chain \<and>
       verify_checksums mx db' chain ctx (db_user_version db') = Inr ())"
proof -
  consider (fresh) "db_user_version db = 0"
    | (legacy) "db_user_version db \<noteq> 0" "db_user_version db < BASELINE_VERSION"
    | (newer) "BASELINE_VERSION \<le> db_user_version db" "head_version chain < db_user_version db"
    | (inc) "BASELINE_VERSION \<le> db_user_version db" "db_user_version db \<le> head_version chain" by linarith
  then show ?thesis
  proof cases
    case fresh
    with assms show ?thesis
      by (auto simp: migrate_store_def Let_def finish_Inr BASELINE_VERSION_def dest: migrate_fresh_success)
  next
    case legacy
    with assms show ?thesis
      by (auto simp: migrate_store_def Let_def finish_Inr dest: migrate_legacy_success split: if_splits)
  next
    case newer
    with assms show ?thesis by (auto simp: migrate_store_def Let_def BASELINE_VERSION_def)
  next
    case inc
    with assms have run: "migrate_incremental mx txs ctx chain db = (db', events, r)"
      by (auto simp: migrate_store_def Let_def BASELINE_VERSION_def)
    have "mr_from_version rep = db_user_version db" if "r = Inr rep" for rep
      using run that by (auto simp: migrate_incremental_def Let_def split: sum.splits prod.splits)
    with migrate_incremental_run [OF inc run] inc show ?thesis unfolding bookkept_def by auto
  qed
qed

lemma migrate_store_outcomes_witness:
  "\<exists>events msg. migrate_store sample_mx (\<lambda>_. \<lparr>tx_begin = None, tx_commit = None\<rparr>) sample_ctx False migrations
     \<lparr>db_user_version = 2, db_rows = None, db_content = [''precious'']\<rparr> =
     (\<lparr>db_user_version = 2, db_rows = None, db_content = [''precious'']\<rparr>, events, Inl (InvalidConfig msg))"
proof -
  obtain db' events r where run: "migrate_store sample_mx (\<lambda>_. \<lparr>tx_begin = None, tx_commit = None\<rparr>) sample_ctx False migrations
     \<lparr>db_user_version = 2, db_rows = None, db_content = [''precious'']\<rparr> = (db', events, r)"
    by (metis prod_cases3)
  from migrate_store_outcomes [OF this] run show ?thesis by (auto simp: BASELINE_VERSION_def)
qed

text \<open>
  What \<open>migrate_store\<close> adds before it verifies can hide what \<open>open\<close> refuses: a table that has lost its
  baseline row fails verification, and passes it once \<open>ensure_baseline_row\<close> has put the row back.
\<close>

lemma backfill_hides_missing_baseline:
  assumes "validate_chain chain = Inr ()" "BASELINE_VERSION \<notin> row_version ` set (rows_of db)"
    and "\<forall>r \<in> set (rows_of db). BASELINE_VERSION \<le> row_version r \<longrightarrow> row_ok mx chain ctx r"
    and "\<forall>m \<in> set chain. mg_version m \<le> v \<longrightarrow> mg_version m \<in> row_version ` set (rows_of db)"
  shows "verify_checksums mx db chain ctx v \<noteq> Inr () \<and> verify_checksums mx (bookkept mx db) chain ctx v = Inr ()"
proof -
  have "rows_of (ensure_table db) = rows_of db" by (simp add: ensure_table_def rows_of_def split: option.split)
  with assms(2) have rows: "rows_of (bookkept mx db) = rows_of db @ [baseline_row mx]"
    by (simp add: bookkept_def ensure_baseline_row_def rows_of_def [of "_\<lparr>db_rows := _\<rparr>"])
  show ?thesis
    using assms by (auto simp: verify_checksums_iff_run rows history_complete_def row_ok_def baseline_row_def)
qed

section \<open>What opening leaves behind\<close>

lemma then_db_Inr: "then_db r f = (db', Inr ()) \<longleftrightarrow> (\<exists>db. r = (db, Inr ()) \<and> f db = (db', Inr ()))"
  by (cases r; cases "snd r") (auto simp: then_db_def)

lemma exec_autocommit_books:
  "exec_autocommit mx stmts db = (db', r) \<Longrightarrow> db_rows db' = db_rows db \<and> db_user_version db' = db_user_version db"
  by (induction stmts arbitrary: db) (auto split: sum.splits)

lemma schema_or_err_books:
  "schema_or_err mx embedding_dim encoding db = (db', r) \<Longrightarrow>
   db_rows db' = db_rows db \<and> db_user_version db' = db_user_version db"
  by (auto simp: schema_or_err_def create_schema_def dest: exec_autocommit_books split: prod.splits sum.splits)

lemma seed_one_fresh:
  assumes "mg_version m \<notin> row_version ` set (rows_of db)" "seed_one mx ctx m db = Inr db'"
  shows "rows_of db' = rows_of db @ [row_for mx ctx m]"
proof -
  have "find_row db (mg_version m) = None"
    unfolding find_row_def find_None_iff set_list_rows_desc_above
    using assms(1) by (metis (mono_tags, lifting) imageI mem_Collect_eq)
  with assms(2) have "insert_row mx (row_for mx ctx m) db = Inr db'" by (simp add: seed_one_def)
  from insert_row_Inr [OF this] show ?thesis by (simp add: rows_of_def)
qed

lemma seed_fold_fresh:
  "distinct (map mg_version ms) \<Longrightarrow> \<forall>m \<in> set ms. mg_version m \<notin> row_version ` set (rows_of db) \<Longrightarrow>
   try_fold (seed_one mx ctx) ms db = Inr db' \<Longrightarrow> rows_of db' = rows_of db @ map (row_for mx ctx) ms"
proof (induction ms arbitrary: db)
  case (Cons m ms)
  from Cons.prems(3) obtain db1 where one: "seed_one mx ctx m db = Inr db1"
    and rest: "try_fold (seed_one mx ctx) ms db1 = Inr db'" by (auto split: sum.splits)
  have rows: "rows_of db1 = rows_of db @ [row_for mx ctx m]" using Cons.prems(2) one by (intro seed_one_fresh) simp_all
  have "\<forall>x \<in> set ms. mg_version x \<notin> row_version ` set (rows_of db1)"
    using Cons.prems(1,2) by (auto simp: rows row_for_fields image_iff)
  from Cons.IH [OF _ this rest] Cons.prems(1) show ?case by (simp add: rows)
qed simp

lemma chain_versions_distinct:
  assumes "validate_chain chain = Inr ()"
  shows "distinct (map mg_version chain)"
  using validate_chain_versions [OF assms] by (auto simp: distinct_conv_nth)

lemma seed_fresh_verified:
  assumes "rows_of db = []" "seed_for_fresh_create mx tx chain ctx db = (db', Inr ())"
  shows "db_user_version db' = head_version chain \<and> verify_checksums mx db' chain ctx (head_version chain) = Inr ()"
proof -
  from assms(2) have valid: "validate_chain chain = Inr ()"
    by (cases "validate_chain chain") (auto simp: seed_for_fresh_create_def)
  let ?db0 = "ensure_baseline_row mx (ensure_table db)"
  have rows0: "rows_of ?db0 = [baseline_row mx]"
    using assms(1) by (auto simp: ensure_baseline_row_def ensure_table_def rows_of_def split: option.splits)
  from assms(2) obtain db1 where fold: "try_fold (seed_one mx ctx) chain ?db0 = Inr db1"
    and db': "db' = db1\<lparr>db_user_version := head_version chain\<rparr>"
    by (auto simp: seed_for_fresh_create_def valid transact_def seed_all_and_stamp_def and_then_eq_Inr
        split: option.splits sum.splits)
  have "rows_of db1 = rows_of ?db0 @ map (row_for mx ctx) chain"
    using chain_versions_distinct [OF valid] _ fold
    by (rule seed_fold_fresh) (use validate_chain_above [OF valid] in \<open>fastforce simp: rows0 baseline_row_def\<close>)
  moreover have "rows_of db' = rows_of db1" by (simp add: db' rows_of_def)
  ultimately have rows: "rows_of db' = baseline_row mx # map (row_for mx ctx) chain" by (simp add: rows0)
  have "row_ok mx chain ctx (baseline_row mx)" "row_version (baseline_row mx) = BASELINE_VERSION"
    by (simp_all add: row_ok_def baseline_row_def)
  with row_for_ok [OF valid] show ?thesis
    unfolding verify_checksums_iff_run [OF valid] rows
    by (auto simp: db' history_complete_def row_for_fields image_iff)
qed

lemma head_is_8: "head_version (migrations :: 'd migration list) = 8"
  by (simp add: head_version_def migrations_def BASELINE_VERSION_def)

lemma open_dispatch:
  "classify_version v 8 =
    (if v = 0 then FreshStore else if v < 4 then Legacy else if v < 8 then BehindHead else if v = 8 then AtHead else TooNew)"
  by (simp add: classify_version_def BASELINE_VERSION_def)

lemma open_refused:
  assumes "db_user_version db \<noteq> 0" "db_user_version db \<noteq> 8" "open_store mx tx dim enc db = (db', r)"
  shows "db' = db \<and> (\<exists>msg. r = Inl (InvalidConfig msg))"
  using assms unfolding open_store_def Let_def head_is_8 open_dispatch
  by (auto simp: then_db_def split: if_splits)

lemma open_at_head:
  assumes "db_user_version db = 8" "open_store mx tx dim enc db = (db', r)"
  shows "db_user_version db' = 8 \<and> db_rows db' = db_rows db \<and>
    (verify_checksums mx db migrations \<lparr>mc_embedding_dim = dim, mc_encoding = enc\<rparr> 8 \<noteq> Inr () \<longrightarrow> db' = db \<and> (\<exists>e. r = Inl e))"
proof -
  have head: "(8 :: int) \<noteq> BASELINE_VERSION" by (simp add: BASELINE_VERSION_def)
  have books: "db_user_version db' = 8 \<and> db_rows db' = db_rows db"
    using assms head schema_or_err_books [of mx dim enc db]
    unfolding open_store_def Let_def head_is_8 open_dispatch
    by (auto simp: then_db_def split: prod.splits sum.splits if_splits)
  moreover have "db' = db \<and> (\<exists>e. r = Inl e)"
    if "verify_checksums mx db migrations \<lparr>mc_embedding_dim = dim, mc_encoding = enc\<rparr> 8 \<noteq> Inr ()"
    using assms head that unfolding open_store_def Let_def head_is_8 open_dispatch
    by (cases "verify_checksums mx db migrations \<lparr>mc_embedding_dim = dim, mc_encoding = enc\<rparr> 8")
      (auto simp: then_db_def dest!: sym [of "Inl _"] split: sum.splits)
  ultimately show ?thesis by blast
qed

lemma open_fresh:
  assumes "db_user_version db = 0" "rows_of db = []" "open_store mx tx dim enc db = (db', Inr ())"
  shows "db_user_version db' = 8 \<and> verify_checksums mx db' migrations \<lparr>mc_embedding_dim = dim, mc_encoding = enc\<rparr> 8 = Inr ()"
proof -
  from assms(1,3) obtain db1 where made: "schema_or_err mx dim enc db = (db1, Inr ())"
    and seed: "seed_for_fresh_create mx tx migrations \<lparr>mc_embedding_dim = dim, mc_encoding = enc\<rparr> db1 = (db', Inr ())"
    unfolding open_store_def Let_def head_is_8 open_dispatch by (auto simp: then_db_Inr)
  have "rows_of db1 = []" using schema_or_err_books [OF made] assms(2) by (simp add: rows_of_def)
  from seed_fresh_verified [OF this seed] show ?thesis by (simp add: head_is_8)
qed

text \<open>C37: opening never accepts and never damages a store whose history is wrong. A store at any version
  other than 0 and the head is refused with a configuration error and not touched; at the head its
  bookkeeping is never changed, and if the history does not verify the open fails with the database as
  it was; a new store that opens successfully has been stamped with the head version and a history that
  verifies.\<close>

theorem open_store_outcomes:
  assumes "open_store mx tx dim enc db = (db', r)"
    and "ctx = \<lparr>mc_embedding_dim = dim, mc_encoding = enc\<rparr>"
  shows "(db_user_version db \<notin> {0, head_version (migrations :: 'd migration list)} \<longrightarrow>
       db' = db \<and> (\<exists>msg. r = Inl (InvalidConfig msg))) \<and>
    (db_user_version db = head_version (migrations :: 'd migration list) \<longrightarrow>
       db_user_version db' = db_user_version db \<and> db_rows db' = db_rows db \<and>
       (verify_checksums mx db migrations ctx (db_user_version db) \<noteq> Inr () \<longrightarrow> db' = db \<and> (\<exists>e. r = Inl e))) \<and>
    (db_user_version db = 0 \<and> rows_of db = [] \<and> r = Inr () \<longrightarrow>
       db_user_version db' = head_version (migrations :: 'd migration list) \<and>
       verify_checksums mx db' migrations ctx (db_user_version db') = Inr ())"
  using assms open_refused [of db mx tx dim enc db' r] open_at_head [of db mx tx dim enc db' r]
    open_fresh [of db mx tx dim enc db']
  unfolding head_is_8 by auto

lemma open_store_outcomes_witness:
  "\<exists>r. open_store sample_mx \<lparr>tx_begin = None, tx_commit = None\<rparr> 384 Float32
     \<lparr>db_user_version = 8, db_rows = Some [], db_content = [''precious'']\<rparr> =
     (\<lparr>db_user_version = 8, db_rows = Some [], db_content = [''precious'']\<rparr>, Inl r)"
proof -
  let ?db = "\<lparr>db_user_version = 8, db_rows = Some [], db_content = [''precious'']\<rparr>"
  let ?ctx = "\<lparr>mc_embedding_dim = 384, mc_encoding = Float32\<rparr>"
  obtain db' r where run: "open_store sample_mx \<lparr>tx_begin = None, tx_commit = None\<rparr> 384 Float32 ?db = (db', r)"
    by (metis prod.exhaust)
  have "verify_checksums sample_mx ?db migrations ?ctx (db_user_version ?db) \<noteq> Inr ()"
    by (simp add: verify_checksums_iff_run [OF validate_migrations] history_complete_def rows_of_def)
  with open_store_outcomes [OF run refl] run show ?thesis by (auto simp: head_is_8)
qed

end
