(* ===== verification/Downgrade.thy ===== *)
theory Downgrade
  imports MigrationRunner StrOps
begin

text \<open>
  \<open>downgrade_store\<close> and \<open>inspect_schema\<close> (\<open>store-libsql/src/migrations/downgrade.rs\<close>): the stored
  down-statements of the rows above the target are replayed, newest first, one transaction each,
  after the checks that refuse a history with a gap, without its target or with a step that cannot
  be undone. The store file is taken to exist.
\<close>

record downgrade_report =
  dr_from_version :: int
  dr_to_version :: int
  dr_steps :: "applied_step list"

definition replay_one :: "'d mig_ext \<Rightarrow> migration_row \<Rightarrow> 'd database \<Rightarrow> fault + 'd database" where
  "replay_one mx row db =
     (case row_down_sql row of
        None \<Rightarrow> Inl Panicked
      | Some down_sql \<Rightarrow>
          (case exec_all mx down_sql db of
             Inl e \<Rightarrow> Inl (Raised (Internal (''downgrade of migration '' @ quoted (row_name row) @ '' (version '' @
                        show_int (row_version row) @ '') failed and was rolled back: '' @ e) ''libsql_migrations_downgrade_failed''))
           | Inr db' \<Rightarrow> Inr ((delete_row (row_version row) db')\<lparr>db_user_version := row_version row - 1\<rparr>)))"

fun downgrade_steps :: "'d mig_ext \<Rightarrow> (nat \<Rightarrow> tx_ext) \<Rightarrow> nat \<Rightarrow> migration_row list \<Rightarrow> 'd database \<Rightarrow>
    'd database \<times> (fault + applied_step list)" where
  "downgrade_steps mx txs i [] db = (db, Inr [])"
| "downgrade_steps mx txs i (row # rows) db =
     (case transact Raised (txs i) (replay_one mx row) db of
        (db', Inl e) \<Rightarrow> (db', Inl e)
      | (db', Inr _) \<Rightarrow>
          (case downgrade_steps mx txs (i + 1) rows db' of
             (db'', Inl e) \<Rightarrow> (db'', Inl e)
           | (db'', Inr steps) \<Rightarrow> (db'', Inr (\<lparr>step_version = row_version row, step_name = row_name row\<rparr> # steps))))"

definition downgrade_missing :: "int \<Rightarrow> int \<Rightarrow> migration_row list \<Rightarrow> int list" where
  "downgrade_missing target from_version rows = filter (\<lambda>v. v \<notin> row_version ` set rows) [target + 1..from_version]"

definition downgrade_store :: "'d mig_ext \<Rightarrow> (nat \<Rightarrow> tx_ext) \<Rightarrow> int option \<Rightarrow> 'd database \<Rightarrow>
    'd database \<times> (fault + downgrade_report)" where
  "downgrade_store mx txs requested db =
     (let from_version = db_user_version db;
          target = (case requested of Some t \<Rightarrow> t | None \<Rightarrow> BASELINE_VERSION)
      in if target < BASELINE_VERSION then
           (db, Inl (Raised (InvalidConfig (''cannot downgrade below the frozen baseline version '' @ show_int BASELINE_VERSION @
              '': the baseline schema predates the migration framework and has no down-SQL to replay''))))
         else if from_version \<le> target then
           (db, Inl (Raised (InvalidConfig (''nothing to downgrade: target version '' @ show_int target @
              '' must be below the current version '' @ show_int from_version))))
         else if db_rows db = None then
           (db, Inl (Raised (InvalidConfig (''this store has no schema_migrations table yet '' @ [CHR 0xE2, CHR 0x80, CHR 0x94] @
              '' it predates the migration framework entirely; run '' @ quoted ''localdb db migrate'' @ '' first''))))
         else
           let rows = filter (\<lambda>r. row_version r \<le> from_version) (list_rows_desc_above db target);
               missing = downgrade_missing target from_version rows
           in if missing \<noteq> [] then
                (db, Inl (Raised (Internal (''schema_migrations is missing a row for version(s) '' @
                   join '', '' (map show_int missing) @ '' between target '' @ show_int target @ '' and current version '' @
                   show_int from_version @ '': this store'' @ [CHR 0x27] @
                   ''s migration bookkeeping is corrupt or incomplete; downgrade refused. Nothing was changed.'')
                   ''libsql_migrations_missing_row'')))
              else if find_row db target = None then
                (db, Inl (Raised (Internal (''schema_migrations is missing a row for the downgrade target version '' @
                   show_int target @ '' (it must remain applied after downgrading to it): this store'' @ [CHR 0x27] @
                   ''s migration bookkeeping is corrupt or incomplete; downgrade refused. Nothing was changed.'')
                   ''libsql_migrations_missing_row'')))
              else (case find (\<lambda>r. row_down_unsupported_reason r \<noteq> None) rows of
                Some blocked \<Rightarrow>
                  (db, Inl (Raised (InvalidConfig (''cannot downgrade past migration '' @ quoted (row_name blocked) @
                     '' (version '' @ show_int (row_version blocked) @ ''): '' @
                     (case row_down_unsupported_reason blocked of Some reason \<Rightarrow> reason | None \<Rightarrow> []) @
                     ''. Nothing was changed. Downgrade to version '' @ show_int (row_version blocked) @
                     '' instead (`db downgrade --to '' @ show_int (row_version blocked) @
                     ''`) to keep it applied and only replay the migrations above it.''))))
              | None \<Rightarrow>
                  (case downgrade_steps mx txs 0 rows db of
                     (db', Inl e) \<Rightarrow> (db', Inl e)
                   | (db', Inr steps) \<Rightarrow>
                       (db', Inr \<lparr>dr_from_version = from_version, dr_to_version = target, dr_steps = steps\<rparr>))))"

record schema_status =
  ss_current_version :: int
  ss_head_version :: int
  ss_baseline_version :: int
  ss_rows :: "migration_row list"
  ss_legacy :: bool
  ss_table_present :: bool

definition inspect_schema :: "'d database \<Rightarrow> schema_status" where
  "inspect_schema db =
     (let current_version = db_user_version db; table_present = (db_rows db \<noteq> None)
      in \<lparr>ss_current_version = current_version, ss_head_version = head_version (migrations :: 'd migration list),
          ss_baseline_version = BASELINE_VERSION,
          ss_rows = (if table_present then rev (list_rows_desc_above db (- (2 ^ 63))) else []),
          ss_legacy = (0 < current_version \<and> current_version < BASELINE_VERSION),
          ss_table_present = table_present\<rparr>)"

section \<open>The planned rows\<close>

text \<open>What the table's constraints give: versions are the primary key, one of two columns is set.\<close>

definition table_constraints :: "migration_row list \<Rightarrow> bool" where
  "table_constraints rows \<longleftrightarrow> distinct (map row_version rows) \<and>
     (\<forall>r \<in> set rows. (row_down_sql r = None) \<noteq> (row_down_unsupported_reason r = None))"

interpretation vdesc: comparator "\<lambda>a b. ord_cmp (row_version b) (row_version a)" UNIV
  by unfold_locales (auto simp: ord_cmp_rev ord_cmp_Gt not_less)

lemma list_rows_sorted: "sorted_wrt (\<lambda>a b. row_version b \<le> row_version a) (list_rows_desc_above db v)"
  using vdesc.sorted_sort_by [of "filter (\<lambda>r. v < row_version r) (rows_of db)"]
  by (simp add: list_rows_desc_above_def sorted_by_def ord_cmp_Gt not_less)

lemma list_rows_distinct:
  assumes "distinct (map row_version (rows_of db))"
  shows "distinct (map row_version (list_rows_desc_above db v))"
proof -
  have "mset (map row_version (list_rows_desc_above db v)) =
        mset (map row_version (filter (\<lambda>r. v < row_version r) (rows_of db)))"
    by (simp add: list_rows_desc_above_def)
  moreover have "distinct (map row_version (filter (\<lambda>r. v < row_version r) (rows_of db)))"
    using assms by (rule distinct_map_filter)
  ultimately show ?thesis by (metis mset_eq_imp_distinct_iff)
qed

definition planned :: "'d database \<Rightarrow> int \<Rightarrow> migration_row list" where
  "planned db target = filter (\<lambda>r. row_version r \<le> db_user_version db) (list_rows_desc_above db target)"

lemma set_planned:
  "set (planned db target) = {r \<in> set (rows_of db). target < row_version r \<and> row_version r \<le> db_user_version db}"
  by (auto simp: planned_def set_list_rows_desc_above)

lemma descending_unique:
  assumes "sorted_wrt (\<ge>) (xs :: int list)" "distinct xs" "set xs = {a..b}"
  shows "xs = rev [a..b]"
proof -
  have "sorted (rev xs)" using assms(1) by (simp add: sorted_wrt_rev)
  moreover have "sorted [a..b]" by (rule sorted_upto)
  ultimately have "rev xs = [a..b]"
    using assms(2,3) by (intro sorted_distinct_set_unique) simp_all
  then show ?thesis by (metis rev_rev_ident)
qed

lemma planned_versions:
  assumes "distinct (map row_version (rows_of db))"
    and "downgrade_missing target (db_user_version db) (planned db target) = []"
  shows "map row_version (planned db target) = rev [target + 1..db_user_version db]"
proof (rule descending_unique)
  show "sorted_wrt (\<ge>) (map row_version (planned db target))"
    using list_rows_sorted [of db target] by (simp add: planned_def sorted_wrt_map sorted_wrt_filter)
  show "distinct (map row_version (planned db target))"
    unfolding planned_def using list_rows_distinct [OF assms(1)] by (rule distinct_map_filter)
  show "set (map row_version (planned db target)) = {target + 1..db_user_version db}"
    using assms(2) by (auto simp: downgrade_missing_def filter_empty_conv set_planned image_iff)
qed

section \<open>Replaying\<close>

text \<open>The rows left at version \<open>v\<close> of a downgrade: those above the version it began at are not its.\<close>

definition rows_at :: "'d database \<Rightarrow> int \<Rightarrow> migration_row list" where
  "rows_at db v = filter (\<lambda>r. row_version r \<le> v \<or> db_user_version db < row_version r) (rows_of db)"

lemma replay_one_Inr:
  assumes "replay_one mx row db = Inr db'"
  shows "db_user_version db' = row_version row - 1 \<and>
    rows_of db' = filter (\<lambda>r. row_version r \<noteq> row_version row) (rows_of db)"
  using assms by (auto simp: replay_one_def exec_all_Inr delete_row_def rows_of_def split: option.splits sum.splits)

lemma replay_one_no_panic: "row_down_sql row \<noteq> None \<Longrightarrow> replay_one mx row db \<noteq> Inl Panicked"
  by (auto simp: replay_one_def split: option.splits sum.splits)

lemma transact_no_panic:
  "body db \<noteq> Inl Panicked \<Longrightarrow> snd (transact Raised tx body db) \<noteq> Inl Panicked"
  by (auto simp: transact_def split: option.splits sum.splits)

lemma downgrade_steps_run:
  "map row_version ps = rev [t + 1..v] \<Longrightarrow> t \<le> v \<Longrightarrow> v \<le> db_user_version db0 \<Longrightarrow> db_user_version db = v \<Longrightarrow>
   rows_of db = rows_at db0 v \<Longrightarrow> \<forall>p \<in> set ps. row_down_sql p \<noteq> None \<Longrightarrow>
   downgrade_steps mx txs i ps db = (db', r) \<Longrightarrow>
   \<exists>v'. t \<le> v' \<and> v' \<le> v \<and> db_user_version db' = v' \<and> rows_of db' = rows_at db0 v' \<and> (v' = v \<longrightarrow> db' = db) \<and>
     r \<noteq> Inl Panicked \<and> (\<forall>steps. r = Inr steps \<longrightarrow> v' = t \<and> map step_version steps = rev [t + 1..v])"
proof (induction ps arbitrary: v i db db' r)
  case Nil
  then have "v = t" by (cases "t + 1 \<le> v") auto
  with Nil show ?case by (intro exI [of _ v]) auto
next
  case (Cons p ps)
  have tv: "t < v" using Cons.prems(1) by (cases "t + 1 \<le> v") auto
  have "rev [t + 1..v] = v # rev [t + 1..v - 1]"
    using tv upto_rec2 [of "t + 1" v] by simp
  with Cons.prems(1) have p: "row_version p = v" and ps: "map row_version ps = rev [t + 1..v - 1]" by auto
  have np: "snd (transact Raised (txs i) (replay_one mx p) db) \<noteq> Inl Panicked"
    using Cons.prems(6) by (intro transact_no_panic replay_one_no_panic) simp
  show ?case
  proof (cases rule: transact_cases [where wrap = Raised and tx = "txs i" and body = "replay_one mx p" and db = db])
    case (kept e)
    with Cons.prems(7) np have "db' = db" "r = Inl e" "e \<noteq> Panicked" by auto
    with Cons.prems tv show ?thesis by (intro exI [of _ v]) auto
  next
    case (committed db1)
    from replay_one_Inr [OF committed(1)] have v1: "db_user_version db1 = v - 1"
      and r1: "rows_of db1 = rows_at db0 (v - 1)"
      using Cons.prems(3,5) p by (auto simp: rows_at_def intro!: filter_cong)
    obtain db2 r2 where rest: "downgrade_steps mx txs (i + 1) ps db1 = (db2, r2)" by (metis prod.exhaust)
    have "\<exists>v'. t \<le> v' \<and> v' \<le> v - 1 \<and> db_user_version db2 = v' \<and> rows_of db2 = rows_at db0 v' \<and> (v' = v - 1 \<longrightarrow> db2 = db1) \<and>
      r2 \<noteq> Inl Panicked \<and> (\<forall>steps. r2 = Inr steps \<longrightarrow> v' = t \<and> map step_version steps = rev [t + 1..v - 1])"
      using tv Cons.prems(3,6) by (intro Cons.IH [OF ps _ _ v1 r1 _ rest]) auto
    then obtain v' where v': "t \<le> v'" "v' \<le> v - 1" "db_user_version db2 = v'" "rows_of db2 = rows_at db0 v'"
      "r2 \<noteq> Inl Panicked" "\<forall>steps. r2 = Inr steps \<longrightarrow> v' = t \<and> map step_version steps = rev [t + 1..v - 1]"
      by blast
    have "db' = db2 \<and> (r2 = Inl f \<longrightarrow> r = Inl f) \<and>
        (r2 = Inr steps \<longrightarrow> r = Inr (\<lparr>step_version = v, step_name = row_name p\<rparr> # steps))" for f steps
      using Cons.prems(7) committed(2) rest p by (auto split: sum.splits)
    with v' tv \<open>rev [t + 1..v] = v # rev [t + 1..v - 1]\<close> show ?thesis
      by (intro exI [of _ v']) (cases r2; auto)
  qed
qed

lemma downgrade_run:
  assumes "table_constraints (rows_of db)" and "downgrade_store mx txs requested db = (db', r)"
    and "target = (case requested of Some t \<Rightarrow> t | None \<Rightarrow> BASELINE_VERSION)"
  shows "r \<noteq> Inl Panicked \<and> (db' = db \<and> (\<exists>e. r = Inl (Raised e)) \<or>
    BASELINE_VERSION \<le> target \<and> target < db_user_version db \<and>
    {target..db_user_version db} \<subseteq> row_version ` set (rows_of db) \<and>
    (\<forall>row \<in> set (rows_of db). target < row_version row \<and> row_version row \<le> db_user_version db \<longrightarrow> row_down_sql row \<noteq> None) \<and>
    (\<exists>v. target \<le> v \<and> v \<le> db_user_version db \<and> db_user_version db' = v \<and> rows_of db' = rows_at db v \<and>
      (\<forall>rep. r = Inr rep \<longrightarrow> v = target \<and> dr_to_version rep = target \<and>
        map step_version (dr_steps rep) = rev [target + 1..db_user_version db])))"
proof (cases "BASELINE_VERSION \<le> target \<and> target < db_user_version db \<and> db_rows db \<noteq> None \<and>
    downgrade_missing target (db_user_version db) (planned db target) = [] \<and> find_row db target \<noteq> None \<and>
    find (\<lambda>r. row_down_unsupported_reason r \<noteq> None) (planned db target) = None")
  case False
  then show ?thesis
    using assms(2,3) unfolding downgrade_store_def Let_def planned_def
    by (auto split: if_splits option.splits)
next
  case True
  let ?from = "db_user_version db"
  have plan: "map row_version (planned db target) = rev [target + 1..?from]"
    using assms(1) True by (intro planned_versions) (auto simp: table_constraints_def)
  have sql: "\<forall>p \<in> set (planned db target). row_down_sql p \<noteq> None"
    using True assms(1) by (auto simp: find_None_iff table_constraints_def set_planned)
  obtain r' where run: "downgrade_steps mx txs 0 (planned db target) db = (db', r')"
    and r: "r' = Inl f \<longrightarrow> r = Inl f" "r' = Inr steps \<longrightarrow>
      r = Inr \<lparr>dr_from_version = ?from, dr_to_version = target, dr_steps = steps\<rparr>" for f steps
    using assms(2,3) True unfolding downgrade_store_def Let_def planned_def [symmetric]
    by (cases "downgrade_steps mx txs 0 (planned db target) db") (auto split: sum.splits)
  have rows: "rows_of db = rows_at db ?from" by (auto simp: rows_at_def intro!: filter_True [symmetric])
  from downgrade_steps_run [OF plan _ _ refl rows sql run] True obtain v where v:
    "target \<le> v" "v \<le> ?from" "db_user_version db' = v" "rows_of db' = rows_at db v" "r' \<noteq> Inl Panicked"
    "\<forall>steps. r' = Inr steps \<longrightarrow> v = target \<and> map step_version steps = rev [target + 1..?from]" by auto
  have np: "r \<noteq> Inl Panicked" and rep: "\<forall>rep. r = Inr rep \<longrightarrow> v = target \<and> dr_to_version rep = target \<and>
      map step_version (dr_steps rep) = rev [target + 1..?from]"
    using v(5,6) r by (cases r'; auto)+
  have "w \<in> row_version ` set (rows_of db)" if "target \<le> w" "w \<le> ?from" for w
  proof (cases "w = target")
    case True
    then show ?thesis using \<open>_ \<and> _ \<and> _ \<and> _ \<and> find_row db target \<noteq> None \<and> _\<close>
      by (auto simp: find_row_def find_None_iff set_list_rows_desc_above)
  next
    case False
    with that have "w \<in> set (map row_version (planned db target))" by (simp add: plan)
    then show ?thesis by (auto simp: set_planned)
  qed
  then have "{target..?from} \<subseteq> row_version ` set (rows_of db)" by auto
  with True sql v np rep show ?thesis by (auto simp: set_planned)
qed

text \<open>a downgrade either changes nothing or moves back by whole migrations. On a bookkeeping table that
  keeps its constraints, \<open>downgrade_store\<close> never reaches its \<open>unreachable!\<close>. It refuses with an error and
  the database as it was; or the target lies between the baseline and the current version, every
  version from the target up has a row, every row above it is reversible, and the database ends at some
  version from the target up to where it began, having lost exactly the rows between the two. On
  success that version is the target and the steps are reported newest first.\<close>

theorem downgrade_refuses_or_steps_back:
  assumes "table_constraints (rows_of db)" and "downgrade_store mx txs requested db = (db', r)"
    and "target = (case requested of Some t \<Rightarrow> t | None \<Rightarrow> BASELINE_VERSION)"
  shows "r \<noteq> Inl Panicked \<and> (db' = db \<and> (\<exists>e. r = Inl (Raised e)) \<or>
    BASELINE_VERSION \<le> target \<and> target < db_user_version db \<and>
    {target..db_user_version db} \<subseteq> row_version ` set (rows_of db) \<and>
    (\<forall>row \<in> set (rows_of db). target < row_version row \<and> row_version row \<le> db_user_version db \<longrightarrow> row_down_sql row \<noteq> None) \<and>
    (\<exists>v. target \<le> v \<and> v \<le> db_user_version db \<and> db_user_version db' = v \<and> rows_of db' = rows_at db v \<and>
      (\<forall>rep. r = Inr rep \<longrightarrow> v = target \<and> dr_to_version rep = target \<and>
        map step_version (dr_steps rep) = rev [target + 1..db_user_version db])))"
  using assms by (rule downgrade_run)

definition sample_upgraded :: "string list database" where
  "sample_upgraded = \<lparr>db_user_version = 5,
     db_rows = Some [baseline_row sample_mx, row_for sample_mx sample_ctx (sample_migration [''CREATE TABLE a(x)''])],
     db_content = [''CREATE TABLE a(x)'']\<rparr>"

lemma sample_constraints: "table_constraints (rows_of sample_upgraded)"
  by (simp add: table_constraints_def rows_of_def sample_upgraded_def baseline_row_def row_for_def render_down_def
      sample_migration_def BASELINE_VERSION_def)

lemma downgrade_refuses_or_steps_back_witness:
  "\<exists>db' r. downgrade_store sample_mx (\<lambda>_. \<lparr>tx_begin = None, tx_commit = None\<rparr>) (Some 4) sample_upgraded = (db', r) \<and>
     r \<noteq> Inl Panicked \<and> (db' = sample_upgraded \<or> 4 \<le> db_user_version db' \<and> db_user_version db' \<le> 5)"
proof -
  obtain db' r where run:
    "downgrade_store sample_mx (\<lambda>_. \<lparr>tx_begin = None, tx_commit = None\<rparr>) (Some 4) sample_upgraded = (db', r)"
    by (metis prod.exhaust)
  have t: "4 = (case Some 4 of Some t \<Rightarrow> t | None \<Rightarrow> BASELINE_VERSION)" by simp
  have v: "db_user_version sample_upgraded = 5" by (simp add: sample_upgraded_def)
  from downgrade_refuses_or_steps_back [OF sample_constraints run t] run show ?thesis unfolding v by blast
qed

section \<open>Up and back down\<close>

text \<open>A migration whose stored down-statements undo what its up-step did to the content.\<close>

definition undoes :: "'d mig_ext \<Rightarrow> mig_context \<Rightarrow> 'd migration \<Rightarrow> bool" where
  "undoes mx ctx m \<longleftrightarrow> (\<exists>render. mg_down m = DownSql render \<and>
     (\<forall>db db1. run_up mx ctx (mg_up m) db = Inr db1 \<longrightarrow>
        try_fold (mx_execute mx) (render ctx) (db_content db1) = Inr (db_content db)))"

lemma replay_undoes_apply:
  assumes "undoes mx ctx m" "mg_version m = db_user_version db + 1" "db_rows db \<noteq> None" "apply_one mx ctx m db = Inr db1"
  shows "replay_one mx (row_for mx ctx m) db1 = Inr db"
proof -
  from apply_one_Inr [OF assms(4)] obtain d where up: "run_up mx ctx (mg_up m) db = Inr (db\<lparr>db_content := d\<rparr>)"
    and fresh: "mg_version m \<notin> row_version ` set (rows_of db)"
    and db1: "db1 = \<lparr>db_user_version = mg_version m, db_rows = Some (rows_of db @ [row_for mx ctx m]), db_content = d\<rparr>"
    by metis
  from assms(1) obtain render where down: "mg_down m = DownSql render"
    and undo: "\<forall>db db1. run_up mx ctx (mg_up m) db = Inr db1 \<longrightarrow>
        try_fold (mx_execute mx) (render ctx) (db_content db1) = Inr (db_content db)" unfolding undoes_def by blast
  have exec: "try_fold (mx_execute mx) (render ctx) d = Inr (db_content db)"
    using undo [rule_format, OF up] by simp
  have left: "filter (\<lambda>r. row_version r \<noteq> mg_version m) (rows_of db) = rows_of db"
    using fresh by (intro filter_True) (metis imageI)
  from assms(3) have rows: "db_rows db = Some (rows_of db)" by (auto simp: rows_of_def)
  then have "rows_of db = rs \<Longrightarrow> db = \<lparr>db_user_version = mg_version m - 1, db_rows = Some rs, db_content = db_content db\<rparr>" for rs
    using assms(2) by simp
  then show ?thesis
    using exec left by (simp add: replay_one_def row_for_fields render_down_def down db1 exec_all_def delete_row_def
        rows_of_def [of "\<lparr>db_user_version = _, db_rows = Some _, db_content = _\<rparr>"])
qed

lemma replay_undoes_run:
  "\<forall>j < length ms. mg_version (ms ! j) = db_user_version db + 1 + int j \<Longrightarrow> \<forall>m \<in> set ms. undoes mx ctx m \<Longrightarrow>
   db_rows db \<noteq> None \<Longrightarrow> distinct (map row_version (rows_of db)) \<Longrightarrow> try_fold (apply_one mx ctx) ms db = Inr db1 \<Longrightarrow>
   try_fold (replay_one mx) (rev (map (row_for mx ctx) ms)) db1 = Inr db \<and>
   rows_of db1 = rows_of db @ map (row_for mx ctx) ms \<and> distinct (map row_version (rows_of db1)) \<and>
   db_rows db1 \<noteq> None \<and> db_user_version db1 = db_user_version db + int (length ms)"
proof (induction ms arbitrary: db)
  case (Cons m ms)
  from Cons.prems(5) obtain dbm where one: "apply_one mx ctx m db = Inr dbm"
    and rest: "try_fold (apply_one mx ctx) ms dbm = Inr db1" by (auto split: sum.splits)
  have ver: "mg_version m = db_user_version db + 1" using Cons.prems(1) by force
  from apply_one_Inr [OF one] obtain d where dbm:
    "dbm = \<lparr>db_user_version = mg_version m, db_rows = Some (rows_of db @ [row_for mx ctx m]), db_content = d\<rparr>"
    and fresh: "mg_version m \<notin> row_version ` set (rows_of db)" by metis
  have rows: "rows_of dbm = rows_of db @ [row_for mx ctx m]" and um: "db_user_version dbm = db_user_version db + 1"
    and tm: "db_rows dbm \<noteq> None" by (simp_all add: dbm rows_of_def ver)
  have "\<forall>j < length ms. mg_version (ms ! j) = db_user_version dbm + 1 + int j"
    using Cons.prems(1) um by force
  moreover have "distinct (map row_version (rows_of dbm))"
    using Cons.prems(4) fresh by (auto simp: rows row_for_fields)
  ultimately have IH: "try_fold (replay_one mx) (rev (map (row_for mx ctx) ms)) db1 = Inr dbm \<and>
     rows_of db1 = rows_of dbm @ map (row_for mx ctx) ms \<and> distinct (map row_version (rows_of db1)) \<and>
     db_rows db1 \<noteq> None \<and> db_user_version db1 = db_user_version dbm + int (length ms)"
    using Cons.prems(2) rest tm by (intro Cons.IH) simp_all
  have "replay_one mx (row_for mx ctx m) dbm = Inr db"
    using Cons.prems(2,3) ver one by (intro replay_undoes_apply) simp_all
  then have "try_fold (replay_one mx) (rev (map (row_for mx ctx) (m # ms))) db1 = Inr db"
    using IH by (simp add: try_fold_append)
  moreover have "rows_of db1 = rows_of db @ map (row_for mx ctx) (m # ms)" using IH rows by simp
  moreover have "distinct (map row_version (rows_of db1))" "db_rows db1 \<noteq> None" using IH by blast+
  moreover have "db_user_version db1 = db_user_version db + int (length (m # ms))" using IH um by simp
  ultimately show ?case by blast
qed simp

lemma downgrade_steps_ok:
  "\<forall>i. tx_begin (txs i) = None \<and> tx_commit (txs i) = None \<Longrightarrow> try_fold (replay_one mx) ps db = Inr db' \<Longrightarrow>
   downgrade_steps mx txs i ps db = (db', Inr (map (\<lambda>p. \<lparr>step_version = row_version p, step_name = row_name p\<rparr>) ps))"
  by (induction ps arbitrary: i db) (auto simp: transact_def split: sum.splits)

lemma same_versions_same_rows:
  assumes "map row_version xs = map row_version ys" "set xs \<subseteq> set rows" "set ys \<subseteq> set rows" "distinct (map row_version rows)"
  shows "xs = ys"
proof -
  from assms(4) have "inj_on row_version (set rows)" by (simp add: distinct_map)
  then have "inj_on row_version (set xs \<union> set ys)" using assms(2,3) by (metis Un_least inj_on_subset)
  with assms(1) show ?thesis by (simp add: inj_on_map_eq_map)
qed

lemma versions_upto:
  "\<forall>j < length ms. mg_version (ms ! j) = v + 1 + int j \<Longrightarrow> map mg_version ms = [v + 1..v + int (length ms)]"
  by (rule nth_equalityI) auto

lemma verified_has_version:
  assumes "validate_chain chain = Inr ()" "verified mx chain ctx db"
    and "BASELINE_VERSION \<le> db_user_version db" "db_user_version db \<le> head_version chain"
  shows "db_user_version db \<in> row_version ` set (rows_of db)"
proof (cases "db_user_version db = BASELINE_VERSION")
  case True
  then show ?thesis using assms by (simp add: verify_checksums_iff_run history_complete_def)
next
  case False
  define j where "j = nat (db_user_version db - BASELINE_VERSION - 1)"
  have j: "j < length chain" "mg_version (chain ! j) = db_user_version db"
    using assms(3,4) False validate_chain_versions [OF assms(1), of j] by (auto simp: j_def head_version_def)
  moreover have "history_complete chain (db_user_version db) (rows_of db)"
    using assms(2) by (simp add: verify_checksums_iff_run [OF assms(1)])
  ultimately show ?thesis
    using assms(4) unfolding history_complete_def by (metis min.absorb1 nth_mem order_refl)
qed

lemma migrate_downgrade_run:
  assumes "verified mx chain ctx db" "BASELINE_VERSION \<le> db_user_version db" "db_user_version db < head_version chain"
    and "distinct (map row_version (rows_of db))" "\<forall>row \<in> set (rows_of db). row_version row \<le> db_user_version db"
    and "\<forall>m \<in> set chain. db_user_version db < mg_version m \<longrightarrow> undoes mx ctx m"
    and "apply_pending mx txs chain ctx db = (db1, events, Inr steps)"
    and "\<forall>i. tx_begin (txs' i) = None \<and> tx_commit (txs' i) = None"
  shows "\<exists>rep. downgrade_store mx txs' (Some (db_user_version db)) db1 = (db, Inr rep) \<and>
    map step_version (dr_steps rep) = rev (map step_version steps)"
proof -
  let ?v = "db_user_version db" and ?row = "row_for mx ctx"
  have valid: "validate_chain chain = Inr ()"
    using assms(7) by (cases "validate_chain chain") (auto simp: apply_pending_def)
  obtain k where k: "?v = BASELINE_VERSION + int k" using assms(2) by (metis zle_iff_zadd)
  define ms where "ms = drop k chain"
  have pend: "filter (\<lambda>m. ?v < mg_version m) chain = ms" unfolding ms_def k by (rule pending_is_drop [OF valid])
  have run: "try_fold (apply_one mx ctx) ms db = Inr db1" "db_user_version db1 = head_version chain"
    and steps: "steps = map step_of ms"
    using apply_pending_run [OF assms(1,2) less_imp_le [OF assms(3)] assms(7)] by (auto simp: pend Let_def)
  have idx: "\<forall>j < length ms. mg_version (ms ! j) = ?v + 1 + int j"
    unfolding ms_def using validate_chain_versions [OF valid] k by simp
  have undo: "\<forall>m \<in> set ms. undoes mx ctx m" using assms(6) unfolding pend [symmetric] by auto
  have some: "db_rows db \<noteq> None"
    using verified_has_version [OF valid assms(1,2) less_imp_le [OF assms(3)]] by (cases "db_rows db") (auto simp: rows_of_def)
  from replay_undoes_run [OF idx undo some assms(4) run(1)]
  have replay: "try_fold (replay_one mx) (rev (map ?row ms)) db1 = Inr db"
    and rows1: "rows_of db1 = rows_of db @ map ?row ms" and dist1: "distinct (map row_version (rows_of db1))"
    and some1: "db_rows db1 \<noteq> None" and ver1: "db_user_version db1 = ?v + int (length ms)" by blast+
  have vers: "map row_version (map ?row ms) = [?v + 1..?v + int (length ms)]"
    using versions_upto [OF idx] by (simp add: comp_def row_for_fields)
  have missing: "downgrade_missing ?v (db_user_version db1) (planned db1 ?v) = []"
  proof -
    have "w \<in> row_version ` set (planned db1 ?v)" if "?v + 1 \<le> w" "w \<le> ?v + int (length ms)" for w
    proof -
      have "w \<in> set (map row_version (map ?row ms))" unfolding vers using that by simp
      then obtain r where "r \<in> set (map ?row ms)" "row_version r = w" by auto
      with that show ?thesis by (intro image_eqI [of _ _ r]) (auto simp: set_planned rows1 ver1)
    qed
    then show ?thesis by (auto simp: downgrade_missing_def filter_empty_conv ver1)
  qed
  have plan: "planned db1 ?v = rev (map ?row ms)"
  proof (rule same_versions_same_rows [where rows = "rows_of db1"])
    show "map row_version (planned db1 ?v) = map row_version (rev (map ?row ms))"
      using planned_versions [OF dist1 missing] vers by (simp add: rev_map [symmetric] ver1)
  qed (use dist1 in \<open>auto simp: set_planned rows1\<close>)
  obtain kept where "kept \<in> set (rows_of db1)" "row_version kept = ?v"
    using verified_has_version [OF valid assms(1,2) less_imp_le [OF assms(3)]]
    unfolding rows1 set_append by (elim imageE) (metis UnI1)
  then have found: "find_row db1 ?v \<noteq> None"
    unfolding find_row_def find_None_iff set_list_rows_desc_above by force
  have reversible: "find (\<lambda>r. row_down_unsupported_reason r \<noteq> None) (planned db1 ?v) = None"
    using undo by (fastforce simp: find_None_iff plan row_for_fields render_down_def undoes_def)
  from downgrade_steps_ok [OF assms(8) replay] have down: "downgrade_steps mx txs' 0 (planned db1 ?v) db1 =
      (db, Inr (map (\<lambda>p. \<lparr>step_version = row_version p, step_name = row_name p\<rparr>) (planned db1 ?v)))"
    by (simp add: plan)
  have "downgrade_store mx txs' (Some ?v) db1 = (db, Inr \<lparr>dr_from_version = db_user_version db1, dr_to_version = ?v,
      dr_steps = map (\<lambda>p. \<lparr>step_version = row_version p, step_name = row_name p\<rparr>) (planned db1 ?v)\<rparr>)"
    using assms(2,3) run(2) some1 missing found reversible down
    unfolding downgrade_store_def Let_def planned_def [symmetric] by simp
  moreover have "map step_version (map (\<lambda>p. \<lparr>step_version = row_version p, step_name = row_name p\<rparr>) (planned db1 ?v)) =
      rev (map step_version steps)"
    by (simp add: plan steps rev_map comp_def row_for_fields)
  ultimately show ?thesis by auto
qed

text \<open>C36: migrating and downgrading back is the identity. If every pending migration's down-statements undo
  its up-step, a verified database without stale rows that \<open>apply_pending\<close> brings to the head is taken
  back by \<open>downgrade_store\<close> to the very database it was, content, version and bookkeeping rows, by the
  same steps in reverse order; the downgrade uses only what the rows store, never the chain.\<close>

theorem migrate_downgrade_roundtrip:
  assumes "verify_checksums mx db chain ctx (db_user_version db) = Inr ()"
    and "BASELINE_VERSION \<le> db_user_version db" "db_user_version db < head_version chain"
    and "distinct (map row_version (rows_of db))" "\<forall>row \<in> set (rows_of db). row_version row \<le> db_user_version db"
    and "\<forall>m \<in> set chain. db_user_version db < mg_version m \<longrightarrow> undoes mx ctx m"
    and "apply_pending mx txs chain ctx db = (db1, events, Inr steps)"
    and "\<forall>i. tx_begin (txs' i) = None \<and> tx_commit (txs' i) = None"
  shows "\<exists>rep. downgrade_store mx txs' (Some (db_user_version db)) db1 = (db, Inr rep) \<and>
    map step_version (dr_steps rep) = rev (map step_version steps)"
  using assms by (rule migrate_downgrade_run)

definition sample_chain :: "string list migration list" where
  "sample_chain = [sample_migration [''CREATE TABLE a(x)'']]"

lemma sample_chain_valid: "validate_chain sample_chain = Inr ()"
  by (simp add: validate_chain_def sample_chain_def sample_migration_def BASELINE_VERSION_def Let_def)

lemma sample_undoes: "undoes sample_mx sample_ctx (sample_migration [''CREATE TABLE a(x)''])"
  by (auto simp: undoes_def sample_migration_def run_up_def exec_all_Inr sample_mx_def)

lemma sample_apply: "apply_pending sample_mx (\<lambda>_. \<lparr>tx_begin = None, tx_commit = None\<rparr>) sample_chain sample_ctx sample_db =
  (sample_upgraded, [MigrationStarted 1, ApplyingStep 1 1 5 ''add_a''], Inr [\<lparr>step_version = 5, step_name = ''add_a''\<rparr>])"
  by (simp add: apply_pending_def sample_chain_valid, simp add: sample_chain_def sample_db_def sample_upgraded_def
      sample_migration_def ensure_table_def ensure_baseline_row_def rows_of_def baseline_row_def BASELINE_VERSION_def
      transact_def apply_step_def apply_one_def run_up_def exec_all_def insert_row_def row_for_def render_down_def)
    (simp add: sample_mx_def rows_of_def)

lemma migrate_downgrade_roundtrip_witness:
  "\<exists>rep. downgrade_store sample_mx (\<lambda>_. \<lparr>tx_begin = None, tx_commit = None\<rparr>) (Some 4) sample_upgraded = (sample_db, Inr rep)"
proof -
  have v: "verify_checksums sample_mx sample_db sample_chain sample_ctx (db_user_version sample_db) = Inr ()"
    using sample_verified [OF sample_chain_valid] by (simp add: sample_db_def BASELINE_VERSION_def)
  have "\<exists>rep. downgrade_store sample_mx (\<lambda>_. \<lparr>tx_begin = None, tx_commit = None\<rparr>) (Some (db_user_version sample_db)) sample_upgraded =
      (sample_db, Inr rep) \<and> map step_version (dr_steps rep) = rev (map step_version [\<lparr>step_version = 5, step_name = ''add_a''\<rparr>])"
    using sample_undoes
    by (intro migrate_downgrade_roundtrip [OF v _ _ _ _ _ sample_apply])
      (simp_all add: sample_db_def sample_chain_def head_version_def BASELINE_VERSION_def rows_of_def baseline_row_def)
  then show ?thesis by (auto simp: sample_db_def)
qed

end
