(* ===== verification/Vectors.thy ===== *)
theory Vectors
  imports Schema Floats StrOps
begin

text \<open>
  Vector literals (\<open>store-libsql/src/vectors.rs\<close>): packing the signs of an embedding into bytes, most
  significant bit first, and the SQL literals of the two encodings. How a float is printed is a
  parameter.
\<close>

unbundle bit_operations_syntax

text \<open>\<open>val >= 0.0\<close>: false for a value that is not a number.\<close>

definition ge_zero :: "flt \<Rightarrow> bool" where
  "ge_zero x = (case partial_cmp x (Num 0) of Some Gt \<Rightarrow> True | Some Eq \<Rightarrow> True | _ \<Rightarrow> False)"

text \<open>\<open>slice::chunks\<close> with a positive size.\<close>

function chunks :: "nat \<Rightarrow> 'a list \<Rightarrow> 'a list list" where
  "chunks n xs = (if n = 0 \<or> xs = [] then [] else take n xs # chunks n (drop n xs))"
  by pat_completeness auto
termination by (relation "measure (\<lambda>(n, xs). length xs)") auto

declare chunks.simps [simp del]

definition set_sign_bit :: "nat \<times> flt \<Rightarrow> u8 \<Rightarrow> u8" where
  "set_sign_bit = (\<lambda>(i, val) byte. if ge_zero val then byte OR push_bit (7 - i) 1 else byte)"

definition pack_byte :: "flt list \<Rightarrow> u8" where
  "pack_byte chunk = fold set_sign_bit (enumerate 0 chunk) 0"

definition binarize_msb :: "flt list \<Rightarrow> u8 list" where
  "binarize_msb v = map pack_byte (chunks 8 v)"

definition push_component :: "string \<Rightarrow> string \<Rightarrow> nat \<Rightarrow> string" where
  "push_component s component i = (if 0 < i then s @ '','' else s) @ component"

definition f32_to_vector32_sql :: "(flt \<Rightarrow> string) \<Rightarrow> flt list \<Rightarrow> string" where
  "f32_to_vector32_sql show_f32 v =
     fold (\<lambda>(i, val) s. push_component s (show_f32 val) i) (enumerate 0 v) (''vector32('' @ [CHR 0x27] @ ''['') @
     '']'' @ [CHR 0x27] @ '')''"

text \<open>The two nested loops; the \<open>break\<close> leaves the rest of a byte without effect.\<close>

definition push_bit_text :: "nat \<Rightarrow> u8 \<Rightarrow> nat \<Rightarrow> string \<times> nat \<Rightarrow> string \<times> nat" where
  "push_bit_text n_dims byte bit_pos = (\<lambda>(s, bit_index).
     if n_dims \<le> bit_index then (s, bit_index)
     else (push_component s (show_nat (unat (drop_bit bit_pos byte AND 1))) bit_index, bit_index + 1))"

definition f32_to_vector1bit_sql :: "flt list \<Rightarrow> string" where
  "f32_to_vector1bit_sql v =
     fst (fold (\<lambda>byte. fold (push_bit_text (length v) byte) (rev [0..<8])) (binarize_msb v)
       (''vector1bit('' @ [CHR 0x27] @ ''['', 0)) @ '']'' @ [CHR 0x27] @ '')''"

definition query_vector_sql :: "(flt \<Rightarrow> string) \<Rightarrow> flt list \<Rightarrow> vector_encoding \<Rightarrow> string" where
  "query_vector_sql show_f32 v encoding =
     (case encoding of Float32 \<Rightarrow> f32_to_vector32_sql show_f32 v | Binary \<Rightarrow> f32_to_vector1bit_sql v)"

section \<open>Packing\<close>

lemma bit_set_signs:
  "n + length c \<le> 8 \<Longrightarrow> bit (fold set_sign_bit (enumerate n c) b) p \<longleftrightarrow>
    bit b p \<or> (p < 8 \<and> n \<le> 7 - p \<and> 7 - p < n + length c \<and> ge_zero (c ! (7 - p - n)))"
proof (induction c arbitrary: n b)
  case (Cons x c)
  have one: "bit (set_sign_bit (n, x) b) p \<longleftrightarrow> bit b p \<or> (p < 8 \<and> 7 - p = n \<and> ge_zero x)"
    using Cons.prems by (auto simp: set_sign_bit_def bit_or_iff bit_exp_iff)
  have "Suc n + length c \<le> 8" using Cons.prems by simp
  note IH = Cons.IH [OF this, of "set_sign_bit (n, x) b"]
  consider "7 - p = n" | "n < 7 - p" | "7 - p < n" by linarith
  then show ?case
  proof cases
    case 2
    then have "7 - p - n = Suc (7 - p - Suc n)" by simp
    then have "(x # c) ! (7 - p - n) = c ! (7 - p - Suc n)" by simp
    with 2 show ?thesis by (simp add: IH one)
  qed (auto simp: IH one)
qed fastforce

lemma bit_pack_byte:
  assumes "length c \<le> 8"
  shows "bit (pack_byte c) p \<longleftrightarrow> p < 8 \<and> 7 - p < length c \<and> ge_zero (c ! (7 - p))"
  using bit_set_signs [of 0 c 0 p] assms by (simp add: pack_byte_def)

lemma length_chunks: "0 < n \<Longrightarrow> length (chunks n xs) = (length xs + n - 1) div n"
proof (induction n xs rule: chunks.induct)
  case (1 n xs)
  show ?case
  proof (cases "xs = []")
    case True
    with 1 show ?thesis by (simp add: chunks.simps)
  next
    case False
    have step: "(length xs + n - 1) div n = Suc ((length xs - n + n - 1) div n)"
    proof (cases "n \<le> length xs")
      case True
      then have "length xs + n - 1 = (length xs - n + n - 1) + n" using 1(2) by simp
      then show ?thesis using 1(2) by (metis add.commute div_add_self2 add_Suc_right add_0_right neq0_conv Suc_eq_plus1)
    next
      case False
      then have "length xs + n - 1 = (length xs - 1) + n" "length xs - 1 < n" "n - 1 < n"
        using \<open>xs \<noteq> []\<close> 1(2) by (cases xs; simp)+
      moreover have "length xs - n = 0" using False by simp
      ultimately show ?thesis using 1(2) by (simp only: div_add_self2) (simp add: div_add_self2)
    qed
    have "length (chunks n xs) = Suc (length (chunks n (drop n xs)))"
      using 1(2) False by (subst chunks.simps) simp
    with 1 False step show ?thesis by simp
  qed
qed

lemma nth_chunks: "0 < n \<Longrightarrow> i < length (chunks n xs) \<Longrightarrow> chunks n xs ! i = take n (drop (i * n) xs)"
proof (induction n xs arbitrary: i rule: chunks.induct)
  case (1 n xs)
  show ?case
  proof (cases "xs = []")
    case False
    with 1(2) have c: "chunks n xs = take n xs # chunks n (drop n xs)" by (subst chunks.simps) simp
    show ?thesis
    proof (cases i)
      case (Suc j)
      with 1 False c show ?thesis by (simp add: add.commute)
    qed (simp add: c)
  qed (use 1 in \<open>simp add: chunks.simps\<close>)
qed

section \<open>The one-bit literal\<close>

definition bit_text :: "u8 \<times> nat \<Rightarrow> string" where
  "bit_text = (\<lambda>(byte, pos). show_nat (unat (drop_bit pos byte AND 1)))"

lemma bit_text_value: "bit_text (byte, pos) = (if bit byte pos then ''1'' else ''0'')"
proof -
  have "drop_bit pos byte AND 1 = (if bit byte pos then 1 else 0)"
    by (rule bit_word_eqI, rename_tac k, case_tac k) (auto simp: bit_and_iff bit_drop_bit_eq bit_1_iff)
  moreover have "show_nat 0 = ''0''" "show_nat 1 = ''1''" by code_simp+
  ultimately show ?thesis by (simp add: bit_text_def)
qed

lemma join_snoc: "join sep (xs @ [x]) = (if xs = [] then x else join sep xs @ sep @ x)"
  by (induction sep xs rule: join.induct) auto

lemma fold_push_bit_texts:
  "length xs \<le> n \<Longrightarrow> fold (\<lambda>(byte, pos). push_bit_text n byte pos) bps (pre @ join '','' xs, length xs) =
    (pre @ join '','' (take n (xs @ map bit_text bps)), length (take n (xs @ map bit_text bps)))"
proof (induction bps arbitrary: xs)
  case (Cons bp bps)
  obtain byte pos where bp: "bp = (byte, pos)" by (cases bp)
  show ?case
  proof (cases "length xs = n")
    case True
    then have "push_bit_text n byte pos (pre @ join '','' xs, length xs) = (pre @ join '','' xs, length xs)"
      by (simp add: push_bit_text_def)
    with Cons.IH [OF Cons.prems] True show ?thesis by (simp add: bp)
  next
    case False
    then have "push_bit_text n byte pos (pre @ join '','' xs, length xs) =
        (pre @ join '','' (xs @ [bit_text bp]), length (xs @ [bit_text bp]))"
      using Cons.prems by (auto simp: push_bit_text_def push_component_def join_snoc bit_text_def bp)
    with Cons.IH [of "xs @ [bit_text bp]"] False Cons.prems show ?thesis by (simp add: bp)
  qed
qed simp

lemma fold_bytes:
  "fold (\<lambda>byte. fold (push_bit_text n byte) ps) bytes st =
   fold (\<lambda>(byte, pos). push_bit_text n byte pos) (concat (map (\<lambda>byte. map (Pair byte) ps) bytes)) st"
proof (induction bytes arbitrary: st)
  case (Cons byte bytes)
  have "fold (push_bit_text n byte) qs st = fold (\<lambda>(byte, pos). push_bit_text n byte pos) (map (Pair byte) qs) st" for qs st
    by (induction qs arbitrary: st) simp_all
  with Cons show ?case by simp
qed simp

definition sign_text :: "flt \<Rightarrow> string" where
  "sign_text x = (if ge_zero x then ''1'' else ''0'')"

lemma byte_texts:
  assumes "length c \<le> 8"
  shows "take (length c) (map bit_text (map (Pair (pack_byte c)) (rev [0..<8]))) = map sign_text c"
proof (rule nth_equalityI)
  fix i assume "i < length (take (length c) (map bit_text (map (Pair (pack_byte c)) (rev [0..<8]))))"
  then have "i < length c" "i < 8" "7 - i < (8 :: nat)" using assms by simp_all
  then show "take (length c) (map bit_text (map (Pair (pack_byte c)) (rev [0..<8]))) ! i = map sign_text c ! i"
    by (simp add: rev_nth bit_text_value bit_pack_byte [OF assms] sign_text_def)
qed (use assms in simp)

lemma all_texts:
  "take (length v) (map bit_text (concat (map (\<lambda>byte. map (Pair byte) (rev [0..<8])) (binarize_msb v)))) = map sign_text v"
proof (induction "8 :: nat" v rule: chunks.induct)
  case (1 v)
  show ?case
  proof (cases "v = []")
    case False
    let ?head = "map bit_text (map (Pair (pack_byte (take 8 v))) (rev [0..<8]))"
    let ?tail = "map bit_text (concat (map (\<lambda>byte. map (Pair byte) (rev [0..<8])) (binarize_msb (drop 8 v))))"
    have split: "map bit_text (concat (map (\<lambda>byte. map (Pair byte) (rev [0..<8])) (binarize_msb v))) = ?head @ ?tail"
      unfolding binarize_msb_def using False by (subst chunks.simps) simp
    have IH: "take (length (drop 8 v)) ?tail = map sign_text (drop 8 v)" using 1 False by simp
    have len: "length ?head = 8" by simp
    show ?thesis
    proof (cases "length v \<le> 8")
      case True
      then show ?thesis unfolding split take_append len using byte_texts [of v] by simp
    next
      case f: False
      then have "take (length v) ?head = map sign_text (take 8 v)" using byte_texts [of "take 8 v"] by simp
      moreover have "take (length v - 8) ?tail = map sign_text (drop 8 v)" using IH by simp
      ultimately show ?thesis unfolding split take_append len by (metis append_take_drop_id map_append)
    qed
  qed simp
qed

text \<open>The one-bit encoding keeps exactly the signs. \<open>binarize_msb\<close> uses one byte for every eight
  components, rounded up; bit \<open>7 - i mod 8\<close> of byte \<open>i div 8\<close> is set exactly when component \<open>i\<close> exists and
  is not negative (so a value that is not a number counts as negative and the padding is zero); and the
  SQL literal made from those bytes lists one digit per component, in order, with none for the padding.\<close>

theorem vector1bit_literal:
  "length (binarize_msb v) = (length v + 7) div 8 \<and>
   (\<forall>i. i < 8 * length (binarize_msb v) \<longrightarrow>
      bit (binarize_msb v ! (i div 8)) (7 - i mod 8) = (i < length v \<and> ge_zero (v ! i))) \<and>
   f32_to_vector1bit_sql v = ''vector1bit('' @ [CHR 0x27] @ ''['' @
     join '','' (map (\<lambda>x. if ge_zero x then ''1'' else ''0'') v) @ '']'' @ [CHR 0x27] @ '')''"
proof (intro conjI allI impI)
  show "length (binarize_msb v) = (length v + 7) div 8" by (simp add: binarize_msb_def length_chunks)
  fix i assume i: "i < 8 * length (binarize_msb v)"
  then have j: "i div 8 < length (chunks 8 v)" by (simp add: binarize_msb_def div_less_iff_less_mult mult.commute)
  have i8: "i = i div 8 * 8 + i mod 8" by simp
  have "bit (binarize_msb v ! (i div 8)) (7 - i mod 8) = bit (pack_byte (take 8 (drop (i div 8 * 8) v))) (7 - i mod 8)"
    using j by (simp add: binarize_msb_def nth_chunks)
  also have "\<dots> = (i mod 8 < length (drop (i div 8 * 8) v) \<and> ge_zero (take 8 (drop (i div 8 * 8) v) ! (i mod 8)))"
    using less_imp_diff_less [of 7 8 "i mod 8"] by (simp add: bit_pack_byte)
  also have "\<dots> = (i < length v \<and> ge_zero (v ! i))"
    using i8 by (auto simp: less_diff_conv add.commute)
  finally show "bit (binarize_msb v ! (i div 8)) (7 - i mod 8) = (i < length v \<and> ge_zero (v ! i))" .
next
  show "f32_to_vector1bit_sql v = ''vector1bit('' @ [CHR 0x27] @ ''['' @
     join '','' (map (\<lambda>x. if ge_zero x then ''1'' else ''0'') v) @ '']'' @ [CHR 0x27] @ '')''"
    using fold_push_bit_texts [of "[]" "length v" _ "''vector1bit('' @ [CHR 0x27] @ ''[''"] all_texts [of v]
    by (simp add: f32_to_vector1bit_sql_def fold_bytes sign_text_def [abs_def])
qed

lemma vector1bit_literal_witness:
  "bit (binarize_msb [Num 1, Num (- 1), NaN, Num 0] ! 0) 7 \<and> \<not> bit (binarize_msb [Num 1, Num (- 1), NaN, Num 0] ! 0) 6 \<and>
   \<not> bit (binarize_msb [Num 1, Num (- 1), NaN, Num 0] ! 0) 5 \<and> bit (binarize_msb [Num 1, Num (- 1), NaN, Num 0] ! 0) 4"
proof -
  let ?v = "[Num 1, Num (- 1), NaN, Num 0]"
  have len: "length (binarize_msb ?v) = 1" using vector1bit_literal [of ?v] by simp
  have bits: "i < 8 \<Longrightarrow> bit (binarize_msb ?v ! (i div 8)) (7 - i mod 8) = (i < length ?v \<and> ge_zero (?v ! i))" for i
    using vector1bit_literal [of ?v] len by simp
  show ?thesis
    using bits [of 0] bits [of 1] bits [of 2] bits [of 3] by (simp add: ge_zero_def ord_cmp_def)
qed

end
