(* ===== verification/IndexResource.thy ===== *)
theory IndexResource
  imports Chunking JobQueue
begin

text \<open>
  Indexing one resource (\<open>core/src/ingestion/pipeline.rs\<close>, \<open>chunker/preset.rs\<close>): the state derived from
  it, the chunker it gets, and \<open>index_resource\<close>, which chunks, embeds and then writes. The store is a
  value that the operations of \<open>store_ops\<close> change; they may fail. The embedder, the clock, JSON, the
  \<open>url\<close> crate's path segments, \<open>str::to_lowercase\<close> and the text of a panic are parameters.
\<close>

section \<open>Resources, sources and configuration\<close>

datatype resource_kind = DocumentResource | ConversationResource | TranscriptionResource

record resource =
  rs_id :: string
  rs_store_id :: string
  rs_source_id :: string
  rs_ingestor_kind :: ingestor_kind
  rs_resource_kind :: resource_kind
  rs_uri :: string
  rs_external_id :: "string option"
  rs_external_etag :: "string option"
  rs_external_last_modified :: "string option"
  rs_content_hash :: string
  rs_title :: "string option"
  rs_mime :: "string option"
  rs_metadata :: metadata
  rs_added_at :: string
  rs_modified_at :: "string option"
  rs_thread_id :: "string option"
  rs_channel :: "string option"
  rs_participants :: "string list"
  rs_origin_store :: string
  rs_policy_version :: string
  rs_share_path :: "string option"
  rs_extractor_version :: string
  rs_blocks :: "block list"

datatype source_kind = PathKind | UrlKind | FeedKind

datatype source_spec =
    PathSpec string "string list" "string list"
  | UrlSpec string "u64 option"
  | FeedSpec string "u32 option" bool "u64 option"

record source =
  src_id :: string
  src_store_id :: string
  src_kind :: source_kind
  src_spec :: source_spec
  src_preset :: string

record ingestion_config =
  ic_store_id :: string
  ic_policy_version :: string
  ic_chunker :: chunker_config

record stale_feed_resource =
  sf_resource_id :: string
  sf_uri :: string
  sf_external_etag :: "string option"
  sf_external_last_modified :: "string option"

text \<open>The operations of \<open>RetrievalStore\<close> the pipeline calls; the state is returned on error too.\<close>

record 's store_ops =
  so_upsert :: "string \<Rightarrow> string \<Rightarrow> chunk_record list \<Rightarrow> block list \<Rightarrow> string option \<Rightarrow> string option \<Rightarrow> 's \<Rightarrow> 's \<times> (error + nat)"
  so_delete_by_resource :: "string \<Rightarrow> 's \<Rightarrow> 's \<times> (error + nat)"
  so_get_resource_record :: "string \<Rightarrow> string \<Rightarrow> 's \<Rightarrow> error + resource_record option"
  so_update_resource_metadata :: "string \<Rightarrow> string \<Rightarrow> resource_record \<Rightarrow> 's \<Rightarrow> 's \<times> (error + unit)"
  so_touch_resource_checked :: "string \<Rightarrow> string \<Rightarrow> 's \<Rightarrow> 's \<times> (error + unit)"
  so_list_stale_feed_resources :: "string \<Rightarrow> string \<Rightarrow> string \<Rightarrow> nat \<Rightarrow> 's \<Rightarrow> error + stale_feed_resource list"
  so_touch_resource_liveness :: "string \<Rightarrow> string \<Rightarrow> string option \<Rightarrow> string option \<Rightarrow> 's \<Rightarrow> 's \<times> (error + unit)"

record 'i ingest_ext =
  ie_chunk :: chunk_ext
  ie_chrono :: "'i chrono_api"
  ie_to_json :: "metadata \<Rightarrow> string"
  ie_token_counter :: "sizer option"
  ie_embed_documents :: "(string \<times> string list) list \<Rightarrow> error + flt list list list"
  ie_path_segments :: "string \<Rightarrow> string list option"
  ie_to_lowercase :: "string \<Rightarrow> string"
  ie_panic_text :: string
  ie_now :: string

section \<open>Chunker selection\<close>

definition CODE_EXTS :: "string list" where
  "CODE_EXTS = [''rs'', ''py'', ''js'', ''mjs'', ''ts'', ''tsx'', ''json'', ''yaml'', ''yml'', ''toml'', ''lock'', ''c'', ''h'',
     ''cpp'', ''hpp'', ''go'', ''java'', ''rb'', ''php'', ''sh'', ''css'', ''scss'', ''sql'', ''csv'', ''xml'', ''ini'',
     ''cfg'', ''xlsx'', ''xls'']"

definition PROSE_EXTS :: "string list" where
  "PROSE_EXTS = [''md'', ''markdown'', ''html'', ''htm'', ''pdf'', ''txt'', ''text'']"

definition LOCKFILE_BASENAMES :: "string list" where
  "LOCKFILE_BASENAMES = [''Cargo.lock'', ''package-lock.json'', ''yarn.lock'', ''poetry.lock'', ''Gemfile.lock'']"

text \<open>\<open>Path::file_name\<close>: the last component, if it is a normal one; and \<open>Path::extension\<close>.\<close>

definition path_file_name :: "string \<Rightarrow> string option" where
  "path_file_name name =
     (case rev (filter (\<lambda>c. c \<noteq> [] \<and> c \<noteq> ''.'') (split_on (CHR ''/'') name)) of
        [] \<Rightarrow> None
      | c # cs \<Rightarrow> if c = ''..'' then None else Some c)"

definition path_extension :: "string \<Rightarrow> string option" where
  "path_extension name =
     (case path_file_name name of
        None \<Rightarrow> None
      | Some f \<Rightarrow>
          let ext = rev (takeWhile (\<lambda>c. c \<noteq> CHR ''.'') (rev f));
              stem = rev (drop 1 (dropWhile (\<lambda>c. c \<noteq> CHR ''.'') (rev f)))
          in if stem = [] then None else Some ext)"

definition preset_for :: "(string \<Rightarrow> string) \<Rightarrow> string option \<Rightarrow> string option \<Rightarrow> string" where
  "preset_for to_lowercase filename mime =
     (let by_name =
            (case filename of
               None \<Rightarrow> ''prose''
             | Some name \<Rightarrow>
                 let basename = (case path_file_name name of Some b \<Rightarrow> b | None \<Rightarrow> name)
                 in if basename \<in> set LOCKFILE_BASENAMES then ''code''
                    else case path_extension name of
                           None \<Rightarrow> ''prose''
                         | Some ext \<Rightarrow>
                             if to_lowercase ext \<in> set CODE_EXTS then ''code''
                             else if to_lowercase ext \<in> set PROSE_EXTS then ''prose''
                             else ''prose'')
      in case mime of
           None \<Rightarrow> by_name
         | Some m \<Rightarrow>
             if m = ''application/json'' \<or> take 7 m = ''text/x-'' then ''code''
             else if m = ''text/plain'' then ''prose''
             else by_name)"

definition scale_to_chars :: "chunker_config \<Rightarrow> chunker_config" where
  "scale_to_chars config =
     (if cc_preset config \<noteq> ''prose'' then config
      else config\<lparr>cc_target_tokens := Some (resolved_target_tokens config * 4),
                  cc_overlap_tokens := Some (resolved_overlap_tokens config * 4)\<rparr>)"

definition effective_chunker_config ::
  "(string \<Rightarrow> string) \<Rightarrow> string \<Rightarrow> chunker_config \<Rightarrow> string option \<Rightarrow> string option \<Rightarrow> chunker_config" where
  "effective_chunker_config to_lowercase source_preset base_chunker filename_hint mime =
     (if source_preset \<noteq> ''prose'' then base_chunker
      else if preset_for to_lowercase filename_hint mime = ''code'' then config_code
      else base_chunker)"

definition filename_hint_from_uri :: "(string \<Rightarrow> string list option) \<Rightarrow> string \<Rightarrow> string option" where
  "filename_hint_from_uri path_segments uri =
     (case path_segments uri of
        None \<Rightarrow> None
      | Some segments \<Rightarrow>
          (case rev segments of
             [] \<Rightarrow> None
           | last_segment # _ \<Rightarrow> if last_segment = [] then None else Some last_segment))"

section \<open>The derived state of a resource\<close>

record derived_resource_state =
  ds_metadata :: metadata
  ds_metadata_hash :: string
  ds_date_original :: "string option"
  ds_date_parsed :: "string option"
  ds_modified_at :: "string option"

definition derive_resource_state :: "'i ingest_ext \<Rightarrow> resource \<Rightarrow> derived_resource_state" where
  "derive_resource_state ext res =
     (let metadata = (if dc_title (metadata_dc (rs_metadata res)) = None
                      then (case rs_title res of
                              Some title \<Rightarrow> update_dc (\<lambda>dc. dc\<lparr>dc_title := Some title\<rparr>) (rs_metadata res)
                            | None \<Rightarrow> rs_metadata res)
                      else rs_metadata res);
          date_original = dc_date (metadata_dc metadata)
      in \<lparr>ds_metadata = metadata,
          ds_metadata_hash = compute_metadata_hash (ext_hash (ie_chunk ext)) (ie_to_json ext) metadata
            (rs_external_id res) (rs_external_etag res) (rs_modified_at res),
          ds_date_original = date_original,
          ds_date_parsed = Option.bind date_original (parse_partial_iso8601 (ie_chrono ext)),
          ds_modified_at = rs_modified_at res\<rparr>)"

section \<open>Indexing\<close>

datatype index_outcome = Written nat string | Empty

text \<open>\<open>catch_panic\<close>: a panic becomes an error of the document.\<close>

definition catch_panic :: "string \<Rightarrow> string \<Rightarrow> fault + 'a \<Rightarrow> error + 'a" where
  "catch_panic panic_text label r =
     (case r of
        Inr a \<Rightarrow> Inr a
      | Inl (Raised e) \<Rightarrow> Inl e
      | Inl Panicked \<Rightarrow> Inl (Internal (label @ '' panicked: '' @ panic_text)
          (map (\<lambda>c. if c = CHR '' '' then CHR ''_'' else c) label)))"

definition provenance_of :: "ingestion_config \<Rightarrow> resource \<Rightarrow> provenance" where
  "provenance_of config res =
     \<lparr>pv_origin_store = ic_store_id config,
      pv_source_ref = \<lparr>sref_id = rs_source_id res, sref_kind = ingestor_kind_str (rs_ingestor_kind res)\<rparr>,
      pv_fetched_at = rs_added_at res, pv_content_hash = rs_content_hash res, pv_share_path = []\<rparr>"

definition page_by_seq :: "block list \<Rightarrow> u32 \<Rightarrow> u32 option" where
  "page_by_seq blocks seq =
     map_of (rev (List.map_filter (\<lambda>b. case block_location_of b of
                     None \<Rightarrow> None
                   | Some loc \<Rightarrow> (case loc_page loc of None \<Rightarrow> None | Some page \<Rightarrow> Some (block_seq b, page))) blocks)) seq"

definition record_of ::
  "'i ingest_ext \<Rightarrow> ingestion_config \<Rightarrow> resource \<Rightarrow> chunk_output \<Rightarrow> flt list \<Rightarrow> chunk_record" where
  "record_of ext config res out embedding =
     (let derived = derive_resource_state ext res;
          c = \<lparr>chunk_id = co_id out, chunk_resource_id = rs_id res, chunk_store_id = ic_store_id config,
               chunk_text = co_text out, chunk_span = co_span out, chunk_heading_path = co_heading_path out,
               chunk_policy_version = ic_policy_version config, chunk_provenance = provenance_of config res,
               chunk_window_block_seqs = co_window_block_seqs out\<rparr>
      in (from_chunk c embedding (rs_uri res) (rs_mime res) (ds_metadata derived))
           \<lparr>cr_block_seq := co_block_seq out, cr_seq_in_block := co_seq_in_block out,
            cr_block_kind := co_block_kind out, cr_page := page_by_seq (rs_blocks res) (co_block_seq out),
            cr_modified_at := ds_modified_at derived, cr_date_original := ds_date_original derived,
            cr_date_parsed := ds_date_parsed derived, cr_external_id := rs_external_id res,
            cr_external_etag := rs_external_etag res\<rparr>)"

text \<open>Everything before the write: the chunks and their vectors, or \<open>None\<close> for no chunks at all.\<close>

definition chunk_and_embed ::
  "'i ingest_ext \<Rightarrow> ingestion_config \<Rightarrow> resource \<Rightarrow> source \<Rightarrow> error + (chunk_output list \<times> flt list list) option" where
  "chunk_and_embed ext config res source =
     (let sizer = (case ie_token_counter ext of Some f \<Rightarrow> f | None \<Rightarrow> char_sizer);
          filename_hint = filename_hint_from_uri (ie_path_segments ext) (rs_uri res);
          effective_chunker = effective_chunker_config (ie_to_lowercase ext) (src_preset source) (ic_chunker config)
            filename_hint (rs_mime res);
          chunker_cfg = (if ie_token_counter ext = None then scale_to_chars effective_chunker else effective_chunker)
      in and_then (catch_panic (ie_panic_text ext) ''chunk''
             (chunk_blocks (ie_chunk ext) (rs_id res) (rs_blocks res) chunker_cfg sizer)) (\<lambda>chunk_outputs.
         if chunk_outputs = [] then Inr None
         else let document_context = join [CHR 0x0A, CHR 0x0A] (map block_text (rs_blocks res))
              in and_then (ie_embed_documents ext [(document_context, map co_text chunk_outputs)]) (\<lambda>embedded.
                 case embedded of
                   [embeddings] \<Rightarrow>
                     (if length embeddings \<noteq> length chunk_outputs
                      then Inl (Internal (''embedder returned '' @ show_nat (length embeddings) @ '' vectors for '' @
                             show_nat (length chunk_outputs) @ '' chunks'') ''embed_chunk_count_mismatch'')
                      else Inr (Some (chunk_outputs, embeddings)))
                 | _ \<Rightarrow> Inl (Internal (''embedder returned '' @ show_nat (length embedded) @
                          '' EmbeddedDocuments for 1 input document'') ''embed_count_mismatch''))))"

definition index_resource ::
  "'i ingest_ext \<Rightarrow> 's store_ops \<Rightarrow> ingestion_config \<Rightarrow> resource \<Rightarrow> source \<Rightarrow> string option \<Rightarrow> 's \<Rightarrow>
   's \<times> (error + index_outcome)" where
  "index_resource ext ops config res source replaces_resource_id s =
     (case chunk_and_embed ext config res source of
        Inl e \<Rightarrow> (s, Inl e)
      | Inr None \<Rightarrow> (s, Inr Empty)
      | Inr (Some (chunk_outputs, embeddings)) \<Rightarrow>
          (let records = map (\<lambda>(out, embedding). record_of ext config res out embedding) (zip chunk_outputs embeddings);
               written = length records
           in case so_upsert ops (ic_store_id config) (rs_id res) records (rs_blocks res) replaces_resource_id
                     (rs_external_last_modified res) s of
                (s', Inl e) \<Rightarrow> (s', Inl e)
              | (s', Inr _) \<Rightarrow> (s', Inr (Written written (ds_metadata_hash (derive_resource_state ext res))))))"

end
