(* ===== verification/Ingestor.thy ===== *)
theory Ingestor
  imports IndexResource
begin

text \<open>
  The ingestor contract (\<open>core/src/ingestor.rs\<close>) and the fetcher's results (\<open>core/src/ingestion/deps.rs\<close>).
  An ingestor is a program that calls the callback it is given and goes on with the reply, until it
  returns: the tree of its calls, with everything it reads from outside (files, network) already in it.
\<close>

text \<open>\<open>FetchMetadata\<close> is the record \<open>validators\<close>.\<close>

definition no_validators :: validators where
  "no_validators = \<lparr>v_etag = None, v_last_modified = None\<rparr>"

datatype fetch_result =
    Downloaded string "string option" "string option" "string option" "string option"
  | NotModified "string option" "string option"
  | FetchGone
  | Blocked

datatype skip_reason = SkipUnchanged | SkipUnsupported | SkipOther string | SkipError string | SkipMetadataUpdated | SkipFresh

datatype metadata_write_outcome = WriteUnchanged | WriteDone | WriteFailed string

fun merge_outcome :: "metadata_write_outcome \<Rightarrow> metadata_write_outcome \<Rightarrow> metadata_write_outcome" where
  "merge_outcome (WriteFailed m) _ = WriteFailed m"
| "merge_outcome _ (WriteFailed m) = WriteFailed m"
| "merge_outcome WriteDone _ = WriteDone"
| "merge_outcome _ WriteDone = WriteDone"
| "merge_outcome _ _ = WriteUnchanged"

datatype enumeration = Complete | Incomplete string

record due_recheck_entry =
  du_locator :: string
  du_uri :: string
  du_enrichment :: enrichment
  du_external_id :: "string option"
  du_modified_at :: "string option"

section \<open>Configuration as JSON\<close>

text \<open>
  \<open>serde_json::Value\<close> and its accessors, and what \<open>serde\<close> makes of a \<open>SourceSpec\<close> (tagged by \<open>type\<close>, in
  lower case).
\<close>

datatype json = JNull | JBool bool | JNumber int | JString string | JArray "json list" | JObject "(string \<times> json) list"

fun json_get :: "string \<Rightarrow> json \<Rightarrow> json option" where
  "json_get k (JObject entries) = map_of entries k"
| "json_get k _ = None"

fun as_str :: "json \<Rightarrow> string option" where
  "as_str (JString s) = Some s"
| "as_str _ = None"

fun as_array :: "json \<Rightarrow> json list option" where
  "as_array (JArray xs) = Some xs"
| "as_array _ = None"

fun as_bool :: "json \<Rightarrow> bool option" where
  "as_bool (JBool b) = Some b"
| "as_bool _ = None"

fun as_u64 :: "json \<Rightarrow> nat option" where
  "as_u64 (JNumber n) = (if 0 \<le> n \<and> n < 2 ^ 64 then Some (nat n) else None)"
| "as_u64 _ = None"

definition json_option :: "('a \<Rightarrow> json) \<Rightarrow> 'a option \<Rightarrow> json" where
  "json_option f v = (case v of None \<Rightarrow> JNull | Some a \<Rightarrow> f a)"

fun spec_to_json :: "source_spec \<Rightarrow> json" where
  "spec_to_json (PathSpec dir include exclude) =
     JObject [(''type'', JString ''path''), (''root'', JString dir), (''include'', JArray (map JString include)),
       (''exclude'', JArray (map JString exclude))]"
| "spec_to_json (UrlSpec url refresh) =
     JObject [(''type'', JString ''url''), (''url'', JString url),
       (''refresh_interval_secs'', json_option (\<lambda>n. JNumber (uint n)) refresh)]"
| "spec_to_json (FeedSpec url max_entries fetch_full_content refresh) =
     JObject [(''type'', JString ''feed''), (''url'', JString url),
       (''max_entries'', json_option (\<lambda>n. JNumber (uint n)) max_entries), (''fetch_full_content'', JBool fetch_full_content),
       (''refresh_interval_secs'', json_option (\<lambda>n. JNumber (uint n)) refresh)]"

section \<open>Ingestors\<close>

record ingest_source =
  isrc_source_id :: string
  isrc_store_id :: string
  isrc_ingestor_kind :: ingestor_kind
  isrc_config :: json
  isrc_policy_version :: string
  isrc_document_validators :: validators

record ingest_result =
  ig_produced :: nat
  ig_skipped :: nat
  ig_errors :: nat
  ig_enumeration :: enumeration
  ig_document_validators :: "validators option"

definition default_ingest_result :: ingest_result where
  "default_ingest_result = \<lparr>ig_produced = 0, ig_skipped = 0, ig_errors = 0, ig_enumeration = Complete,
     ig_document_validators = None\<rparr>"

text \<open>One constructor per method of \<open>IngestCallback\<close>, and what the methods return.\<close>

datatype ingest_call =
    OnResource resource
  | OnResourceFallback resource
  | OnDiscovered nat
  | OnSkipped string skip_reason
  | OnGone string
  | LookupFetchMetadata string
  | RecheckIsDue string enrichment "string option" "string option"
  | OnValidatorsRefreshed string validators
  | OnMetadataRefreshed string enrichment "string option" "string option"
  | DueEntriesForSource

datatype ingest_reply =
    NoReply
  | ValidatorsReply validators
  | DueReply bool
  | WriteReply metadata_write_outcome
  | EntriesReply "due_recheck_entry list"

datatype 'a ingest_prog =
    Finish 'a
  | Call ingest_call "ingest_reply \<Rightarrow> 'a ingest_prog"

record ingestor =
  in_kind :: ingestor_kind
  in_ingest :: "ingest_source \<Rightarrow> (error + ingest_result) ingest_prog"

text \<open>Sequencing, and a call whose reply is nothing.\<close>

primrec bind_prog :: "'a ingest_prog \<Rightarrow> ('a \<Rightarrow> 'b ingest_prog) \<Rightarrow> 'b ingest_prog" where
  "bind_prog (Finish a) f = f a"
| "bind_prog (Call c k) f = Call c (\<lambda>r. bind_prog (k r) f)"

definition tell :: "ingest_call \<Rightarrow> 'a ingest_prog \<Rightarrow> 'a ingest_prog" where
  "tell c p = Call c (\<lambda>_. p)"

text \<open>The loops of an ingestor: a fold over the items with the counters as the accumulator.\<close>

primrec for_each :: "('x \<Rightarrow> 'a \<Rightarrow> 'a ingest_prog) \<Rightarrow> 'x list \<Rightarrow> 'a \<Rightarrow> 'a ingest_prog" where
  "for_each body [] a = Finish a"
| "for_each body (x # xs) a = bind_prog (body x a) (for_each body xs)"

text \<open>A property of every call a program can make, whatever it is told.\<close>

primrec all_calls :: "(ingest_call \<Rightarrow> bool) \<Rightarrow> 'a ingest_prog \<Rightarrow> bool" where
  "all_calls P (Finish a) = True"
| "all_calls P (Call c k) = (P c \<and> (\<forall>r. all_calls P (k r)))"

lemma all_calls_tell [simp]: "all_calls P (tell c p) \<longleftrightarrow> P c \<and> all_calls P p"
  by (simp add: tell_def)

lemma all_calls_bind: "all_calls P p \<Longrightarrow> (\<And>a. all_calls P (f a)) \<Longrightarrow> all_calls P (bind_prog p f)"
  by (induction p) auto

lemma all_calls_for_each: "(\<And>x a. x \<in> set xs \<Longrightarrow> all_calls P (body x a)) \<Longrightarrow> all_calls P (for_each body xs a)"
  by (induction xs arbitrary: a) (simp_all add: all_calls_bind)

lemma all_calls_mono: "(\<And>c. P c \<Longrightarrow> Q c) \<Longrightarrow> all_calls P p \<Longrightarrow> all_calls Q p"
  by (induction p) auto

end
