(* ===== verification/Pipeline.thy ===== *)
theory Pipeline
  imports Ingestor
begin

text \<open>
  The callbacks an ingestor drives (\<open>core/src/ingestion/pipeline/callback.rs\<close>), the in-memory index
  of known documents (\<open>core/src/ingestion/deps.rs\<close>), and the recheck floor (\<open>recheck.rs\<close>). A callback takes the state of the run and returns it.
\<close>

section \<open>The document index\<close>

type_synonym document_index = "(string \<times> document_record) list"

definition index_from_records :: "document_record list \<Rightarrow> document_index" where
  "index_from_records records = fold (\<lambda>r idx. AList.update (dr_uri r) r idx) records []"

definition index_get :: "document_index \<Rightarrow> string \<Rightarrow> document_record option" where
  "index_get idx uri = map_of idx uri"

definition index_for_source :: "document_index \<Rightarrow> string \<Rightarrow> document_record list" where
  "index_for_source idx source_id = filter (\<lambda>r. dr_source_id r = source_id) (map snd idx)"

definition index_upsert :: "document_record \<Rightarrow> document_index \<Rightarrow> document_index" where
  "index_upsert r idx = AList.update (dr_uri r) r idx"

definition index_remove :: "string \<Rightarrow> document_index \<Rightarrow> document_index \<times> document_record option" where
  "index_remove uri idx = (AList.delete uri idx, map_of idx uri)"

definition index_uris :: "document_index \<Rightarrow> string list" where
  "index_uris idx = map fst idx"

datatype deletion_policy = Retain | Prune

section \<open>The recheck floor\<close>

definition FEED_LIVENESS_MIN_RECHECK_SECS :: int where
  "FEED_LIVENESS_MIN_RECHECK_SECS = 24 * 60 * 60"

definition recheck_floor_secs :: "u64 option \<Rightarrow> u64" where
  "recheck_floor_secs refresh_interval_secs =
     max (case refresh_interval_secs of Some n \<Rightarrow> n | None \<Rightarrow> 0) (word_of_int FEED_LIVENESS_MIN_RECHECK_SECS)"

text \<open>
  Instants count nanoseconds. \<open>chrono\<close>'s \<open>Duration\<close> holds at most \<open>i64::MAX\<close> milliseconds, and
  \<open>cp_min_utc\<close> is its smallest instant; formatting is a parameter.
\<close>

record clock_api =
  cp_now :: int
  cp_min_utc :: int
  cp_rfc3339_secs :: "int \<Rightarrow> string"

definition I64_MAX :: int where
  "I64_MAX = 2 ^ 63 - 1"

definition recheck_floor_start :: "clock_api \<Rightarrow> int \<Rightarrow> u64 option \<Rightarrow> int" where
  "recheck_floor_start cl now refresh_interval_secs =
     (let floor_secs = uint (recheck_floor_secs refresh_interval_secs);
          floor_secs_i64 = (if floor_secs \<le> I64_MAX then floor_secs else I64_MAX);
          recheck_window = (if floor_secs_i64 \<le> I64_MAX div 1000 then floor_secs_i64 * 10 ^ 9 else I64_MAX * 10 ^ 6);
          start = now - recheck_window
      in if start < cp_min_utc cl then cp_min_utc cl else start)"

definition recheck_floor_start_rfc3339 :: "clock_api \<Rightarrow> int \<Rightarrow> u64 option \<Rightarrow> string" where
  "recheck_floor_start_rfc3339 cl now refresh_interval_secs =
     cp_rfc3339_secs cl (recheck_floor_start cl now refresh_interval_secs)"

section \<open>The state of a run\<close>

text \<open>
  What a run is given. \<open>re_hash_order\<close> is the order in which a hash set or hash map is walked,
  \<open>re_shuffle\<close> the order of a freshly seeded hash, \<open>re_parse_uri\<close> is \<open>Uri::parse\<close> rendered again, and
  \<open>re_spec_json\<close> the serialized source, or the message of the failure.
\<close>

record ('s, 'i) run_env =
  re_source :: source
  re_ops :: "'s store_ops"
  re_ext :: "'i ingest_ext"
  re_clock :: clock_api
  re_config :: ingestion_config
  re_refetch :: bool
  re_deletion :: deletion_policy
  re_document_validators :: validators
  re_stored_inputs_digest :: "string option"
  re_fetch :: "string \<Rightarrow> validators \<Rightarrow> error + fetch_result"
  re_hash_order :: "string list \<Rightarrow> string list"
  re_shuffle :: "document_record list \<Rightarrow> document_record list"
  re_parse_uri :: "string \<Rightarrow> string option"
  re_spec_json :: "source_spec \<Rightarrow> string + json"

text \<open>\<open>PipelineCallback\<close>, the store it writes, and the progress events it has emitted.\<close>

record 's pipeline =
  pc_store :: 's
  pc_index :: document_index
  pc_result :: ingestion_result
  pc_seen :: "string set"
  pc_gone :: "string list"
  pc_discovered_total :: nat
  pc_next_index :: nat
  pc_skip_error_count :: nat
  pc_events :: "progress_event list"

definition default_result :: ingestion_result where
  "default_result = \<lparr>r_docs_seen = 0, r_docs_indexed = 0, r_docs_skipped = 0, r_docs_deleted = 0, r_chunks_written = 0,
     r_unsupported_format_count = 0, r_error_count = 0, r_docs_prunable = 0, r_docs_metadata_updated = 0,
     r_docs_recheck_deferred = 0, r_feed_entries_liveness_checked = 0, r_document_validators = None,
     r_document_inputs_digest = None\<rparr>"

definition emit :: "progress_event \<Rightarrow> 's pipeline \<Rightarrow> 's pipeline" where
  "emit event st = st\<lparr>pc_events := pc_events st @ [event]\<rparr>"

definition tally :: "(ingestion_result \<Rightarrow> ingestion_result) \<Rightarrow> 's pipeline \<Rightarrow> 's pipeline" where
  "tally f st = st\<lparr>pc_result := f (pc_result st)\<rparr>"

definition start_document :: "string \<Rightarrow> 's pipeline \<Rightarrow> 's pipeline" where
  "start_document uri st =
     emit (DocumentStarted uri (pc_next_index st) (pc_discovered_total st)) (st\<lparr>pc_next_index := pc_next_index st + 1\<rparr>)"

text \<open>What \<open>on_resource\<close> and \<open>on_skipped\<close> do first.\<close>

definition observe :: "string \<Rightarrow> 's pipeline \<Rightarrow> 's pipeline" where
  "observe uri st =
     start_document uri (tally (\<lambda>r. r\<lparr>r_docs_seen := r_docs_seen r + 1\<rparr>) (st\<lparr>pc_seen := insert uri (pc_seen st)\<rparr>))"

definition is_network_source :: "source \<Rightarrow> bool" where
  "is_network_source source = (case src_spec source of PathSpec _ _ _ \<Rightarrow> False | _ \<Rightarrow> True)"

definition touch_checked :: "('s, 'i) run_env \<Rightarrow> string \<Rightarrow> string \<Rightarrow> 's pipeline \<Rightarrow> 's pipeline" where
  "touch_checked env uri resource_id st =
     (case so_touch_resource_checked (re_ops env) (ic_store_id (re_config env)) resource_id (pc_store st) of
        (s, Inl e) \<Rightarrow> st\<lparr>pc_store := s\<rparr>
      | (s, Inr _) \<Rightarrow>
          (case index_get (pc_index st) uri of
             None \<Rightarrow> st\<lparr>pc_store := s\<rparr>
           | Some existing \<Rightarrow>
               st\<lparr>pc_store := s, pc_index := index_upsert (existing\<lparr>dr_last_checked_at := Some (ie_now (re_ext env))\<rparr>) (pc_index st)\<rparr>))"

definition touch_if_fetched :: "('s, 'i) run_env \<Rightarrow> string \<Rightarrow> string \<Rightarrow> bool \<Rightarrow> 's pipeline \<Rightarrow> 's pipeline" where
  "touch_if_fetched env uri resource_id fetched_from_origin st =
     (if is_network_source (re_source env) \<and> fetched_from_origin then touch_checked env uri resource_id st else st)"

section \<open>A resource arrives\<close>

definition count_skipped :: "ingestion_result \<Rightarrow> ingestion_result" where
  "count_skipped r = r\<lparr>r_docs_skipped := r_docs_skipped r + 1\<rparr>"

definition count_error :: "ingestion_result \<Rightarrow> ingestion_result" where
  "count_error r = r\<lparr>r_error_count := r_error_count r + 1\<rparr>"

definition count_metadata_updated :: "ingestion_result \<Rightarrow> ingestion_result" where
  "count_metadata_updated r = r\<lparr>r_docs_metadata_updated := r_docs_metadata_updated r + 1\<rparr>"

definition count_indexed :: "nat \<Rightarrow> ingestion_result \<Rightarrow> ingestion_result" where
  "count_indexed chunks r =
     r\<lparr>r_docs_indexed := r_docs_indexed r + 1, r_chunks_written := r_chunks_written r + word_of_nat chunks\<rparr>"

text \<open>The same content under the same policy: nothing to do, or only the metadata to rewrite.\<close>

definition on_unchanged_content ::
  "('s, 'i) run_env \<Rightarrow> resource \<Rightarrow> bool \<Rightarrow> document_record \<Rightarrow> 's pipeline \<Rightarrow> 's pipeline" where
  "on_unchanged_content env res fetched_from_origin existing st =
     (let uri = rs_uri res; derived = derive_resource_state (re_ext env) res; resource_id = dr_resource_id existing;
          touch = touch_if_fetched env uri resource_id fetched_from_origin
      in if dr_metadata_hash existing = ds_metadata_hash derived \<and>
            dr_external_last_modified existing = rs_external_last_modified res
         then emit (DocumentFinished uri Skipped) (touch (tally count_skipped st))
         else
           (let rec = \<lparr>rr_metadata = ds_metadata derived, rr_external_id = rs_external_id res,
                  rr_external_etag = rs_external_etag res, rr_external_last_modified = rs_external_last_modified res,
                  rr_modified_at = ds_modified_at derived, rr_date_original = ds_date_original derived,
                  rr_date_parsed = ds_date_parsed derived\<rparr>
            in case so_update_resource_metadata (re_ops env) (ic_store_id (re_config env)) resource_id rec (pc_store st) of
                 (s, Inl e) \<Rightarrow> emit (DocumentFinished uri OutcomeError) (tally count_error (st\<lparr>pc_store := s\<rparr>))
               | (s, Inr _) \<Rightarrow>
                   emit (DocumentFinished uri MetadataUpdated) (touch (tally count_metadata_updated
                     (st\<lparr>pc_store := s, pc_index := index_upsert
                        (existing\<lparr>dr_uri := uri, dr_metadata_hash := ds_metadata_hash derived,
                           dr_external_etag := rs_external_etag res,
                           dr_external_last_modified := rs_external_last_modified res\<rparr>) (pc_index st)\<rparr>)))))"

definition on_changed_content :: "('s, 'i) run_env \<Rightarrow> resource \<Rightarrow> bool \<Rightarrow> 's pipeline \<Rightarrow> 's pipeline" where
  "on_changed_content env res fetched_from_origin st =
     (let uri = rs_uri res; replaces = map_option dr_resource_id (index_get (pc_index st) uri);
          touch = touch_if_fetched env uri (rs_id res) fetched_from_origin
      in case index_resource (re_ext env) (re_ops env) (re_config env) res (re_source env) replaces (pc_store st) of
           (s, Inr Empty) \<Rightarrow> emit (DocumentFinished uri Skipped) (tally count_skipped (st\<lparr>pc_store := s\<rparr>))
         | (s, Inr (Written n metadata_hash)) \<Rightarrow>
             emit (DocumentFinished uri (Indexed n)) (touch (tally (count_indexed n)
               (st\<lparr>pc_store := s, pc_index := index_upsert
                  \<lparr>dr_uri = uri, dr_resource_id = rs_id res, dr_source_id = rs_source_id res,
                   dr_content_hash = rs_content_hash res, dr_policy_version = ic_policy_version (re_config env),
                   dr_metadata_hash = metadata_hash, dr_external_etag = rs_external_etag res,
                   dr_external_last_modified = rs_external_last_modified res, dr_last_checked_at = None\<rparr> (pc_index st)\<rparr>)))
         | (s, Inl e) \<Rightarrow> emit (DocumentFinished uri OutcomeError) (tally count_error (st\<lparr>pc_store := s\<rparr>)))"

definition on_resource_impl :: "('s, 'i) run_env \<Rightarrow> resource \<Rightarrow> bool \<Rightarrow> 's pipeline \<Rightarrow> 's pipeline" where
  "on_resource_impl env res fetched_from_origin st0 =
     (let st = observe (rs_uri res) st0
      in case index_get (pc_index st) (rs_uri res) of
           Some existing \<Rightarrow>
             (if dr_content_hash existing = rs_content_hash res \<and> dr_policy_version existing = ic_policy_version (re_config env)
              then on_unchanged_content env res fetched_from_origin existing st
              else on_changed_content env res fetched_from_origin st)
         | None \<Rightarrow> on_changed_content env res fetched_from_origin st)"

section \<open>Other callbacks\<close>

definition on_discovered :: "nat \<Rightarrow> 's pipeline \<Rightarrow> 's pipeline" where
  "on_discovered n st = emit (Discovered n) (st\<lparr>pc_discovered_total := n\<rparr>)"

definition on_gone :: "string \<Rightarrow> 's pipeline \<Rightarrow> 's pipeline" where
  "on_gone uri st = (if uri \<in> set (pc_gone st) then st else st\<lparr>pc_gone := pc_gone st @ [uri]\<rparr>)"

definition touch_known :: "('s, 'i) run_env \<Rightarrow> string \<Rightarrow> 's pipeline \<Rightarrow> 's pipeline" where
  "touch_known env uri st =
     (if is_network_source (re_source env)
      then (case index_get (pc_index st) uri of None \<Rightarrow> st | Some r \<Rightarrow> touch_checked env uri (dr_resource_id r) st)
      else st)"

definition on_skipped :: "('s, 'i) run_env \<Rightarrow> string \<Rightarrow> skip_reason \<Rightarrow> 's pipeline \<Rightarrow> 's pipeline" where
  "on_skipped env uri reason st0 =
     (let st = observe uri st0
      in case reason of
           SkipUnchanged \<Rightarrow> emit (DocumentFinished uri Skipped) (touch_known env uri (tally count_skipped st))
         | SkipUnsupported \<Rightarrow> emit (DocumentFinished uri Unsupported)
             (tally (\<lambda>r. r\<lparr>r_unsupported_format_count := r_unsupported_format_count r + 1\<rparr>) st)
         | SkipOther msg \<Rightarrow> emit (DocumentFinished uri Skipped) (tally count_skipped st)
         | SkipMetadataUpdated \<Rightarrow>
             emit (DocumentFinished uri MetadataUpdated) (touch_known env uri (tally count_metadata_updated st))
         | SkipFresh \<Rightarrow> emit (DocumentFinished uri Skipped)
             (tally (\<lambda>r. (count_skipped r)\<lparr>r_docs_recheck_deferred := r_docs_recheck_deferred r + 1\<rparr>) st)
         | SkipError msg \<Rightarrow> emit (DocumentFinished uri OutcomeError)
             (tally count_error (st\<lparr>pc_skip_error_count := pc_skip_error_count st + 1\<rparr>)))"

definition lookup_fetch_metadata :: "('s, 'i) run_env \<Rightarrow> string \<Rightarrow> 's pipeline \<Rightarrow> validators" where
  "lookup_fetch_metadata env uri st =
     (case index_get (pc_index st) uri of
        None \<Rightarrow> no_validators
      | Some existing \<Rightarrow>
          (if dr_policy_version existing \<noteq> ic_policy_version (re_config env) then no_validators
           else \<lparr>v_etag = dr_external_etag existing, v_last_modified = dr_external_last_modified existing\<rparr>))"

section \<open>Metadata refreshes\<close>

definition VALIDATORS :: string where "VALIDATORS = ''conditional-GET validators''"
definition CONNECTOR_METADATA :: string where "CONNECTOR_METADATA = ''source-supplied metadata''"
definition RECHECK_CLAIM :: string where
  "RECHECK_CLAIM = ''the recheck gate'' @ [CHR 0x27] @ ''s claim comparison''"

definition read_persisted_record ::
  "('s, 'i) run_env \<Rightarrow> string \<Rightarrow> string \<Rightarrow> string \<Rightarrow> 's pipeline \<Rightarrow> metadata_write_outcome + resource_record" where
  "read_persisted_record env uri resource_id what st =
     (case so_get_resource_record (re_ops env) (ic_store_id (re_config env)) resource_id (pc_store st) of
        Inr (Some rec) \<Rightarrow> Inr rec
      | Inr None \<Rightarrow> Inl WriteUnchanged
      | Inl e \<Rightarrow> Inl (WriteFailed (''error reading resource '' @ [CHR 0x27] @ uri @ [CHR 0x27] @ '' to refresh '' @ what @
                    '': '' @ err_to_string e)))"

record merged_metadata =
  mm_metadata :: metadata
  mm_date_original :: "string option"
  mm_date_parsed :: "string option"
  mm_metadata_hash :: string

definition merge_metadata_claim ::
  "('s, 'i) run_env \<Rightarrow> document_record \<Rightarrow> enrichment \<Rightarrow> string option \<Rightarrow> string option \<Rightarrow> string \<Rightarrow> 's pipeline \<Rightarrow>
   metadata_write_outcome + merged_metadata" where
  "merge_metadata_claim env existing enrichment external_id modified_at what st =
     and_then (read_persisted_record env (dr_uri existing) (dr_resource_id existing) what st) (\<lambda>persisted.
       let metadata = update_dc (apply_to enrichment) (rr_metadata persisted);
           date_original = dc_date (metadata_dc metadata);
           ext = re_ext env
       in Inr \<lparr>mm_metadata = metadata, mm_date_original = date_original,
               mm_date_parsed = Option.bind date_original (parse_partial_iso8601 (ie_chrono ext)),
               mm_metadata_hash = compute_metadata_hash (ext_hash (ie_chunk ext)) (ie_to_json ext) metadata external_id
                 (dr_external_etag existing) modified_at\<rparr>)"

definition persist_metadata_write ::
  "('s, 'i) run_env \<Rightarrow> string \<Rightarrow> string \<Rightarrow> resource_record \<Rightarrow> document_record \<Rightarrow> string \<Rightarrow> 's pipeline \<Rightarrow>
   's pipeline \<times> metadata_write_outcome" where
  "persist_metadata_write env uri resource_id rec updated what st =
     (case so_update_resource_metadata (re_ops env) (ic_store_id (re_config env)) resource_id rec (pc_store st) of
        (s, Inl e) \<Rightarrow> (st\<lparr>pc_store := s\<rparr>, WriteFailed (''error persisting refreshed '' @ what @ '' for '' @
                        [CHR 0x27] @ uri @ [CHR 0x27] @ '': '' @ err_to_string e))
      | (s, Inr _) \<Rightarrow> (st\<lparr>pc_store := s, pc_index := index_upsert updated (pc_index st)\<rparr>, WriteDone))"

definition or_else :: "'a option \<Rightarrow> 'a option \<Rightarrow> 'a option" where
  "or_else a b = (case a of Some x \<Rightarrow> Some x | None \<Rightarrow> b)"

definition on_validators_refreshed ::
  "('s, 'i) run_env \<Rightarrow> string \<Rightarrow> validators \<Rightarrow> 's pipeline \<Rightarrow> 's pipeline \<times> metadata_write_outcome" where
  "on_validators_refreshed env uri meta st =
     (if v_etag meta = None \<and> v_last_modified meta = None then (st, WriteUnchanged)
      else case index_get (pc_index st) uri of
             None \<Rightarrow> (st, WriteUnchanged)
           | Some existing \<Rightarrow>
               (let new_etag = or_else (v_etag meta) (dr_external_etag existing);
                    new_last_modified = or_else (v_last_modified meta) (dr_external_last_modified existing)
                in if new_etag = dr_external_etag existing \<and> new_last_modified = dr_external_last_modified existing
                   then (st, WriteUnchanged)
                   else case read_persisted_record env uri (dr_resource_id existing) VALIDATORS st of
                          Inl outcome \<Rightarrow> (st, outcome)
                        | Inr persisted \<Rightarrow>
                            (let rec = persisted\<lparr>rr_external_etag := new_etag, rr_external_last_modified := new_last_modified\<rparr>;
                                 metadata_hash = compute_metadata_hash (ext_hash (ie_chunk (re_ext env))) (ie_to_json (re_ext env))
                                   (rr_metadata rec) (rr_external_id rec) new_etag (rr_modified_at rec)
                             in persist_metadata_write env uri (dr_resource_id existing) rec
                                  (existing\<lparr>dr_metadata_hash := metadata_hash, dr_external_etag := new_etag,
                                     dr_external_last_modified := new_last_modified\<rparr>) VALIDATORS st)))"

definition on_metadata_refreshed ::
  "('s, 'i) run_env \<Rightarrow> string \<Rightarrow> enrichment \<Rightarrow> string option \<Rightarrow> string option \<Rightarrow> 's pipeline \<Rightarrow>
   's pipeline \<times> metadata_write_outcome" where
  "on_metadata_refreshed env uri enrichment external_id modified_at st =
     (case index_get (pc_index st) uri of
        None \<Rightarrow> (st, WriteUnchanged)
      | Some existing \<Rightarrow>
          (case merge_metadata_claim env existing enrichment external_id modified_at CONNECTOR_METADATA st of
             Inl outcome \<Rightarrow> (st, outcome)
           | Inr merged \<Rightarrow>
               if mm_metadata_hash merged = dr_metadata_hash existing then (st, WriteUnchanged)
               else persist_metadata_write env uri (dr_resource_id existing)
                      \<lparr>rr_metadata = mm_metadata merged, rr_external_id = external_id,
                       rr_external_etag = dr_external_etag existing,
                       rr_external_last_modified = dr_external_last_modified existing, rr_modified_at = modified_at,
                       rr_date_original = mm_date_original merged, rr_date_parsed = mm_date_parsed merged\<rparr>
                      (existing\<lparr>dr_metadata_hash := mm_metadata_hash merged\<rparr>) CONNECTOR_METADATA st))"

definition refresh_interval :: "source \<Rightarrow> u64 option" where
  "refresh_interval source = (case src_spec source of FeedSpec _ _ _ refresh \<Rightarrow> refresh | _ \<Rightarrow> None)"

definition recheck_is_due ::
  "('s, 'i) run_env \<Rightarrow> string \<Rightarrow> enrichment \<Rightarrow> string option \<Rightarrow> string option \<Rightarrow> 's pipeline \<Rightarrow> bool" where
  "recheck_is_due env uri enrichment external_id modified_at st =
     (case index_get (pc_index st) uri of
        None \<Rightarrow> True
      | Some existing \<Rightarrow>
          if dr_policy_version existing \<noteq> ic_policy_version (re_config env) then True
          else if re_refetch env then True
          else (case dr_last_checked_at existing of
                  None \<Rightarrow> True
                | Some last_checked_at \<Rightarrow>
                    if last_checked_at < recheck_floor_start_rfc3339 (re_clock env) (cp_now (re_clock env))
                         (refresh_interval (re_source env))
                    then True
                    else (case merge_metadata_claim env existing enrichment external_id modified_at RECHECK_CLAIM st of
                            Inr merged \<Rightarrow> mm_metadata_hash merged \<noteq> dr_metadata_hash existing
                          | Inl _ \<Rightarrow> True)))"

definition FEED_LIVENESS_BATCH_LIMIT :: nat where
  "FEED_LIVENESS_BATCH_LIMIT = 25"

definition starts_with :: "string \<Rightarrow> string \<Rightarrow> bool" where
  "starts_with pat s = (take (length pat) s = pat)"

text \<open>The connector's claim, rebuilt from what is stored.\<close>

definition stored_claim :: "resource_record \<Rightarrow> enrichment" where
  "stored_claim rec =
     (let dc = metadata_dc (rr_metadata rec);
          feed_stamped = (dc_date_source dc = Some FEED_ENTRY_DATE_SOURCE)
      in \<lparr>title_fallback = dc_title dc, en_creator = dc_creator dc, en_date = (if feed_stamped then dc_date dc else None),
          en_date_source = (if feed_stamped then dc_date_source dc else None), provenance_source = dc_source dc\<rparr>)"

definition due_entries_for_source ::
  "('s, 'i) run_env \<Rightarrow> 's pipeline \<Rightarrow> due_recheck_entry list" where
  "due_entries_for_source env st =
     (case src_spec (re_source env) of
        FeedSpec feed_url _ _ refresh_interval_secs \<Rightarrow>
          (let floor_start = recheck_floor_start_rfc3339 (re_clock env) (cp_now (re_clock env)) refresh_interval_secs;
               synthetic_prefix = feed_url @ ''#entry:'';
               candidates = filter (\<lambda>r. \<not> starts_with synthetic_prefix (dr_uri r) \<and>
                   (starts_with ''http://'' (dr_uri r) \<or> starts_with ''https://'' (dr_uri r)) \<and>
                   (dr_policy_version r \<noteq> ic_policy_version (re_config env) \<or>
                    (case dr_last_checked_at r of None \<Rightarrow> True | Some checked \<Rightarrow> checked < floor_start)))
                 (index_for_source (pc_index st) (src_id (re_source env)))
           in List.map_filter (\<lambda>candidate.
                case so_get_resource_record (re_ops env) (ic_store_id (re_config env)) (dr_resource_id candidate) (pc_store st) of
                  Inr (Some rec) \<Rightarrow>
                    map_option (\<lambda>uri. \<lparr>du_locator = dr_uri candidate, du_uri = uri, du_enrichment = stored_claim rec,
                       du_external_id = rr_external_id rec, du_modified_at = rr_modified_at rec\<rparr>) (re_parse_uri env (dr_uri candidate))
                | _ \<Rightarrow> None) (take FEED_LIVENESS_BATCH_LIMIT (re_shuffle env candidates)))
      | _ \<Rightarrow> [])"

end
