(* ===== verification/SourceRun.thy ===== *)
theory SourceRun
  imports Pipeline
begin

text \<open>
  A run of one source (\<open>run_source_ingestion\<close> of \<open>core/src/ingestion.rs\<close>, the liveness sweep of
  \<open>liveness.rs\<close>): the ingestor drives the callback, then what is gone is removed, under the guards.
  A step that may fail returns the state with its result, since what it did before stays done.
  The \<open>debug_assert\<close> on the error counters is left out, as in a release build.
\<close>

section \<open>The ingestor drives the callback\<close>

definition with_reply :: "('b \<Rightarrow> ingest_reply) \<Rightarrow> 's pipeline \<times> 'b \<Rightarrow> 's pipeline \<times> ingest_reply" where
  "with_reply f r = (fst r, f (snd r))"

fun on_call :: "('s, 'i) run_env \<Rightarrow> ingest_call \<Rightarrow> 's pipeline \<Rightarrow> 's pipeline \<times> ingest_reply" where
  "on_call env (OnResource res) st = (on_resource_impl env res True st, NoReply)"
| "on_call env (OnResourceFallback res) st = (on_resource_impl env res False st, NoReply)"
| "on_call env (OnDiscovered n) st = (on_discovered n st, NoReply)"
| "on_call env (OnSkipped uri reason) st = (on_skipped env uri reason st, NoReply)"
| "on_call env (OnGone uri) st = (on_gone uri st, NoReply)"
| "on_call env (LookupFetchMetadata uri) st = (st, ValidatorsReply (lookup_fetch_metadata env uri st))"
| "on_call env (RecheckIsDue uri e x m) st = (st, DueReply (recheck_is_due env uri e x m st))"
| "on_call env (OnValidatorsRefreshed uri meta) st = with_reply WriteReply (on_validators_refreshed env uri meta st)"
| "on_call env (OnMetadataRefreshed uri e x m) st = with_reply WriteReply (on_metadata_refreshed env uri e x m st)"
| "on_call env DueEntriesForSource st = (st, EntriesReply (due_entries_for_source env st))"

primrec drive :: "('s, 'i) run_env \<Rightarrow> 'a ingest_prog \<Rightarrow> 's pipeline \<Rightarrow> 's pipeline \<times> 'a" where
  "drive env (Finish a) st = (st, a)"
| "drive env (Call c k) st = (case on_call env c st of (st', r) \<Rightarrow> drive env (k r) st')"

lemma drive_bind: "drive env (bind_prog p f) st = (case drive env p st of (st', a) \<Rightarrow> drive env (f a) st')"
  by (induction p arbitrary: st) (auto split: prod.split)

lemma drive_tell [simp]: "drive env (tell c p) st = drive env p (fst (on_call env c st))"
  by (simp add: tell_def split: prod.split)

lemma drive_for_each:
  "drive env (for_each body (x # xs) a) st = (case drive env (body x a) st of (st', a') \<Rightarrow> drive env (for_each body xs a') st')"
  by (simp add: drive_bind)

section \<open>Fallible steps\<close>

fun run_each :: "('x \<Rightarrow> 'st \<Rightarrow> 'st \<times> (error + unit)) \<Rightarrow> 'x list \<Rightarrow> 'st \<Rightarrow> 'st \<times> (error + unit)" where
  "run_each f [] st = (st, Inr ())"
| "run_each f (x # xs) st =
     (case f x st of (st', Inl e) \<Rightarrow> (st', Inl e) | (st', Inr _) \<Rightarrow> run_each f xs st')"

definition run_then :: "'st \<times> (error + 'a) \<Rightarrow> ('a \<Rightarrow> 'st \<Rightarrow> 'st \<times> (error + 'b)) \<Rightarrow> 'st \<times> (error + 'b)" where
  "run_then r f = (case r of (st, Inl e) \<Rightarrow> (st, Inl e) | (st, Inr a) \<Rightarrow> f a st)"

section \<open>Removal\<close>

definition delete_document :: "('s, 'i) run_env \<Rightarrow> string \<Rightarrow> 's pipeline \<Rightarrow> 's pipeline \<times> (error + unit)" where
  "delete_document env resource_id st =
     (case so_delete_by_resource (re_ops env) resource_id (pc_store st) of
        (s, Inl e) \<Rightarrow> (st\<lparr>pc_store := s\<rparr>, Inl e)
      | (s, Inr deleted) \<Rightarrow>
          (let st' = st\<lparr>pc_store := s\<rparr>
           in (if deleted > 0 then tally (\<lambda>r. r\<lparr>r_docs_deleted := r_docs_deleted r + 1\<rparr>) st' else st', Inr ())))"

definition prune_or_count :: "('s, 'i) run_env \<Rightarrow> string \<Rightarrow> 's pipeline \<Rightarrow> 's pipeline \<times> (error + unit)" where
  "prune_or_count env uri st =
     (if re_deletion env = Retain then (tally (\<lambda>r. r\<lparr>r_docs_prunable := r_docs_prunable r + 1\<rparr>) st, Inr ())
      else case index_remove uri (pc_index st) of
             (idx, None) \<Rightarrow> (st\<lparr>pc_index := idx\<rparr>, Inr ())
           | (idx, Some old_record) \<Rightarrow> delete_document env (dr_resource_id old_record) (st\<lparr>pc_index := idx\<rparr>))"

definition owned_by_source :: "('s, 'i) run_env \<Rightarrow> 's pipeline \<Rightarrow> string \<Rightarrow> bool" where
  "owned_by_source env st uri =
     (case index_get (pc_index st) uri of
        None \<Rightarrow> False
      | Some rec \<Rightarrow> dr_source_id rec = src_id (re_source env))"

definition remove_confirmed_gone :: "('s, 'i) run_env \<Rightarrow> string \<Rightarrow> 's pipeline \<Rightarrow> 's pipeline \<times> (error + unit)" where
  "remove_confirmed_gone env uri st = (if owned_by_source env st uri then prune_or_count env uri st else (st, Inr ()))"

section \<open>The liveness sweep\<close>

definition FEED_LIVENESS_OVERFETCH_CAP :: nat where
  "FEED_LIVENESS_OVERFETCH_CAP = 500"

text \<open>\<open>usize::MAX\<close> is no bound here: the number of URIs seen is far below it.\<close>

definition touch_liveness ::
  "('s, 'i) run_env \<Rightarrow> stale_feed_resource \<Rightarrow> validators \<Rightarrow> 's pipeline \<Rightarrow> 's pipeline \<times> (error + unit)" where
  "touch_liveness env candidate refreshed st =
     (st\<lparr>pc_store := fst (so_touch_resource_liveness (re_ops env) (src_store_id (re_source env)) (sf_resource_id candidate)
        (v_etag refreshed) (v_last_modified refreshed) (pc_store st))\<rparr>, Inr ())"

definition probe_liveness_candidate ::
  "('s, 'i) run_env \<Rightarrow> stale_feed_resource \<Rightarrow> 's pipeline \<Rightarrow> 's pipeline \<times> (error + unit)" where
  "probe_liveness_candidate env candidate st0 =
     (let stored = \<lparr>v_etag = sf_external_etag candidate, v_last_modified = sf_external_last_modified candidate\<rparr>;
          st = tally (\<lambda>r. r\<lparr>r_feed_entries_liveness_checked := r_feed_entries_liveness_checked r + 1\<rparr>) st0
      in case re_fetch env (sf_uri candidate) stored of
           Inl e \<Rightarrow> touch_liveness env candidate stored st
         | Inr FetchGone \<Rightarrow>
             delete_document env (sf_resource_id candidate) (st\<lparr>pc_index := fst (index_remove (sf_uri candidate) (pc_index st))\<rparr>)
         | Inr (NotModified etag last_modified) \<Rightarrow>
             touch_liveness env candidate \<lparr>v_etag = or_else etag (v_etag stored),
               v_last_modified = or_else last_modified (v_last_modified stored)\<rparr> st
         | Inr (Downloaded _ _ _ _ _) \<Rightarrow> touch_liveness env candidate stored st
         | Inr Blocked \<Rightarrow> touch_liveness env candidate stored st)"

definition run_feed_liveness_sweep :: "('s, 'i) run_env \<Rightarrow> 's pipeline \<Rightarrow> 's pipeline \<times> (error + unit)" where
  "run_feed_liveness_sweep env st =
     (let checked_before = recheck_floor_start_rfc3339 (re_clock env) (cp_now (re_clock env)) (refresh_interval (re_source env));
          query_limit = min (FEED_LIVENESS_BATCH_LIMIT + card (pc_seen st)) FEED_LIVENESS_OVERFETCH_CAP
      in case so_list_stale_feed_resources (re_ops env) (src_store_id (re_source env)) (src_id (re_source env)) checked_before
              query_limit (pc_store st) of
           Inl e \<Rightarrow> (st, Inl e)
         | Inr candidates \<Rightarrow>
             run_each (probe_liveness_candidate env)
               (take FEED_LIVENESS_BATCH_LIMIT (filter (\<lambda>c. sf_uri c \<notin> pc_seen st) candidates)) st)"

section \<open>The run\<close>

definition feed_inputs_digest :: "('s, 'i) run_env \<Rightarrow> string option" where
  "feed_inputs_digest env =
     (case src_spec (re_source env) of
        FeedSpec _ max_entries fetch_full_content _ \<Rightarrow>
          Some (compute_feed_inputs_digest (ext_hash (ie_chunk (re_ext env))) (ic_policy_version (re_config env))
                  fetch_full_content max_entries)
      | _ \<Rightarrow> None)"

definition effective_document_validators :: "('s, 'i) run_env \<Rightarrow> validators" where
  "effective_document_validators env =
     (if re_refetch env then no_validators
      else case feed_inputs_digest env of
             Some current \<Rightarrow> if re_stored_inputs_digest env \<noteq> Some current then no_validators else re_document_validators env
           | None \<Rightarrow> re_document_validators env)"

definition source_location :: "source \<Rightarrow> string" where
  "source_location source = (case src_spec source of PathSpec dir _ _ \<Rightarrow> dir | UrlSpec url _ \<Rightarrow> url | FeedSpec url _ _ _ \<Rightarrow> url)"

datatype sweep_suppression = IncompleteEnumeration string | ZeroSeen

definition suppressed_because :: "enumeration \<Rightarrow> string list \<Rightarrow> string set \<Rightarrow> sweep_suppression option" where
  "suppressed_because enumeration owned_uris seen =
     (case enumeration of
        Incomplete reason \<Rightarrow> Some (IncompleteEnumeration reason)
      | Complete \<Rightarrow> if owned_uris \<noteq> [] \<and> \<not> list_ex (\<lambda>uri. uri \<in> seen) owned_uris then Some ZeroSeen else None)"

definition is_feed :: "source \<Rightarrow> bool" where
  "is_feed source = (case src_spec source of FeedSpec _ _ _ _ \<Rightarrow> True | _ \<Rightarrow> False)"

definition owned_uris :: "('s, 'i) run_env \<Rightarrow> 's pipeline \<Rightarrow> string list" where
  "owned_uris env st = filter (owned_by_source env st) (re_hash_order env (index_uris (pc_index st)))"

definition sweep :: "('s, 'i) run_env \<Rightarrow> enumeration \<Rightarrow> 's pipeline \<Rightarrow> 's pipeline \<times> (error + unit)" where
  "sweep env enumeration st =
     (let owned = owned_uris env st;
          suppressed = suppressed_because enumeration owned (pc_seen st)
      in if \<not> is_feed (re_source env)
         then (if suppressed \<noteq> None then (st, Inr ())
               else run_each (\<lambda>uri st'. if uri \<in> pc_seen st \<or> uri \<in> set (pc_gone st) then (st', Inr ())
                      else prune_or_count env uri st') owned st)
         else if re_deletion env = Prune
         then (case suppressed of
                 Some (IncompleteEnumeration _) \<Rightarrow> (st, Inr ())
               | _ \<Rightarrow> run_feed_liveness_sweep env st)
         else (st, Inr ()))"

definition pipeline_start :: "'s \<Rightarrow> document_index \<Rightarrow> 's pipeline" where
  "pipeline_start s idx =
     \<lparr>pc_store = s, pc_index = idx, pc_result = default_result, pc_seen = {}, pc_gone = [], pc_discovered_total = 0,
      pc_next_index = 0, pc_skip_error_count = 0, pc_events = []\<rparr>"

definition ingest_source_of :: "('s, 'i) run_env \<Rightarrow> ingestor \<Rightarrow> json \<Rightarrow> ingest_source" where
  "ingest_source_of env ingestor json =
     \<lparr>isrc_source_id = src_id (re_source env), isrc_store_id = src_store_id (re_source env), isrc_ingestor_kind = in_kind ingestor,
      isrc_config = json, isrc_policy_version = ic_policy_version (re_config env),
      isrc_document_validators = effective_document_validators env\<rparr>"

definition after_ingest ::
  "('s, 'i) run_env \<Rightarrow> ingest_result \<Rightarrow> 's pipeline \<Rightarrow> 's pipeline \<times> (error + ingestion_result)" where
  "after_ingest env ing st0 =
     (let st = tally (\<lambda>r. r\<lparr>r_document_validators := ig_document_validators ing,
                             r_document_inputs_digest := feed_inputs_digest env\<rparr>) st0
      in run_then (run_each (remove_confirmed_gone env) (re_hash_order env (pc_gone st)) st) (\<lambda>_ st.
         run_then (sweep env (ig_enumeration ing) st) (\<lambda>_ st.
           (emit (SourceFinished (pc_result st)) st, Inr (pc_result st)))))"

definition run_source_ingestion ::
  "('s, 'i) run_env \<Rightarrow> ingestor \<Rightarrow> 's \<Rightarrow> document_index \<Rightarrow> 's pipeline \<times> (error + ingestion_result)" where
  "run_source_ingestion env ingestor s idx =
     (case re_spec_json env (src_spec (re_source env)) of
        Inl message \<Rightarrow> (pipeline_start s idx, Inl (Internal (''failed to serialize source spec: '' @ message) ''source_spec_serialize''))
      | Inr json \<Rightarrow>
          (let st = emit (SourceStarted (src_id (re_source env)) (source_location (re_source env))) (pipeline_start s idx)
           in run_then (drive env (in_ingest ingestor (ingest_source_of env ingestor json)) st) (after_ingest env)))"

text \<open>The three ways a run goes.\<close>

lemma run_source_ingestion_steps:
  assumes "run_source_ingestion env ingestor s idx = (st, r)"
  obtains (unserialized) "st = pipeline_start s idx"
  | (ingest_failed) json st1 e where "re_spec_json env (src_spec (re_source env)) = Inr json" "drive env (in_ingest ingestor (ingest_source_of env ingestor json))
      (emit (SourceStarted (src_id (re_source env)) (source_location (re_source env))) (pipeline_start s idx)) = (st1, Inl e)" "st = st1"
  | (ingested) json st1 ing where "re_spec_json env (src_spec (re_source env)) = Inr json" "drive env (in_ingest ingestor (ingest_source_of env ingestor json))
      (emit (SourceStarted (src_id (re_source env)) (source_location (re_source env))) (pipeline_start s idx)) = (st1, Inr ing)"
      "after_ingest env ing st1 = (st, r)"
proof (cases "re_spec_json env (src_spec (re_source env))")
  case (Inl message)
  with assms show thesis by (intro unserialized) (simp add: run_source_ingestion_def)
next
  case (Inr json)
  obtain st1 i where d: "drive env (in_ingest ingestor (ingest_source_of env ingestor json))
      (emit (SourceStarted (src_id (re_source env)) (source_location (re_source env))) (pipeline_start s idx)) = (st1, i)"
    by (metis prod.exhaust)
  show thesis
  proof (cases i)
    case (Inl e)
    with d Inr assms show thesis by (intro ingest_failed [of json st1 e]) (simp_all add: run_source_ingestion_def Let_def run_then_def)
  next
    case (Inr ing)
    with d \<open>re_spec_json env _ = Inr json\<close> assms show thesis
      by (intro ingested [of json st1 ing]) (simp_all add: run_source_ingestion_def Let_def run_then_def)
  qed
qed

end
