(* ===== verification/StoreContract.thy ===== *)
theory StoreContract
  imports Pipeline
begin

text \<open>
  What the ingestion pipeline relies on from a retrieval store (\<open>core/src/store.rs\<close>): which documents
  have content after each operation. \<open>docs\<close> is the abstraction of a store to the set of its documents,
  \<open>ok_store\<close> the store's own invariant, \<open>chunk_owner\<close> the document a chunk id belongs to and \<open>doc_uri\<close> the
  URI of a document id (both exist as long as the hash behind the ids does not collide). A write that
  fails changes nothing: the contract of \<open>upsert_chunks_and_blocks\<close> that \<open>TenantStore\<close> meets by a
  transaction, and that the in-memory store meets because its writes do not fail.
\<close>

definition after_upsert :: "string set \<Rightarrow> string \<Rightarrow> string option \<Rightarrow> error + 'a \<Rightarrow> string set" where
  "after_upsert ds resource_id replaces r =
     (case r of Inl e \<Rightarrow> ds | Inr n \<Rightarrow> insert resource_id (ds - set_option replaces))"

definition after_delete :: "string set \<Rightarrow> string \<Rightarrow> error + 'a \<Rightarrow> string set" where
  "after_delete ds resource_id r = (case r of Inl e \<Rightarrow> ds | Inr n \<Rightarrow> ds - {resource_id})"

definition records_of :: "(string \<Rightarrow> string) \<Rightarrow> string \<Rightarrow> chunk_record list \<Rightarrow> bool" where
  "records_of chunk_owner resource_id records \<longleftrightarrow>
     records \<noteq> [] \<and> list_all (\<lambda>r. cr_resource_id r = resource_id \<and> chunk_owner (cr_id r) = resource_id) records"

locale document_store =
  fixes ops :: "'s store_ops"
    and ok_store :: "'s \<Rightarrow> bool"
    and docs :: "'s \<Rightarrow> string set"
    and chunk_owner :: "string \<Rightarrow> string"
    and doc_uri :: "string \<Rightarrow> string"
  assumes upsert: "ok_store s \<Longrightarrow> records_of chunk_owner rid records \<Longrightarrow>
      so_upsert ops sid rid records blocks replaces lm s = (s', r) \<Longrightarrow>
      ok_store s' \<and> docs s' = after_upsert (docs s) rid replaces r"
    and delete: "ok_store s \<Longrightarrow> so_delete_by_resource ops rid s = (s', d) \<Longrightarrow>
      ok_store s' \<and> docs s' = after_delete (docs s) rid d"
    and update: "ok_store s \<Longrightarrow> so_update_resource_metadata ops sid rid rec s = (s', u) \<Longrightarrow> ok_store s' \<and> docs s' = docs s"
    and touch: "ok_store s \<Longrightarrow> so_touch_resource_checked ops sid rid s = (s', u) \<Longrightarrow> ok_store s' \<and> docs s' = docs s"
    and touch_liveness: "ok_store s \<Longrightarrow> so_touch_resource_liveness ops sid rid et lm s = (s', u) \<Longrightarrow> ok_store s' \<and> docs s' = docs s"
    and stale: "ok_store s \<Longrightarrow> so_list_stale_feed_resources ops sid src before k s = Inr cs \<Longrightarrow> c \<in> set cs \<Longrightarrow>
      doc_uri (sf_resource_id c) = sf_uri c"

section \<open>The in-memory store\<close>

text \<open>\<open>upsert_chunks_and_blocks\<close> by its default, three steps in a row; the liveness operations by theirs, no-ops.\<close>

definition fake_upsert ::
  "string \<Rightarrow> chunk_record list \<Rightarrow> block list \<Rightarrow> string option \<Rightarrow> fake_store \<Rightarrow> fake_store \<times> (error + nat)" where
  "fake_upsert resource_id records blocks replaces_resource_id fs0 =
     (let fs1 = (case replaces_resource_id of Some old_id \<Rightarrow> fst (fake_delete_by_resource old_id fs0) | None \<Rightarrow> fs0);
          (fs2, count) = fake_upsert_chunks records fs1
      in (fake_upsert_blocks resource_id blocks fs2, Inr count))"

definition fake_ops :: "string \<Rightarrow> fake_store store_ops" where
  "fake_ops now =
     \<lparr>so_upsert = (\<lambda>store_id resource_id records blocks replaces lm. fake_upsert resource_id records blocks replaces),
      so_delete_by_resource = (\<lambda>resource_id fs. case fake_delete_by_resource resource_id fs of (fs', n) \<Rightarrow> (fs', Inr n)),
      so_get_resource_record = (\<lambda>store_id resource_id fs. Inr (fake_get_resource_record store_id resource_id fs)),
      so_update_resource_metadata = fake_update_resource_metadata,
      so_touch_resource_checked = fake_touch_resource_checked now,
      so_list_stale_feed_resources = (\<lambda>store_id source_id checked_before limit fs. Inr []),
      so_touch_resource_liveness = (\<lambda>store_id resource_id etag last_modified fs. (fs, Inr ()))\<rparr>"

definition fake_docs :: "fake_store \<Rightarrow> string set" where
  "fake_docs fs = cr_resource_id ` set (fs_chunks fs)"

definition fake_inv :: "(string \<Rightarrow> string) \<Rightarrow> fake_store \<Rightarrow> bool" where
  "fake_inv chunk_owner fs \<longleftrightarrow> list_all (\<lambda>c. chunk_owner (cr_id c) = cr_resource_id c) (fs_chunks fs)"

lemma set_upsert_one:
  "set (fst (upsert_one r cs)) \<subseteq> insert r (set cs) \<and> r \<in> set (fst (upsert_one r cs)) \<and>
   {c \<in> set cs. cr_id c \<noteq> cr_id r} \<subseteq> set (fst (upsert_one r cs))"
  by (induction cs) (auto split: prod.splits)

lemma upsert_all_docs:
  assumes "list_all (\<lambda>r. cr_resource_id r = rid \<and> chunk_owner (cr_id r) = rid) records"
    "\<forall>c \<in> set cs. chunk_owner (cr_id c) = cr_resource_id c"
  shows "(\<forall>c \<in> set (upsert_all records cs). chunk_owner (cr_id c) = cr_resource_id c) \<and>
    cr_resource_id ` set (upsert_all records cs) = (if records = [] then {} else {rid}) \<union> cr_resource_id ` set cs"
  using assms
proof (induction records arbitrary: cs)
  case (Cons r records)
  let ?cs = "fst (upsert_one r cs)"
  have own: "\<forall>c \<in> set ?cs. chunk_owner (cr_id c) = cr_resource_id c"
    using set_upsert_one [of r cs] Cons.prems by fastforce
  have "cr_resource_id ` set ?cs = insert rid (cr_resource_id ` set cs)"
  proof
    show "cr_resource_id ` set ?cs \<subseteq> insert rid (cr_resource_id ` set cs)"
      using set_upsert_one [of r cs] Cons.prems(1) by fastforce
    show "insert rid (cr_resource_id ` set cs) \<subseteq> cr_resource_id ` set ?cs"
    proof
      fix d assume "d \<in> insert rid (cr_resource_id ` set cs)"
      moreover have "rid \<in> cr_resource_id ` set ?cs"
        using set_upsert_one [of r cs] Cons.prems(1) by (auto intro!: rev_image_eqI)
      moreover have "cr_resource_id c \<in> cr_resource_id ` set ?cs" if "c \<in> set cs" "cr_resource_id c \<noteq> rid" for c
      proof -
        have "cr_id c \<noteq> cr_id r" using that Cons.prems by auto
        then show ?thesis using set_upsert_one [of r cs] that by blast
      qed
      ultimately show "d \<in> cr_resource_id ` set ?cs" by blast
    qed
  qed
  then show ?case
    using Cons.IH [OF _ own] Cons.prems(1) by (auto simp: upsert_all_def)
qed (simp add: upsert_all_def)

lemma fake_delete_docs:
  "fake_docs (fst (fake_delete_by_resource d fs)) = fake_docs fs - {d}"
  "fake_inv own fs \<Longrightarrow> fake_inv own (fst (fake_delete_by_resource d fs))"
  by (auto simp: fake_delete_by_resource_def fake_docs_def fake_inv_def list_all_iff Let_def)

text \<open>Both views depend on the ids of the chunks only.\<close>

lemma fake_views:
  "fake_docs fs = snd ` set (map (\<lambda>c. (cr_id c, cr_resource_id c)) (fs_chunks fs))"
  "fake_inv own fs = list_all (\<lambda>(c, d). own c = d) (map (\<lambda>c. (cr_id c, cr_resource_id c)) (fs_chunks fs))"
  by (simp_all add: fake_docs_def fake_inv_def image_image list.pred_map comp_def)

lemma fake_same_ids:
  assumes "map (\<lambda>c. (cr_id c, cr_resource_id c)) (fs_chunks fs') = map (\<lambda>c. (cr_id c, cr_resource_id c)) (fs_chunks fs)"
  shows "fake_docs fs' = fake_docs fs \<and> fake_inv own fs' = fake_inv own fs"
  by (simp only: fake_views assms)

lemma fake_upsert_docs:
  assumes "fake_inv own fs" "records_of own rid records"
  shows "fake_inv own (fst (fake_upsert_chunks records fs)) \<and>
    fake_docs (fst (fake_upsert_chunks records fs)) = insert rid (fake_docs fs)"
proof -
  have r: "list_all (\<lambda>r. cr_resource_id r = rid \<and> own (cr_id r) = rid) records" "records \<noteq> []"
    using assms(2) by (simp_all add: records_of_def)
  have i: "\<forall>c \<in> set (fs_chunks fs). own (cr_id c) = cr_resource_id c"
    using assms(1) by (simp add: fake_inv_def list_all_iff)
  show ?thesis using upsert_all_docs [OF r(1) i] r(2)
    by (simp add: fake_inv_def fake_docs_def list_all_iff upsert_chunks_fst)
qed

lemma fake_upsert_contract:
  assumes "fake_inv own fs" "records_of own rid records" "fake_upsert rid records blocks replaces fs = (fs', r)"
  shows "fake_inv own fs' \<and> fake_docs fs' = after_upsert (fake_docs fs) rid replaces r"
proof -
  define fs1 where "fs1 = (case replaces of Some old_id \<Rightarrow> fst (fake_delete_by_resource old_id fs) | None \<Rightarrow> fs)"
  obtain fs2 n where u: "fake_upsert_chunks records fs1 = (fs2, n)" by (metis prod.exhaust)
  have 1: "fake_inv own fs1" "fake_docs fs1 = fake_docs fs - set_option replaces"
    using assms(1) fake_delete_docs by (cases replaces; simp add: fs1_def)+
  have eq: "fs' = fake_upsert_blocks rid blocks fs2" "r = Inr n"
    using assms(3) u by (simp_all add: fake_upsert_def flip: fs1_def)
  have "fake_docs fs' = fake_docs fs2 \<and> fake_inv own fs' = fake_inv own fs2"
    by (rule fake_same_ids) (simp add: eq fake_upsert_blocks_def)
  then show ?thesis using fake_upsert_docs [OF 1(1) assms(2)] 1(2) eq(2) u by (simp add: after_upsert_def)
qed

lemma fake_update_contract:
  assumes "fake_update_resource_metadata sid rid rec fs = (fs', u)"
  shows "fake_docs fs' = fake_docs fs \<and> fake_inv own fs' = fake_inv own fs"
proof -
  have "fs_chunks fs' = map (\<lambda>c. if owns sid rid c then apply_record rec c else c) (fs_chunks fs)"
    using assms by (auto simp: fake_update_resource_metadata_def Let_def)
  then show ?thesis by (intro fake_same_ids) (simp add: apply_record_def)
qed

lemma fake_delete_contract:
  assumes "fake_inv own fs" "fake_delete_by_resource rid fs = (fs', n)"
  shows "fake_inv own fs' \<and> fake_docs fs' = fake_docs fs - {rid}"
  using fake_delete_docs(1) [of rid fs] fake_delete_docs(2) [OF assms(1)] assms(2) by (metis fst_conv)

lemma fake_touch_contract:
  assumes "fake_touch_resource_checked now sid rid fs = (fs', u)"
  shows "fake_docs fs' = fake_docs fs \<and> fake_inv own fs' = fake_inv own fs"
  using assms by (intro fake_same_ids) (auto simp: fake_touch_resource_checked_def split: if_splits)

interpretation fk: document_store "fake_ops now" "fake_inv own" fake_docs own doc_uri for now own doc_uri
proof (unfold_locales, goal_cases)
  case (1 s rid records sid blocks replaces lm s' r)
  then show ?case using fake_upsert_contract by (simp add: fake_ops_def)
next
  case (2 s rid s' d)
  obtain fs' n where e: "fake_delete_by_resource rid s = (fs', n)" by (metis prod.exhaust)
  with 2(2) have "s' = fs'" "d = Inr n" by (simp_all add: fake_ops_def)
  with fake_delete_contract [OF 2(1) e] show ?case by (simp add: after_delete_def)
next
  case (3 s sid rid rec s' u)
  then show ?case using fake_update_contract by (simp add: fake_ops_def)
next
  case (4 s sid rid s' u)
  then show ?case using fake_touch_contract by (simp add: fake_ops_def)
next
  case (5 s sid rid et lm s' u)
  then show ?case by (simp add: fake_ops_def)
next
  case (6 s sid src before k cs c)
  then show ?case by (simp add: fake_ops_def)
qed

section \<open>Runs of store operations\<close>

text \<open>The writes a run makes, one operation of the store each.\<close>

datatype store_call =
    CallUpsert string string "chunk_record list" "block list" "string option" "string option"
  | CallDelete string
  | CallUpdate string string resource_record
  | CallTouch string string
  | CallTouchLiveness string string "string option" "string option"

text \<open>What a call does to the store, and whether it reports success.\<close>

definition done_or :: "'s \<times> (error + 'a) \<Rightarrow> 's \<times> bool" where
  "done_or r = (fst r, \<not> isl (snd r))"

fun perform :: "'s store_ops \<Rightarrow> store_call \<Rightarrow> 's \<Rightarrow> 's \<times> bool" where
  "perform ops (CallUpsert sid rid records blocks replaces lm) s = done_or (so_upsert ops sid rid records blocks replaces lm s)"
| "perform ops (CallDelete rid) s = done_or (so_delete_by_resource ops rid s)"
| "perform ops (CallUpdate sid rid rec) s = done_or (so_update_resource_metadata ops sid rid rec s)"
| "perform ops (CallTouch sid rid) s = done_or (so_touch_resource_checked ops sid rid s)"
| "perform ops (CallTouchLiveness sid rid et lm) s = done_or (so_touch_resource_liveness ops sid rid et lm s)"

text \<open>What it does to the set of documents.\<close>

fun abstract_call :: "store_call \<Rightarrow> bool \<Rightarrow> string set \<Rightarrow> string set" where
  "abstract_call (CallUpsert sid rid records blocks replaces lm) ok D = (if ok then insert rid (D - set_option replaces) else D)"
| "abstract_call (CallDelete rid) ok D = (if ok then D - {rid} else D)"
| "abstract_call c ok D = D"

fun proper_store_call :: "(string \<Rightarrow> string) \<Rightarrow> store_call \<Rightarrow> bool" where
  "proper_store_call chunk_owner (CallUpsert sid rid records blocks replaces lm) = records_of chunk_owner rid records"
| "proper_store_call chunk_owner c = True"

fun perform_all :: "'s store_ops \<Rightarrow> store_call list \<Rightarrow> 's \<Rightarrow> 's \<times> bool list" where
  "perform_all ops [] s = (s, [])"
| "perform_all ops (c # cs) s =
     (case perform ops c s of (s', ok) \<Rightarrow> (case perform_all ops cs s' of (s'', oks) \<Rightarrow> (s'', ok # oks)))"

lemma done_or_iff: "done_or x = (s, ok) \<longleftrightarrow> (\<exists>r. x = (s, r) \<and> ok = (\<not> isl r))"
  by (cases x) (auto simp: done_or_def)

context document_store
begin

lemma perform_refines:
  assumes "ok_store s" "proper_store_call chunk_owner c" "perform ops c s = (s', ok)"
  shows "ok_store s' \<and> docs s' = abstract_call c ok (docs s)"
  using assms
proof (cases c)
  case (CallUpsert sid rid records blocks replaces lm)
  obtain r where r: "so_upsert ops sid rid records blocks replaces lm s = (s', r)" "ok \<longleftrightarrow> \<not> isl r"
    using assms(3) by (auto simp: CallUpsert done_or_iff)
  from upsert [OF assms(1) _ r(1)] assms(2) CallUpsert r(2) show ?thesis by (cases r) (simp_all add: after_upsert_def)
next
  case (CallDelete rid)
  obtain d where d: "so_delete_by_resource ops rid s = (s', d)" "ok \<longleftrightarrow> \<not> isl d"
    using assms(3) by (auto simp: CallDelete done_or_iff)
  from delete [OF assms(1) d(1)] CallDelete d(2) show ?thesis by (cases d) (simp_all add: after_delete_def)
next
  case (CallUpdate sid rid rec)
  obtain u where "so_update_resource_metadata ops sid rid rec s = (s', u)"
    using assms(3) by (auto simp: CallUpdate done_or_iff)
  from update [OF assms(1) this] CallUpdate show ?thesis by simp
next
  case (CallTouch sid rid)
  obtain u where "so_touch_resource_checked ops sid rid s = (s', u)"
    using assms(3) by (auto simp: CallTouch done_or_iff)
  from touch [OF assms(1) this] CallTouch show ?thesis by simp
next
  case (CallTouchLiveness sid rid et lm)
  obtain u where "so_touch_resource_liveness ops sid rid et lm s = (s', u)"
    using assms(3) by (auto simp: CallTouchLiveness done_or_iff)
  from touch_liveness [OF assms(1) this] CallTouchLiveness show ?thesis by simp
qed

lemma perform_all_refines:
  assumes "ok_store s" "list_all (proper_store_call chunk_owner) cs" "perform_all ops cs s = (s', oks)"
  shows "ok_store s' \<and> docs s' = fold (\<lambda>(c, ok). abstract_call c ok) (zip cs oks) (docs s)"
  using assms
proof (induction cs arbitrary: s s' oks)
  case (Cons c cs)
  obtain s1 ok where c: "perform ops c s = (s1, ok)" by (metis prod.exhaust)
  obtain oks' where cs: "perform_all ops cs s1 = (s', oks')" "oks = ok # oks'"
    using Cons.prems(3) c by (auto split: prod.splits)
  from perform_refines [OF Cons.prems(1) _ c] Cons.prems(2) have 1: "ok_store s1" "docs s1 = abstract_call c ok (docs s)" by simp_all
  from Cons.IH [OF 1(1) _ cs(1)] Cons.prems(2) 1(2) cs(2) show ?case by simp
qed simp

end

text \<open>
  C29: The in-memory store implements the document set: after any sequence of upserts, deletions,
  metadata updates and touches the documents it holds are those of the specification, which adds the
  upserted document, drops the one it replaces, drops the deleted one, and changes nothing otherwise. (Chunk ids belong to
  one document each.)
\<close>

theorem store_refines_document_set:
  assumes "fake_inv own fs" "list_all (proper_store_call own) cs" "perform_all (fake_ops now) cs fs = (fs', oks)"
  shows "fake_inv own fs' \<and> fake_docs fs' = fold (\<lambda>(c, ok). abstract_call c ok) (zip cs oks) (fake_docs fs)"
  by (rule fk.perform_all_refines [OF assms])

text \<open>An example: a document is upserted, then replaced by another, then a third is deleted in vain.\<close>

lemma store_refines_document_set_witness:
  "let cs = [CallUpsert ''s'' ''a'' [demo_chunk ''ca'' ''a'' ''s''] [] None None,
             CallUpsert ''s'' ''b'' [demo_chunk ''cb'' ''b'' ''s''] [] (Some ''a'') None, CallDelete ''c''];
       (fs', oks) = perform_all (fake_ops ''2026'') cs fake_new
   in fake_docs fs' = {''b''} \<and> oks = [True, True, True]"
proof -
  let ?cs = "[CallUpsert ''s'' ''a'' [demo_chunk ''ca'' ''a'' ''s''] [] None None,
             CallUpsert ''s'' ''b'' [demo_chunk ''cb'' ''b'' ''s''] [] (Some ''a'') None, CallDelete ''c'']"
  obtain fs' oks where run: "perform_all (fake_ops ''2026'') ?cs fake_new = (fs', oks)" by (metis prod.exhaust)
  have oks: "oks = [True, True, True]"
    using run by (auto simp: done_or_def fake_ops_def fake_upsert_def Let_def split: prod.splits)
  have "fake_inv (drop 1) fake_new" "fake_docs fake_new = {}" by (simp_all add: fake_inv_def fake_docs_def fake_new_def)
  moreover have "list_all (proper_store_call (drop 1)) ?cs" by (simp add: records_of_def demo_chunk_def from_chunk_def)
  ultimately show ?thesis using store_refines_document_set [OF _ _ run, of "drop 1"] run oks by simp
qed

end
