(* ===== verification/RunSafety.thy ===== *)
theory RunSafety
  imports SourceRun StoreContract
begin

text \<open>
  What a run of a source keeps. The index of known documents and the store agree all along
  (\<open>coherent\<close>): every known URI has its document in the store. The callbacks only ever add to the
  known URIs; removal happens afterwards, and only for the reasons the code names.
\<close>

section \<open>The index and the store agree\<close>

definition coherent :: "('s \<Rightarrow> bool) \<Rightarrow> ('s \<Rightarrow> string set) \<Rightarrow> (string \<Rightarrow> string) \<Rightarrow> 's \<Rightarrow> document_index \<Rightarrow> bool" where
  "coherent ok_store docs doc_uri s idx \<longleftrightarrow> ok_store s \<and>
     list_all (\<lambda>uri. case index_get idx uri of
         None \<Rightarrow> True
       | Some rec \<Rightarrow> dr_uri rec = uri \<and> doc_uri (dr_resource_id rec) = uri \<and> dr_resource_id rec \<in> docs s) (index_uris idx)"

definition known :: "'s pipeline \<Rightarrow> string set" where
  "known st = set (index_uris (pc_index st))"

text \<open>
  What an ingestor must yield: a document id belongs to one URI, and the chunk ids made for it to it
  alone. Both hold as long as the hashes behind the ids do not collide.
\<close>

definition proper_resource ::
  "('s, 'i) run_env \<Rightarrow> (string \<Rightarrow> string) \<Rightarrow> (string \<Rightarrow> string) \<Rightarrow> resource \<Rightarrow> bool" where
  "proper_resource env chunk_owner doc_uri res \<longleftrightarrow> doc_uri (rs_id res) = rs_uri res \<and>
     (case chunk_and_embed (re_ext env) (re_config env) res (re_source env) of
        Inr (Some (outs, embeddings)) \<Rightarrow> list_all (\<lambda>out. chunk_owner (co_id out) = rs_id res) outs
      | _ \<Rightarrow> True)"

fun proper_call :: "('s, 'i) run_env \<Rightarrow> (string \<Rightarrow> string) \<Rightarrow> (string \<Rightarrow> string) \<Rightarrow> ingest_call \<Rightarrow> bool" where
  "proper_call env chunk_owner doc_uri (OnResource res) = proper_resource env chunk_owner doc_uri res"
| "proper_call env chunk_owner doc_uri (OnResourceFallback res) = proper_resource env chunk_owner doc_uri res"
| "proper_call env chunk_owner doc_uri _ = True"

definition proper_prog ::
  "('s, 'i) run_env \<Rightarrow> (string \<Rightarrow> string) \<Rightarrow> (string \<Rightarrow> string) \<Rightarrow> 'a ingest_prog \<Rightarrow> bool" where
  "proper_prog env chunk_owner doc_uri p = all_calls (proper_call env chunk_owner doc_uri) p"

lemma proper_prog_Call [simp]:
  "proper_prog env chunk_owner doc_uri (Call c k) \<longleftrightarrow>
     proper_call env chunk_owner doc_uri c \<and> (\<forall>r. proper_prog env chunk_owner doc_uri (k r))"
  by (simp add: proper_prog_def)

lemma index_get_uris: "index_get idx uri = Some rec \<Longrightarrow> uri \<in> set (index_uris idx)"
  by (auto simp: index_get_def index_uris_def dest!: map_of_SomeD intro: rev_image_eqI)

lemma coherent_iff:
  "coherent ok_store docs doc_uri s idx \<longleftrightarrow> ok_store s \<and>
     (\<forall>uri rec. index_get idx uri = Some rec \<longrightarrow> dr_uri rec = uri \<and> doc_uri (dr_resource_id rec) = uri \<and> dr_resource_id rec \<in> docs s)"
  by (auto simp: coherent_def list_all_iff split: option.splits dest: index_get_uris)

lemma coherentD:
  assumes "coherent ok_store docs doc_uri s idx" "index_get idx uri = Some rec"
  shows "ok_store s" "dr_uri rec = uri" "doc_uri (dr_resource_id rec) = uri" "dr_resource_id rec \<in> docs s"
  using assms by (auto simp: coherent_iff)

lemma index_get_upsert: "index_get (index_upsert r idx) uri = (if uri = dr_uri r then Some r else index_get idx uri)"
  by (simp add: index_get_def index_upsert_def map_of_update_key)

lemma index_get_remove: "index_get (fst (index_remove u idx)) uri = (if uri = u then None else index_get idx uri)"
  by (simp add: index_get_def index_remove_def map_of_delete_key)

lemma index_uris_upsert: "set (index_uris (index_upsert r idx)) = insert (dr_uri r) (set (index_uris idx))"
  by (simp add: index_uris_def index_upsert_def dom_update)

lemma index_uris_remove: "set (index_uris (fst (index_remove u idx))) = set (index_uris idx) - {u}"
  by (simp add: index_uris_def index_remove_def AList.delete_keys set_removeAll flip: set_map)

lemma known_get: "uri \<in> set (index_uris idx) \<longleftrightarrow> index_get idx uri \<noteq> None"
  by (simp add: index_uris_def index_get_def map_of_eq_None_iff)

text \<open>A write that loses at most documents \<open>X\<close> of one URI, whose entry the index then replaces or drops.\<close>

lemma coherent_others:
  assumes "coherent ok_store docs doc_uri s idx" "docs s - X \<subseteq> docs s'" "X \<subseteq> {d. doc_uri d = u}"
    "index_get idx uri = Some rec" "uri \<noteq> u"
  shows "dr_uri rec = uri \<and> doc_uri (dr_resource_id rec) = uri \<and> dr_resource_id rec \<in> docs s'"
proof -
  note rec = coherentD [OF assms(1,4)]
  have "dr_resource_id rec \<notin> X" using rec(3) assms(3,5) by auto
  then have "dr_resource_id rec \<in> docs s'" using rec(4) assms(2) by (meson DiffI subsetD)
  then show ?thesis using rec by simp
qed

lemma coherent_upsert:
  assumes "coherent ok_store docs doc_uri s idx" "ok_store s'" "docs s - X \<subseteq> docs s'" "X \<subseteq> {d. doc_uri d = dr_uri r}"
    and "doc_uri (dr_resource_id r) = dr_uri r" "dr_resource_id r \<in> docs s'"
  shows "coherent ok_store docs doc_uri s' (index_upsert r idx)"
  unfolding coherent_iff index_get_upsert
  using coherent_others [OF assms(1,3,4)] assms(2,5,6) by (simp split: if_splits)

lemma coherent_remove:
  assumes "coherent ok_store docs doc_uri s idx" "ok_store s'" "docs s - X \<subseteq> docs s'" "X \<subseteq> {d. doc_uri d = u}"
  shows "coherent ok_store docs doc_uri s' (fst (index_remove u idx))"
  unfolding coherent_iff index_get_remove
  using coherent_others [OF assms(1,3,4)] assms(2) by (simp split: if_splits)

lemma coherent_store:
  assumes "coherent ok_store docs doc_uri s idx" "ok_store s'" "docs s' = docs s"
  shows "coherent ok_store docs doc_uri s' idx"
  using assms by (simp add: coherent_iff)

lemmas bookkeeping = emit_def tally_def start_document_def observe_def

lemma bookkeeping_state [simp]:
  "pc_store (emit e st) = pc_store st" "pc_index (emit e st) = pc_index st"
  "pc_store (tally f st) = pc_store st" "pc_index (tally f st) = pc_index st"
  "pc_store (observe u st) = pc_store st" "pc_index (observe u st) = pc_index st"
  by (simp_all add: bookkeeping)

definition good :: "('s \<Rightarrow> bool) \<Rightarrow> ('s \<Rightarrow> string set) \<Rightarrow> (string \<Rightarrow> string) \<Rightarrow> 's pipeline \<Rightarrow> bool" where
  "good ok_store docs doc_uri st = coherent ok_store docs doc_uri (pc_store st) (pc_index st)"

definition keeps :: "('s pipeline \<Rightarrow> bool) \<Rightarrow> 's pipeline \<Rightarrow> 's pipeline \<Rightarrow> bool" where
  "keeps P st st' \<longleftrightarrow> (P st \<longrightarrow> P st' \<and> known st \<subseteq> known st')"

lemma keeps_refl: "keeps P st st"
  by (simp add: keeps_def)

lemma keeps_trans: "keeps P st st' \<Longrightarrow> keeps P st' st'' \<Longrightarrow> keeps P st st''"
  by (auto simp: keeps_def)

lemma keeps_bookkeeping [simp]:
  "keeps (good ok_store docs doc_uri) st (emit e st') = keeps (good ok_store docs doc_uri) st st'"
  "keeps (good ok_store docs doc_uri) st (tally f st') = keeps (good ok_store docs doc_uri) st st'"
  "keeps (good ok_store docs doc_uri) st (st'\<lparr>pc_skip_error_count := n\<rparr>) = keeps (good ok_store docs doc_uri) st st'"
  "keeps (good ok_store docs doc_uri) st (st'\<lparr>pc_discovered_total := n\<rparr>) = keeps (good ok_store docs doc_uri) st st'"
  "keeps (good ok_store docs doc_uri) st (st'\<lparr>pc_gone := g\<rparr>) = keeps (good ok_store docs doc_uri) st st'"
  "keeps (good ok_store docs doc_uri) (observe u st) st' = keeps (good ok_store docs doc_uri) st st'"
  by (simp_all add: keeps_def good_def known_def)

lemma keeps_same: "pc_store st' = pc_store st \<Longrightarrow> pc_index st' = pc_index st \<Longrightarrow> keeps (good ok_store docs doc_uri) st st'"
  by (simp add: keeps_def good_def known_def)

lemma single_document:
  "(case xs of [] \<Rightarrow> Inl e | [x] \<Rightarrow> f x | x # y # zs \<Rightarrow> Inl e') = Inr r \<longleftrightarrow> (\<exists>x. xs = [x] \<and> f x = Inr r)"
  by (auto split: list.splits)

lemma chunk_and_embed_shape:
  "chunk_and_embed ext config res source = Inr (Some (outs, embeddings)) \<Longrightarrow> outs \<noteq> [] \<and> length embeddings = length outs"
  unfolding chunk_and_embed_def Let_def by (auto simp: and_then_eq_Inr single_document split: if_splits)

lemma record_of_ids:
  "cr_resource_id (record_of ext config res out e) = rs_id res" "cr_id (record_of ext config res out e) = co_id out"
  by (simp_all add: record_of_def from_chunk_def Let_def)

context document_store
begin

abbreviation good_state :: "'s pipeline \<Rightarrow> bool" where
  "good_state \<equiv> good ok_store docs doc_uri"

lemma keeps_store:
  assumes "good_state st \<Longrightarrow> ok_store s \<and> docs s = docs (pc_store st)"
  shows "keeps good_state st (st\<lparr>pc_store := s\<rparr>)"
  using assms by (auto simp: keeps_def good_def known_def intro: coherent_store)

lemma keeps_reindex:
  assumes "good_state st \<Longrightarrow> ok_store s \<and> docs s = docs (pc_store st)" "index_get (pc_index st) uri = Some existing"
    "good_state st \<Longrightarrow> dr_uri r = uri" "dr_resource_id r = dr_resource_id existing"
  shows "keeps good_state st (st\<lparr>pc_store := s, pc_index := index_upsert r (pc_index st)\<rparr>)"
proof -
  have "good_state (st\<lparr>pc_store := s, pc_index := index_upsert r (pc_index st)\<rparr>)" if g: "good_state st"
    using coherent_upsert [of ok_store docs doc_uri "pc_store st" "pc_index st" s "{}" r] g assms
      coherentD [of ok_store docs doc_uri "pc_store st" "pc_index st" uri existing]
    by (simp add: good_def)
  then show ?thesis by (auto simp: keeps_def known_def index_uris_upsert)
qed

lemma good_ok: "good_state st \<Longrightarrow> ok_store (pc_store st)"
  by (simp add: good_def coherent_iff)

lemma good_uri: "good_state st \<Longrightarrow> index_get (pc_index st) uri = Some rec \<Longrightarrow> dr_uri rec = uri"
  unfolding good_def by (rule coherentD)

section \<open>Every callback keeps them\<close>

lemma touch_checked_keeps:
  assumes "re_ops env = ops"
  shows "keeps good_state st (touch_checked env uri rid st)"
proof -
  obtain s u where t: "so_touch_resource_checked ops (ic_store_id (re_config env)) rid (pc_store st) = (s, u)"
    by (metis prod.exhaust)
  have s: "ok_store s \<and> docs s = docs (pc_store st)" if "good_state st" using touch [OF good_ok [OF that] t] .
  show ?thesis using assms t keeps_store [OF s] good_uri
    by (auto simp: touch_checked_def split: sum.split option.split intro!: keeps_reindex [OF s])
qed

lemma touch_keeps:
  assumes "re_ops env = ops" "keeps good_state st0 st"
  shows "keeps good_state st0 (touch_checked env uri rid st)"
    "keeps good_state st0 (touch_if_fetched env uri rid origin st)"
    "keeps good_state st0 (touch_known env uri st)"
  using assms keeps_trans [OF assms(2) touch_checked_keeps [OF assms(1)]]
  by (simp_all add: touch_if_fetched_def touch_known_def split: option.split)

lemma update_docs:
  assumes "so_update_resource_metadata ops sid rid rec (pc_store st) = (s, u)" "good_state st"
  shows "ok_store s \<and> docs s = docs (pc_store st)"
  using update [OF good_ok [OF assms(2)] assms(1)] .

lemma on_unchanged_content_keeps:
  assumes "re_ops env = ops" "index_get (pc_index st) (rs_uri res) = Some existing"
  shows "keeps good_state st (on_unchanged_content env res origin existing st)"
  unfolding on_unchanged_content_def Let_def assms(1)
  by (auto split: prod.split sum.split
      intro!: touch_keeps [OF assms(1)] keeps_refl keeps_store keeps_reindex [OF _ assms(2)] update_docs)

lemma index_resource_docs:
  assumes "re_ops env = ops" "ok_store s" "proper_resource env chunk_owner doc_uri res"
    "index_resource (re_ext env) (re_ops env) (re_config env) res (re_source env) replaces s = (s', r)"
  shows "ok_store s' \<and> docs s' = (case r of Inr (Written n h) \<Rightarrow> insert (rs_id res) (docs s - set_option replaces) | _ \<Rightarrow> docs s)"
proof (cases "chunk_and_embed (re_ext env) (re_config env) res (re_source env)")
  case (Inr written)
  show ?thesis
  proof (cases written)
    case (Some oe)
    obtain outs embeddings where oe: "oe = (outs, embeddings)" by (metis prod.exhaust)
    define records where "records = map (\<lambda>(out, embedding). record_of (re_ext env) (re_config env) res out embedding)
        (zip outs embeddings)"
    have ce: "chunk_and_embed (re_ext env) (re_config env) res (re_source env) = Inr (Some (outs, embeddings))"
      using Inr Some oe by simp
    have own: "list_all (\<lambda>out. chunk_owner (co_id out) = rs_id res) outs"
      using assms(3) ce by (simp add: proper_resource_def)
    have recs: "records_of chunk_owner (rs_id res) records"
    proof -
      have "records \<noteq> []" using chunk_and_embed_shape [OF ce] by (cases outs; cases embeddings) (simp_all add: records_def)
      moreover have "cr_resource_id r = rs_id res \<and> chunk_owner (cr_id r) = rs_id res" if r: "r \<in> set records" for r
      proof -
        obtain out e where "(out, e) \<in> set (zip outs embeddings)" "r = record_of (re_ext env) (re_config env) res out e"
          using r by (auto simp: records_def)
        with own show ?thesis by (auto simp: list_all_iff record_of_ids dest: set_zip_leftD)
      qed
      ultimately show ?thesis by (simp add: records_of_def list_all_iff)
    qed
    obtain s1 w where u: "so_upsert ops (ic_store_id (re_config env)) (rs_id res) records (rs_blocks res) replaces
        (rs_external_last_modified res) s = (s1, w)" by (metis prod.exhaust)
    have "index_resource (re_ext env) ops (re_config env) res (re_source env) replaces s =
        (s1, case w of Inl e \<Rightarrow> Inl e | Inr n \<Rightarrow> Inr (Written (length records) (ds_metadata_hash (derive_resource_state (re_ext env) res))))"
      unfolding index_resource_def ce Let_def sum.case option.case prod.case records_def [symmetric] u
      by (cases w) simp_all
    then have "s' = s1" "r = (case w of Inl e \<Rightarrow> Inl e
        | Inr n \<Rightarrow> Inr (Written (length records) (ds_metadata_hash (derive_resource_state (re_ext env) res))))"
      using assms(1,4) by simp_all
    then show ?thesis using upsert [OF assms(2) recs u] by (simp add: after_upsert_def split: sum.split)
  qed (use assms Inr in \<open>auto simp: index_resource_def\<close>)
qed (use assms in \<open>auto simp: index_resource_def\<close>)

lemma on_changed_content_keeps:
  assumes "re_ops env = ops" "proper_resource env chunk_owner doc_uri res"
  shows "keeps good_state st (on_changed_content env res origin st)"
proof -
  define replaces where "replaces = map_option dr_resource_id (index_get (pc_index st) (rs_uri res))"
  obtain s r where i: "index_resource (re_ext env) (re_ops env) (re_config env) res (re_source env) replaces (pc_store st) = (s, r)"
    by (metis prod.exhaust)
  have d: "ok_store s" "docs s = (case r of Inr (Written n h) \<Rightarrow> insert (rs_id res) (docs (pc_store st) - set_option replaces) | _ \<Rightarrow> docs (pc_store st))"
    if "good_state st" using index_resource_docs [OF assms(1) good_ok [OF that] assms(2) i] by auto
  have indexed: "keeps good_state st (st\<lparr>pc_store := s, pc_index := index_upsert rec (pc_index st)\<rparr>)"
    if w: "r = Inr (Written n h)" and rec: "dr_uri rec = rs_uri res" "dr_resource_id rec = rs_id res" for n h rec
  proof -
    have "good_state (st\<lparr>pc_store := s, pc_index := index_upsert rec (pc_index st)\<rparr>)" if g: "good_state st"
    proof -
      have "set_option replaces \<subseteq> {d. doc_uri d = dr_uri rec}"
        using g rec by (auto simp: replaces_def good_def dest: coherentD)
      moreover have "doc_uri (dr_resource_id rec) = dr_uri rec" using assms(2) rec by (simp add: proper_resource_def)
      ultimately show ?thesis
        using coherent_upsert [of ok_store docs doc_uri "pc_store st" "pc_index st" s "set_option replaces" rec] g d [OF g] w rec
        by (auto simp: good_def)
    qed
    then show ?thesis by (auto simp: keeps_def known_def index_uris_upsert)
  qed
  show ?thesis
    unfolding on_changed_content_def Let_def replaces_def [symmetric] i
    by (auto split: sum.split index_outcome.split intro!: touch_keeps [OF assms(1)] keeps_store indexed conjI d(1))
      (simp_all add: d(2))
qed

lemma on_resource_keeps:
  assumes "re_ops env = ops" "proper_resource env chunk_owner doc_uri res"
  shows "keeps good_state st (on_resource_impl env res origin st)"
proof -
  have "keeps good_state (observe (rs_uri res) st) (on_resource_impl env res origin st)"
    unfolding on_resource_impl_def Let_def
    by (auto split: option.split intro!: on_unchanged_content_keeps assms on_changed_content_keeps
        simp del: keeps_bookkeeping)
  then show ?thesis by simp
qed

lemma on_skipped_keeps:
  assumes "re_ops env = ops"
  shows "keeps good_state st (on_skipped env uri reason st)"
proof -
  have o: "keeps good_state st (observe uri st)" by (rule keeps_same) simp_all
  then show ?thesis unfolding on_skipped_def Let_def
    by (cases reason) (simp_all add: touch_keeps [OF assms])
qed

lemma persist_keeps:
  assumes "re_ops env = ops" "index_get (pc_index st) uri = Some existing"
    "dr_uri updated = dr_uri existing" "dr_resource_id updated = dr_resource_id existing"
  shows "keeps good_state st (fst (persist_metadata_write env uri rid rec updated what st))"
  unfolding persist_metadata_write_def assms(1)
  by (auto split: prod.split sum.split intro!: keeps_store keeps_reindex [OF _ assms(2) _ assms(4)] update_docs
      simp: assms(3) good_uri [OF _ assms(2)])

lemma refreshed_keeps:
  assumes "re_ops env = ops"
  shows "keeps good_state st (fst (on_validators_refreshed env uri meta st))"
    "keeps good_state st (fst (on_metadata_refreshed env uri e x m st))"
  unfolding on_validators_refreshed_def on_metadata_refreshed_def Let_def
  by (auto split: option.split sum.split intro!: keeps_refl persist_keeps [OF assms])

lemma on_call_keeps:
  assumes "re_ops env = ops" "proper_call env chunk_owner doc_uri c"
  shows "keeps good_state st (fst (on_call env c st))"
  using assms
  by (cases c) (simp_all add: with_reply_def on_discovered_def on_gone_def keeps_refl on_resource_keeps on_skipped_keeps refreshed_keeps)

lemma drive_keeps:
  assumes "re_ops env = ops" "proper_prog env chunk_owner doc_uri p"
  shows "keeps good_state st (fst (drive env p st))"
  using assms(2)
proof (induction p arbitrary: st)
  case (Call c k)
  obtain st' r where c: "on_call env c st = (st', r)" by (metis prod.exhaust)
  have "keeps good_state st st'" using on_call_keeps [OF assms(1), of c st] Call.prems c by simp
  moreover have "keeps good_state st' (fst (drive env (k r) st'))" using Call.IH [of "k r"] Call.prems by auto
  ultimately show ?case using c by (simp add: keeps_trans)
qed (simp add: keeps_refl)

end

end
