(* ===== verification/RunRemoval.thy ===== *)
theory RunRemoval
  imports RunSafety
begin

text \<open>
  What a run removes. After the ingestor is done the index only shrinks (\<open>sheds\<close>), by documents that
  the origin confirmed gone or that the sweep presumes gone; the properties say when each can happen.
\<close>

definition sheds :: "('s pipeline \<Rightarrow> bool) \<Rightarrow> string set \<Rightarrow> 's pipeline \<Rightarrow> 's pipeline \<Rightarrow> bool" where
  "sheds P R st st' \<longleftrightarrow> (P st \<longrightarrow> P st') \<and> pc_seen st' = pc_seen st \<and> pc_gone st' = pc_gone st \<and>
     (\<forall>uri. index_get (pc_index st') uri = index_get (pc_index st) uri \<or> uri \<in> R \<and> index_get (pc_index st') uri = None)"

lemma sheds_refl: "sheds P R st st"
  by (simp add: sheds_def)

lemma sheds_trans: "sheds P R st st' \<Longrightarrow> sheds P R st' st'' \<Longrightarrow> sheds P R st st''"
  unfolding sheds_def by metis

lemma sheds_mono: "sheds P R st st' \<Longrightarrow> R \<subseteq> R' \<Longrightarrow> sheds P R' st st'"
  unfolding sheds_def by blast

lemma sheds_bookkeeping [simp]:
  "sheds (good ok_store docs doc_uri) R st (tally f st') = sheds (good ok_store docs doc_uri) R st st'"
  "sheds (good ok_store docs doc_uri) R (tally f st) st' = sheds (good ok_store docs doc_uri) R st st'"
  "sheds (good ok_store docs doc_uri) R st (emit e st') = sheds (good ok_store docs doc_uri) R st st'"
  by (simp_all add: sheds_def good_def bookkeeping)

lemma sheds_owned: "sheds P R st st' \<Longrightarrow> owned_by_source env st' uri \<Longrightarrow> owned_by_source env st uri"
  unfolding sheds_def owned_by_source_def by (metis option.case(1))

lemma sheds_known: "sheds P R st st' \<Longrightarrow> uri \<in> known st \<Longrightarrow> uri \<in> known st' \<or> uri \<in> R"
  unfolding sheds_def known_def known_get by metis

text \<open>A loop sheds what its steps shed; a step may assume what the loop has kept so far.\<close>

lemma run_each_sheds:
  assumes "\<And>x st'. x \<in> set xs \<Longrightarrow> sheds P R st0 st' \<Longrightarrow> sheds P R st' (fst (f x st'))"
    and "sheds P R st0 st"
  shows "sheds P R st0 (fst (run_each f xs st))"
  using assms
proof (induction xs arbitrary: st)
  case (Cons x xs)
  obtain st' r where f: "f x st = (st', r)" by (metis prod.exhaust)
  with Cons.prems have "sheds P R st0 st'" by (metis fst_conv list.set_intros(1) sheds_trans)
  with Cons f show ?case by (auto split: sum.split)
qed simp

lemma run_then_sheds:
  assumes "sheds P R st0 (fst r)" "\<And>a st. r = (st, Inr a) \<Longrightarrow> sheds P R st0 (fst (f a st))"
  shows "sheds P R st0 (fst (run_then r f))"
  using assms by (auto simp: run_then_def split: prod.split sum.split)

section \<open>Each removal\<close>

context document_store
begin

lemma delete_sheds:
  assumes "re_ops env = ops" "doc_uri rid = uri"
  shows "sheds good_state {uri} st (fst (delete_document env rid (st\<lparr>pc_index := fst (index_remove uri (pc_index st))\<rparr>)))"
proof -
  obtain s d where d: "so_delete_by_resource ops rid (pc_store st) = (s, d)" by (metis prod.exhaust)
  have "good_state (st\<lparr>pc_index := fst (index_remove uri (pc_index st)), pc_store := s\<rparr>)" if g: "good_state st"
  proof -
    have "ok_store s" "docs (pc_store st) - {rid} \<subseteq> docs s"
      using delete [OF good_ok [OF g] d] by (auto simp: after_delete_def split: sum.splits)
    then show ?thesis
      using coherent_remove [of ok_store docs doc_uri "pc_store st" "pc_index st" s "{rid}" uri] g assms(2)
      by (simp add: good_def)
  qed
  then have "sheds good_state {uri} st (st\<lparr>pc_index := fst (index_remove uri (pc_index st)), pc_store := s\<rparr>)"
    by (simp add: sheds_def index_get_remove)
  then show ?thesis using d assms(1) by (auto simp: delete_document_def Let_def split: sum.split)
qed

lemma prune_sheds:
  assumes "re_ops env = ops" "good_state st"
  shows "sheds good_state (if re_deletion env = Prune then {uri} else {}) st (fst (prune_or_count env uri st))"
proof (cases "re_deletion env")
  case Prune
  show ?thesis
  proof (cases "index_get (pc_index st) uri")
    case None
    then have "fst (prune_or_count env uri st) = st\<lparr>pc_index := fst (index_remove uri (pc_index st))\<rparr>"
      using Prune by (simp add: prune_or_count_def index_remove_def index_get_def)
    moreover have "good_state (st\<lparr>pc_index := fst (index_remove uri (pc_index st))\<rparr>)"
      using assms(2) coherent_remove [of ok_store docs doc_uri "pc_store st" "pc_index st" "pc_store st" "{}" uri]
      by (simp add: good_def coherent_iff)
    ultimately show ?thesis using Prune by (simp add: sheds_def index_get_remove)
  next
    case (Some rec)
    then have "doc_uri (dr_resource_id rec) = uri" using assms(2) coherentD(3) unfolding good_def by metis
    from delete_sheds [OF assms(1) this, of st] show ?thesis
      using Some Prune by (simp add: prune_or_count_def index_remove_def index_get_def)
  qed
qed (simp add: prune_or_count_def sheds_refl)

lemma touch_liveness_sheds:
  assumes "re_ops env = ops"
  shows "sheds good_state R st (fst (touch_liveness env c v st))"
proof -
  obtain s u where t: "so_touch_resource_liveness ops (src_store_id (re_source env)) (sf_resource_id c) (v_etag v)
      (v_last_modified v) (pc_store st) = (s, u)" by (metis prod.exhaust)
  then show ?thesis using touch_liveness [OF good_ok t] assms
    by (auto simp: touch_liveness_def sheds_def good_def intro: coherent_store)
qed

lemma probe_sheds:
  assumes "re_ops env = ops" "doc_uri (sf_resource_id c) = sf_uri c"
  shows "sheds good_state {uri. uri = sf_uri c \<and> (\<exists>v. re_fetch env uri v = Inr FetchGone)} st (fst (probe_liveness_candidate env c st))"
proof -
  define stored where "stored = \<lparr>v_etag = sf_external_etag c, v_last_modified = sf_external_last_modified c\<rparr>"
  show ?thesis
  proof (cases "re_fetch env (sf_uri c) stored = Inr FetchGone")
    case True
    then have "{sf_uri c} \<subseteq> {uri. uri = sf_uri c \<and> (\<exists>v. re_fetch env uri v = Inr FetchGone)}" by auto
    then have "sheds good_state {uri. uri = sf_uri c \<and> (\<exists>v. re_fetch env uri v = Inr FetchGone)} (tally f st)
        (fst (delete_document env (sf_resource_id c) (tally f st\<lparr>pc_index := fst (index_remove (sf_uri c) (pc_index (tally f st)))\<rparr>)))" for f
      by (rule sheds_mono [OF delete_sheds [OF assms]])
    then show ?thesis using True by (simp add: probe_liveness_candidate_def Let_def flip: stored_def)
  next
    case False
    have "sheds good_state {uri. uri = sf_uri c \<and> (\<exists>v. re_fetch env uri v = Inr FetchGone)} (tally f st)
        (fst (touch_liveness env c v (tally f st)))" for f v by (rule touch_liveness_sheds [OF assms(1)])
    with False show ?thesis
      by (auto simp: probe_liveness_candidate_def Let_def simp flip: stored_def split: sum.split fetch_result.split)
  qed
qed

end

text \<open>
  What may be removed after the ingestor has finished in state \<open>st\<close>: nothing under \<open>Retain\<close>; under
  \<open>Prune\<close>, a document of this source that the origin reported gone, or that a path or URL source did
  not see in a complete enumeration that saw another of its documents, or an unseen feed entry whose
  own page answers \<open>Gone\<close> now.
\<close>

definition removable :: "('s, 'i) run_env \<Rightarrow> enumeration \<Rightarrow> 's pipeline \<Rightarrow> string \<Rightarrow> bool" where
  "removable env enumeration st uri \<longleftrightarrow> re_deletion env = Prune \<and>
     (owned_by_source env st uri \<and> uri \<in> set (pc_gone st) \<or>
      owned_by_source env st uri \<and> \<not> is_feed (re_source env) \<and> enumeration = Complete \<and> uri \<notin> pc_seen st \<and>
        (\<exists>seen \<in> pc_seen st. owned_by_source env st seen) \<or>
      is_feed (re_source env) \<and> enumeration = Complete \<and> uri \<notin> pc_seen st \<and> (\<exists>v. re_fetch env uri v = Inr FetchGone))"

context document_store
begin

lemma gone_loop_sheds:
  assumes "re_ops env = ops" "good_state st" "set uris \<subseteq> set (pc_gone st)"
  shows "sheds good_state (Collect (removable env enumeration st)) st (fst (run_each (remove_confirmed_gone env) uris st))"
proof (rule run_each_sheds [OF _ sheds_refl])
  fix uri st' assume uri: "uri \<in> set uris" and st': "sheds good_state (Collect (removable env enumeration st)) st st'"
  show "sheds good_state (Collect (removable env enumeration st)) st' (fst (remove_confirmed_gone env uri st'))"
  proof (cases "owned_by_source env st' uri")
    case True
    then have "owned_by_source env st uri" by (rule sheds_owned [OF st'])
    then have "(if re_deletion env = Prune then {uri} else {}) \<subseteq> Collect (removable env enumeration st)"
      using uri assms(3) by (auto simp: removable_def)
    moreover have "good_state st'" using st' assms(2) by (simp add: sheds_def)
    ultimately show ?thesis using True sheds_mono [OF prune_sheds [OF assms(1)]]
      by (simp add: remove_confirmed_gone_def)
  qed (simp add: remove_confirmed_gone_def sheds_refl)
qed

lemma not_suppressed:
  "suppressed_because enumeration owned seen = None \<Longrightarrow> uri \<in> set owned \<Longrightarrow>
     enumeration = Complete \<and> (\<exists>uri \<in> set owned. uri \<in> seen)"
  by (cases enumeration) (auto simp: suppressed_because_def list_ex_iff split: if_splits)

lemma owned_urisD:
  assumes "sheds good_state R st0 st" "uri \<in> set (owned_uris env st)"
  shows "owned_by_source env st0 uri"
proof -
  from assms(2) have "owned_by_source env st uri" by (simp add: owned_uris_def)
  then show ?thesis by (rule sheds_owned [OF assms(1)])
qed

lemma presumed_sweep_sheds:
  assumes "re_ops env = ops" "good_state st0" "sheds good_state (Collect (removable env enumeration st0)) st0 st"
    "\<not> is_feed (re_source env)" "suppressed_because enumeration (owned_uris env st) (pc_seen st) = None"
  shows "sheds good_state (Collect (removable env enumeration st0)) st0
    (fst (run_each (\<lambda>uri st'. if uri \<in> pc_seen st \<or> uri \<in> set (pc_gone st) then (st', Inr ())
       else prune_or_count env uri st') (owned_uris env st) st))"
proof (rule run_each_sheds [OF _ assms(3)])
  fix uri st' assume uri: "uri \<in> set (owned_uris env st)"
    and st': "sheds good_state (Collect (removable env enumeration st0)) st0 st'"
  have seen: "pc_seen st = pc_seen st0" using assms(3) by (simp add: sheds_def)
  obtain w where "enumeration = Complete" "w \<in> set (owned_uris env st)" "w \<in> pc_seen st"
    using not_suppressed [OF assms(5) uri] by blast
  then have "uri \<notin> pc_seen st \<Longrightarrow> re_deletion env = Prune \<Longrightarrow> removable env enumeration st0 uri"
    using owned_urisD [OF assms(3) uri] owned_urisD [OF assms(3)] assms(4) seen unfolding removable_def by blast
  then have "uri \<notin> pc_seen st \<Longrightarrow> (if re_deletion env = Prune then {uri} else {}) \<subseteq> Collect (removable env enumeration st0)"
    by simp
  moreover have "good_state st'" using st' assms(2) by (simp add: sheds_def)
  ultimately show "sheds good_state (Collect (removable env enumeration st0)) st'
      (fst (if uri \<in> pc_seen st \<or> uri \<in> set (pc_gone st) then (st', Inr ()) else prune_or_count env uri st'))"
    using sheds_mono [OF prune_sheds [OF assms(1)]] by (simp add: sheds_refl)
qed

lemma feed_sweep_sheds:
  assumes "re_ops env = ops" "good_state st0" "sheds good_state (Collect (removable env enumeration st0)) st0 st"
    "is_feed (re_source env)" "re_deletion env = Prune" "enumeration = Complete"
  shows "sheds good_state (Collect (removable env enumeration st0)) st0 (fst (run_feed_liveness_sweep env st))"
proof -
  have good: "good_state st" and seen: "pc_seen st = pc_seen st0" using assms(2,3) by (simp_all add: sheds_def)
  have "sheds good_state (Collect (removable env enumeration st0)) st0 (fst (run_each (probe_liveness_candidate env)
      (take FEED_LIVENESS_BATCH_LIMIT (filter (\<lambda>c. sf_uri c \<notin> pc_seen st) candidates)) st))"
    if c: "so_list_stale_feed_resources ops sid src before k (pc_store st) = Inr candidates" for sid src before k candidates
  proof (rule run_each_sheds [OF _ assms(3)])
    fix c st' assume "c \<in> set (take FEED_LIVENESS_BATCH_LIMIT (filter (\<lambda>c. sf_uri c \<notin> pc_seen st) candidates))"
    then have m: "c \<in> set candidates" "sf_uri c \<notin> pc_seen st0" using seen by (auto dest: in_set_takeD)
    have "{uri. uri = sf_uri c \<and> (\<exists>v. re_fetch env uri v = Inr FetchGone)} \<subseteq> Collect (removable env enumeration st0)"
      using m(2) assms(4-6) unfolding removable_def by blast
    then show "sheds good_state (Collect (removable env enumeration st0)) st' (fst (probe_liveness_candidate env c st'))"
      by (rule sheds_mono [OF probe_sheds [OF assms(1) stale [OF good_ok [OF good] c m(1)]]])
  qed
  then show ?thesis using assms(1,3) by (simp add: run_feed_liveness_sweep_def Let_def split: sum.split)
qed

lemma sweep_sheds:
  assumes "re_ops env = ops" "good_state st0" "sheds good_state (Collect (removable env enumeration st0)) st0 st"
  shows "sheds good_state (Collect (removable env enumeration st0)) st0 (fst (sweep env enumeration st))"
  using assms(3) presumed_sweep_sheds [OF assms] feed_sweep_sheds [OF assms]
  by (cases enumeration) (auto simp: sweep_def Let_def suppressed_because_def)

lemma after_ingest_sheds:
  assumes "re_ops env = ops" "good_state st" "\<And>xs. set (re_hash_order env xs) \<subseteq> set xs"
  shows "sheds good_state (Collect (removable env (ig_enumeration ing) st)) st (fst (after_ingest env ing st))"
proof -
  define st1 where "st1 = tally (\<lambda>r. r\<lparr>r_document_validators := ig_document_validators ing,
                             r_document_inputs_digest := feed_inputs_digest env\<rparr>) st"
  have st1: "pc_gone st1 = pc_gone st" "good_state st1" "removable env (ig_enumeration ing) st1 = removable env (ig_enumeration ing) st"
    using assms(2) by (auto simp: st1_def good_def removable_def owned_by_source_def bookkeeping fun_eq_iff)
  let ?R = "Collect (removable env (ig_enumeration ing) st)"
  have gone: "sheds good_state ?R st1 (fst (run_each (remove_confirmed_gone env) (re_hash_order env (pc_gone st1)) st1))"
    using gone_loop_sheds [OF assms(1) st1(2), of "re_hash_order env (pc_gone st1)" "ig_enumeration ing"] assms(3) st1(3)
    by simp
  have "sheds good_state ?R st1 (fst (run_then (run_each (remove_confirmed_gone env) (re_hash_order env (pc_gone st1)) st1)
      (\<lambda>_ st. run_then (sweep env (ig_enumeration ing) st) (\<lambda>_ st. (emit (SourceFinished (pc_result st)) st, Inr (pc_result st))))))"
  proof (intro run_then_sheds gone)
    fix a st2 assume "run_each (remove_confirmed_gone env) (re_hash_order env (pc_gone st1)) st1 = (st2, Inr a)"
    with gone have "sheds good_state ?R st1 st2" by simp
    then show "sheds good_state ?R st1 (fst (sweep env (ig_enumeration ing) st2))"
      using sweep_sheds [OF assms(1) st1(2), of "ig_enumeration ing"] st1(3) by simp
    fix b st3 assume "sweep env (ig_enumeration ing) st2 = (st3, Inr b)"
    with \<open>sheds good_state ?R st1 (fst (sweep env (ig_enumeration ing) st2))\<close>
    show "sheds good_state ?R st1 (fst (emit (SourceFinished (pc_result st3)) st3, Inr (pc_result st3)))" by simp
  qed
  then show ?thesis by (simp add: after_ingest_def Let_def flip: st1_def) (simp add: st1_def)
qed

end

section \<open>The safety of a run\<close>

context document_store
begin

lemma run_sheds:
  assumes "re_ops env = ops" "coherent ok_store docs doc_uri s idx"
    "\<And>json. proper_prog env chunk_owner doc_uri (in_ingest ingestor (ingest_source_of env ingestor json))"
    "\<And>xs. set (re_hash_order env xs) \<subseteq> set xs" "run_source_ingestion env ingestor s idx = (st, r)"
  shows "good_state st \<and> (\<forall>uri \<in> set (index_uris idx). uri \<notin> known st \<longrightarrow>
    (\<exists>json st1 ing. re_spec_json env (src_spec (re_source env)) = Inr json \<and> drive env (in_ingest ingestor (ingest_source_of env ingestor json))
        (emit (SourceStarted (src_id (re_source env)) (source_location (re_source env))) (pipeline_start s idx)) = (st1, Inr ing) \<and>
      removable env (ig_enumeration ing) st1 uri))"
proof -
  define st0 where "st0 = emit (SourceStarted (src_id (re_source env)) (source_location (re_source env))) (pipeline_start s idx)"
  have st0: "good_state st0" "known st0 = set (index_uris idx)"
    using assms(2) by (simp_all add: st0_def good_def known_def pipeline_start_def)
  note drive = drive_keeps [OF assms(1,3), where st = st0]
  from assms(5) show ?thesis
  proof (cases rule: run_source_ingestion_steps)
    case unserialized
    with st0 show ?thesis by (auto simp: st0_def good_def known_def)
  next
    case (ingest_failed json st1 e)
    with drive [of json] st0 show ?thesis by (auto simp: keeps_def simp flip: st0_def)
  next
    case (ingested json st1 ing)
    from drive [of json] ingested(2) st0 have k: "good_state st1" "set (index_uris idx) \<subseteq> known st1"
      by (auto simp: keeps_def simp flip: st0_def)
    have s: "sheds good_state (Collect (removable env (ig_enumeration ing) st1)) st1 st"
      using after_ingest_sheds [OF assms(1) k(1) assms(4), of ing] ingested(3) by simp
    then have "good_state st" using k(1) by (simp add: sheds_def)
    with ingested(1,2) k(2) sheds_known [OF s] show ?thesis by blast
  qed
qed

end

text \<open>
  C1: A retaining run loses nothing: whatever the ingestor does and however the run ends, every URI
  the index knew before the run still has a document, and the store still holds it. (The hypotheses:
  the store meets its contract, the index and the store agree at the start, ids do not collide, and
  a hash set is walked over its own elements.)
\<close>

theorem retaining_run_keeps_documents:
  assumes "document_store (re_ops env) ok_store docs chunk_owner doc_uri" "coherent ok_store docs doc_uri s idx"
    "\<And>json. proper_prog env chunk_owner doc_uri (in_ingest ingestor (ingest_source_of env ingestor json))"
    "\<And>xs. set (re_hash_order env xs) \<subseteq> set xs" "run_source_ingestion env ingestor s idx = (st, r)"
    "re_deletion env = Retain" "uri \<in> set (index_uris idx)"
  shows "coherent ok_store docs doc_uri (pc_store st) (pc_index st) \<and>
    (\<exists>rec. index_get (pc_index st) uri = Some rec \<and> dr_resource_id rec \<in> docs (pc_store st))"
proof -
  note run = document_store.run_sheds [OF assms(1) refl assms(2-5)]
  have "uri \<in> known st" using run assms(6,7) by (auto simp: removable_def)
  then obtain rec where "index_get (pc_index st) uri = Some rec" by (auto simp: known_def known_get)
  with run show ?thesis unfolding good_def using coherentD(4) by metis
qed


text \<open>An example: a source of two files, a store that holds both, and an ingestor that sees one of them.\<close>

definition demo_ext :: "nat ingest_ext" where
  "demo_ext = \<lparr>ie_chunk = whole_ext, ie_chrono = \<lparr>parse_from_rfc3339 = (\<lambda>s. None), timestamp_subsec_nanos = (\<lambda>i. 0),
     checked_add_secs = (\<lambda>i n. None), rfc3339_secs = (\<lambda>i. [])\<rparr>, ie_to_json = (\<lambda>m. []), ie_token_counter = None,
     ie_embed_documents = (\<lambda>docs. Inr (map (\<lambda>(ctx, chunks). map (\<lambda>c. []) chunks) docs)), ie_path_segments = (\<lambda>u. None),
     ie_to_lowercase = id, ie_panic_text = [], ie_now = ''2026-06-10T12:00:00Z''\<rparr>"

definition demo_env :: "deletion_policy \<Rightarrow> (fake_store, nat) run_env" where
  "demo_env deletion = \<lparr>re_source = \<lparr>src_id = ''src'', src_store_id = ''s'', src_kind = PathKind,
       src_spec = PathSpec ''/'' [] [], src_preset = ''prose''\<rparr>,
     re_ops = fake_ops ''2026-06-10T12:00:00Z'', re_ext = demo_ext,
     re_clock = \<lparr>cp_now = 0, cp_min_utc = 0, cp_rfc3339_secs = (\<lambda>t. [])\<rparr>,
     re_config = \<lparr>ic_store_id = ''s'', ic_policy_version = ''p'', ic_chunker = config_prose\<rparr>, re_refetch = False,
     re_deletion = deletion, re_document_validators = no_validators, re_stored_inputs_digest = None,
     re_fetch = (\<lambda>u v. Inr FetchGone), re_hash_order = id, re_shuffle = id, re_parse_uri = Some, re_spec_json = (\<lambda>spec. Inr (spec_to_json spec))\<rparr>"

definition demo_store :: fake_store where
  "demo_store = \<lparr>fs_chunks = [demo_chunk ''ca'' ''a'' ''s'', demo_chunk ''cb'' ''b'' ''s''], fs_blocks = [],
     fs_metadata_updates = [], fs_last_checked = []\<rparr>"

definition demo_doc :: "string \<Rightarrow> document_record" where
  "demo_doc d = \<lparr>dr_uri = ''file:///'' @ d, dr_resource_id = d, dr_source_id = ''src'', dr_content_hash = ''h'',
     dr_policy_version = ''p'', dr_metadata_hash = [], dr_external_etag = None, dr_external_last_modified = None,
     dr_last_checked_at = None\<rparr>"

definition demo_known :: document_index where
  "demo_known = index_from_records [demo_doc ''a'', demo_doc ''b'']"

definition demo_ingestor :: ingestor where
  "demo_ingestor = \<lparr>in_kind = KFile, in_ingest = (\<lambda>source.
     tell (OnSkipped ''file:///a'' SkipUnchanged) (Finish (Inr default_ingest_result)))\<rparr>"

lemma demo_coherent: "coherent (fake_inv (drop 1)) fake_docs (\<lambda>d. ''file:///'' @ d) demo_store demo_known"
  by (simp add: coherent_def fake_inv_def fake_docs_def demo_store_def demo_known_def index_from_records_def index_get_def
      index_uris_def demo_doc_def)

lemma demo_proper: "proper_prog (demo_env deletion) own uri (in_ingest demo_ingestor source)"
  by (simp add: demo_ingestor_def proper_prog_def)

lemma demo_order: "set (re_hash_order (demo_env deletion) xs) \<subseteq> set xs"
  by (simp add: demo_env_def)

lemma demo_contract: "document_store (re_ops (demo_env deletion)) (fake_inv (drop 1)) fake_docs (drop 1) (\<lambda>d. ''file:///'' @ d)"
  using fk.document_store_axioms by (simp add: demo_env_def)

lemmas removal_demo_defs = demo_env_def demo_ingestor_def demo_ext_def demo_known_def demo_doc_def index_from_records_def
  run_source_ingestion_def ingest_source_of_def tell_def on_skipped_def touch_known_def is_network_source_def bookkeeping
  pipeline_start_def run_then_def after_ingest_def sweep_def owned_uris_def owned_by_source_def suppressed_because_def
  prune_or_count_def index_get_def index_uris_def index_remove_def is_feed_def default_ingest_result_def source_location_def

lemma retaining_run_keeps_documents_witness:
  "let (st, r) = run_source_ingestion (demo_env Retain) demo_ingestor demo_store demo_known
   in (\<exists>rec. index_get (pc_index st) ''file:///b'' = Some rec \<and> dr_resource_id rec \<in> fake_docs (pc_store st)) \<and>
      r_docs_prunable (pc_result st) = 1"
proof -
  obtain st r where run: "run_source_ingestion (demo_env Retain) demo_ingestor demo_store demo_known = (st, r)"
    by (metis prod.exhaust)
  have "''file:///b'' \<in> set (index_uris demo_known)"
    by (simp add: demo_known_def index_uris_def index_from_records_def demo_doc_def)
  moreover have "re_deletion (demo_env Retain) = Retain" by (simp add: demo_env_def)
  moreover have "r_docs_prunable (pc_result st) = 1"
    using run by (auto simp: removal_demo_defs default_result_def Let_def count_skipped_def)
  ultimately show ?thesis
    using retaining_run_keeps_documents [OF demo_contract demo_coherent demo_proper demo_order run] run by simp
qed


end
