(* ===== verification/Destination.thy ===== *)
theory Destination
  imports Ingestor "HOL-Library.Word"
begin

unbundle bit_operations_syntax

text \<open>
  The destination guard of the public-only HTTP client (\<open>fetch/src/destination.rs\<close>): which addresses
  may be connected to, the filter on resolved addresses, and the decision on a redirect. A parsed URL
  is its text and its host as the \<open>url\<close> crate normalises it; the reading and printing of an address are
  parameters.
\<close>

section \<open>Addresses\<close>

type_synonym ipv4 = "32 word"
type_synonym ipv6 = "128 word"

datatype ip_addr = V4 ipv4 | V6 ipv6

text \<open>\<open>octets()\<close> and \<open>segments()\<close>, most significant first.\<close>

definition octet :: "ipv4 \<Rightarrow> nat \<Rightarrow> 8 word" where
  "octet ip k = ucast (drop_bit (24 - 8 * k) ip)"

definition segment :: "ipv6 \<Rightarrow> nat \<Rightarrow> 16 word" where
  "segment ip k = ucast (drop_bit (112 - 16 * k) ip)"

text \<open>The standard library's predicates on \<open>Ipv4Addr\<close>.\<close>

definition is_loopback_v4 :: "ipv4 \<Rightarrow> bool" where
  "is_loopback_v4 ip \<longleftrightarrow> octet ip 0 = 127"

definition is_private :: "ipv4 \<Rightarrow> bool" where
  "is_private ip \<longleftrightarrow> octet ip 0 = 10 \<or> (octet ip 0 = 172 \<and> 16 \<le> octet ip 1 \<and> octet ip 1 \<le> 31) \<or>
     (octet ip 0 = 192 \<and> octet ip 1 = 168)"

definition is_link_local :: "ipv4 \<Rightarrow> bool" where
  "is_link_local ip \<longleftrightarrow> octet ip 0 = 169 \<and> octet ip 1 = 254"

definition is_multicast_v4 :: "ipv4 \<Rightarrow> bool" where
  "is_multicast_v4 ip \<longleftrightarrow> 224 \<le> octet ip 0 \<and> octet ip 0 \<le> 239"

definition is_broadcast :: "ipv4 \<Rightarrow> bool" where
  "is_broadcast ip \<longleftrightarrow> octet ip 0 = 255 \<and> octet ip 1 = 255 \<and> octet ip 2 = 255 \<and> octet ip 3 = 255"

definition is_documentation :: "ipv4 \<Rightarrow> bool" where
  "is_documentation ip \<longleftrightarrow> (octet ip 0, octet ip 1, octet ip 2) \<in> {(192, 0, 2), (198, 51, 100), (203, 0, 113)}"

definition is_blocked_v4 :: "ipv4 \<Rightarrow> bool" where
  "is_blocked_v4 ip \<longleftrightarrow>
     is_loopback_v4 ip \<or> is_private ip \<or> is_link_local ip \<or> is_multicast_v4 ip \<or> is_broadcast ip \<or> is_documentation ip \<or>
     octet ip 0 = 0 \<or>
     (octet ip 0 = 100 \<and> octet ip 1 AND 0xc0 = 64) \<or>
     (octet ip 0 = 198 \<and> octet ip 1 AND 0xfe = 18) \<or>
     240 \<le> octet ip 0"

definition is_blocked_v6 :: "ipv6 \<Rightarrow> bool" where
  "is_blocked_v6 ip \<longleftrightarrow>
     ip = 0 \<or> ip = 1 \<or>
     segment ip 0 AND 0xff00 = 0xff00 \<or>
     segment ip 0 AND 0xfe00 = 0xfc00 \<or>
     segment ip 0 AND 0xffc0 = 0xfe80 \<or>
     (segment ip 0 = 0x2001 \<and> segment ip 1 = 0x0db8) \<or>
     list_all (\<lambda>k. segment ip k = 0) [0, 1, 2, 3, 4, 5]"

text \<open>\<open>to_ipv4_mapped\<close>: \<open>::ffff:a.b.c.d\<close>.\<close>

definition to_ipv4_mapped :: "ipv6 \<Rightarrow> ipv4 option" where
  "to_ipv4_mapped ip =
     (if list_all (\<lambda>k. segment ip k = 0) [0, 1, 2, 3, 4] \<and> segment ip 5 = 0xffff then Some (ucast ip) else None)"

definition is_blocked_destination :: "ip_addr \<Rightarrow> bool" where
  "is_blocked_destination ip =
     (case ip of
        V4 v4 \<Rightarrow> is_blocked_v4 v4
      | V6 v6 \<Rightarrow> (case to_ipv4_mapped v6 of Some mapped \<Rightarrow> is_blocked_v4 mapped | None \<Rightarrow> is_blocked_v6 v6))"

section \<open>Hosts, resolved addresses and redirects\<close>

record parsed_url =
  pu_text :: string
  pu_host :: "string option"

record net_ext =
  ne_parse_ip :: "string \<Rightarrow> ip_addr option"
  ne_show_ip :: "ip_addr \<Rightarrow> string"

definition strip_brackets :: "string \<Rightarrow> string" where
  "strip_brackets h = (if 2 \<le> length h \<and> hd h = CHR ''['' \<and> last h = CHR '']'' then butlast (tl h) else h)"

definition ip_literal_host :: "net_ext \<Rightarrow> parsed_url \<Rightarrow> ip_addr option" where
  "ip_literal_host ne url = Option.bind (pu_host url) (\<lambda>h. ne_parse_ip ne (strip_brackets h))"

text \<open>\<open>BlockedDestinationError\<close> is the host it names.\<close>

definition filter_allowed_addrs :: "net_ext \<Rightarrow> (ip_addr \<times> 16 word) list \<Rightarrow> string + (ip_addr \<times> 16 word) list" where
  "filter_allowed_addrs ne addrs =
     (let allowed = filter (\<lambda>a. \<not> is_blocked_destination (fst a)) addrs;
          blocked = map fst (filter (\<lambda>a. is_blocked_destination (fst a)) addrs)
      in if allowed = [] \<and> blocked \<noteq> [] then Inl (join '', '' (map (ne_show_ip ne) blocked)) else Inr allowed)"

text \<open>\<open>GuardedResolver::resolve\<close>, after the lookup: the error then names the host that was looked up.\<close>

datatype resolve_error = LookupFailed string | BlockedHost string

definition guarded_resolve :: "net_ext \<Rightarrow> (string \<Rightarrow> string + (ip_addr \<times> 16 word) list) \<Rightarrow> string \<Rightarrow> resolve_error + (ip_addr \<times> 16 word) list" where
  "guarded_resolve ne lookup_host host =
     (case lookup_host host of
        Inl e \<Rightarrow> Inl (LookupFailed e)
      | Inr resolved \<Rightarrow> (case filter_allowed_addrs ne resolved of Inl _ \<Rightarrow> Inl (BlockedHost host) | Inr allowed \<Rightarrow> Inr allowed))"

definition MAX_REDIRECTS :: nat where
  "MAX_REDIRECTS = 10"

datatype redirect_action = RedirectBlocked string | TooManyRedirects | Follow

text \<open>\<open>previous\<close> is how many URLs the chain went through, the requested one included.\<close>

definition guarded_redirect_policy :: "net_ext \<Rightarrow> parsed_url \<Rightarrow> nat \<Rightarrow> redirect_action" where
  "guarded_redirect_policy ne url previous =
     (case ip_literal_host ne url of
        Some ip \<Rightarrow> if is_blocked_destination ip then RedirectBlocked (ne_show_ip ne ip)
                   else if previous > MAX_REDIRECTS then TooManyRedirects else Follow
      | None \<Rightarrow> if previous > MAX_REDIRECTS then TooManyRedirects else Follow)"

section \<open>The ranges\<close>

text \<open>The block \<open>p/l\<close> of addresses that share the first \<open>l\<close> bits with \<open>p\<close>.\<close>

definition in_v4_block :: "nat list \<times> nat \<Rightarrow> ipv4 \<Rightarrow> bool" where
  "in_v4_block b ip \<longleftrightarrow> unat ip div 2 ^ (32 - snd b) = foldl (\<lambda>n d. n * 256 + d) 0 (fst b) div 2 ^ (32 - snd b)"

definition blocked_v4_blocks :: "(nat list \<times> nat) list" where
  "blocked_v4_blocks =
     [([0, 0, 0, 0], 8), ([10, 0, 0, 0], 8), ([100, 64, 0, 0], 10), ([127, 0, 0, 0], 8), ([169, 254, 0, 0], 16), ([172, 16, 0, 0], 12),
      ([192, 0, 2, 0], 24), ([192, 168, 0, 0], 16), ([198, 18, 0, 0], 15), ([198, 51, 100, 0], 24), ([203, 0, 113, 0], 24),
      ([224, 0, 0, 0], 4), ([240, 0, 0, 0], 4)]"

text \<open>An address in base 256.\<close>

lemma unat_drop: "unat (drop_bit k (w :: 'a :: len word)) = unat w div 2 ^ k"
  by (simp only: unat_drop_bit_eq) (simp only: drop_bit_eq_div)

lemma digits: "(b :: nat) < m \<Longrightarrow> a * m + b = q \<longleftrightarrow> a = q div m \<and> b = q mod m"
  by auto

lemma unat_octet: "k < 4 \<Longrightarrow> unat (octet ip k) = unat ip div 2 ^ (24 - 8 * k) mod 256"
  by (simp add: octet_def unsigned_ucast_eq unat_drop take_bit_eq_mod)

lemma octets_value:
  "unat ip = ((unat (octet ip 0) * 256 + unat (octet ip 1)) * 256 + unat (octet ip 2)) * 256 + unat (octet ip 3)"
proof -
  define m where "m = unat ip"
  have lt: "m < 2 ^ 32" using unsigned_less [of ip] by (simp add: m_def)
  have "m div 65536 = m div 256 div 256" "m div 16777216 = m div 256 div 256 div 256"
    by (simp_all flip: div_mult2_eq)
  moreover have "m div 256 div 256 div 256 < 256" using lt by (simp flip: div_mult2_eq)
  moreover have "m = m div 256 * 256 + m mod 256" "m div 256 = m div 256 div 256 * 256 + m div 256 mod 256"
      "m div 256 div 256 = m div 256 div 256 div 256 * 256 + m div 256 div 256 mod 256" by presburger+
  ultimately show ?thesis by (simp add: unat_octet flip: m_def)
qed

lemma and_high_bits: "(w :: 'a :: len word) AND NOT (mask n) = push_bit n (drop_bit n w)"
  by (rule bit_word_eqI) (auto simp: bit_simps)

lemma masked_octet:
  "(w :: 8 word) AND 0xc0 = 64 \<longleftrightarrow> unat w div 64 = 1" "(w :: 8 word) AND 0xfe = 18 \<longleftrightarrow> unat w div 2 = 9"
proof -
  have m: "(0xc0 :: 8 word) = NOT (mask 6)" "(0xfe :: 8 word) = NOT (mask 1)" by (simp_all add: mask_eq_decr_exp)
  have "unat w < 256" using unsigned_less [of w] by simp
  then have "unat w div 64 * 64 mod 256 = unat w div 64 * 64" "unat w div 2 * 2 mod 256 = unat w div 2 * 2" by auto
  then have u: "unat (push_bit 6 (drop_bit 6 w)) = unat w div 64 * 64" "unat (push_bit 1 (drop_bit 1 w)) = unat w div 2 * 2"
    by (rule_tac [!] trans [OF unsigned_push_bit_eq])
       (simp_all add: unat_drop push_bit_eq_mult take_bit_eq_mod)
  show "w AND 0xc0 = 64 \<longleftrightarrow> unat w div 64 = 1" "w AND 0xfe = 18 \<longleftrightarrow> unat w div 2 = 9"
    unfolding m and_high_bits word_unat_eq_iff u by simp_all
qed

text \<open>
  The IPv4 half of the guard blocks exactly the blocks it lists: an address is refused if and only if it
  lies in one of thirteen CIDR blocks, the unspecified, private, shared, loopback, link-local,
  documentation, benchmarking, multicast and reserved ones.
\<close>

lemma blocked_v4_ranges: "is_blocked_v4 ip \<longleftrightarrow> (\<exists>b \<in> set blocked_v4_blocks. in_v4_block b ip)"
proof -
  define a b c d where "a = unat (octet ip 0)" and "b = unat (octet ip 1)" and "c = unat (octet ip 2)" and "d = unat (octet ip 3)"
  have lt: "a < 256" "b < 256" "c < 256" "d < 256" using unsigned_less [of "octet ip _"] by (simp_all add: a_def b_def c_def d_def)
  have n: "unat ip = ((a * 256 + b) * 256 + c) * 256 + d" unfolding a_def b_def c_def d_def by (rule octets_value)
  have div: "unat ip div 2 ^ 24 = a" "unat ip div 2 ^ 16 = a * 256 + b" "unat ip div 2 ^ 8 = (a * 256 + b) * 256 + c"
      "unat ip div 2 ^ 22 = a * 4 + b div 64" "unat ip div 2 ^ 20 = a * 16 + b div 16" "unat ip div 2 ^ 17 = a * 128 + b div 2"
      "unat ip div 2 ^ 28 = a div 16"
    using lt unfolding n by simp_all
  have code: "is_blocked_v4 ip \<longleftrightarrow> a = 127 \<or> a = 10 \<or> (a = 172 \<and> 16 \<le> b \<and> b \<le> 31) \<or> (a = 192 \<and> b = 168) \<or> (a = 169 \<and> b = 254) \<or>
      (224 \<le> a \<and> a \<le> 239) \<or> (a = 255 \<and> b = 255 \<and> c = 255 \<and> d = 255) \<or>
      (a = 192 \<and> b = 0 \<and> c = 2) \<or> (a = 198 \<and> b = 51 \<and> c = 100) \<or> (a = 203 \<and> b = 0 \<and> c = 113) \<or> a = 0 \<or>
      (a = 100 \<and> b div 64 = 1) \<or> (a = 198 \<and> b div 2 = 9) \<or> 240 \<le> a"
    unfolding is_blocked_v4_def is_loopback_v4_def is_private_def is_link_local_def is_multicast_v4_def is_broadcast_def
      is_documentation_def masked_octet a_def b_def c_def d_def
    by (simp add: word_unat_eq_iff word_le_nat_alt)
  have blocks: "(\<exists>b \<in> set blocked_v4_blocks. in_v4_block b ip) \<longleftrightarrow>
      a = 0 \<or> a = 10 \<or> a * 4 + b div 64 = 401 \<or> a = 127 \<or> a * 256 + b = 43518 \<or> a * 16 + b div 16 = 2753 \<or>
      (a * 256 + b) * 256 + c = 12582914 \<or> a * 256 + b = 49320 \<or> a * 128 + b div 2 = 25353 \<or>
      (a * 256 + b) * 256 + c = 12989284 \<or> (a * 256 + b) * 256 + c = 13303921 \<or> a div 16 = 14 \<or> a div 16 = 15"
    by (simp add: blocked_v4_blocks_def in_v4_block_def div [simplified])
  have parts: "b div 64 < 4" "b div 16 < 16" "b div 2 < 128" using lt(2) by simp_all
  have "a * 4 + b div 64 = 401 \<longleftrightarrow> a = 100 \<and> b div 64 = 1" unfolding digits [OF parts(1)] by simp
  moreover have "a * 256 + b = 43518 \<longleftrightarrow> a = 169 \<and> b = 254" "a * 256 + b = 49320 \<longleftrightarrow> a = 192 \<and> b = 168"
    unfolding digits [OF lt(2)] by simp_all
  moreover have "a * 16 + b div 16 = 2753 \<longleftrightarrow> a = 172 \<and> b div 16 = 1" unfolding digits [OF parts(2)] by simp
  moreover have "b div 16 = 1 \<longleftrightarrow> 16 \<le> b \<and> b \<le> 31" by linarith
  moreover have "a * 128 + b div 2 = 25353 \<longleftrightarrow> a = 198 \<and> b div 2 = 9" unfolding digits [OF parts(3)] by simp
  moreover have "(a * 256 + b) * 256 + c = 12582914 \<longleftrightarrow> a = 192 \<and> b = 0 \<and> c = 2"
      "(a * 256 + b) * 256 + c = 12989284 \<longleftrightarrow> a = 198 \<and> b = 51 \<and> c = 100"
      "(a * 256 + b) * 256 + c = 13303921 \<longleftrightarrow> a = 203 \<and> b = 0 \<and> c = 113"
    unfolding digits [OF lt(3)] digits [OF lt(2)] by simp_all
  moreover have "a div 16 = 14 \<longleftrightarrow> 224 \<le> a \<and> a \<le> 239" "a div 16 = 15 \<longleftrightarrow> 240 \<le> a" using lt(1) by linarith+
  ultimately have blocks': "(\<exists>b \<in> set blocked_v4_blocks. in_v4_block b ip) \<longleftrightarrow>
      a = 0 \<or> a = 10 \<or> (a = 100 \<and> b div 64 = 1) \<or> a = 127 \<or> (a = 169 \<and> b = 254) \<or> (a = 172 \<and> 16 \<le> b \<and> b \<le> 31) \<or>
      (a = 192 \<and> b = 0 \<and> c = 2) \<or> (a = 192 \<and> b = 168) \<or> (a = 198 \<and> b div 2 = 9) \<or>
      (a = 198 \<and> b = 51 \<and> c = 100) \<or> (a = 203 \<and> b = 0 \<and> c = 113) \<or> (224 \<le> a \<and> a \<le> 239) \<or> 240 \<le> a"
    unfolding blocks by (simp only:)
  show ?thesis unfolding code blocks' by (rule iffI; elim disjE; simp)
qed

end
