(* ===== verification/HttpPolicy.thy ===== *)
theory HttpPolicy
  imports Destination
begin

text \<open>
  The HTTP policy of \<open>fetch/src/http/\<close>: the settings, \<open>Retry-After\<close>, the retry budget (\<open>retry.rs\<close>)
  and the pacing of hosts (\<open>limiter.rs\<close>). Durations and instants are nanoseconds. The token bucket
  of the \<open>governor\<close> crate, HTTP dates and the lower case of a host are parameters.
\<close>

section \<open>Settings\<close>

record http_settings =
  hs_user_agent :: "string option"
  hs_max_retries :: nat
  hs_requests_per_second :: nat
  hs_burst :: nat
  hs_min_retry_delay :: nat

definition SECOND :: nat where "SECOND = 1000000000"
definition MILLI :: nat where "MILLI = 1000000"
definition DURATION_MAX :: nat where "DURATION_MAX = (2 ^ 64 - 1) * SECOND + 999999999"

definition default_http_settings :: http_settings where
  "default_http_settings = \<lparr>hs_user_agent = None, hs_max_retries = 3, hs_requests_per_second = 1, hs_burst = 4,
     hs_min_retry_delay = SECOND\<rparr>"

section \<open>Failures and their class\<close>

text \<open>A \<open>reqwest::Error\<close>: whether its chain holds the guard's refusal, its kind, and the texts of its chain.\<close>

record request_error =
  rq_blocked :: bool
  rq_timeout :: bool
  rq_connect :: bool
  rq_body :: bool
  rq_decode :: bool
  rq_chain :: "string list"

datatype retry_error = StatusError nat "nat option" | RequestError request_error

definition is_transient :: "retry_error \<Rightarrow> bool" where
  "is_transient err =
     (case err of
        StatusError status _ \<Rightarrow> status = 429 \<or> status = 408 \<or> (500 \<le> status \<and> status < 600)
      | RequestError e \<Rightarrow> if rq_blocked e then False else rq_timeout e \<or> rq_connect e \<or> rq_body e \<or> rq_decode e)"

section \<open>Retry-After\<close>

definition RETRY_AFTER_PARSE_CAP :: nat where "RETRY_AFTER_PARSE_CAP = 120 * SECOND"
definition INLINE_RETRY_AFTER_CAP :: nat where "INLINE_RETRY_AFTER_CAP = 30 * SECOND"
definition COOLDOWN_CAP :: nat where "COOLDOWN_CAP = 60 * SECOND"

text \<open>\<open>u64::from_str\<close>: an optional plus sign and at least one digit, below \<open>2 ^ 64\<close>.\<close>

definition digits_value :: "string \<Rightarrow> nat" where
  "digits_value s = fold (\<lambda>c n. n * 10 + (of_char c - 48)) s 0"

definition parse_u64 :: "string \<Rightarrow> nat option" where
  "parse_u64 s =
     (let ds = (case s of c # rest \<Rightarrow> if c = CHR ''+'' then rest else s | [] \<Rightarrow> [])
      in if ds \<noteq> [] \<and> list_all is_ascii_digit ds \<and> digits_value ds < 2 ^ 64 then Some (digits_value ds) else None)"

record 'g http_ext =
  he_http_date :: "string \<Rightarrow> int option"
  he_system_now :: int
  he_to_lowercase :: "string \<Rightarrow> string"
  he_net :: net_ext
  he_take_token :: "string \<Rightarrow> nat \<Rightarrow> 'g \<Rightarrow> nat \<times> 'g"
  he_retain_recent :: "nat \<Rightarrow> 'g \<Rightarrow> 'g"
  he_status_text :: "nat \<Rightarrow> string"

definition parse_retry_after :: "'g http_ext \<Rightarrow> string \<Rightarrow> nat option" where
  "parse_retry_after he value0 =
     (let value = trim value0
      in case parse_u64 value of
           Some secs \<Rightarrow> Some (min (secs * SECOND) RETRY_AFTER_PARSE_CAP)
         | None \<Rightarrow> map_option (\<lambda>instant. min (nat (instant - he_system_now he)) RETRY_AFTER_PARSE_CAP) (he_http_date he value))"

section \<open>The retry schedule\<close>

definition MAX_DELAY_RATIO :: nat where "MAX_DELAY_RATIO = 30"
definition TOTAL_DELAY_RATIO :: nat where "TOTAL_DELAY_RATIO = 30"

text \<open>The bounds handed to \<open>backon\<close>: floor, ceiling and number of the delays it proposes.\<close>

definition retry_policy :: "http_settings \<Rightarrow> nat \<times> nat \<times> nat" where
  "retry_policy cfg =
     (let min_delay = hs_min_retry_delay cfg
      in (min_delay, max (min (min_delay * MAX_DELAY_RATIO) DURATION_MAX) min_delay, hs_max_retries cfg))"

definition total_retry_budget :: "http_settings \<Rightarrow> nat" where
  "total_retry_budget cfg =
     (let min_delay = hs_min_retry_delay cfg in max (min (min_delay * TOTAL_DELAY_RATIO) DURATION_MAX) min_delay)"

text \<open>
  The closure \<open>.adjust()\<close> calls: the milliseconds slept so far are its state, \<open>dur\<close> is what \<open>backon\<close>
  proposes (nothing when it has stopped), and the answer is how long to sleep, or to stop.
\<close>

definition retry_after_adjuster :: "nat \<Rightarrow> retry_error \<Rightarrow> nat option \<Rightarrow> nat \<Rightarrow> nat \<times> nat option" where
  "retry_after_adjuster total_budget err dur spent_millis =
     (case dur of
        None \<Rightarrow> (spent_millis, None)
      | Some backons_delay \<Rightarrow>
          (case (case err of
                   StatusError status (Some retry_after) \<Rightarrow> if retry_after > INLINE_RETRY_AFTER_CAP then None else Some retry_after
                 | _ \<Rightarrow> Some backons_delay) of
             None \<Rightarrow> (spent_millis, None)
           | Some wait \<Rightarrow>
               if spent_millis * MILLI + wait > total_budget then (spent_millis, None)
               else (spent_millis + wait div MILLI, Some wait)))"

section \<open>Pacing\<close>

record 'g host_limiter =
  hl_governor :: 'g
  hl_cooldowns :: "(string \<times> nat) list"
  hl_acquire_count :: nat

definition PRUNE_EVERY_N_ACQUIRES :: nat where "PRUNE_EVERY_N_ACQUIRES = 100"

definition should_pace :: "net_ext \<Rightarrow> parsed_url \<Rightarrow> bool" where
  "should_pace ne url = (case ip_literal_host ne url of Some ip \<Rightarrow> \<not> is_blocked_destination ip | None \<Rightarrow> True)"

definition note_retry_after :: "'g http_ext \<Rightarrow> nat \<Rightarrow> string \<Rightarrow> nat \<Rightarrow> 'g host_limiter \<Rightarrow> 'g host_limiter" where
  "note_retry_after he now host d hl =
     (let deadline = now + min d COOLDOWN_CAP; key = he_to_lowercase he host
      in hl\<lparr>hl_cooldowns := AList.update key
           (case map_of (hl_cooldowns hl) key of
              Some existing \<Rightarrow> if deadline > existing then deadline else existing
            | None \<Rightarrow> deadline) (hl_cooldowns hl)\<rparr>)"

definition cooldown_wait :: "nat \<Rightarrow> string \<Rightarrow> 'g host_limiter \<Rightarrow> nat" where
  "cooldown_wait now host hl = (case map_of (hl_cooldowns hl) host of Some deadline \<Rightarrow> deadline - now | None \<Rightarrow> 0)"

definition prune :: "'g http_ext \<Rightarrow> nat \<Rightarrow> 'g host_limiter \<Rightarrow> 'g host_limiter" where
  "prune he now hl =
     hl\<lparr>hl_cooldowns := filter (\<lambda>(host, deadline). deadline > now) (hl_cooldowns hl),
         hl_governor := he_retain_recent he now (hl_governor hl)\<rparr>"

text \<open>The instant at which the request may go out, and the limiter then.\<close>

definition acquire :: "'g http_ext \<Rightarrow> nat \<Rightarrow> parsed_url \<Rightarrow> 'g host_limiter \<Rightarrow> nat \<times> 'g host_limiter" where
  "acquire he now url hl =
     (if \<not> should_pace (he_net he) url then (now, hl)
      else case pu_host url of
             None \<Rightarrow> (now, hl)
           | Some h \<Rightarrow>
               (let host = he_to_lowercase he h;
                    now1 = now + cooldown_wait now host hl;
                    (wait, g) = he_take_token he host now1 (hl_governor hl);
                    now2 = now1 + wait;
                    n = hl_acquire_count hl + 1;
                    hl' = hl\<lparr>hl_governor := g, hl_acquire_count := n\<rparr>
                in (now2, if n mod PRUNE_EVERY_N_ACQUIRES = 0 then prune he now2 hl' else hl')))"

end
