(* ===== verification/Fetcher.thy ===== *)
theory Fetcher
  imports HttpPolicy IndexResource
begin

text \<open>
  The HTTP fetcher (\<open>fetch/src/lib.rs\<close>): what one attempt does, how its response is read, and the loop
  of attempts. The client of \<open>reqwest\<close> is a parameter that answers a request in a state of the world;
  \<open>backon\<close>'s loop is the relation \<open>retry_run\<close>, in which the delays it proposes are arbitrary.
\<close>

datatype destination_policy = Unrestricted | PublicOnly

text \<open>A header that is absent or not readable as text is \<open>None\<close>; names are lower case.\<close>

record response =
  rp_status :: nat
  rp_url :: parsed_url
  rp_header :: "string \<Rightarrow> string option"
  rp_body :: "request_error + string"

record ('w, 'g) fetch_ext =
  fe_http :: "'g http_ext"
  fe_parse_url :: "string \<Rightarrow> parsed_url option"
  fe_send :: "'w \<Rightarrow> string \<Rightarrow> (string \<times> string) list \<Rightarrow> 'w \<times> nat \<times> (request_error + response)"

record ('w, 'g) fetch_state =
  fs_now :: nat
  fs_world :: 'w
  fs_limiter :: "'g host_limiter"

section \<open>One attempt\<close>

definition extract_validators :: "response \<Rightarrow> string option \<times> string option" where
  "extract_validators resp = (rp_header resp ''etag'', rp_header resp ''last-modified'')"

definition is_success :: "nat \<Rightarrow> bool" where
  "is_success status \<longleftrightarrow> 200 \<le> status \<and> status < 300"

text \<open>A 429 that names a wait puts its host, the one that answered, on a cooldown.\<close>

definition note_rate_limit ::
  "('w, 'g) fetch_ext \<Rightarrow> response \<Rightarrow> nat option \<Rightarrow> ('w, 'g) fetch_state \<Rightarrow> ('w, 'g) fetch_state" where
  "note_rate_limit fe resp retry_after st =
     (case (map_option (he_to_lowercase (fe_http fe)) (pu_host (rp_url resp)), retry_after) of
        (Some host, Some d) \<Rightarrow>
          (if rp_status resp = 429 then st\<lparr>fs_limiter := note_retry_after (fe_http fe) (fs_now st) host d (fs_limiter st)\<rparr> else st)
      | _ \<Rightarrow> st)"

definition classify_response ::
  "('w, 'g) fetch_ext \<Rightarrow> response \<Rightarrow> ('w, 'g) fetch_state \<Rightarrow> ('w, 'g) fetch_state \<times> (retry_error + fetch_result)" where
  "classify_response fe resp st =
     (if rp_status resp = 304
      then (case extract_validators resp of (etag, last_modified) \<Rightarrow> (st, Inr (NotModified etag last_modified)))
      else if rp_status resp = 404 \<or> rp_status resp = 410 then (st, Inr FetchGone)
      else if \<not> is_success (rp_status resp)
      then (let retry_after = Option.bind (rp_header resp ''retry-after'') (parse_retry_after (fe_http fe))
            in (note_rate_limit fe resp retry_after st, Inl (StatusError (rp_status resp) retry_after)))
      else (case extract_validators resp of (etag, last_modified) \<Rightarrow>
              (case rp_body resp of
                 Inl e \<Rightarrow> (st, Inl (RequestError e))
               | Inr bytes \<Rightarrow>
                   (st, Inr (Downloaded bytes (rp_header resp ''content-type'') etag last_modified (Some (pu_text (rp_url resp))))))))"

definition conditional_headers :: "validators \<Rightarrow> (string \<times> string) list" where
  "conditional_headers meta =
     (case v_etag meta of Some e \<Rightarrow> [(''If-None-Match'', e)] | None \<Rightarrow> []) @
     (case v_last_modified meta of Some m \<Rightarrow> [(''If-Modified-Since'', m)] | None \<Rightarrow> [])"

definition paced :: "('w, 'g) fetch_ext \<Rightarrow> parsed_url option \<Rightarrow> ('w, 'g) fetch_state \<Rightarrow> ('w, 'g) fetch_state" where
  "paced fe parsed_url st =
     (case parsed_url of
        None \<Rightarrow> st
      | Some url \<Rightarrow>
          (case acquire (fe_http fe) (fs_now st) url (fs_limiter st) of (now, hl) \<Rightarrow> st\<lparr>fs_now := now, fs_limiter := hl\<rparr>))"

definition attempt ::
  "('w, 'g) fetch_ext \<Rightarrow> string \<Rightarrow> validators \<Rightarrow> ('w, 'g) fetch_state \<Rightarrow> ('w, 'g) fetch_state \<times> (retry_error + fetch_result)" where
  "attempt fe url meta st0 =
     (let st1 = paced fe (fe_parse_url fe url) st0
      in case fe_send fe (fs_world st1) url (conditional_headers meta) of
           (world, took, answer) \<Rightarrow>
             (let st = st1\<lparr>fs_world := world, fs_now := fs_now st1 + took\<rparr>
              in case answer of
                   Inl e \<Rightarrow> if rq_blocked e then (st, Inr Blocked) else (st, Inl (RequestError e))
                 | Inr resp \<Rightarrow> classify_response fe resp st))"

section \<open>The loop of attempts\<close>

text \<open>
  \<open>retry_run try again adjust slept delays a s t waits r\<close>: from state \<open>s\<close>, with \<open>delays\<close> still to be
  proposed and \<open>a\<close> the state of the adjuster, the loop ends in \<open>t\<close> with \<open>r\<close> after sleeping \<open>waits\<close>.
\<close>

definition proposal :: "nat list \<Rightarrow> nat option" where
  "proposal delays = (case delays of [] \<Rightarrow> None | d # _ \<Rightarrow> Some d)"

inductive retry_run ::
  "('s \<Rightarrow> 's \<times> ('e + 'a)) \<Rightarrow> ('e \<Rightarrow> bool) \<Rightarrow> ('e \<Rightarrow> nat option \<Rightarrow> nat \<Rightarrow> nat \<times> nat option) \<Rightarrow> (nat \<Rightarrow> 's \<Rightarrow> 's) \<Rightarrow>
   nat list \<Rightarrow> nat \<Rightarrow> 's \<Rightarrow> 's \<Rightarrow> nat list \<Rightarrow> ('e + 'a) \<Rightarrow> bool"
  for try_once again adjust sleep where
  run_done: "try_once s = (t, Inr a) \<Longrightarrow> retry_run try_once again adjust sleep delays sp s t [] (Inr a)"
| run_fatal: "try_once s = (t, Inl e) \<Longrightarrow> \<not> again e \<Longrightarrow> retry_run try_once again adjust sleep delays sp s t [] (Inl e)"
| run_give_up:
    "try_once s = (t, Inl e) \<Longrightarrow> again e \<Longrightarrow> adjust e (proposal delays) sp = (sp', None) \<Longrightarrow>
     retry_run try_once again adjust sleep delays sp s t [] (Inl e)"
| run_again:
    "try_once s = (t, Inl e) \<Longrightarrow> again e \<Longrightarrow> adjust e (proposal delays) sp = (sp', Some w) \<Longrightarrow>
     retry_run try_once again adjust sleep (tl delays) sp' (sleep w t) u waits r \<Longrightarrow>
     retry_run try_once again adjust sleep delays sp s u (w # waits) r"

definition sleep_for :: "nat \<Rightarrow> ('w, 'g) fetch_state \<Rightarrow> ('w, 'g) fetch_state" where
  "sleep_for d st = st\<lparr>fs_now := fs_now st + d\<rparr>"

text \<open>What \<open>map_outcome\<close> makes of the end of the loop.\<close>

definition retry_after_desc :: "nat option \<Rightarrow> string" where
  "retry_after_desc retry_after =
     (case retry_after of Some d \<Rightarrow> '', last Retry-After: '' @ show_nat (d div SECOND) @ ''s'' | None \<Rightarrow> [])"

definition map_outcome ::
  "('w, 'g) fetch_ext \<Rightarrow> string \<Rightarrow> string option \<Rightarrow> retry_error + fetch_result \<Rightarrow> error + fetch_result" where
  "map_outcome fe url host outcome =
     (case outcome of
        Inr result \<Rightarrow> Inr result
      | Inl (StatusError status retry_after) \<Rightarrow>
          if status = 429
          then Inl (RateLimited (''fetching '' @ url @ '' (host '' @ (case host of Some h \<Rightarrow> h | None \<Rightarrow> ''unknown host'') @
                 ''); retries exhausted'' @ retry_after_desc retry_after))
          else Inl (ProviderUnavailable (''HTTP error '' @ he_status_text (fe_http fe) status @ '' fetching '' @ url))
      | Inl (RequestError e) \<Rightarrow> Inl (ProviderUnavailable (''HTTP request failed: '' @ join '': '' (rq_chain e))))"

definition preflight_blocked :: "('w, 'g) fetch_ext \<Rightarrow> destination_policy \<Rightarrow> string \<Rightarrow> bool" where
  "preflight_blocked fe policy url \<longleftrightarrow>
     policy = PublicOnly \<and>
     (case Option.bind (fe_parse_url fe url) (ip_literal_host (he_net (fe_http fe))) of
        Some ip \<Rightarrow> is_blocked_destination ip
      | None \<Rightarrow> False)"

text \<open>\<open>delays\<close> are the delays \<open>backon\<close> would propose, no more than the retries configured.\<close>

inductive fetches ::
  "('w, 'g) fetch_ext \<Rightarrow> http_settings \<Rightarrow> destination_policy \<Rightarrow> string \<Rightarrow> validators \<Rightarrow>
   ('w, 'g) fetch_state \<Rightarrow> ('w, 'g) fetch_state \<Rightarrow> nat list \<Rightarrow> (error + fetch_result) \<Rightarrow> bool"
  for fe cfg policy url meta where
  fetch_refused: "preflight_blocked fe policy url \<Longrightarrow> fetches fe cfg policy url meta s s [] (Inr Blocked)"
| fetch_ran:
    "\<not> preflight_blocked fe policy url \<Longrightarrow> retry_policy cfg = (min_delay, max_delay, max_times) \<Longrightarrow> length delays = max_times \<Longrightarrow>
     retry_run (attempt fe url meta) is_transient (retry_after_adjuster (total_retry_budget cfg)) sleep_for delays 0 s t waits r \<Longrightarrow>
     host = map_option (he_to_lowercase (fe_http fe)) (Option.bind (fe_parse_url fe url) pu_host) \<Longrightarrow>
     fetches fe cfg policy url meta s t waits (map_outcome fe url host r)"

inductive_cases fetchesE: "fetches fe cfg policy url meta s t waits r"

end
