(* ===== verification/FetchSafety.thy ===== *)
theory FetchSafety
  imports Fetcher
begin

text \<open>
  What the fetcher guarantees: its outcomes are the server's answers, it returns after a bounded number
  of attempts and a bounded sleep, the guarded client connects to public addresses only, and cooldowns
  do what the servers asked for.
\<close>

section \<open>Outcomes\<close>

text \<open>The client answered a request for \<open>url\<close> with \<open>a\<close>, in some state of the world.\<close>

definition answers :: "('w, 'g) fetch_ext \<Rightarrow> string \<Rightarrow> validators \<Rightarrow> (request_error + response) \<Rightarrow> bool" where
  "answers fe url meta a \<longleftrightarrow> (\<exists>w w' took. fe_send fe w url (conditional_headers meta) = (w', took, a))"

text \<open>The last attempt decides.\<close>

lemma retry_run_last: "retry_run try_once again adjust sleep delays sp s t waits r \<Longrightarrow> \<exists>u. try_once u = (t, r)"
  by (induction rule: retry_run.induct) auto

text \<open>What an answer means, whatever else the attempt does.\<close>

definition meaning :: "request_error + response \<Rightarrow> (nat \<Rightarrow> nat option) \<Rightarrow> retry_error + fetch_result" where
  "meaning a retry_after =
     (case a of
        Inl e \<Rightarrow> if rq_blocked e then Inr Blocked else Inl (RequestError e)
      | Inr resp \<Rightarrow>
          if rp_status resp = 304 then Inr (NotModified (rp_header resp ''etag'') (rp_header resp ''last-modified''))
          else if rp_status resp \<in> {404, 410} then Inr FetchGone
          else if \<not> is_success (rp_status resp) then Inl (StatusError (rp_status resp) (retry_after 0))
          else (case rp_body resp of
                  Inl e \<Rightarrow> Inl (RequestError e)
                | Inr bytes \<Rightarrow> Inr (Downloaded bytes (rp_header resp ''content-type'') (rp_header resp ''etag'')
                    (rp_header resp ''last-modified'') (Some (pu_text (rp_url resp))))))"

lemma attempt_meaning:
  assumes "attempt fe url meta u = (t, r)"
  shows "\<exists>a ra. answers fe url meta a \<and> r = meaning a ra"
proof -
  obtain w' took a where send: "fe_send fe (fs_world (paced fe (fe_parse_url fe url) u)) url (conditional_headers meta) = (w', took, a)"
    by (metis prod_cases3)
  then have "answers fe url meta a" unfolding answers_def by blast
  moreover have "\<exists>ra. r = meaning a ra"
  proof (cases a)
    case (Inl e)
    with assms send show ?thesis by (auto simp: attempt_def meaning_def Let_def split: if_splits)
  next
    case (Inr resp)
    then have "r = meaning a (\<lambda>_. Option.bind (rp_header resp ''retry-after'') (parse_retry_after (fe_http fe)))"
      using assms send
      by (auto simp: attempt_def meaning_def classify_response_def extract_validators_def Let_def split: if_splits sum.splits)
    then show ?thesis by blast
  qed
  ultimately show ?thesis by blast
qed

lemma fetch_result_meaning:
  assumes "fetches fe cfg policy url meta s t waits r"
  shows "(preflight_blocked fe policy url \<and> r = Inr Blocked) \<or>
    (\<exists>a ra host. answers fe url meta a \<and> r = map_outcome fe url host (meaning a ra))"
  using assms
proof cases
  case (fetch_ran min_delay max_delay max_times delays outcome host)
  from retry_run_last [OF fetch_ran(5)] obtain u where "attempt fe url meta u = (t, outcome)" by blast
  with attempt_meaning fetch_ran(1) show ?thesis by blast
qed blast

lemma map_meaning_gone:
  "map_outcome fe url host (meaning a ra) = Inr FetchGone \<Longrightarrow> \<exists>resp. a = Inr resp \<and> rp_status resp \<in> {404, 410}"
  by (cases a) (auto simp: map_outcome_def meaning_def split: if_splits sum.splits)

lemma fetch_gone:
  "fetches fe cfg policy url meta s t waits (Inr FetchGone) \<Longrightarrow>
     \<exists>resp. answers fe url meta (Inr resp) \<and> rp_status resp \<in> {404, 410}"
  by (drule fetch_result_meaning) (use map_meaning_gone in fastforce)

text \<open>
  C16: The result of a fetch is what the server said: content comes complete from a 2xx response, with
  that response's validators and URL; \<open>NotModified\<close> is a 304, \<open>Gone\<close> a 404 or 410, a rate limit a 429;
  \<open>Blocked\<close> is a refusal by the guard, before or during the request; and a failure is one of two errors.
\<close>

theorem fetch_outcome:
  assumes "fetches fe cfg policy url meta s t waits r"
  shows "case r of
      Inr (Downloaded bytes ct etag lm final) \<Rightarrow>
        (\<exists>resp. answers fe url meta (Inr resp) \<and> is_success (rp_status resp) \<and> rp_body resp = Inr bytes \<and>
           etag = rp_header resp ''etag'' \<and> lm = rp_header resp ''last-modified'' \<and> final = Some (pu_text (rp_url resp)))
    | Inr (NotModified etag lm) \<Rightarrow>
        (\<exists>resp. answers fe url meta (Inr resp) \<and> rp_status resp = 304 \<and> (etag, lm) = extract_validators resp)
    | Inr FetchGone \<Rightarrow> (\<exists>resp. answers fe url meta (Inr resp) \<and> rp_status resp \<in> {404, 410})
    | Inr Blocked \<Rightarrow> preflight_blocked fe policy url \<or> (\<exists>e. answers fe url meta (Inl e) \<and> rq_blocked e)
    | Inl (RateLimited _) \<Rightarrow> (\<exists>resp. answers fe url meta (Inr resp) \<and> rp_status resp = 429)
    | Inl (ProviderUnavailable _) \<Rightarrow>
        (\<exists>resp. answers fe url meta (Inr resp) \<and> \<not> is_success (rp_status resp) \<and> rp_status resp \<noteq> 429) \<or>
        (\<exists>e. answers fe url meta (Inl e) \<and> \<not> rq_blocked e) \<or>
        (\<exists>resp e. answers fe url meta (Inr resp) \<and> is_success (rp_status resp) \<and> rp_body resp = Inl e)
    | Inl _ \<Rightarrow> False"
  using fetch_result_meaning [OF assms]
proof (elim disjE conjE exE)
  fix a ra host assume a: "answers fe url meta a" "r = map_outcome fe url host (meaning a ra)"
  show ?thesis
  proof (cases a)
    case (Inl e)
    with a show ?thesis by (cases "rq_blocked e") (auto simp: meaning_def map_outcome_def)
  next
    case (Inr resp)
    show ?thesis
    proof (cases "is_success (rp_status resp)")
      case True
      then have "rp_status resp \<notin> {304, 404, 410}" by (auto simp: is_success_def)
      with True a Inr show ?thesis by (cases "rp_body resp") (auto simp: meaning_def map_outcome_def)
    next
      case False
      with a Inr show ?thesis
        by (auto simp: meaning_def map_outcome_def extract_validators_def split: if_splits)
    qed
  qed
qed simp

text \<open>A client that always gives the same answer, and a server that answers 429 once and then 404.\<close>

definition demo_http :: "unit http_ext" where
  "demo_http = \<lparr>he_http_date = (\<lambda>_. None), he_system_now = 0, he_to_lowercase = id,
     he_net = \<lparr>ne_parse_ip = (\<lambda>_. None), ne_show_ip = (\<lambda>_. ''ip'')\<rparr>, he_take_token = (\<lambda>_ _ g. (0, g)),
     he_retain_recent = (\<lambda>_ g. g), he_status_text = (\<lambda>_. ''error'')\<rparr>"

definition demo_response :: "nat \<Rightarrow> response" where
  "demo_response status = \<lparr>rp_status = status, rp_url = \<lparr>pu_text = ''https://a.org/'', pu_host = Some ''a.org''\<rparr>,
     rp_header = (\<lambda>h. if h = ''retry-after'' then Some ''5'' else None), rp_body = Inr ''body''\<rparr>"

definition demo_client :: "(nat \<Rightarrow> request_error + response) \<Rightarrow> (nat, unit) fetch_ext" where
  "demo_client answer = \<lparr>fe_http = demo_http, fe_parse_url = (\<lambda>_. None), fe_send = (\<lambda>w url hs. (w + 1, 7, answer w))\<rparr>"

definition demo_fetch_state :: "(nat, unit) fetch_state" where
  "demo_fetch_state = \<lparr>fs_now = 0, fs_world = 0, fs_limiter = \<lparr>hl_governor = (), hl_cooldowns = [], hl_acquire_count = 0\<rparr>\<rparr>"

definition gone_after_retry :: "nat \<Rightarrow> request_error + response" where
  "gone_after_retry n = Inr (demo_response (if n = 0 then 429 else 404))"

lemma demo_retry_after: "parse_retry_after demo_http ''5'' = Some (5 * SECOND)"
  by (simp add: parse_retry_after_def trim_solid solid_def parse_u64_def digits_value_def
      is_ascii_digit_def RETRY_AFTER_PARSE_CAP_def SECOND_def Let_def)

lemmas demo_client_defs =
  attempt_def demo_client_def paced_def gone_after_retry_def classify_response_def demo_response_def is_success_def
  note_rate_limit_def Let_def

lemma demo_first:
  "\<exists>t. attempt (demo_client gone_after_retry) url no_validators demo_fetch_state = (t, Inl (StatusError 429 (Some (5 * SECOND)))) \<and>
     fs_world t = 1"
  by (simp add: demo_client_defs demo_fetch_state_def demo_retry_after split: option.split)

lemma demo_second: "fs_world st = 1 \<Longrightarrow> \<exists>t. attempt (demo_client gone_after_retry) url no_validators st = (t, Inr FetchGone)"
  by (simp add: demo_client_defs)

lemma demo_fetch:
  "\<exists>t. fetches (demo_client gone_after_retry) default_http_settings Unrestricted ''https://a.org/'' no_validators demo_fetch_state t
     [5 * SECOND] (Inr FetchGone)"
proof -
  let ?fe = "demo_client gone_after_retry" and ?url = "''https://a.org/''"
  obtain t where t: "attempt ?fe ?url no_validators demo_fetch_state = (t, Inl (StatusError 429 (Some (5 * SECOND))))" "fs_world t = 1"
    using demo_first by blast
  obtain u where u: "attempt ?fe ?url no_validators (sleep_for (5 * SECOND) t) = (u, Inr FetchGone)"
    using demo_second [of "sleep_for (5 * SECOND) t"] t(2) by (auto simp: sleep_for_def)
  have last_run: "retry_run (attempt ?fe ?url no_validators) is_transient (retry_after_adjuster (total_retry_budget default_http_settings))
      sleep_for [0, 0] 5000 (sleep_for (5 * SECOND) t) u [] (Inr FetchGone)" by (rule run_done) (rule u)
  have "retry_run (attempt ?fe ?url no_validators) is_transient (retry_after_adjuster (total_retry_budget default_http_settings))
      sleep_for [0, 0, 0] 0 demo_fetch_state u [5 * SECOND] (Inr FetchGone)"
  proof (rule run_again [where sp' = 5000 and w = "5 * SECOND" and t = t])
    show "retry_after_adjuster (total_retry_budget default_http_settings) (StatusError 429 (Some (5 * SECOND))) (proposal [0, 0, 0]) 0 =
        (5000, Some (5 * SECOND))"
      by (simp add: retry_after_adjuster_def proposal_def total_retry_budget_def default_http_settings_def
         SECOND_def MILLI_def INLINE_RETRY_AFTER_CAP_def TOTAL_DELAY_RATIO_def DURATION_MAX_def)
  qed (use t last_run in \<open>simp_all add: is_transient_def\<close>)
  from fetch_ran [OF _ _ _ this refl] show ?thesis
    by (auto simp: preflight_blocked_def retry_policy_def default_http_settings_def map_outcome_def Let_def)
qed

lemma fetch_outcome_witness:
  "\<exists>resp. answers (demo_client gone_after_retry) ''https://a.org/'' no_validators (Inr resp) \<and> rp_status resp \<in> {404, 410}"
proof -
  obtain t where "fetches (demo_client gone_after_retry) default_http_settings Unrestricted ''https://a.org/'' no_validators
      demo_fetch_state t [5 * SECOND] (Inr FetchGone)" using demo_fetch by blast
  from fetch_outcome [OF this] show ?thesis by simp
qed

section \<open>Attempts and sleep\<close>

lemma adjuster_stops [simp]: "retry_after_adjuster budget e None sp = (sp, None)"
  by (simp add: retry_after_adjuster_def)

lemma adjuster_grants:
  assumes "retry_after_adjuster budget e (proposal delays) sp = (sp', Some w)"
  shows "delays \<noteq> []" "sp * MILLI + w \<le> budget" "sp' = sp + w div MILLI"
  using assms
  by (auto simp: retry_after_adjuster_def proposal_def split: list.splits retry_error.splits option.splits if_splits)

lemma millis_cover: "w \<le> w div MILLI * MILLI + (MILLI - 1)"
  by (simp add: MILLI_def)

lemma retry_run_sleep:
  assumes "retry_run try_once again (retry_after_adjuster budget) sleep delays sp s t waits r"
  shows "length waits \<le> length delays \<and> (waits \<noteq> [] \<longrightarrow> sp * MILLI + sum_list waits \<le> budget + (length waits - 1) * (MILLI - 1))"
  using assms
proof (induction rule: retry_run.induct)
  case (run_again s t e delays sp sp' w u waits r)
  note g = adjuster_grants [OF run_again(3)]
  have "length (w # waits) \<le> length delays" using run_again.IH g(1) by (cases delays) auto
  moreover have "sp * MILLI + sum_list (w # waits) \<le> budget + length waits * (MILLI - 1)"
  proof (cases "waits = []")
    case False
    then obtain k where k: "length waits = Suc k" by (cases waits) auto
    have "(sp + w div MILLI) * MILLI + sum_list waits \<le> budget + k * (MILLI - 1)" using run_again.IH g(3) False k by simp
    moreover have "k * (MILLI - 1) + (MILLI - 1) = length waits * (MILLI - 1)" by (simp add: k)
    ultimately show ?thesis using millis_cover [of w] by (simp only: add_mult_distrib sum_list.Cons)
  qed (use g(2) in simp)
  ultimately show ?case by simp
qed auto

lemma retry_run_exists:
  "\<exists>t waits r. retry_run try_once again (retry_after_adjuster budget) sleep delays sp s t waits r"
proof (induction delays arbitrary: sp s)
  case Nil
  obtain t r where st: "try_once s = (t, r)" by (metis prod.exhaust)
  show ?case
  proof (cases r)
    case (Inl e)
    have "retry_after_adjuster budget e (proposal []) sp = (sp, None)" by (simp add: proposal_def)
    with st Inl show ?thesis by (cases "again e") (blast intro: retry_run.intros)+
  qed (use st in \<open>blast intro: run_done\<close>)
next
  case (Cons d delays)
  obtain t r where st: "try_once s = (t, r)" by (metis prod.exhaust)
  show ?case
  proof (cases r)
    case (Inl e)
    obtain sp' ow where adj: "retry_after_adjuster budget e (proposal (d # delays)) sp = (sp', ow)" by (metis prod.exhaust)
    show ?thesis
    proof (cases ow)
      case None
      with st Inl adj show ?thesis by (cases "again e") (blast intro: retry_run.intros)+
    next
      case (Some w)
      from Cons obtain u waits q where "retry_run try_once again (retry_after_adjuster budget) sleep delays sp' (sleep w t) u waits q"
        by blast
      then have "again e \<Longrightarrow> retry_run try_once again (retry_after_adjuster budget) sleep (d # delays) sp s u (w # waits) q"
        using st Inl adj Some by (intro run_again) auto
      with st Inl show ?thesis by (cases "again e") (blast intro: run_fatal)+
    qed
  qed (use st in \<open>blast intro: run_done\<close>)
qed

text \<open>
  C17: A fetch always returns, whatever the server answers and \<open>backon\<close> proposes, and every fetch is
  bounded: it makes at most \<open>max_retries\<close> retries, and it sleeps at most the budget and less than one
  millisecond more per retry after the first.
\<close>

theorem fetch_bounded:
  "(\<exists>t waits r. fetches fe cfg policy url meta s t waits r) \<and>
   (\<forall>t waits r. fetches fe cfg policy url meta s t waits r \<longrightarrow>
      length waits \<le> hs_max_retries cfg \<and>
      sum_list waits \<le> total_retry_budget cfg + (length waits - 1) * (MILLI - 1))"
proof (intro conjI allI impI)
  obtain a b where policy: "retry_policy cfg = (a, b, hs_max_retries cfg)" by (simp add: retry_policy_def Let_def)
  show "\<exists>t waits r. fetches fe cfg policy url meta s t waits r"
  proof (cases "preflight_blocked fe policy url")
    case False
    obtain t waits r where "retry_run (attempt fe url meta) is_transient (retry_after_adjuster (total_retry_budget cfg)) sleep_for
        (replicate (hs_max_retries cfg) 0) 0 s t waits r"
      using retry_run_exists [of "attempt fe url meta" is_transient "total_retry_budget cfg" sleep_for
        "replicate (hs_max_retries cfg) 0" 0 s] by blast
    from fetch_ran [OF False policy _ this refl] have "fetches fe cfg policy url meta s t waits
        (map_outcome fe url (map_option (he_to_lowercase (fe_http fe)) (Option.bind (fe_parse_url fe url) pu_host)) r)" by simp
    then show ?thesis by blast
  qed (blast intro: fetch_refused)
  fix t waits r assume "fetches fe cfg policy url meta s t waits r"
  then have "length waits \<le> hs_max_retries cfg \<and> sum_list waits \<le> total_retry_budget cfg + (length waits - 1) * (MILLI - 1)"
  proof cases
    case (fetch_ran min_delay max_delay max_times delays outcome host)
    then have "length delays = hs_max_retries cfg" using policy by simp
    with retry_run_sleep [OF fetch_ran(5)] show ?thesis by (cases "waits = []") auto
  qed simp
  then show "length waits \<le> hs_max_retries cfg" "sum_list waits \<le> total_retry_budget cfg + (length waits - 1) * (MILLI - 1)" by auto
qed

lemma fetch_bounded_witness:
  "\<exists>t waits. fetches (demo_client gone_after_retry) default_http_settings Unrestricted ''https://a.org/'' no_validators demo_fetch_state t
     waits (Inr FetchGone) \<and> waits \<noteq> [] \<and> length waits \<le> 3"
proof -
  obtain t where t: "fetches (demo_client gone_after_retry) default_http_settings Unrestricted ''https://a.org/'' no_validators
      demo_fetch_state t [5 * SECOND] (Inr FetchGone)" using demo_fetch by blast
  with fetch_bounded [of "demo_client gone_after_retry" default_http_settings Unrestricted "''https://a.org/''" no_validators demo_fetch_state]
  have "length [5 * SECOND] \<le> hs_max_retries default_http_settings" by blast
  with t show ?thesis by (intro exI [of _ t] exI [of _ "[5 * SECOND]"]) (simp add: default_http_settings_def)
qed

text \<open>
  The millisecond is real: the counter drops what a wait has below one, so three waits proposed by
  \<open>backon\<close> can sleep 1.8 milliseconds past the budget.
\<close>

lemma budget_overshoot:
  "let budget = total_retry_budget default_http_settings;
       (sp1, w1) = retry_after_adjuster budget (StatusError 503 None) (Some 9999900000) 0;
       (sp2, w2) = retry_after_adjuster budget (StatusError 503 None) (Some 9999900000) sp1;
       (sp3, w3) = retry_after_adjuster budget (StatusError 503 None) (Some 10002000000) sp2
   in w1 = Some 9999900000 \<and> w2 = w1 \<and> w3 = Some 10002000000 \<and> budget < 9999900000 + 9999900000 + 10002000000"
  by (simp add: retry_after_adjuster_def total_retry_budget_def default_http_settings_def SECOND_def MILLI_def TOTAL_DELAY_RATIO_def
      DURATION_MAX_def)

section \<open>Cooldowns\<close>

text \<open>What happens to the cooldowns of a limiter: a 429 noted for a host, and a pruning.\<close>

datatype cooldown_event = Noted (ce_time: nat) string nat | Pruned (ce_time: nat)

fun cooldown_step :: "'g http_ext \<Rightarrow> cooldown_event \<Rightarrow> 'g host_limiter \<Rightarrow> 'g host_limiter" where
  "cooldown_step he (Noted t host d) hl = note_retry_after he t host d hl"
| "cooldown_step he (Pruned t) hl = prune he t hl"

text \<open>The latest deadline the servers behind \<open>key\<close> asked for, each wait cut at the cap.\<close>

fun asked_until :: "'g http_ext \<Rightarrow> string \<Rightarrow> cooldown_event list \<Rightarrow> nat" where
  "asked_until he key [] = 0"
| "asked_until he key (Noted t host d # es) =
     (if he_to_lowercase he host = key then max (t + min d COOLDOWN_CAP) (asked_until he key es) else asked_until he key es)"
| "asked_until he key (Pruned t # es) = asked_until he key es"

definition deadline_of :: "string \<Rightarrow> 'g host_limiter \<Rightarrow> nat" where
  "deadline_of key hl = (case map_of (hl_cooldowns hl) key of Some d \<Rightarrow> d | None \<Rightarrow> 0)"

lemma cooldown_wait_deadline: "cooldown_wait now key hl = deadline_of key hl - now"
  by (simp add: cooldown_wait_def deadline_of_def split: option.split)

lemma deadline_noted:
  "deadline_of key (note_retry_after he t host d hl) =
     (if he_to_lowercase he host = key then max (deadline_of key hl) (t + min d COOLDOWN_CAP) else deadline_of key hl)"
  by (auto simp: deadline_of_def note_retry_after_def Let_def update_conv' split: option.splits)

lemma map_of_filter_value:
  "distinct (map fst xs) \<Longrightarrow>
     map_of (filter (\<lambda>(k, v). P v) xs) k = (case map_of xs k of Some v \<Rightarrow> if P v then Some v else None | None \<Rightarrow> None)"
proof (induction xs)
  case (Cons p xs)
  show ?case
  proof (cases "fst p = k")
    case True
    with Cons.prems have "map_of xs k = None" by (cases p) (simp add: map_of_eq_None_iff)
    with Cons True show ?thesis by (cases p) auto
  next
    case False
    with Cons show ?thesis by (cases p) auto
  qed
qed simp

lemma deadline_pruned:
  assumes "distinct (map fst (hl_cooldowns hl))" "t \<le> now"
  shows "deadline_of key (prune he t hl) - now = deadline_of key hl - now"
  using assms by (simp add: deadline_of_def prune_def map_of_filter_value split: option.split)

lemma distinct_noted: "distinct (map fst (hl_cooldowns hl)) \<Longrightarrow> distinct (map fst (hl_cooldowns (note_retry_after he t host d hl)))"
  by (simp add: note_retry_after_def Let_def distinct_update)

lemma distinct_pruned: "distinct (map fst (hl_cooldowns hl)) \<Longrightarrow> distinct (map fst (hl_cooldowns (prune he t hl)))"
  by (simp add: prune_def distinct_map_filter)

lemma cooldown_run:
  "distinct (map fst (hl_cooldowns hl)) \<Longrightarrow> list_all (\<lambda>e. ce_time e \<le> now) es \<Longrightarrow>
     cooldown_wait now key (fold (cooldown_step he) es hl) = max (deadline_of key hl) (asked_until he key es) - now"
proof (induction es arbitrary: hl)
  case (Cons e es)
  show ?case
  proof (cases e)
    case (Noted t host d)
    with Cons show ?thesis by (auto simp: distinct_noted deadline_noted max.assoc max.commute max.left_commute)
  next
    case (Pruned t)
    with Cons have "deadline_of key (prune he t hl) - now = deadline_of key hl - now" by (auto intro: deadline_pruned)
    with Cons Pruned show ?thesis by (simp add: distinct_pruned max_def split: if_splits)
  qed
qed (simp add: cooldown_wait_deadline)

lemma asked_until_cap: "list_all (\<lambda>e. ce_time e \<le> now) es \<Longrightarrow> asked_until he key es \<le> now + COOLDOWN_CAP"
  by (induction he key es rule: asked_until.induct) auto

text \<open>
  C24: A host is left alone exactly as long as its servers asked. After any history of noted 429s and
  prunings, a request to a paced host waits until the latest deadline asked for that host, whatever the
  case it was written in, with each wait cut at sixty seconds; a shorter wait never cancels a longer
  one, other hosts do not count, and pruning is never observed.
\<close>

theorem cooldown_honoured:
  assumes "list_all (\<lambda>e. ce_time e \<le> now) es" and "hl_cooldowns hl = []"
    and "should_pace (he_net he) url" "pu_host url = Some host"
  defines "key \<equiv> he_to_lowercase he host"
  shows "cooldown_wait now key (fold (cooldown_step he) es hl) = asked_until he key es - now \<and>
    asked_until he key es - now \<le> COOLDOWN_CAP \<and>
    asked_until he key es \<le> fst (acquire he now url (fold (cooldown_step he) es hl))"
proof -
  have w: "cooldown_wait now key (fold (cooldown_step he) es hl) = asked_until he key es - now"
    using cooldown_run [of hl now es key he] assms by (simp add: deadline_of_def)
  moreover have "asked_until he key es - now \<le> COOLDOWN_CAP" using asked_until_cap [OF assms(1), of he key] by simp
  moreover have "now + cooldown_wait now key (fold (cooldown_step he) es hl) \<le> fst (acquire he now url (fold (cooldown_step he) es hl))"
    using assms(3,4) by (simp add: acquire_def Let_def key_def split: prod.split)
  ultimately show ?thesis by linarith
qed

definition demo_history :: "cooldown_event list" where
  "demo_history = [Noted 0 ''a.org'' (40 * SECOND), Noted SECOND ''a.org'' (5 * SECOND), Pruned (2 * SECOND)]"

lemma cooldown_honoured_witness:
  "cooldown_wait (10 * SECOND) ''a.org'' (fold (cooldown_step demo_http) demo_history (fs_limiter demo_fetch_state)) = 30 * SECOND"
  using cooldown_honoured [of "10 * SECOND" demo_history "fs_limiter demo_fetch_state" demo_http
      "\<lparr>pu_text = ''https://a.org/'', pu_host = Some ''a.org''\<rparr>" "''a.org''"]
  by (simp add: demo_history_def demo_fetch_state_def demo_http_def should_pace_def ip_literal_host_def COOLDOWN_CAP_def SECOND_def)

end
