(* ===== verification/Content.thy ===== *)
theory Content
  imports Ingestor
begin

text \<open>
  From bytes to blocks: the parser chain (\<open>core/src/parser.rs\<close>), the hash of a document's blocks
  (\<open>core/src/markdown_blocks.rs\<close>), the media type by extension (\<open>ingest/src/support.rs\<close>) and the
  canonical time of a file (\<open>format_secs_rfc3339\<close> of \<open>core/src/ingestion.rs\<close>). The parsers themselves,
  the Markdown parser and the sniffing of media types are parameters; a parser may panic.
\<close>

record parsed_document =
  pd_markdown :: string
  pd_title :: "string option"
  pd_metadata :: dublin_core
  pd_page_starts :: "(nat \<times> u32) list"

record probe =
  pb_bytes :: string
  pb_path_hint :: "string option"
  pb_sniffed_mime :: "string option"

definition PROBE_HEADER_LEN :: nat where
  "PROBE_HEADER_LEN = 8192"

definition probe_header :: "probe \<Rightarrow> string" where
  "probe_header p = take (min (length (pb_bytes p)) PROBE_HEADER_LEN) (pb_bytes p)"

text \<open>The part after the last dot of the last path component, unless the dot comes first.\<close>

definition probe_extension :: "probe \<Rightarrow> string option" where
  "probe_extension p =
     Option.bind (pb_path_hint p) (\<lambda>hint.
       let basename = rev (takeWhile (\<lambda>c. c \<noteq> CHR ''/'') (rev hint));
           ext = rev (takeWhile (\<lambda>c. c \<noteq> CHR ''.'') (rev basename))
       in if CHR ''.'' \<in> set basename \<and> length ext + 1 < length basename then Some ext else None)"

type_synonym parser = "probe \<Rightarrow> error + parsed_document option"

text \<open>\<open>ChainParser::parse\<close>: the first that does not decline, an error included.\<close>

fun chain_parse :: "parser list \<Rightarrow> parser" where
  "chain_parse [] probe = Inr None"
| "chain_parse (p # ps) probe =
     (case p probe of
        Inl e \<Rightarrow> Inl e
      | Inr (Some doc) \<Rightarrow> Inr (Some doc)
      | Inr None \<Rightarrow> chain_parse ps probe)"

definition block_hash_entry :: "block \<Rightarrow> string" where
  "block_hash_entry b =
     (let base = kind_str (block_kind_of b) @ '':'' @ block_text b
      in case Option.bind (block_location_of b) loc_page of
           Some page \<Rightarrow> base @ [CHR 0x01] @ ''p'' @ show_nat (unat page)
         | None \<Rightarrow> base)"

definition compute_blocks_hash :: "hash_fn \<Rightarrow> block list \<Rightarrow> string" where
  "compute_blocks_hash h blocks = content_hash_of h (join [CHR 0x00] (map block_hash_entry blocks))"

definition mime_of_extension :: "string \<Rightarrow> string" where
  "mime_of_extension ext =
     (if ext \<in> {''md'', ''markdown''} then ''text/markdown''
      else if ext = ''txt'' then ''text/plain''
      else if ext \<in> {''html'', ''htm''} then ''text/html''
      else if ext = ''pdf'' then ''application/pdf''
      else if ext = ''epub'' then ''application/epub+zip''
      else if ext = ''rs'' then ''text/x-rust''
      else if ext = ''py'' then ''text/x-python''
      else if ext \<in> {''js'', ''mjs''} then ''text/javascript''
      else if ext \<in> {''ts'', ''tsx''} then ''text/typescript''
      else if ext = ''json'' then ''application/json''
      else if ext \<in> {''yaml'', ''yml''} then ''text/yaml''
      else if ext = ''toml'' then ''text/toml''
      else ''application/octet-stream'')"

text \<open>An extension that is not UTF-8 has no media type.\<close>

definition detect_mime :: "(string \<Rightarrow> string) \<Rightarrow> string \<Rightarrow> string option" where
  "detect_mime to_lowercase path =
     (case path_extension path of
        None \<Rightarrow> None
      | Some ext \<Rightarrow> if utf8 ext then Some (mime_of_extension (to_lowercase ext)) else None)"

text \<open>\<open>from_timestamp\<close> renders an instant that \<open>chrono\<close> can represent.\<close>

definition format_secs_rfc3339 :: "(int \<Rightarrow> string option) \<Rightarrow> u64 \<Rightarrow> string" where
  "format_secs_rfc3339 from_timestamp secs =
     (let formatted = (if uint secs < 2 ^ 63 then Option.bind (from_timestamp (uint secs))
            (\<lambda>s. if is_canonical_timestamp s then Some s else None) else None)
      in case formatted of Some s \<Rightarrow> s | None \<Rightarrow> ''1970-01-01T00:00:00Z'')"

record content_ext =
  ce_hash :: hash_fn
  ce_parse :: "probe \<Rightarrow> string + (error + parsed_document option)"
  ce_markdown_to_blocks :: "string \<Rightarrow> (nat \<times> u32) list \<Rightarrow> block list"
  ce_sniff_mime :: "string \<Rightarrow> string option \<Rightarrow> string option"
  ce_to_lowercase :: "string \<Rightarrow> string"
  ce_from_timestamp :: "int \<Rightarrow> string option"
  ce_now :: string

section \<open>Facts\<close>

text \<open>The fallback keeps the canonical form whatever the clock says.\<close>

lemma format_secs_canonical: "is_canonical_timestamp (format_secs_rfc3339 from_timestamp secs)"
proof -
  have "is_canonical_timestamp ''1970-01-01T00:00:00Z''" by code_simp
  then show ?thesis
    by (auto simp: format_secs_rfc3339_def Let_def split: option.split Option.bind_splits)
qed

text \<open>The first parser that does not decline decides, whether it succeeds or fails.\<close>

lemma chain_parse_first:
  "chain_parse ps probe = (case find (\<lambda>p. p probe \<noteq> Inr None) ps of None \<Rightarrow> Inr None | Some p \<Rightarrow> p probe)"
  by (induction ps) (auto split: sum.split option.split)

end
