(* ===== verification/FileIngest.thy ===== *)
theory FileIngest
  imports Content
begin

text \<open>
  Path sources: the walk over a directory (\<open>core/src/ingestion/enumerate.rs\<close>) and the ingestor of
  files (\<open>ingest/src/file_ingestor.rs\<close>). A directory is read as the tree below it, with the errors
  the reads give; paths, globs and file contents come from \<open>file_ext\<close>.
\<close>

section \<open>Enumerating a directory\<close>

datatype dir_entry =
    EntryError string
  | DirEntry string "dir_entry list"
  | UnreadableDir string string
  | FileEntry string
  | OtherEntry string

record found_file =
  ff_path :: string
  ff_uri :: string

datatype path_enumeration = PathComplete "found_file list" | RootUnavailable

record file_ext =
  fx_root :: "string \<Rightarrow> (string + dir_entry list) option"
  fx_glob :: "string \<Rightarrow> string + (string \<Rightarrow> bool)"
  fx_canonicalize :: "string \<Rightarrow> string option"
  fx_from_file_path :: "string \<Rightarrow> string option"
  fx_read :: "string \<Rightarrow> string + string \<times> u64 option"
  fx_to_string_lossy :: "string \<Rightarrow> string"
  fx_content :: content_ext

text \<open>A compiled set matches when one of its globs does; the set itself always builds.\<close>

fun build_glob_set :: "file_ext \<Rightarrow> string list \<Rightarrow> error + (string \<Rightarrow> bool) list" where
  "build_glob_set fx [] = Inr []"
| "build_glob_set fx (pat # pats) =
     (case fx_glob fx pat of
        Inl e \<Rightarrow> Inl (InvalidConfig (''invalid glob pattern '' @ [CHR 0x27] @ pat @ [CHR 0x27] @ '': '' @ e))
      | Inr g \<Rightarrow> and_then (build_glob_set fx pats) (\<lambda>gs. Inr (g # gs)))"

definition is_match :: "(string \<Rightarrow> bool) list \<Rightarrow> string \<Rightarrow> bool" where
  "is_match gs s \<longleftrightarrow> list_ex (\<lambda>g. g s) gs"

record walk =
  wk_ext :: file_ext
  wk_include :: "(string \<Rightarrow> bool) list"
  wk_include_empty :: bool
  wk_exclude :: "(string \<Rightarrow> bool) list"

definition excluded :: "walk \<Rightarrow> string \<Rightarrow> string \<Rightarrow> bool" where
  "excluded wk relative basename \<longleftrightarrow>
     is_match (wk_exclude wk) (fx_to_string_lossy (wk_ext wk) relative) \<or>
     is_match (wk_exclude wk) (fx_to_string_lossy (wk_ext wk) basename)"

definition found_file_of :: "walk \<Rightarrow> string \<Rightarrow> error + found_file" where
  "found_file_of wk path =
     (let abs_path = (case fx_canonicalize (wk_ext wk) path of Some p \<Rightarrow> p | None \<Rightarrow> path)
      in case fx_from_file_path (wk_ext wk) abs_path of
           None \<Rightarrow> Inl (Internal (''cannot build a file:// URI for non-absolute path '' @ [CHR 0x27] @ abs_path @ [CHR 0x27] @
                     '' (canonicalization failed and the source root is relative)'') ''enumerate_dir'')
         | Some uri \<Rightarrow> Inr \<lparr>ff_path = abs_path, ff_uri = uri\<rparr>)"

definition join_path :: "string \<Rightarrow> string \<Rightarrow> string" where
  "join_path dir name =
     (if dir = [] then name else if last dir = CHR ''/'' then dir @ name else dir @ ''/'' @ name)"

definition cannot_read :: "string \<Rightarrow> string \<Rightarrow> error" where
  "cannot_read dir e = Internal (''cannot read directory '' @ [CHR 0x27] @ dir @ [CHR 0x27] @ '': '' @ e) ''enumerate_dir''"

text \<open>
  \<open>dir\<close> is the path of the directory, \<open>rel\<close> the same relative to the root; \<open>found\<close> is what was found so
  far. \<open>enumerate_entries\<close> is the loop of \<open>enumerate_dir\<close>, \<open>enumerate_entry\<close> its body.
\<close>

fun enumerate_entry :: "walk \<Rightarrow> string \<Rightarrow> string \<Rightarrow> dir_entry \<Rightarrow> found_file list \<Rightarrow> error + found_file list"
  and enumerate_entries :: "walk \<Rightarrow> string \<Rightarrow> string \<Rightarrow> dir_entry list \<Rightarrow> found_file list \<Rightarrow> error + found_file list" where
  "enumerate_entry wk dir rel (EntryError e) found =
     Inl (Internal (''error reading directory entry: '' @ e) ''enumerate_dir_entry'')"
| "enumerate_entry wk dir rel (DirEntry name contents) found =
     (if excluded wk (join_path rel name) name then Inr found
      else enumerate_entries wk (join_path dir name) (join_path rel name) contents found)"
| "enumerate_entry wk dir rel (UnreadableDir name e) found =
     (if excluded wk (join_path rel name) name then Inr found else Inl (cannot_read (join_path dir name) e))"
| "enumerate_entry wk dir rel (FileEntry name) found =
     (if excluded wk (join_path rel name) name then Inr found
      else if \<not> wk_include_empty wk \<and> \<not> is_match (wk_include wk) (fx_to_string_lossy (wk_ext wk) (join_path rel name))
      then Inr found
      else and_then (found_file_of wk (join_path dir name)) (\<lambda>f. Inr (found @ [f])))"
| "enumerate_entry wk dir rel (OtherEntry name) found = Inr found"
| "enumerate_entries wk dir rel [] found = Inr found"
| "enumerate_entries wk dir rel (e # es) found =
     (case enumerate_entry wk dir rel e found of Inl err \<Rightarrow> Inl err | Inr found' \<Rightarrow> enumerate_entries wk dir rel es found')"

definition enumerate_dir :: "walk \<Rightarrow> string \<Rightarrow> string + dir_entry list \<Rightarrow> error + found_file list" where
  "enumerate_dir wk dir contents =
     (case contents of Inl e \<Rightarrow> Inl (cannot_read dir e) | Inr entries \<Rightarrow> enumerate_entries wk dir [] entries [])"

text \<open>\<open>Path\<close>s compare by their components.\<close>

definition path_components :: "string \<Rightarrow> string list" where
  "path_components p = filter (\<lambda>c. c \<noteq> [] \<and> c \<noteq> ''.'') (split_on (CHR ''/'') p)"

definition by_path :: "found_file \<Rightarrow> found_file \<Rightarrow> ordering" where
  "by_path a b = ord_cmp (path_components (ff_path a)) (path_components (ff_path b))"

definition enumerate_path_source :: "file_ext \<Rightarrow> string \<Rightarrow> string list \<Rightarrow> string list \<Rightarrow> error + path_enumeration" where
  "enumerate_path_source fx dir include exclude =
     (case fx_root fx dir of
        None \<Rightarrow> Inr RootUnavailable
      | Some contents \<Rightarrow>
          and_then (build_glob_set fx include) (\<lambda>include_set.
            and_then (build_glob_set fx exclude) (\<lambda>exclude_set.
              let wk = \<lparr>wk_ext = fx, wk_include = include_set, wk_include_empty = (include = []), wk_exclude = exclude_set\<rparr>
              in and_then (enumerate_dir wk dir contents) (\<lambda>found. Inr (PathComplete (sort_by by_path found))))))"

section \<open>The ingestor of files\<close>

definition read_error :: "string \<Rightarrow> string" where "read_error e = ''read error: '' @ e"
definition parser_panicked :: "string \<Rightarrow> string" where "parser_panicked m = ''parser panicked: '' @ m"
definition parser_error :: "error \<Rightarrow> string" where "parser_error e = ''parser error: '' @ err_to_string e"

definition no_content :: string where
  "no_content = ''extraction produced no content''"

definition count_ig_error :: "ingest_result \<Rightarrow> ingest_result" where
  "count_ig_error result = result\<lparr>ig_errors := ig_errors result + 1\<rparr>"

definition count_ig_skipped :: "ingest_result \<Rightarrow> ingest_result" where
  "count_ig_skipped result = result\<lparr>ig_skipped := ig_skipped result + 1\<rparr>"

definition count_ig_produced :: "ingest_result \<Rightarrow> ingest_result" where
  "count_ig_produced result = result\<lparr>ig_produced := ig_produced result + 1\<rparr>"

definition file_resource ::
  "file_ext \<Rightarrow> ingest_source \<Rightarrow> found_file \<Rightarrow> string option \<Rightarrow> parsed_document \<Rightarrow> block list \<Rightarrow> resource" where
  "file_resource fx source file mtime parsed blocks =
     (let content = fx_content fx;
          hash = compute_blocks_hash (ce_hash content) blocks;
          dc = (if dc_title (pd_metadata parsed) = None then (pd_metadata parsed)\<lparr>dc_title := pd_title parsed\<rparr> else pd_metadata parsed)
      in \<lparr>rs_id = resource_id_of (ce_hash content) (ff_uri file) hash, rs_store_id = isrc_store_id source,
          rs_source_id = isrc_source_id source, rs_ingestor_kind = KFile, rs_resource_kind = DocumentResource,
          rs_uri = ff_uri file, rs_external_id = None, rs_external_etag = None, rs_external_last_modified = None,
          rs_content_hash = hash, rs_title = dc_title dc, rs_mime = detect_mime (ce_to_lowercase content) (ff_path file),
          rs_metadata = MetaDocument \<lparr>doc_dublin_core = dc, page_count = None, word_count = None\<rparr>,
          rs_added_at = ce_now content, rs_modified_at = mtime, rs_thread_id = None, rs_channel = None, rs_participants = [],
          rs_origin_store = isrc_store_id source, rs_policy_version = isrc_policy_version source, rs_share_path = None,
          rs_extractor_version = ''1.0'', rs_blocks = blocks\<rparr>)"

definition ingest_file :: "file_ext \<Rightarrow> ingest_source \<Rightarrow> found_file \<Rightarrow> ingest_result \<Rightarrow> ingest_result ingest_prog" where
  "ingest_file fx source file result =
     (case fx_read fx (ff_path file) of
        Inl e \<Rightarrow> tell (OnSkipped (ff_uri file) (SkipError (read_error e))) (Finish (count_ig_error result))
      | Inr (bytes, mtime_secs) \<Rightarrow>
          (let content = fx_content fx;
               mtime = map_option (format_secs_rfc3339 (ce_from_timestamp content)) mtime_secs;
               filename = map_option (fx_to_string_lossy fx) (path_file_name (ff_path file));
               probe = \<lparr>pb_bytes = bytes, pb_path_hint = Some (fx_to_string_lossy fx (ff_path file)),
                        pb_sniffed_mime = ce_sniff_mime content bytes filename\<rparr>
           in case ce_parse content probe of
                Inl panic_msg \<Rightarrow> tell (OnSkipped (ff_uri file) (SkipError (parser_panicked panic_msg))) (Finish (count_ig_error result))
              | Inr (Inl e) \<Rightarrow> tell (OnSkipped (ff_uri file) (SkipError (parser_error e))) (Finish (count_ig_error result))
              | Inr (Inr None) \<Rightarrow> tell (OnSkipped (ff_uri file) SkipUnsupported) (Finish (count_ig_skipped result))
              | Inr (Inr (Some parsed)) \<Rightarrow>
                  (let blocks = ce_markdown_to_blocks content (pd_markdown parsed) (pd_page_starts parsed)
                   in if blocks = [] then tell (OnSkipped (ff_uri file) (SkipOther no_content)) (Finish (count_ig_skipped result))
                      else tell (OnResource (file_resource fx source file mtime parsed blocks)) (Finish (count_ig_produced result)))))"

definition config_strings :: "json \<Rightarrow> string \<Rightarrow> string list" where
  "config_strings config key =
     (case Option.bind (json_get key config) as_array of None \<Rightarrow> [] | Some xs \<Rightarrow> List.map_filter as_str xs)"

definition file_ingest :: "file_ext \<Rightarrow> ingest_source \<Rightarrow> (error + ingest_result) ingest_prog" where
  "file_ingest fx source =
     (case Option.bind (json_get ''root'' (isrc_config source)) as_str of
        None \<Rightarrow> Finish (Inl (InvalidRequest (''FileIngestor: missing required config field '' @ [CHR 0x27] @ ''root'' @ [CHR 0x27])))
      | Some dir \<Rightarrow>
          (case enumerate_path_source fx dir (config_strings (isrc_config source) ''include'')
                  (config_strings (isrc_config source) ''exclude'') of
             Inl e \<Rightarrow> Finish (Inl e)
           | Inr RootUnavailable \<Rightarrow>
               tell (OnDiscovered 0) (Finish (Inr (default_ingest_result
                 \<lparr>ig_enumeration := Incomplete (''source root is not reachable: '' @ dir)\<rparr>)))
           | Inr (PathComplete files) \<Rightarrow>
               tell (OnDiscovered (length files))
                 (bind_prog (for_each (ingest_file fx source) files default_ingest_result) (\<lambda>result. Finish (Inr result)))))"

definition file_ingestor :: "file_ext \<Rightarrow> ingestor" where
  "file_ingestor fx = \<lparr>in_kind = KFile, in_ingest = file_ingest fx\<rparr>"

end
