(* ===== verification/UrlIngest.thy ===== *)
theory UrlIngest
  imports FileIngest
begin

text \<open>
  URLs: the pipeline of one URL (\<open>ingest/src/url_pipeline.rs\<close>), shared by the URL and the feed
  ingestor, and the ingestor of URL sources (\<open>ingest/src/url_ingestor.rs\<close>). The fetcher is a
  parameter; \<open>ux_parse_uri\<close> is \<open>Uri::parse\<close>, rendered again.
\<close>

type_synonym url_fetcher = "string \<Rightarrow> validators \<Rightarrow> error + fetch_result"

datatype url_outcome =
    UrlIndexed | UrlUnchanged | UrlGone | UrlBlocked | UrlUnsupported | UrlEmpty | UrlFetchError | UrlParseFailed

record resource_enrichment =
  ue_external_id :: "string option"
  ue_title_fallback :: "string option"
  ue_creator :: "string list"
  ue_date :: "string option"
  ue_modified_at_override :: "string option"
  ue_provenance_source :: "string option"
  ue_date_source :: "string option"
  ue_capture_conditional_get :: bool

definition default_resource_enrichment :: resource_enrichment where
  "default_resource_enrichment = \<lparr>ue_external_id = None, ue_title_fallback = None, ue_creator = [], ue_date = None,
     ue_modified_at_override = None, ue_provenance_source = None, ue_date_source = None, ue_capture_conditional_get = False\<rparr>"

definition metadata_enrichment :: "resource_enrichment \<Rightarrow> enrichment" where
  "metadata_enrichment e =
     \<lparr>title_fallback = ue_title_fallback e, en_creator = ue_creator e, en_date = ue_date e, en_date_source = ue_date_source e,
      provenance_source = ue_provenance_source e\<rparr>"

definition supplies_metadata :: "resource_enrichment \<Rightarrow> bool" where
  "supplies_metadata e \<longleftrightarrow> ue_external_id e \<noteq> None \<or> ue_modified_at_override e \<noteq> None \<or>
     \<not> enrichment_is_empty (metadata_enrichment e)"

record url_ext =
  ux_fetch :: url_fetcher
  ux_parse_uri :: "string \<Rightarrow> string option"
  ux_content :: content_ext

definition build_resource ::
  "content_ext \<Rightarrow> ingest_source \<Rightarrow> ingestor_kind \<Rightarrow> string \<Rightarrow> string \<Rightarrow> string \<Rightarrow> string option \<Rightarrow> dublin_core \<Rightarrow>
   string option \<Rightarrow> resource_enrichment \<Rightarrow> resource" where
  "build_resource content source kind uri locator markdown parsed_title parsed_metadata mime enrich =
     (let blocks = ce_markdown_to_blocks content markdown [];
          hash = compute_blocks_hash (ce_hash content) blocks;
          dc = (if dc_title parsed_metadata = None then parsed_metadata\<lparr>dc_title := parsed_title\<rparr> else parsed_metadata);
          dc = apply_to (metadata_enrichment enrich) dc
      in \<lparr>rs_id = resource_id_of (ce_hash content) locator hash, rs_store_id = isrc_store_id source,
          rs_source_id = isrc_source_id source, rs_ingestor_kind = kind, rs_resource_kind = DocumentResource, rs_uri = uri,
          rs_external_id = ue_external_id enrich, rs_external_etag = None, rs_external_last_modified = None,
          rs_content_hash = hash, rs_title = dc_title dc, rs_mime = mime,
          rs_metadata = MetaDocument \<lparr>doc_dublin_core = dc, page_count = None, word_count = None\<rparr>,
          rs_added_at = ce_now content, rs_modified_at = ue_modified_at_override enrich, rs_thread_id = None, rs_channel = None,
          rs_participants = [], rs_origin_store = isrc_store_id source, rs_policy_version = isrc_policy_version source,
          rs_share_path = None, rs_extractor_version = ''1.0'', rs_blocks = blocks\<rparr>)"

section \<open>One URL\<close>

text \<open>A call whose reply is used; a reply of another kind does not happen.\<close>

definition ask_validators :: "string \<Rightarrow> (validators \<Rightarrow> 'a ingest_prog) \<Rightarrow> 'a ingest_prog" where
  "ask_validators uri k = Call (LookupFetchMetadata uri) (\<lambda>r. case r of ValidatorsReply v \<Rightarrow> k v | _ \<Rightarrow> k no_validators)"

definition ask_write :: "ingest_call \<Rightarrow> (metadata_write_outcome \<Rightarrow> 'a ingest_prog) \<Rightarrow> 'a ingest_prog" where
  "ask_write c k = Call c (\<lambda>r. case r of WriteReply w \<Rightarrow> k w | _ \<Rightarrow> k WriteUnchanged)"

definition refresh_after_304 ::
  "string \<Rightarrow> string option \<Rightarrow> string option \<Rightarrow> resource_enrichment \<Rightarrow> (metadata_write_outcome \<Rightarrow> 'a ingest_prog) \<Rightarrow> 'a ingest_prog" where
  "refresh_after_304 uri etag last_modified enrich k =
     (let metadata = (\<lambda>written.
            if supplies_metadata enrich
            then ask_write (OnMetadataRefreshed uri (metadata_enrichment enrich) (ue_external_id enrich) (ue_modified_at_override enrich))
                   (\<lambda>w. k (merge_outcome written w))
            else k written)
      in if etag \<noteq> None \<or> last_modified \<noteq> None
         then ask_write (OnValidatorsRefreshed uri \<lparr>v_etag = etag, v_last_modified = last_modified\<rparr>) metadata
         else metadata WriteUnchanged)"

definition on_not_modified ::
  "string \<Rightarrow> string option \<Rightarrow> string option \<Rightarrow> resource_enrichment \<Rightarrow> ingest_result \<Rightarrow> (url_outcome \<times> ingest_result) ingest_prog" where
  "on_not_modified uri etag last_modified enrich result =
     refresh_after_304 uri etag last_modified enrich (\<lambda>written.
       case written of
         WriteUnchanged \<Rightarrow> tell (OnSkipped uri SkipUnchanged) (Finish (UrlUnchanged, count_ig_skipped result))
       | WriteDone \<Rightarrow> tell (OnSkipped uri SkipMetadataUpdated) (Finish (UrlUnchanged, result))
       | WriteFailed msg \<Rightarrow> tell (OnSkipped uri (SkipError msg)) (Finish (UrlUnchanged, count_ig_error result)))"

text \<open>\<open>locator.split('/').next_back()\<close>.\<close>

definition last_segment :: "string \<Rightarrow> string" where
  "last_segment locator = rev (takeWhile (\<lambda>c. c \<noteq> CHR ''/'') (rev locator))"

definition on_downloaded ::
  "content_ext \<Rightarrow> string \<Rightarrow> string \<Rightarrow> ingest_source \<Rightarrow> ingestor_kind \<Rightarrow> resource_enrichment \<Rightarrow> string \<Rightarrow> string option \<Rightarrow>
   string option \<Rightarrow> string option \<Rightarrow> ingest_result \<Rightarrow> (url_outcome \<times> ingest_result) ingest_prog" where
  "on_downloaded content locator uri source kind enrich bytes content_type etag last_modified result =
     (let probe = \<lparr>pb_bytes = bytes, pb_path_hint = Some locator,
                   pb_sniffed_mime = ce_sniff_mime content bytes (Some (last_segment locator))\<rparr>
      in case ce_parse content probe of
           Inl panic_msg \<Rightarrow> tell (OnSkipped uri (SkipError (parser_panicked panic_msg))) (Finish (UrlParseFailed, count_ig_error result))
         | Inr (Inr None) \<Rightarrow> Finish (UrlUnsupported, result)
         | Inr (Inl e) \<Rightarrow> tell (OnSkipped uri (SkipError (parser_error e))) (Finish (UrlParseFailed, count_ig_error result))
         | Inr (Inr (Some parsed)) \<Rightarrow>
             (if trim (pd_markdown parsed) = [] then Finish (UrlEmpty, result)
              else let res = build_resource content source kind uri locator (pd_markdown parsed) (pd_title parsed) (pd_metadata parsed)
                               content_type enrich;
                       res = (if ue_capture_conditional_get enrich
                              then res\<lparr>rs_external_etag := etag, rs_external_last_modified := last_modified\<rparr> else res)
                   in tell (OnResource res) (Finish (UrlIndexed, count_ig_produced result))))"

definition process_url ::
  "content_ext \<Rightarrow> url_fetcher \<Rightarrow> string \<Rightarrow> string \<Rightarrow> ingest_source \<Rightarrow> ingestor_kind \<Rightarrow> resource_enrichment \<Rightarrow> ingest_result \<Rightarrow>
   (url_outcome \<times> ingest_result) ingest_prog" where
  "process_url content fetch locator uri source kind enrich result =
     ask_validators uri (\<lambda>fetch_meta.
       case fetch locator fetch_meta of
         Inl e \<Rightarrow> tell (OnSkipped uri (SkipError (''fetch error: '' @ err_to_string e))) (Finish (UrlFetchError, count_ig_error result))
       | Inr (Downloaded bytes content_type etag last_modified final_url) \<Rightarrow>
           on_downloaded content locator uri source kind enrich bytes content_type etag last_modified result
       | Inr (NotModified etag last_modified) \<Rightarrow> on_not_modified uri etag last_modified enrich result
       | Inr FetchGone \<Rightarrow> Finish (UrlGone, result)
       | Inr Blocked \<Rightarrow> Finish (UrlBlocked, result))"

section \<open>The ingestor of URLs\<close>

definition destination_blocked :: string where
  "destination_blocked = ''destination blocked by fetch policy''"

definition configured_urls :: "json \<Rightarrow> string list" where
  "configured_urls config =
     (case Option.bind (json_get ''url'' config) as_str of Some u \<Rightarrow> [u] | None \<Rightarrow> []) @
     (case Option.bind (json_get ''urls'' config) as_array of Some xs \<Rightarrow> List.map_filter as_str xs | None \<Rightarrow> [])"

fun parse_urls :: "(string \<Rightarrow> string option) \<Rightarrow> string list \<Rightarrow> error + (string \<times> string) list" where
  "parse_urls parse_uri [] = Inr []"
| "parse_urls parse_uri (u # us) =
     (case parse_uri u of
        None \<Rightarrow> Inl (Internal (''UrlIngestor: invalid URI '' @ [CHR 0x27] @ u @ [CHR 0x27]) ''url_ingestor_uri'')
      | Some uri \<Rightarrow> and_then (parse_urls parse_uri us) (\<lambda>rest. Inr ((u, uri) # rest)))"

definition ingest_url :: "url_ext \<Rightarrow> ingest_source \<Rightarrow> string \<times> string \<Rightarrow> ingest_result \<Rightarrow> ingest_result ingest_prog" where
  "ingest_url ux source lu result =
     bind_prog (process_url (ux_content ux) (ux_fetch ux) (fst lu) (snd lu) source KUrl
         (default_resource_enrichment\<lparr>ue_capture_conditional_get := True\<rparr>) result) (\<lambda>(outcome, result).
       case outcome of
         UrlUnsupported \<Rightarrow> tell (OnSkipped (snd lu) SkipUnsupported) (Finish (count_ig_skipped result))
       | UrlEmpty \<Rightarrow> tell (OnSkipped (snd lu) (SkipOther no_content)) (Finish (count_ig_skipped result))
       | UrlBlocked \<Rightarrow> tell (OnSkipped (snd lu) (SkipOther destination_blocked)) (Finish (count_ig_skipped result))
       | UrlGone \<Rightarrow> tell (OnGone (snd lu)) (Finish result)
       | _ \<Rightarrow> Finish result)"

definition url_ingest :: "url_ext \<Rightarrow> ingest_source \<Rightarrow> (error + ingest_result) ingest_prog" where
  "url_ingest ux source =
     (let urls = configured_urls (isrc_config source)
      in if urls = [] then Finish (Inl (InvalidRequest (''UrlIngestor: missing required config field '' @
              [CHR 0x27] @ ''url'' @ [CHR 0x27] @ '' or '' @ [CHR 0x27] @ ''urls'' @ [CHR 0x27])))
         else case parse_urls (ux_parse_uri ux) urls of
                Inl e \<Rightarrow> Finish (Inl e)
              | Inr parsed \<Rightarrow>
                  tell (OnDiscovered (length parsed))
                    (bind_prog (for_each (ingest_url ux source) parsed default_ingest_result) (\<lambda>result. Finish (Inr result))))"

definition url_ingestor :: "url_ext \<Rightarrow> ingestor" where
  "url_ingestor ux = \<lparr>in_kind = KUrl, in_ingest = url_ingest ux\<rparr>"

end
