(* ===== verification/FeedIngest.thy ===== *)
theory FeedIngest
  imports UrlIngest
begin

text \<open>
  Feeds (\<open>ingest/src/feed_ingestor.rs\<close>): the feed document, its entries, and the two modes of
  indexing it. The feed parser (\<open>feed_rs\<close>), the HTML and plain-text extractors and the rendering of
  instants are parameters; instants are seconds.
\<close>

section \<open>The feed document\<close>

record feed_person =
  fp_name :: string
  fp_email :: "string option"

record feed_link =
  fl_href :: string
  fl_rel :: "string option"

record feed_text =
  ft_content_type :: string
  ft_content :: string

record feed_content =
  fc_content_type :: string
  fc_body :: "string option"

record feed_entry =
  fe_id :: string
  fe_title :: "feed_text option"
  fe_authors :: "feed_person list"
  fe_links :: "feed_link list"
  fe_published :: "int option"
  fe_updated :: "int option"
  fe_content :: "feed_content option"
  fe_summary :: "feed_text option"

record feed =
  fd_title :: "feed_text option"
  fd_description :: "feed_text option"
  fd_authors :: "feed_person list"
  fd_updated :: "int option"
  fd_entries :: "feed_entry list"

text \<open>\<open>xx_parse_feed\<close> is given the effective URL, the configured one (for ids) and the bytes.\<close>

record feed_ext =
  xx_feed_fetch :: url_fetcher
  xx_entry_fetch :: url_fetcher
  xx_parse_uri :: "string \<Rightarrow> string option"
  xx_scheme :: "string \<Rightarrow> string"
  xx_parse_feed :: "string \<Rightarrow> string \<Rightarrow> string \<Rightarrow> string + (string + feed)"
  xx_extract_html :: "string \<Rightarrow> (string \<times> string option) option"
  xx_extract_plaintext :: "string \<Rightarrow> (string \<times> string option) option"
  xx_rfc3339_secs :: "int \<Rightarrow> string"
  xx_rfc3339 :: "int \<Rightarrow> string"
  xx_content :: content_ext

section \<open>Entries\<close>

definition first_some :: "'a option \<Rightarrow> 'a option \<Rightarrow> 'a option" where
  "first_some a b = (case a of Some x \<Rightarrow> Some x | None \<Rightarrow> b)"

definition person_display :: "feed_person \<Rightarrow> string option" where
  "person_display p =
     (let name = trim (fp_name p)
      in if name \<noteq> [] \<and> name \<noteq> ''author'' then Some name
         else Option.bind (map_option trim (fp_email p)) (\<lambda>e. if e = [] then None else Some e))"

definition effective_authors :: "feed_entry \<Rightarrow> string list \<Rightarrow> string list" where
  "effective_authors entry feed_authors =
     (let own = List.map_filter person_display (fe_authors entry) in if own = [] then feed_authors else own)"

definition select_entry_link :: "feed_entry \<Rightarrow> feed_link option" where
  "select_entry_link entry = find (\<lambda>l. fl_rel l = None \<or> fl_rel l = Some ''alternate'') (fe_links entry)"

definition synthetic_entry_uri :: "feed_ext \<Rightarrow> string \<Rightarrow> string \<Rightarrow> string \<Rightarrow> string" where
  "synthetic_entry_uri xx feed_url feed_uri entry_id =
     (case xx_parse_uri xx (feed_url @ ''#entry:'' @ entry_id) of Some uri \<Rightarrow> uri | None \<Rightarrow> feed_uri)"

definition resolve_entry_target :: "feed_ext \<Rightarrow> string \<Rightarrow> string \<Rightarrow> feed_entry \<Rightarrow> string \<times> string \<times> bool" where
  "resolve_entry_target xx feed_url feed_uri entry =
     (let fallback = (feed_url @ ''#entry:'' @ fe_id entry, synthetic_entry_uri xx feed_url feed_uri (fe_id entry), False)
      in case select_entry_link entry of
           None \<Rightarrow> fallback
         | Some l \<Rightarrow> (case xx_parse_uri xx (fl_href l) of
                        None \<Rightarrow> fallback
                      | Some parsed \<Rightarrow> (fl_href l, parsed, xx_scheme xx parsed \<in> {''http'', ''https''})))"

text \<open>Newest first; an entry without a date comes last, and equal entries keep their order.\<close>

definition recency_key :: "feed_entry \<Rightarrow> int option" where
  "recency_key e = first_some (fe_published e) (fe_updated e)"

definition by_recency :: "feed_entry \<Rightarrow> feed_entry \<Rightarrow> ordering" where
  "by_recency a b =
     (case (recency_key a, recency_key b) of
        (Some x, Some y) \<Rightarrow> ord_cmp y x
      | (Some _, None) \<Rightarrow> Lt
      | (None, Some _) \<Rightarrow> Gt
      | (None, None) \<Rightarrow> Eq)"

text \<open>\<open>retain\<close> with the set of URIs seen: the first entry of each URI stays.\<close>

fun dedup_targets :: "('e \<Rightarrow> string \<times> string \<times> bool) \<Rightarrow> 'e list \<Rightarrow> string set \<Rightarrow> ('e \<times> string \<times> string \<times> bool) list" where
  "dedup_targets target [] seen = []"
| "dedup_targets target (e # es) seen =
     (let t = target e; uri = fst (snd t)
      in if uri \<in> seen then dedup_targets target es seen else (e, t) # dedup_targets target es (insert uri seen))"

definition select_entries :: "feed_ext \<Rightarrow> string \<Rightarrow> string \<Rightarrow> nat option \<Rightarrow> feed_entry list \<Rightarrow> (feed_entry \<times> string \<times> string \<times> bool) list" where
  "select_entries xx feed_url feed_uri max_entries entries =
     (let kept = dedup_targets (resolve_entry_target xx feed_url feed_uri) (sort_by by_recency entries) {}
      in case max_entries of Some n \<Rightarrow> take n kept | None \<Rightarrow> kept)"

section \<open>Content embedded in an entry\<close>

definition ends_with :: "string \<Rightarrow> string \<Rightarrow> bool" where
  "ends_with suffix s \<longleftrightarrow> length suffix \<le> length s \<and> drop (length s - length suffix) s = suffix"

definition route_text :: "feed_ext \<Rightarrow> string \<Rightarrow> string \<Rightarrow> (string \<times> string option) option" where
  "route_text xx content_type body =
     (let essence = map to_ascii_lower content_type
      in if essence \<in> {''text/html'', ''application/xhtml+xml''} then xx_extract_html xx body
         else if essence = ''text/plain'' then xx_extract_plaintext xx body
         else if essence \<in> {''text/xml'', ''application/xml''} \<or> ends_with ''+xml'' essence then xx_extract_plaintext xx body
         else None)"

definition routed :: "feed_ext \<Rightarrow> string \<Rightarrow> string option \<Rightarrow> (string \<times> string option \<times> string) option" where
  "routed xx content_type body =
     Option.bind body (\<lambda>b. Option.bind (route_text xx content_type b) (\<lambda>(md, title).
       if trim md = [] then None else Some (md, title, content_type)))"

definition entry_routed_content :: "feed_ext \<Rightarrow> feed_entry \<Rightarrow> (string \<times> string option \<times> string) option" where
  "entry_routed_content xx entry =
     first_some (Option.bind (fe_content entry) (\<lambda>c. routed xx (fc_content_type c) (fc_body c)))
       (Option.bind (fe_summary entry) (\<lambda>s. routed xx (ft_content_type s) (Some (ft_content s))))"

definition embedded_content_for_entry :: "feed_ext \<Rightarrow> feed_entry \<Rightarrow> (string \<times> string option \<times> string option) option" where
  "embedded_content_for_entry xx entry =
     (case entry_routed_content xx entry of
        Some (md, title, mime) \<Rightarrow> Some (md, title, Some mime)
      | None \<Rightarrow> Option.bind (fe_title entry) (\<lambda>t.
          let text = trim (ft_content t) in if text = [] then None else Some (text, None, None)))"

section \<open>One entry\<close>

definition ask_due ::
  "string \<Rightarrow> enrichment \<Rightarrow> string option \<Rightarrow> string option \<Rightarrow> (bool \<Rightarrow> 'a ingest_prog) \<Rightarrow> 'a ingest_prog" where
  "ask_due uri e external_id modified_at k =
     Call (RecheckIsDue uri e external_id modified_at) (\<lambda>r. case r of DueReply due \<Rightarrow> k due | _ \<Rightarrow> k True)"

definition no_usable_content :: string where
  "no_usable_content = ''feed entry: no usable content (no fetchable link, no content, no summary, no title)''"

definition entry_enrichment :: "feed_ext \<Rightarrow> string \<Rightarrow> string list \<Rightarrow> feed_entry \<Rightarrow> resource_enrichment" where
  "entry_enrichment xx feed_url feed_authors entry =
     \<lparr>ue_external_id = Some (fe_id entry), ue_title_fallback = map_option ft_content (fe_title entry),
      ue_creator = effective_authors entry feed_authors,
      ue_date = map_option (xx_rfc3339_secs xx) (first_some (fe_published entry) (fe_updated entry)),
      ue_modified_at_override = map_option (xx_rfc3339_secs xx) (first_some (fe_updated entry) (fe_published entry)),
      ue_provenance_source = Some feed_url, ue_date_source = Some FEED_ENTRY_DATE_SOURCE, ue_capture_conditional_get = True\<rparr>"

definition embedded_fallback ::
  "feed_ext \<Rightarrow> ingest_source \<Rightarrow> feed_entry \<Rightarrow> string \<Rightarrow> string \<Rightarrow> resource_enrichment \<Rightarrow> ingest_result \<Rightarrow> ingest_result ingest_prog" where
  "embedded_fallback xx source entry locator uri enrichment result =
     (case embedded_content_for_entry xx entry of
        Some (markdown, extracted_title, mime) \<Rightarrow>
          tell (OnResourceFallback (build_resource (xx_content xx) source KFeed uri locator markdown extracted_title default_dc mime
            enrichment)) (Finish (count_ig_produced result))
      | None \<Rightarrow> tell (OnSkipped uri (SkipError no_usable_content)) (Finish (count_ig_error result)))"

definition process_discovery_entry ::
  "feed_ext \<Rightarrow> string \<Rightarrow> string list \<Rightarrow> ingest_source \<Rightarrow> feed_entry \<times> string \<times> string \<times> bool \<Rightarrow> ingest_result \<Rightarrow> ingest_result ingest_prog" where
  "process_discovery_entry xx feed_url feed_authors source target result =
     (case target of (entry, locator, uri, fetchable) \<Rightarrow>
        let enrichment = entry_enrichment xx feed_url feed_authors entry
        in if \<not> fetchable then embedded_fallback xx source entry locator uri enrichment result
           else ask_due uri (metadata_enrichment enrichment) (ue_external_id enrichment) (ue_modified_at_override enrichment) (\<lambda>due.
             if \<not> due then tell (OnSkipped uri SkipFresh) (Finish (count_ig_skipped result))
             else bind_prog (process_url (xx_content xx) (xx_entry_fetch xx) locator uri source KFeed enrichment result)
               (\<lambda>(outcome, result).
                  if outcome \<in> {UrlGone, UrlUnsupported, UrlEmpty, UrlBlocked}
                  then embedded_fallback xx source entry locator uri enrichment result else Finish result)))"

definition no_content_on_revisit :: string where
  "no_content_on_revisit =
     ''due-entry recheck: no fetchable content on this revisit, and no embedded fallback exists on this path''"

definition process_due_recheck_entry ::
  "feed_ext \<Rightarrow> ingest_source \<Rightarrow> due_recheck_entry \<Rightarrow> ingest_result \<Rightarrow> ingest_result ingest_prog" where
  "process_due_recheck_entry xx source candidate result =
     (let claim = du_enrichment candidate;
          enrichment = \<lparr>ue_external_id = du_external_id candidate, ue_title_fallback = title_fallback claim, ue_creator = en_creator claim,
            ue_date = en_date claim, ue_modified_at_override = du_modified_at candidate,
            ue_provenance_source = provenance_source claim, ue_date_source = en_date_source claim, ue_capture_conditional_get = True\<rparr>
      in bind_prog (process_url (xx_content xx) (xx_entry_fetch xx) (du_locator candidate) (du_uri candidate) source KFeed enrichment result)
           (\<lambda>(outcome, result).
              if outcome \<in> {UrlUnsupported, UrlEmpty, UrlBlocked}
              then tell (OnSkipped (du_uri candidate) (SkipError no_content_on_revisit)) (Finish (count_ig_error result))
              else Finish result))"

section \<open>The feed as one document\<close>

definition nonblank :: "string \<Rightarrow> feed_text option \<Rightarrow> string" where
  "nonblank fallback t = (case t of None \<Rightarrow> fallback | Some t \<Rightarrow> if trim (ft_content t) = [] then fallback else ft_content t)"

definition feed_title_or_default :: "feed \<Rightarrow> string" where
  "feed_title_or_default fd = nonblank ''Untitled Feed'' (fd_title fd)"

definition NL2 :: string where "NL2 = [CHR 0x0A, CHR 0x0A]"
definition DASH :: string where "DASH = [CHR '' '', CHR 0xE2, CHR 0x80, CHR 0x94, CHR '' '']"

definition paragraph_of :: "string \<Rightarrow> string" where
  "paragraph_of text = (let body = trim text in if body = [] then [] else body @ NL2)"

definition byline_parts :: "feed_ext \<Rightarrow> string list \<Rightarrow> feed_entry \<Rightarrow> string list" where
  "byline_parts xx feed_authors entry =
     (let author_names = effective_authors entry feed_authors
      in (if author_names = [] then [] else [''By '' @ join '', '' author_names]) @
         (case first_some (fe_published entry) (fe_updated entry) of Some date \<Rightarrow> [xx_rfc3339 xx date] | None \<Rightarrow> []) @
         (case select_entry_link entry of Some l \<Rightarrow> [fl_href l] | None \<Rightarrow> []))"

definition entry_markdown :: "feed_ext \<Rightarrow> string list \<Rightarrow> feed_entry \<Rightarrow> string" where
  "entry_markdown xx feed_authors entry =
     ''## '' @ nonblank ''Untitled Entry'' (fe_title entry) @ NL2 @
     (let parts = byline_parts xx feed_authors entry in if parts = [] then [] else ''*'' @ join DASH parts @ ''*'' @ NL2) @
     (case entry_routed_content xx entry of None \<Rightarrow> [] | Some (body, _, _) \<Rightarrow> paragraph_of body)"

definition build_single_doc_markdown :: "feed_ext \<Rightarrow> feed \<Rightarrow> string \<Rightarrow> feed_entry list \<Rightarrow> string" where
  "build_single_doc_markdown xx fd feed_title_text entries =
     ''# '' @ feed_title_text @ NL2 @
     (case fd_description fd of
        None \<Rightarrow> []
      | Some desc \<Rightarrow> (case route_text xx (ft_content_type desc) (ft_content desc) of None \<Rightarrow> [] | Some (body, _) \<Rightarrow> paragraph_of body)) @
     concat (map (entry_markdown xx (List.map_filter person_display (fd_authors fd))) entries)"

section \<open>The ingestor of feeds\<close>

definition incomplete :: "string \<Rightarrow> ingest_result \<Rightarrow> ingest_result" where
  "incomplete reason result = result\<lparr>ig_enumeration := Incomplete reason\<rparr>"

definition feed_unread :: "string \<Rightarrow> string \<Rightarrow> string \<Rightarrow> ingest_result \<Rightarrow> (error + ingest_result) ingest_prog" where
  "feed_unread feed_uri msg reason result =
     tell (OnSkipped feed_uri (SkipError msg)) (Finish (Inr (incomplete reason (count_ig_error result))))"

definition single_document_resource ::
  "feed_ext \<Rightarrow> ingest_source \<Rightarrow> string \<Rightarrow> string \<Rightarrow> feed \<Rightarrow> feed_entry list \<Rightarrow> string option \<Rightarrow> string option \<Rightarrow> resource" where
  "single_document_resource xx source feed_url feed_uri fd entries etag last_modified =
     (let title = feed_title_or_default fd;
          enrichment = default_resource_enrichment
            \<lparr>ue_title_fallback := Some title,
             ue_modified_at_override := map_option (xx_rfc3339_secs xx)
               (first_some (fd_updated fd) (case entries of [] \<Rightarrow> None | e # _ \<Rightarrow> first_some (fe_published e) (fe_updated e))),
             ue_provenance_source := Some feed_url\<rparr>
      in (build_resource (xx_content xx) source KFeed feed_uri feed_url (build_single_doc_markdown xx fd title entries) None default_dc
            (Some ''text/markdown'') enrichment)\<lparr>rs_external_etag := etag, rs_external_last_modified := last_modified\<rparr>)"

definition ingest_feed_document ::
  "feed_ext \<Rightarrow> ingest_source \<Rightarrow> string \<Rightarrow> string \<Rightarrow> nat option \<Rightarrow> bool \<Rightarrow> string \<Rightarrow> string option \<Rightarrow> string option \<Rightarrow> string \<Rightarrow>
   ingest_result \<Rightarrow> (error + ingest_result) ingest_prog" where
  "ingest_feed_document xx source feed_url feed_uri max_entries fetch_full_content effective_feed_url etag last_modified bytes result =
     (case xx_parse_feed xx effective_feed_url feed_url bytes of
        Inl panic_msg \<Rightarrow>
          feed_unread feed_uri (''feed parser panicked: '' @ panic_msg) (''the feed document could not be parsed: '' @ panic_msg) result
      | Inr (Inl e) \<Rightarrow> feed_unread feed_uri (''feed parse error: '' @ e) (''the feed document could not be parsed: '' @ e) result
      | Inr (Inr fd) \<Rightarrow>
          (let feed_authors = List.map_filter person_display (fd_authors fd);
               targets = select_entries xx feed_url feed_uri max_entries (fd_entries fd)
           in if fetch_full_content
              then tell (OnDiscovered (length targets))
                (bind_prog (for_each (process_discovery_entry xx feed_url feed_authors source) targets result) (\<lambda>result. Finish (Inr result)))
              else tell (OnDiscovered 1) (tell (OnResource (single_document_resource xx source feed_url feed_uri fd (map fst targets)
                etag last_modified)) (Finish (Inr (count_ig_produced result))))))"

definition on_feed_not_modified ::
  "feed_ext \<Rightarrow> ingest_source \<Rightarrow> string \<Rightarrow> bool \<Rightarrow> string option \<Rightarrow> string option \<Rightarrow> ingest_result \<Rightarrow>
   (error + ingest_result) ingest_prog" where
  "on_feed_not_modified xx source feed_uri fetch_full_content etag last_modified result0 =
     (let result = (if etag \<noteq> None \<or> last_modified \<noteq> None
                    then result0\<lparr>ig_document_validators := Some
                      \<lparr>v_etag = first_some etag (v_etag (isrc_document_validators source)),
                       v_last_modified = first_some last_modified (v_last_modified (isrc_document_validators source))\<rparr>\<rparr>
                    else result0)
      in if \<not> fetch_full_content then tell (OnSkipped feed_uri SkipUnchanged) (Finish (Inr (count_ig_skipped result)))
         else Call DueEntriesForSource (\<lambda>r.
           let due_entries = (case r of EntriesReply entries \<Rightarrow> entries | _ \<Rightarrow> [])
           in bind_prog (for_each (process_due_recheck_entry xx source) due_entries result) (\<lambda>result. Finish (Inr result))))"

definition feed_ingest :: "feed_ext \<Rightarrow> ingest_source \<Rightarrow> (error + ingest_result) ingest_prog" where
  "feed_ingest xx source =
     (let config = isrc_config source;
          max_entries = Option.bind (json_get ''max_entries'' config) as_u64;
          fetch_full_content = (case Option.bind (json_get ''fetch_full_content'' config) as_bool of Some b \<Rightarrow> b | None \<Rightarrow> True);
          missing = InvalidRequest (''FeedIngestor: missing required config field '' @ [CHR 0x27] @ ''url'' @ [CHR 0x27])
      in case Option.bind (json_get ''url'' config) as_str of
           None \<Rightarrow> Finish (Inl missing)
         | Some feed_url \<Rightarrow>
             if feed_url = [] then Finish (Inl missing)
             else case xx_parse_uri xx feed_url of
               None \<Rightarrow> Finish (Inl (Internal (''FeedIngestor: invalid URI '' @ [CHR 0x27] @ feed_url @ [CHR 0x27]) ''feed_ingestor_uri''))
             | Some feed_uri \<Rightarrow>
                 (let result = default_ingest_result
                  in case xx_feed_fetch xx feed_url (isrc_document_validators source) of
                       Inl e \<Rightarrow> feed_unread feed_uri (''feed fetch error: '' @ err_to_string e)
                         (''the feed document could not be fetched: '' @ err_to_string e) result
                     | Inr (Downloaded bytes content_type etag last_modified final_url) \<Rightarrow>
                         ingest_feed_document xx source feed_url feed_uri max_entries fetch_full_content
                           (case final_url of Some u \<Rightarrow> u | None \<Rightarrow> feed_url) etag last_modified bytes
                           (result\<lparr>ig_document_validators := Some \<lparr>v_etag = etag, v_last_modified = last_modified\<rparr>\<rparr>)
                     | Inr (NotModified etag last_modified) \<Rightarrow>
                         on_feed_not_modified xx source feed_uri fetch_full_content etag last_modified result
                     | Inr FetchGone \<Rightarrow>
                         Finish (Inr (incomplete ''the feed document answered 404/410, so this run read no window'' result))
                     | Inr Blocked \<Rightarrow> Finish (Inr (incomplete ''the feed destination was blocked by fetch policy'' result))))"

definition feed_ingestor :: "feed_ext \<Rightarrow> ingestor" where
  "feed_ingestor xx = \<lparr>in_kind = KFeed, in_ingest = feed_ingest xx\<rparr>"

end
