(* ===== verification/FeedWindow.thy ===== *)
theory FeedWindow
  imports FeedIngest
begin

text \<open>
  Which entries of a feed a run takes: sorted by recency, one per target URI, the newest, and no more
  than the configured number, the most recent ones.
\<close>

interpretation recency: comparator by_recency UNIV
  by unfold_locales (auto simp: by_recency_def ord_cmp_rev cmp_simps split: option.splits)

definition target_uri :: "(feed_entry \<Rightarrow> string \<times> string \<times> bool) \<Rightarrow> feed_entry \<Rightarrow> string" where
  "target_uri target e = fst (snd (target e))"

lemma recency_refl: "by_recency e e \<noteq> Gt"
  by (auto simp: by_recency_def cmp_simps split: option.splits)

lemma dedup_entries: "x \<in> set (dedup_targets target es seen) \<Longrightarrow> fst x \<in> set es \<and> snd x = target (fst x)"
  by (induction es arbitrary: seen) (auto simp: Let_def split: if_splits)

lemma dedup_sorted: "sorted_by c es \<Longrightarrow> sorted_by c (map fst (dedup_targets target es seen))"
  by (induction es arbitrary: seen) (auto simp: Let_def sorted_by_def dest: dedup_entries)

lemma dedup_uri_set: "(target_uri target \<circ> fst) ` set (dedup_targets target es seen) = target_uri target ` set es - seen"
proof (induction es arbitrary: seen)
  case (Cons e es)
  show ?case
  proof (cases "target_uri target e \<in> seen")
    case True
    then have "dedup_targets target (e # es) seen = dedup_targets target es seen" by (simp add: target_uri_def)
    with Cons.IH [of seen] True show ?thesis by auto
  next
    case False
    then have "dedup_targets target (e # es) seen =
        (e, target e) # dedup_targets target es (insert (target_uri target e) seen)" by (simp add: target_uri_def Let_def)
    with Cons.IH [of "insert (target_uri target e) seen"] False show ?thesis by auto
  qed
qed simp

lemma dedup_distinct: "distinct (map (target_uri target \<circ> fst) (dedup_targets target es seen))"
proof (induction es arbitrary: seen)
  case (Cons e es)
  then show ?case
    using dedup_uri_set [of target es "insert (target_uri target e) seen"] by (auto simp: Let_def target_uri_def image_iff) 
qed simp

text \<open>The entry kept for a URI is the first one, so in a sorted list the newest.\<close>

lemma dedup_newest:
  assumes "sorted_by by_recency es" "x \<in> set (dedup_targets target es seen)" "e \<in> set es"
    "target_uri target e = target_uri target (fst x)"
  shows "by_recency (fst x) e \<noteq> Gt"
  using assms
proof (induction es arbitrary: seen)
  case (Cons y es)
  have rest: "sorted_by by_recency es" "\<forall>z \<in> set es. by_recency y z \<noteq> Gt" using Cons.prems(1) by (auto simp: sorted_by_def)
  have later: "x \<in> set (dedup_targets target es seen') \<Longrightarrow> target_uri target (fst x) \<notin> seen'" for seen'
    using dedup_uri_set [of target es seen'] by (metis DiffE comp_apply image_eqI)
  show ?case
  proof (cases "target_uri target y \<in> seen")
    case True
    then have x: "x \<in> set (dedup_targets target es seen)" using Cons.prems(2) by (simp add: Let_def target_uri_def)
    with True later have "e \<noteq> y" using Cons.prems(4) by auto
    then show ?thesis using Cons.IH [OF rest(1) x] Cons.prems(3,4) by auto
  next
    case False
    then consider "fst x = y" | "x \<in> set (dedup_targets target es (insert (target_uri target y) seen))"
      using Cons.prems(2) by (auto simp: Let_def target_uri_def)
    then show ?thesis
    proof cases
      case 1
      then show ?thesis using Cons.prems(3) rest(2) recency_refl by auto
    next
      case 2
      then have "e \<noteq> y" using later Cons.prems(4) by fastforce
      then show ?thesis using Cons.IH [OF rest(1) 2] Cons.prems(3,4) by auto
    qed
  qed
qed simp

text \<open>
  The window of a feed: the entries a run takes have distinct URIs and are sorted newest first;
  each is the newest entry of its URI; there are at most the configured number, and an entry whose
  URI is not taken is left out only because the window is full of entries at least as recent.
\<close>

theorem feed_window:
  "let target = target_uri (resolve_entry_target xx feed_url feed_uri);
       kept = select_entries xx feed_url feed_uri max_entries entries
   in distinct (map (target \<circ> fst) kept) \<and> sorted_by by_recency (map fst kept) \<and>
      (\<forall>x \<in> set kept. fst x \<in> set entries \<and> snd x = resolve_entry_target xx feed_url feed_uri (fst x)) \<and>
      (\<forall>x \<in> set kept. \<forall>e \<in> set entries. target e = target (fst x) \<longrightarrow> by_recency (fst x) e \<noteq> Gt) \<and>
      (\<forall>n. max_entries = Some n \<longrightarrow> length kept \<le> n) \<and>
      (\<forall>e \<in> set entries. target e \<in> (target \<circ> fst) ` set kept \<or>
         max_entries = Some (length kept) \<and> (\<forall>x \<in> set kept. by_recency (fst x) e \<noteq> Gt))"
proof -
  define resolve where "resolve = resolve_entry_target xx feed_url feed_uri"
  define target where "target = target_uri resolve"
  define kept where "kept = select_entries xx feed_url feed_uri max_entries entries"
  define es where "es = sort_by by_recency entries"
  define al where "al = dedup_targets resolve es {}"
  have kept: "kept = (case max_entries of Some n \<Rightarrow> take n al | None \<Rightarrow> al)"
    by (simp add: kept_def select_entries_def al_def es_def resolve_def Let_def split: option.split)
  have es: "set es = set entries" "sorted_by by_recency es" by (simp_all add: es_def recency.sorted_sort_by)
  have sorted: "sorted_by by_recency (map fst al)" unfolding al_def by (rule dedup_sorted [OF es(2)])
  have uris: "(target \<circ> fst) ` set al = target ` set entries"
    using dedup_uri_set [of resolve es "{}"] by (simp add: al_def target_def es(1))
  have split: "al = kept @ (case max_entries of Some n \<Rightarrow> drop n al | None \<Rightarrow> [])" by (simp add: kept split: option.split)
  have sub: "set kept \<subseteq> set al" by (subst split) simp
  have newest: "by_recency (fst x) e \<noteq> Gt" if "x \<in> set al" "e \<in> set entries" "target e = target (fst x)" for x e
    using dedup_newest [OF es(2), of x resolve "{}" e] that by (simp add: al_def target_def es(1))
  have before: "by_recency (fst x) (fst y) \<noteq> Gt" if "x \<in> set kept" "y \<in> set al" "y \<notin> set kept" for x y
  proof -
    from split that(2,3) obtain rest where "al = kept @ rest" "y \<in> set rest" by (metis UnE set_append)
    with sorted that(1) show ?thesis by (auto simp: sorted_by_def sorted_wrt_append)
  qed
  have 1: "distinct (map (target \<circ> fst) kept)"
    using dedup_distinct [of resolve es "{}"] by (subst (asm) al_def [symmetric], subst (asm) split) (simp add: target_def)
  have 2: "sorted_by by_recency (map fst kept)"
    using sorted by (subst (asm) split) (simp add: sorted_by_def sorted_wrt_append)
  have 3: "\<forall>x \<in> set kept. fst x \<in> set entries \<and> snd x = resolve (fst x)"
    using sub dedup_entries [of _ resolve es "{}"] es(1) by (auto simp: al_def)
  have 4: "\<forall>x \<in> set kept. \<forall>e \<in> set entries. target e = target (fst x) \<longrightarrow> by_recency (fst x) e \<noteq> Gt"
    using newest sub by blast
  have 5: "\<forall>n. max_entries = Some n \<longrightarrow> length kept \<le> n" by (simp add: kept)
  have 6: "target e \<in> (target \<circ> fst) ` set kept \<or>
      max_entries = Some (length kept) \<and> (\<forall>x \<in> set kept. by_recency (fst x) e \<noteq> Gt)" if e: "e \<in> set entries" for e
  proof -
    from e uris obtain y where y: "y \<in> set al" "target e = target (fst y)" by (metis comp_apply image_iff)
    show ?thesis
    proof (cases "y \<in> set kept")
      case True
      with y(2) show ?thesis by auto
    next
      case False
      with y(1) obtain n where n: "max_entries = Some n" by (auto simp: kept split: option.splits)
      with False y(1) have "length al > n" by (intro ccontr [of "length al > n"]) (simp add: kept)
      with n have "length kept = n" by (simp add: kept)
      moreover have "by_recency (fst x) e \<noteq> Gt" if "x \<in> set kept" for x
        using recency.cmp_le_trans before [OF that y(1) False] newest [OF y(1) e y(2)] by blast
      ultimately show ?thesis using n(1) by simp
    qed
  qed
  from 1 2 3 4 5 6 show ?thesis
    unfolding Let_def kept_def [symmetric] resolve_def [symmetric] target_def [symmetric] by blast
qed

text \<open>An example: three entries, two of them at one link, and a window of one.\<close>

definition entry_at :: "string \<Rightarrow> int \<Rightarrow> feed_entry" where
  "entry_at link date = \<lparr>fe_id = ''e'', fe_title = None, fe_authors = [], fe_links = [\<lparr>fl_href = link, fl_rel = None\<rparr>],
     fe_published = Some date, fe_updated = None, fe_content = None, fe_summary = None\<rparr>"

definition demo_content :: content_ext where
  "demo_content = \<lparr>ce_hash = id, ce_parse = (\<lambda>p. Inr (Inr None)), ce_markdown_to_blocks = (\<lambda>md pages. []),
     ce_sniff_mime = (\<lambda>bytes filename. None), ce_to_lowercase = id, ce_from_timestamp = (\<lambda>n. None), ce_now = ''2026''\<rparr>"

definition demo_feed_ext :: feed_ext where
  "demo_feed_ext = \<lparr>xx_feed_fetch = (\<lambda>u v. Inr (NotModified None None)), xx_entry_fetch = (\<lambda>u v. Inr FetchGone), xx_parse_uri = Some,
     xx_scheme = takeWhile (\<lambda>c. c \<noteq> CHR '':''), xx_parse_feed = (\<lambda>eff url bytes. Inr (Inl ''empty'')),
     xx_extract_html = (\<lambda>s. None), xx_extract_plaintext = (\<lambda>s. Some (s, None)), xx_rfc3339_secs = (\<lambda>n. []), xx_rfc3339 = (\<lambda>n. []),
     xx_content = demo_content\<rparr>"

lemma feed_window_witness:
  "select_entries demo_feed_ext ''f'' ''f'' (Some 1) [entry_at ''b:'' 1, entry_at ''a:'' 2, entry_at ''a:'' 3] =
     [(entry_at ''a:'' 3, ''a:'', ''a:'', False)] \<and> by_recency (entry_at ''a:'' 3) (entry_at ''a:'' 2) \<noteq> Gt"
proof -
  have "select_entries demo_feed_ext ''f'' ''f'' (Some 1) [entry_at ''b:'' 1, entry_at ''a:'' 2, entry_at ''a:'' 3] =
      [(entry_at ''a:'' 3, ''a:'', ''a:'', False)]"
    by (simp add: select_entries_def resolve_entry_target_def select_entry_link_def demo_feed_ext_def entry_at_def by_recency_def
        recency_key_def first_some_def sort_by_def ord_cmp_def Let_def)
  with feed_window [of demo_feed_ext "''f''" "''f''" "Some 1" "[entry_at ''b:'' 1, entry_at ''a:'' 2, entry_at ''a:'' 3]"]
  show ?thesis by (simp add: Let_def target_uri_def resolve_entry_target_def select_entry_link_def demo_feed_ext_def entry_at_def)
qed

end
