(* ===== verification/Incremental.thy ===== *)
theory Incremental
  imports RunRemoval
begin

text \<open>
  Incremental runs: a document that was just written is skipped when it comes again unchanged, and the
  recheck gate of a feed entry is closed only when a metadata refresh would write nothing.
\<close>

definition up_to_date :: "('s, 'i) run_env \<Rightarrow> resource \<Rightarrow> 's pipeline \<Rightarrow> bool" where
  "up_to_date env res st =
     (case index_get (pc_index st) (rs_uri res) of
        None \<Rightarrow> False
      | Some rec \<Rightarrow>
          dr_content_hash rec = rs_content_hash res \<and> dr_policy_version rec = ic_policy_version (re_config env) \<and>
          dr_metadata_hash rec = ds_metadata_hash (derive_resource_state (re_ext env) res) \<and>
          dr_external_last_modified rec = rs_external_last_modified res)"

lemma up_to_date_skips:
  assumes "up_to_date env res st"
  shows "on_resource_impl env res origin st =
    emit (DocumentFinished (rs_uri res) Skipped)
      (touch_if_fetched env (rs_uri res) (dr_resource_id (the (index_get (pc_index st) (rs_uri res)))) origin
        (tally count_skipped (observe (rs_uri res) st)))"
  using assms
  by (auto simp: up_to_date_def on_resource_impl_def on_unchanged_content_def Let_def bookkeeping split: option.splits)

lemma touch_up_to_date:
  assumes "\<forall>rec. index_get (pc_index st) (rs_uri res) = Some rec \<longrightarrow> dr_uri rec = rs_uri res"
  shows "up_to_date env res (touch_if_fetched env (rs_uri res) rid origin st) = up_to_date env res st"
  using assms
  by (auto simp: up_to_date_def touch_if_fetched_def touch_checked_def index_get_def index_upsert_def map_of_update_key
      split: prod.split sum.split option.split)

lemma up_to_date_bookkeeping [simp]:
  "up_to_date env res (emit e st) = up_to_date env res st" "up_to_date env res (tally f st) = up_to_date env res st"
  by (simp_all add: up_to_date_def bookkeeping)

lemma written_hash:
  "index_resource ext ops config res source replaces s = (s', Inr (Written n h)) \<Longrightarrow> h = ds_metadata_hash (derive_resource_state ext res)"
  by (auto simp: index_resource_def Let_def split: sum.splits option.splits prod.splits)

definition last_event :: "'s pipeline \<Rightarrow> progress_event option" where
  "last_event st = (if pc_events st = [] then None else Some (last (pc_events st)))"

lemma last_event_emit [simp]: "last_event (emit e st) = Some e"
  by (simp add: last_event_def emit_def)

lemma upsert_up_to_date:
  assumes "pc_index st = index_upsert rec idx" "dr_uri rec = rs_uri res" "dr_content_hash rec = rs_content_hash res" "dr_policy_version rec = ic_policy_version (re_config env)"
    "dr_metadata_hash rec = ds_metadata_hash (derive_resource_state (re_ext env) res)"
    "dr_external_last_modified rec = rs_external_last_modified res"
  shows "up_to_date env res (touch_if_fetched env (rs_uri res) rid origin (tally f st))"
  using assms by (subst touch_up_to_date) (simp_all add: up_to_date_def index_get_upsert)

lemma changed_up_to_date:
  assumes "last_event (on_changed_content env res origin st) = Some (DocumentFinished (rs_uri res) (Indexed n))"
  shows "up_to_date env res (on_changed_content env res origin st)"
  using assms
  by (auto simp: on_changed_content_def Let_def split: prod.splits sum.splits index_outcome.splits
      intro!: upsert_up_to_date dest: written_hash)

lemma unchanged_up_to_date:
  assumes "last_event (on_unchanged_content env res origin existing st) \<noteq> Some (DocumentFinished (rs_uri res) OutcomeError)"
    "index_get (pc_index st) (rs_uri res) = Some existing" "dr_uri existing = rs_uri res"
    "dr_content_hash existing = rs_content_hash res" "dr_policy_version existing = ic_policy_version (re_config env)"
  shows "up_to_date env res (on_unchanged_content env res origin existing st)"
proof (cases "dr_metadata_hash existing = ds_metadata_hash (derive_resource_state (re_ext env) res) \<and>
    dr_external_last_modified existing = rs_external_last_modified res")
  case True
  with assms have "up_to_date env res (tally count_skipped st)" by (simp add: up_to_date_def)
  with True assms show ?thesis by (simp add: on_unchanged_content_def Let_def touch_up_to_date)
next
  case False
  with assms show ?thesis
    by (auto simp: on_unchanged_content_def Let_def split: prod.splits sum.splits
        intro!: upsert_up_to_date [where idx = "pc_index st"])
qed

lemma accepted_up_to_date:
  assumes "last_event (on_resource_impl env res origin st) \<in>
      {Some (DocumentFinished (rs_uri res) (Indexed n)), Some (DocumentFinished (rs_uri res) MetadataUpdated)}"
    "\<forall>rec. index_get (pc_index st) (rs_uri res) = Some rec \<longrightarrow> dr_uri rec = rs_uri res"
  shows "up_to_date env res (on_resource_impl env res origin st)"
proof -
  let ?st = "observe (rs_uri res) st"
  have never: "last_event (on_changed_content env res origin ?st) \<noteq> Some (DocumentFinished (rs_uri res) MetadataUpdated)"
    by (auto simp: on_changed_content_def Let_def split: prod.splits sum.splits index_outcome.splits)
  show ?thesis
  proof (cases "index_get (pc_index st) (rs_uri res)")
    case None
    then show ?thesis using assms(1) changed_up_to_date never by (auto simp: on_resource_impl_def Let_def)
  next
    case (Some existing)
    then have "dr_uri existing = rs_uri res" using assms(2) by simp
    with Some show ?thesis using assms(1) changed_up_to_date never unchanged_up_to_date [of env res origin existing ?st]
      by (auto simp: on_resource_impl_def Let_def split: if_splits)
  qed
qed


definition demo_resource :: resource where
  "demo_resource = \<lparr>rs_id = ''a'', rs_store_id = ''s'', rs_source_id = ''src'', rs_ingestor_kind = KFile,
     rs_resource_kind = DocumentResource, rs_uri = ''file:///a'', rs_external_id = Some ''x'', rs_external_etag = None,
     rs_external_last_modified = None, rs_content_hash = ''h'', rs_title = None, rs_mime = None, rs_metadata = default_metadata,
     rs_added_at = [], rs_modified_at = None, rs_thread_id = None, rs_channel = None, rs_participants = [], rs_origin_store = ''s'',
     rs_policy_version = ''p'', rs_share_path = None, rs_extractor_version = [], rs_blocks = []\<rparr>"

lemma demo_hash:
  "ds_metadata_hash (derive_resource_state demo_ext demo_resource) = [CHR 0x00, CHR 0x01, CHR ''x'', CHR 0x00, CHR 0x00]"
  by (simp add: derive_resource_state_def demo_resource_def demo_ext_def compute_metadata_hash_def content_hash_of_def
      whole_ext_def encode_optional_field_def Let_def)


section \<open>The recheck gate\<close>

text \<open>What is merged does not depend on what the read is for.\<close>

lemma merge_what:
  "merge_metadata_claim env existing e x m what st = Inr merged \<Longrightarrow> merge_metadata_claim env existing e x m what' st = Inr merged"
  by (auto simp: merge_metadata_claim_def read_persisted_record_def and_then_eq_Inr split: sum.splits option.splits)

text \<open>
  The recheck gate agrees with the refresh it stands for: when the gate says that a feed entry is
  not due, applying the entry's claim would write nothing, and the entry is known, was indexed under
  the current policy and was checked within the floor.
\<close>

theorem closed_gate_has_nothing_to_write:
  assumes "\<not> recheck_is_due env uri enrichment external_id modified_at st"
  shows "on_metadata_refreshed env uri enrichment external_id modified_at st = (st, WriteUnchanged) \<and>
    \<not> re_refetch env \<and>
    (\<exists>existing checked_at. index_get (pc_index st) uri = Some existing \<and> dr_policy_version existing = ic_policy_version (re_config env) \<and>
      dr_last_checked_at existing = Some checked_at \<and>
      recheck_floor_start_rfc3339 (re_clock env) (cp_now (re_clock env)) (refresh_interval (re_source env)) \<le> checked_at)"
proof -
  obtain existing where existing: "index_get (pc_index st) uri = Some existing"
    using assms by (auto simp: recheck_is_due_def split: option.splits)
  then obtain checked_at merged where c: "dr_policy_version existing = ic_policy_version (re_config env)" "\<not> re_refetch env"
      "dr_last_checked_at existing = Some checked_at"
      "\<not> checked_at < recheck_floor_start_rfc3339 (re_clock env) (cp_now (re_clock env)) (refresh_interval (re_source env))"
      "merge_metadata_claim env existing enrichment external_id modified_at RECHECK_CLAIM st = Inr merged"
      "mm_metadata_hash merged = dr_metadata_hash existing"
    using assms by (auto simp: recheck_is_due_def split: if_splits option.splits sum.splits)
  have "on_metadata_refreshed env uri enrichment external_id modified_at st = (st, WriteUnchanged)"
    using existing merge_what [OF c(5), of CONNECTOR_METADATA] c(6) by (simp add: on_metadata_refreshed_def)
  with existing c(1-4) show ?thesis by (auto simp: not_less)
qed

definition demo_claim :: enrichment where
  "demo_claim = \<lparr>title_fallback = None, en_creator = [], en_date = None, en_date_source = None, provenance_source = None\<rparr>"

lemma closed_gate_has_nothing_to_write_witness:
  "let doc = (demo_doc ''a'')\<lparr>dr_metadata_hash := [CHR 0x00, CHR 0x00, CHR 0x00], dr_last_checked_at := Some ''2026''\<rparr>;
       st = pipeline_start demo_store (index_from_records [doc])
   in on_metadata_refreshed (demo_env Retain) ''file:///a'' demo_claim None None st = (st, WriteUnchanged)"
proof -
  let ?doc = "(demo_doc ''a'')\<lparr>dr_metadata_hash := [CHR 0x00, CHR 0x00, CHR 0x00], dr_last_checked_at := Some ''2026''\<rparr>"
  have "\<not> recheck_is_due (demo_env Retain) ''file:///a'' demo_claim None None (pipeline_start demo_store (index_from_records [?doc]))"
    by (simp add: recheck_is_due_def recheck_floor_start_rfc3339_def merge_metadata_claim_def read_persisted_record_def
        pipeline_start_def index_from_records_def index_get_def demo_doc_def demo_env_def demo_ext_def fake_ops_def
        fake_get_resource_record_def demo_store_def owns_def compute_metadata_hash_def content_hash_of_def whole_ext_def
        encode_optional_field_def Let_def)
  from closed_gate_has_nothing_to_write [OF this] show ?thesis by (simp add: Let_def)
qed

end
