(* ===== verification/RunCounts.thy ===== *)
theory RunCounts
  imports SourceRun
begin

text \<open>
  What a run reports. Its counters are the counts of its progress events, every document started is
  finished, and the liveness sweep stays within its budget. A document that did not change is not
  written again, and the recheck gate and the metadata refresh agree on what changed.
\<close>

section \<open>The counters are the events\<close>

fun is_started :: "progress_event \<Rightarrow> bool" where
  "is_started (DocumentStarted uri i n) = True"
| "is_started _ = False"

fun finished_as :: "(doc_outcome \<Rightarrow> bool) \<Rightarrow> progress_event \<Rightarrow> bool" where
  "finished_as P (DocumentFinished uri outcome) = P outcome"
| "finished_as P _ = False"

fun is_indexed :: "doc_outcome \<Rightarrow> bool" where
  "is_indexed (Indexed n) = True"
| "is_indexed _ = False"

fun chunks_of :: "progress_event \<Rightarrow> nat" where
  "chunks_of (DocumentFinished uri (Indexed n)) = n"
| "chunks_of _ = 0"

definition how_many :: "('a \<Rightarrow> bool) \<Rightarrow> 'a list \<Rightarrow> nat" where
  "how_many P xs = length (filter P xs)"

definition tallied :: "ingestion_result \<Rightarrow> progress_event list \<Rightarrow> bool" where
  "tallied r es \<longleftrightarrow>
     r_docs_seen r = of_nat (how_many is_started es) \<and>
     r_docs_indexed r = of_nat (how_many (finished_as is_indexed) es) \<and>
     r_docs_skipped r = of_nat (how_many (finished_as (\<lambda>outcome. outcome = Skipped)) es) \<and>
     r_docs_metadata_updated r = of_nat (how_many (finished_as (\<lambda>outcome. outcome = MetadataUpdated)) es) \<and>
     r_unsupported_format_count r = of_nat (how_many (finished_as (\<lambda>outcome. outcome = Unsupported)) es) \<and>
     r_error_count r = of_nat (how_many (finished_as (\<lambda>outcome. outcome = OutcomeError)) es) \<and>
     r_chunks_written r = of_nat (sum_list (map chunks_of es)) \<and>
     how_many is_started es = how_many (finished_as (\<lambda>_. True)) es"

lemma how_many_simps [simp]:
  "how_many P [] = 0" "how_many P (x # xs) = (if P x then 1 else 0) + how_many P xs"
  "how_many P (xs @ ys) = how_many P xs + how_many P ys"
  by (simp_all add: how_many_def)

lemma finished_partition:
  "how_many (finished_as (\<lambda>_. True)) es = how_many (finished_as is_indexed) es + how_many (finished_as (\<lambda>outcome. outcome = Skipped)) es +
     how_many (finished_as (\<lambda>outcome. outcome = MetadataUpdated)) es +
     how_many (finished_as (\<lambda>outcome. outcome = Unsupported)) es + how_many (finished_as (\<lambda>outcome. outcome = OutcomeError)) es"
proof (induction es)
  case (Cons e es)
  have "finished_as (\<lambda>_. True) e \<Longrightarrow> \<exists>uri outcome. e = DocumentFinished uri outcome" by (cases e) auto
  moreover have "\<not> is_indexed outcome \<Longrightarrow> outcome \<in> {Skipped, MetadataUpdated, Unsupported, OutcomeError}" for outcome
    by (cases outcome) auto
  ultimately show ?case using Cons by (cases e) auto
qed simp

definition counted :: "'s pipeline \<Rightarrow> bool" where
  "counted st \<longleftrightarrow> tallied (pc_result st) (pc_events st)"

text \<open>What the rest of the state does not change.\<close>

lemma touch_same:
  "pc_result (touch_checked env uri rid st) = pc_result st" "pc_events (touch_checked env uri rid st) = pc_events st"
  "pc_seen (touch_checked env uri rid st) = pc_seen st" "pc_gone (touch_checked env uri rid st) = pc_gone st"
  by (simp_all add: touch_checked_def split: prod.split sum.split option.split)

lemma touches_same [simp]:
  "pc_result (touch_if_fetched env uri rid origin st) = pc_result st"
  "pc_events (touch_if_fetched env uri rid origin st) = pc_events st"
  "pc_result (touch_known env uri st) = pc_result st" "pc_events (touch_known env uri st) = pc_events st"
  by (simp_all add: touch_if_fetched_def touch_known_def touch_same split: option.split)

lemmas counter_defs = emit_def tally_def start_document_def observe_def count_skipped_def count_error_def count_metadata_updated_def
  count_indexed_def

lemma on_resource_counted: "counted st \<Longrightarrow> counted (on_resource_impl env res origin st)"
  by (auto simp: counted_def tallied_def on_resource_impl_def on_unchanged_content_def on_changed_content_def Let_def counter_defs
      split: option.split prod.split sum.split index_outcome.split)

lemma on_skipped_counted: "counted st \<Longrightarrow> counted (on_skipped env uri reason st)"
  by (auto simp: counted_def tallied_def on_skipped_def Let_def counter_defs split: skip_reason.split)

lemma refreshed_same:
  "pc_result (fst (on_validators_refreshed env uri meta st)) = pc_result st"
  "pc_events (fst (on_validators_refreshed env uri meta st)) = pc_events st"
  "pc_result (fst (on_metadata_refreshed env uri e x m st)) = pc_result st"
  "pc_events (fst (on_metadata_refreshed env uri e x m st)) = pc_events st"
  by (simp_all add: on_validators_refreshed_def on_metadata_refreshed_def persist_metadata_write_def Let_def
      split: option.split sum.split prod.split)

lemma on_call_counted:
  assumes "counted st"
  shows "counted (fst (on_call env c st))"
proof (cases c)
  case (OnDiscovered n)
  with assms show ?thesis by (simp add: counted_def tallied_def on_discovered_def emit_def)
next
  case (OnGone uri)
  with assms show ?thesis by (simp add: counted_def on_gone_def)
next
  case (OnValidatorsRefreshed uri meta)
  with assms show ?thesis by (simp add: counted_def with_reply_def refreshed_same)
next
  case (OnMetadataRefreshed uri e x m)
  with assms show ?thesis by (simp add: counted_def with_reply_def refreshed_same)
qed (use assms in \<open>simp_all add: on_resource_counted on_skipped_counted\<close>)

lemma drive_counted: "counted st \<Longrightarrow> counted (fst (drive env p st))"
proof (induction p arbitrary: st)
  case (Call c k)
  obtain st' r where "on_call env c st = (st', r)" by (metis prod.exhaust)
  with Call on_call_counted [OF Call.prems, of env c] show ?case by auto
qed simp

section \<open>After the ingestor\<close>

lemma run_each_keeps: "(\<And>x st. P st \<Longrightarrow> P (fst (f x st))) \<Longrightarrow> P st \<Longrightarrow> P (fst (run_each f xs st))"
proof (induction xs arbitrary: st)
  case (Cons x xs)
  obtain st' r where f: "f x st = (st', r)" by (metis prod.exhaust)
  with Cons.prems(1) [OF Cons.prems(2), of x] have "P st'" by simp
  with Cons f show ?case by (auto split: sum.split)
qed simp

lemma delete_counted: "counted st \<Longrightarrow> counted (fst (delete_document env rid st))"
  by (auto simp: delete_document_def counted_def tallied_def tally_def Let_def split: prod.split sum.split)

lemma prune_counted: "counted st \<Longrightarrow> counted (fst (prune_or_count env uri st))"
  by (auto simp: prune_or_count_def intro!: delete_counted split: prod.split option.split)
    (simp_all add: counted_def tallied_def tally_def)

lemma remove_gone_counted: "counted st \<Longrightarrow> counted (fst (remove_confirmed_gone env uri st))"
  by (simp add: remove_confirmed_gone_def prune_counted)

lemma probe_counted: "counted st \<Longrightarrow> counted (fst (probe_liveness_candidate env c st))"
  by (auto simp: probe_liveness_candidate_def touch_liveness_def Let_def intro!: delete_counted split: sum.split fetch_result.split)
    (simp_all add: counted_def tallied_def tally_def)

lemma sweep_counted:
  assumes "counted st"
  shows "counted (fst (sweep env enumeration st))"
proof -
  have "counted (fst (run_each (\<lambda>uri st'. if uri \<in> pc_seen st \<or> uri \<in> set (pc_gone st) then (st', Inr ()) else prune_or_count env uri st')
      (owned_uris env st) st))"
    by (rule run_each_keeps [where P = counted, OF _ assms]) (simp add: prune_counted)
  moreover have "counted (fst (run_each (probe_liveness_candidate env) cs st))" for cs
    by (rule run_each_keeps [where P = counted, OF _ assms]) (rule probe_counted)
  ultimately show ?thesis using assms
    by (auto simp: sweep_def run_feed_liveness_sweep_def Let_def split: option.split sweep_suppression.split sum.split)
qed

lemma run_then_keeps: "P (fst r) \<Longrightarrow> (\<And>a st. P st \<Longrightarrow> P (fst (f a st))) \<Longrightarrow> P (fst (run_then r f))"
  by (auto simp: run_then_def split: prod.split sum.split)

lemma after_ingest_counted:
  assumes "counted st"
  shows "counted (fst (after_ingest env ing st))"
proof -
  define st1 where "st1 = tally (\<lambda>r. r\<lparr>r_document_validators := ig_document_validators ing,
    r_document_inputs_digest := feed_inputs_digest env\<rparr>) st"
  have "counted st1" using assms by (simp add: st1_def counted_def tallied_def tally_def)
  then have gone: "counted (fst (run_each (remove_confirmed_gone env) (re_hash_order env (pc_gone st1)) st1))"
    by (rule run_each_keeps [where P = counted, rotated]) (rule remove_gone_counted)
  have e: "counted (emit (SourceFinished r) st)" if "counted st" for r st
    using that by (simp add: counted_def tallied_def emit_def)
  show ?thesis unfolding after_ingest_def Let_def st1_def [symmetric]
    by (rule run_then_keeps [where P = counted, OF gone], rule run_then_keeps [where P = counted, OF sweep_counted])
      (simp_all add: e)
qed

lemma run_counted: "counted (fst (run_source_ingestion env ingestor s idx))"
proof -
  have "counted (emit (SourceStarted i l) (pipeline_start s idx))" for i l
    by (simp add: counted_def tallied_def emit_def pipeline_start_def default_result_def)
  moreover have "counted (pipeline_start s idx)"
    by (simp add: counted_def tallied_def pipeline_start_def default_result_def)
  ultimately show ?thesis
    unfolding run_source_ingestion_def Let_def
    by (cases "re_spec_json env (src_spec (re_source env))")
      (simp_all add: run_then_keeps [where P = counted] drive_counted after_ingest_counted)
qed

text \<open>
  C11: The report of a run is true, whatever the ingestor, the store and the origin do: each counter
  is the number of progress events of its kind (modulo \<open>2^64\<close>), every document that was started was
  finished, and the documents seen are those indexed, skipped, updated, unsupported and failed.
\<close>

theorem run_counters_match_events:
  "let st = fst (run_source_ingestion env ingestor s idx); r = pc_result st
   in tallied r (pc_events st) \<and>
      r_docs_seen r = r_docs_indexed r + r_docs_skipped r + r_docs_metadata_updated r + r_unsupported_format_count r + r_error_count r"
proof -
  define st where "st = fst (run_source_ingestion env ingestor s idx)"
  have "counted st" using run_counted by (simp add: st_def)
  then have "tallied (pc_result st) (pc_events st)" by (simp add: counted_def)
  moreover from this have "r_docs_seen (pc_result st) = r_docs_indexed (pc_result st) + r_docs_skipped (pc_result st) +
      r_docs_metadata_updated (pc_result st) + r_unsupported_format_count (pc_result st) + r_error_count (pc_result st)"
    using finished_partition [of "pc_events st"] by (simp add: tallied_def)
  ultimately show ?thesis by (simp add: Let_def flip: st_def)
qed

section \<open>The budget of the liveness sweep\<close>

definition checked :: "'s pipeline \<Rightarrow> u64" where
  "checked st = r_feed_entries_liveness_checked (pc_result st)"

lemma on_call_checked: "checked (fst (on_call env c st)) = checked st"
proof (cases c)
  case (OnResource res)
  then show ?thesis by (auto simp: checked_def on_resource_impl_def on_unchanged_content_def on_changed_content_def Let_def counter_defs
      split: option.split prod.split sum.split index_outcome.split)
next
  case (OnResourceFallback res)
  then show ?thesis by (auto simp: checked_def on_resource_impl_def on_unchanged_content_def on_changed_content_def Let_def counter_defs
      split: option.split prod.split sum.split index_outcome.split)
next
  case (OnSkipped uri reason)
  then show ?thesis by (auto simp: checked_def on_skipped_def Let_def counter_defs split: skip_reason.split)
next
  case (OnValidatorsRefreshed uri meta)
  then show ?thesis by (simp add: checked_def with_reply_def refreshed_same)
next
  case (OnMetadataRefreshed uri e x m)
  then show ?thesis by (simp add: checked_def with_reply_def refreshed_same)
qed (simp_all add: checked_def on_discovered_def on_gone_def emit_def)

lemma drive_checked: "checked (fst (drive env p st)) = checked st"
proof (induction p arbitrary: st)
  case (Call c k)
  obtain st' r where "on_call env c st = (st', r)" by (metis prod.exhaust)
  with Call on_call_checked [of env c st] show ?case by auto
qed simp

lemma delete_checked: "checked (fst (delete_document env rid st)) = checked st"
  by (simp add: delete_document_def checked_def tally_def Let_def split: prod.split sum.split)

lemma prune_checked: "checked (fst (prune_or_count env uri st)) = checked st"
  by (auto simp: prune_or_count_def delete_checked split: prod.split option.split) (simp_all add: checked_def tally_def)

lemma probe_checked: "checked (fst (probe_liveness_candidate env c st)) = checked st + 1"
  by (auto simp: probe_liveness_candidate_def touch_liveness_def Let_def delete_checked split: sum.split fetch_result.split)
    (simp_all add: checked_def tally_def)

lemma run_each_checked:
  assumes "\<And>x st. checked (fst (f x st)) = checked st + 1"
  shows "unat (checked (fst (run_each f xs st))) \<le> unat (checked st) + length xs"
proof (induction xs arbitrary: st)
  case (Cons x xs)
  obtain st' r where f: "f x st = (st', r)" by (metis prod.exhaust)
  have "checked st' = checked st + 1" using assms [of x st] f by simp
  then have "unat (checked st') \<le> unat (checked st) + 1" by (metis unat_1 unat_plus_simple unat_word_ariths(1) mod_less_eq_dividend)
  then show ?case using f Cons.IH [of st'] by (auto split: sum.split)
qed simp

definition probe_budget :: "('s, 'i) run_env \<Rightarrow> nat" where
  "probe_budget env = (if re_deletion env = Prune \<and> is_feed (re_source env) then FEED_LIVENESS_BATCH_LIMIT else 0)"

lemma sweep_checked:
  assumes "checked st = 0"
  shows "unat (checked (fst (sweep env enumeration st))) \<le> probe_budget env"
proof -
  have presumed: "checked (fst (run_each (\<lambda>uri st'. if uri \<in> pc_seen st \<or> uri \<in> set (pc_gone st) then (st', Inr ()) else prune_or_count env uri st')
      (owned_uris env st) st)) = 0"
    by (rule run_each_keeps [where P = "\<lambda>st. checked st = 0", OF _ assms]) (simp add: prune_checked)
  have feed: "unat (checked (fst (run_feed_liveness_sweep env st))) \<le> FEED_LIVENESS_BATCH_LIMIT"
  proof -
    have "unat (checked (fst (run_each (probe_liveness_candidate env) (take FEED_LIVENESS_BATCH_LIMIT cs) st))) \<le> FEED_LIVENESS_BATCH_LIMIT" for cs
      using run_each_checked [of "probe_liveness_candidate env" "take FEED_LIVENESS_BATCH_LIMIT cs" st] assms
      by (simp add: probe_checked)
    then show ?thesis using assms by (simp add: run_feed_liveness_sweep_def Let_def split: sum.split)
  qed
  show ?thesis using presumed feed assms
    by (auto simp: sweep_def probe_budget_def Let_def split: option.split sweep_suppression.split)
qed

lemma after_ingest_checked:
  assumes "checked st = 0"
  shows "unat (checked (fst (after_ingest env ing st))) \<le> probe_budget env"
proof -
  define st1 where "st1 = tally (\<lambda>r. r\<lparr>r_document_validators := ig_document_validators ing,
    r_document_inputs_digest := feed_inputs_digest env\<rparr>) st"
  have "checked st1 = 0" using assms by (simp add: st1_def checked_def tally_def)
  then have "checked (fst (run_each (remove_confirmed_gone env) (re_hash_order env (pc_gone st1)) st1)) = 0"
    by (rule run_each_keeps [where P = "\<lambda>st. checked st = 0", rotated]) (simp add: remove_confirmed_gone_def prune_checked)
  then obtain st2 r where g: "run_each (remove_confirmed_gone env) (re_hash_order env (pc_gone st1)) st1 = (st2, r)" "checked st2 = 0"
    by (metis prod.collapse)
  have e: "checked (emit e st) = checked st" for e st by (simp add: checked_def emit_def)
  have "unat (checked (fst (run_then (sweep env (ig_enumeration ing) st2) (\<lambda>_ st. (emit (SourceFinished (pc_result st)) st, Inr (pc_result st))))))
      \<le> probe_budget env"
    by (rule run_then_keeps [where P = "\<lambda>st. unat (checked st) \<le> probe_budget env"]) (simp_all add: sweep_checked g(2) e)
  then show ?thesis unfolding after_ingest_def Let_def st1_def [symmetric]
    by (simp add: run_then_def [of "(st2, _)"] g split: sum.split)
qed

text \<open>
  A run probes at most 25 feed entries for liveness, and none at all unless it is a feed run that
  may delete; so a retaining run, or a run of a path or a URL, makes no liveness request.
\<close>

theorem liveness_probe_budget:
  "unat (r_feed_entries_liveness_checked (pc_result (fst (run_source_ingestion env ingestor s idx)))) \<le>
     (if re_deletion env = Prune \<and> is_feed (re_source env) then 25 else 0)"
proof -
  have 0: "checked (pipeline_start s idx) = 0" "checked (emit e st) = checked st" for e st
    by (simp_all add: checked_def pipeline_start_def default_result_def emit_def)
  obtain st r where run: "run_source_ingestion env ingestor s idx = (st, r)" by (metis prod.exhaust)
  then have "unat (checked st) \<le> probe_budget env"
  proof (cases rule: run_source_ingestion_steps)
    case (ingest_failed json st1 e)
    then have "checked st = 0" using 0 drive_checked by (metis fst_conv)
    then show ?thesis by simp
  next
    case (ingested json st1 ing)
    then have "checked st1 = 0" using 0 drive_checked by (metis fst_conv)
    from after_ingest_checked [OF this, of env ing] ingested(3) show ?thesis by simp
  qed (simp add: 0)
  then show ?thesis using run by (simp add: checked_def probe_budget_def FEED_LIVENESS_BATCH_LIMIT_def split: if_splits)
qed

end
