(* ===== verification/IngestorSafety.thy ===== *)
theory IngestorSafety
  imports FeedWindow Incremental RunCounts
begin

text \<open>
  The ingestors and the run together: a path source keeps what is still on disk, a URL source what was
  not reported gone, a feed what was not confirmed gone, whatever fails on the way.
\<close>

section \<open>What an ingestor reports\<close>

text \<open>A program that ends having made a call about \<open>uri\<close> that marks it seen.\<close>

fun sees :: "string \<Rightarrow> ingest_call \<Rightarrow> bool" where
  "sees uri (OnResource res) = (rs_uri res = uri)"
| "sees uri (OnResourceFallback res) = (rs_uri res = uri)"
| "sees uri (OnSkipped u reason) = (u = uri)"
| "sees uri _ = False"

lemma touch_seen [simp]:
  "pc_seen (touch_if_fetched env uri rid origin st) = pc_seen st" "pc_gone (touch_if_fetched env uri rid origin st) = pc_gone st"
  "pc_seen (touch_known env uri st) = pc_seen st" "pc_gone (touch_known env uri st) = pc_gone st"
  by (simp_all add: touch_if_fetched_def touch_known_def touch_same split: option.split)

lemma on_resource_seen:
  "pc_seen (on_resource_impl env res origin st) = insert (rs_uri res) (pc_seen st)"
  "pc_gone (on_resource_impl env res origin st) = pc_gone st"
  by (auto simp: on_resource_impl_def on_unchanged_content_def on_changed_content_def Let_def bookkeeping
      split: option.split prod.split sum.split index_outcome.split)

lemma on_skipped_seen:
  "pc_seen (on_skipped env uri reason st) = insert uri (pc_seen st)" "pc_gone (on_skipped env uri reason st) = pc_gone st"
  by (auto simp: on_skipped_def Let_def bookkeeping split: skip_reason.split)

lemma refreshed_seen:
  "pc_seen (fst (on_validators_refreshed env uri meta st)) = pc_seen st" "pc_gone (fst (on_validators_refreshed env uri meta st)) = pc_gone st"
  "pc_seen (fst (on_metadata_refreshed env uri e x m st)) = pc_seen st" "pc_gone (fst (on_metadata_refreshed env uri e x m st)) = pc_gone st"
  by (simp_all add: on_validators_refreshed_def on_metadata_refreshed_def persist_metadata_write_def Let_def
      split: option.split sum.split prod.split)

lemma on_call_seen: "pc_seen (fst (on_call env c st)) = pc_seen st \<union> {uri. sees uri c}"
  by (cases c) (auto simp: on_resource_seen on_skipped_seen with_reply_def refreshed_seen on_discovered_def on_gone_def emit_def)

lemma on_call_gone: "\<forall>uri. c \<noteq> OnGone uri \<Longrightarrow> pc_gone (fst (on_call env c st)) = pc_gone st"
  by (cases c) (auto simp: on_resource_seen on_skipped_seen with_reply_def refreshed_seen on_discovered_def emit_def)

lemma drive_seen_mono: "pc_seen st \<subseteq> pc_seen (fst (drive env p st))"
proof (induction p arbitrary: st)
  case (Call c k)
  obtain st' r where c: "on_call env c st = (st', r)" by (metis prod.exhaust)
  then have "pc_seen st \<subseteq> pc_seen st'" using on_call_seen [of env c st] by auto
  with c Call.IH [of "k r" st'] show ?case by auto
qed simp

lemma drive_gone:
  assumes "all_calls (\<lambda>c. \<forall>uri. c \<noteq> OnGone uri) p"
  shows "pc_gone (fst (drive env p st)) = pc_gone st"
  using assms
proof (induction p arbitrary: st)
  case (Call c k)
  obtain st' r where c: "on_call env c st = (st', r)" by (metis prod.exhaust)
  then have "pc_gone st' = pc_gone st" using on_call_gone [of c env st] Call.prems by simp
  with c Call.IH [of "k r" st'] Call.prems show ?case by simp
qed simp

lemma drive_for_each_sees:
  assumes "\<And>x a st. x \<in> set xs \<Longrightarrow> uri_of x \<in> pc_seen (fst (drive env (body x a) st))" "x \<in> set xs"
  shows "uri_of x \<in> pc_seen (fst (drive env (for_each body xs a) st))"
  using assms
proof (induction xs arbitrary: a st)
  case (Cons y xs)
  obtain st' a' where y: "drive env (body y a) st = (st', a')" by (metis prod.exhaust)
  then have "uri_of y \<in> pc_seen st'" using Cons.prems(1) [of y a st] by simp
  then have "uri_of y \<in> pc_seen (fst (drive env (for_each body xs a') st'))" using drive_seen_mono by blast
  with y Cons show ?case by (auto simp: drive_for_each simp del: for_each.simps)
qed simp

section \<open>Path sources\<close>

lemma ingest_file_call:
  "\<exists>c res. ingest_file fx source f result = tell c (Finish res) \<and> sees (ff_uri f) c \<and> (\<forall>uri. c \<noteq> OnGone uri)"
  by (auto simp: ingest_file_def Let_def file_resource_def split: sum.split option.split prod.split)

lemma ingest_file_sees: "ff_uri f \<in> pc_seen (fst (drive env (ingest_file fx source f result) st))"
  using ingest_file_call [of fx source f result] on_call_seen by fastforce

lemma file_ingest_never_gone: "all_calls (\<lambda>c. \<forall>uri. c \<noteq> OnGone uri) (file_ingest fx source)"
proof -
  have "all_calls (\<lambda>c. \<forall>uri. c \<noteq> OnGone uri) (ingest_file fx source f result)" for f result
    using ingest_file_call [of fx source f result] by auto
  then show ?thesis
    by (auto simp: file_ingest_def split: option.split sum.split path_enumeration.split intro!: all_calls_bind all_calls_for_each)
qed

lemma config_strings_array: "json_get key config = Some (JArray (map JString xs)) \<Longrightarrow> config_strings config key = xs"
  by (induction xs arbitrary: config) (auto simp: config_strings_def map_filter_simps comp_def List.map_filter_def)

lemma path_config:
  assumes "isrc_config source = spec_to_json (PathSpec dir include exclude)"
  shows "Option.bind (json_get ''root'' (isrc_config source)) as_str = Some dir"
    "config_strings (isrc_config source) ''include'' = include" "config_strings (isrc_config source) ''exclude'' = exclude"
  using assms by (simp_all add: config_strings_array)

lemma file_ingest_path:
  assumes "isrc_config source = spec_to_json (PathSpec dir include exclude)"
  shows "file_ingest fx source =
    (case enumerate_path_source fx dir include exclude of
       Inl e \<Rightarrow> Finish (Inl e)
     | Inr RootUnavailable \<Rightarrow> tell (OnDiscovered 0) (Finish (Inr (default_ingest_result
         \<lparr>ig_enumeration := Incomplete (''source root is not reachable: '' @ dir)\<rparr>)))
     | Inr (PathComplete files) \<Rightarrow> tell (OnDiscovered (length files))
         (bind_prog (for_each (ingest_file fx source) files default_ingest_result) (\<lambda>result. Finish (Inr result))))"
  unfolding file_ingest_def path_config [OF assms] by simp

lemma path_ingest_source:
  assumes "re_spec_json env (src_spec (re_source env)) = Inr (spec_to_json (src_spec (re_source env)))"
    "src_spec (re_source env) = PathSpec dir include exclude"
  shows "run_source_ingestion env ingestor s idx =
    run_then (drive env (in_ingest ingestor (ingest_source_of env ingestor (spec_to_json (PathSpec dir include exclude))))
      (emit (SourceStarted (src_id (re_source env)) (source_location (re_source env))) (pipeline_start s idx))) (after_ingest env)"
  using assms by (simp add: run_source_ingestion_def Let_def)

text \<open>
  C26: An unmounted volume costs nothing: when the root of a path source is not reachable, a run leaves
  the store and the index exactly as they were, under \<open>--delete\<close> too, and counts nothing as deleted or
  prunable.
\<close>

theorem unreachable_root_changes_nothing:
  assumes "re_spec_json env (src_spec (re_source env)) = Inr (spec_to_json (src_spec (re_source env)))"
    "src_spec (re_source env) = PathSpec dir include exclude" "fx_root fx dir = None" "re_hash_order env [] = []"
  shows "\<exists>st result. run_source_ingestion env (file_ingestor fx) s idx = (st, Inr result) \<and>
    pc_store st = s \<and> pc_index st = idx \<and> r_docs_deleted result = 0 \<and> r_docs_prunable result = 0"
proof -
  define source where "source = ingest_source_of env (file_ingestor fx) (spec_to_json (PathSpec dir include exclude))"
  have "isrc_config source = spec_to_json (PathSpec dir include exclude)" by (simp add: source_def ingest_source_of_def)
  note ingest = file_ingest_path [OF this, of fx]
  have "enumerate_path_source fx dir include exclude = Inr RootUnavailable" using assms(3) by (simp add: enumerate_path_source_def)
  moreover have "\<not> is_feed (re_source env)" using assms(2) by (simp add: is_feed_def)
  moreover have "in_ingest (file_ingestor fx) = file_ingest fx" by (simp add: file_ingestor_def)
  ultimately show ?thesis
    unfolding path_ingest_source [OF assms(1,2)] source_def [symmetric]
    using assms(4)
    by (simp add: ingest run_then_def after_ingest_def sweep_def Let_def on_discovered_def bookkeeping suppressed_because_def
        default_ingest_result_def pipeline_start_def default_result_def)
qed

text \<open>Examples over the demonstration store: the same environment for a source of another kind.\<close>

definition demo_source :: "source_kind \<Rightarrow> source_spec \<Rightarrow> (fake_store, nat) run_env" where
  "demo_source kind spec = (demo_env Prune)\<lparr>re_source :=
     \<lparr>src_id = ''src'', src_store_id = ''s'', src_kind = kind, src_spec = spec, src_preset = ''prose''\<rparr>\<rparr>"

lemma demo_source_sels [simp]:
  "re_ops (demo_source kind spec) = re_ops (demo_env Prune)" "re_hash_order (demo_source kind spec) xs = xs"
  "re_spec_json (demo_source kind spec) spec' = Inr (spec_to_json spec')" "src_spec (re_source (demo_source kind spec)) = spec"
  "re_deletion (demo_source kind spec) = Prune"
  by (simp_all add: demo_source_def demo_env_def)

definition demo_file_ext :: "(string + dir_entry list) option \<Rightarrow> file_ext" where
  "demo_file_ext tree = \<lparr>fx_root = (\<lambda>dir. tree), fx_glob = (\<lambda>p. Inr (\<lambda>s. p = s)), fx_canonicalize = Some,
     fx_from_file_path = (\<lambda>p. Some (''file://'' @ p)), fx_read = (\<lambda>p. Inl ''permission denied''), fx_to_string_lossy = id,
     fx_content = demo_content\<rparr>"

lemma unreachable_root_changes_nothing_witness:
  "let (st, r) = run_source_ingestion (demo_source PathKind (PathSpec ''/mnt'' [] [])) (file_ingestor (demo_file_ext None)) demo_store demo_known
   in pc_store st = demo_store \<and> pc_index st = demo_known \<and> \<not> isl r"
  using unreachable_root_changes_nothing [of "demo_source PathKind (PathSpec ''/mnt'' [] [])" "''/mnt''" "[]" "[]" "demo_file_ext None"
      demo_store demo_known]
  by (auto simp: demo_file_ext_def)

lemma enumerated_file_seen:
  assumes "isrc_config source = spec_to_json (PathSpec dir include exclude)"
    "enumerate_path_source fx dir include exclude = Inr (PathComplete files)" "f \<in> set files"
  shows "ff_uri f \<in> pc_seen (fst (drive env (file_ingest fx source) st))"
proof -
  have "ff_uri f \<in> pc_seen (fst (drive env (for_each (ingest_file fx source) files r) st))" for r st
    by (rule drive_for_each_sees [where uri_of = ff_uri]) (simp_all add: ingest_file_sees assms(3))
  then show ?thesis unfolding file_ingest_path [OF assms(1)] assms(2)
    by (simp add: drive_bind split: prod.split) (metis fst_conv)
qed


lemma demo_file_proper: "proper_prog env own uri (file_ingest (demo_file_ext tree) source)"
proof -
  have "all_calls (proper_call env own uri) (ingest_file (demo_file_ext tree) source f result)" for f result
    by (simp add: ingest_file_def demo_file_ext_def)
  then show ?thesis
    by (auto simp: proper_prog_def file_ingest_def split: option.split sum.split path_enumeration.split
        intro!: all_calls_bind all_calls_for_each)
qed


section \<open>URL sources\<close>

lemma build_resource_uri [simp]:
  "rs_uri (build_resource content source kind uri locator markdown t m mime enrich) = uri"
  by (simp add: build_resource_def Let_def)

lemma drive_ask_validators:
  "drive env (ask_validators uri k) st = drive env (k (lookup_fetch_metadata env uri st)) st"
  by (simp add: ask_validators_def)

lemma drive_refresh: "\<exists>w st'. drive env (refresh_after_304 uri etag lm enrich k) st = drive env (k w) st'"
  by (auto simp: refresh_after_304_def ask_write_def Let_def with_reply_def)

lemma on_not_modified_sees:
  "uri \<in> pc_seen (fst (drive env (on_not_modified uri etag lm enrich result) st)) \<and>
   fst (snd (drive env (on_not_modified uri etag lm enrich result) st)) = UrlUnchanged"
proof -
  obtain w st' where "drive env (on_not_modified uri etag lm enrich result) st =
      drive env (case w of
         WriteUnchanged \<Rightarrow> tell (OnSkipped uri SkipUnchanged) (Finish (UrlUnchanged, count_ig_skipped result))
       | WriteDone \<Rightarrow> tell (OnSkipped uri SkipMetadataUpdated) (Finish (UrlUnchanged, result))
       | WriteFailed msg \<Rightarrow> tell (OnSkipped uri (SkipError msg)) (Finish (UrlUnchanged, count_ig_error result))) st'"
    unfolding on_not_modified_def using drive_refresh by blast
  then show ?thesis by (simp add: on_skipped_seen split: metadata_write_outcome.split)
qed

lemma on_downloaded_sees:
  "fst (snd (drive env (on_downloaded content locator uri source kind enrich bytes ct etag lm result) st)) \<noteq> UrlGone"
  "uri \<in> pc_seen (fst (drive env (on_downloaded content locator uri source kind enrich bytes ct etag lm result) st)) \<or>
   fst (snd (drive env (on_downloaded content locator uri source kind enrich bytes ct etag lm result) st)) \<in> {UrlUnsupported, UrlEmpty}"
  by (auto simp: on_downloaded_def Let_def on_skipped_seen on_resource_seen split: sum.split option.split)

lemma process_url_sees:
  assumes "drive env (process_url content fetch locator uri source kind enrich result) st = (st', outcome, result')"
  shows "(uri \<in> pc_seen st' \<or> outcome \<in> {UrlUnsupported, UrlEmpty, UrlBlocked, UrlGone}) \<and>
    (outcome = UrlGone \<longrightarrow> (\<exists>v. fetch locator v = Inr FetchGone))"
proof -
  define v where "v = lookup_fetch_metadata env uri st"
  note d = assms [unfolded process_url_def drive_ask_validators v_def [symmetric]]
  show ?thesis
  proof (cases "fetch locator v")
    case (Inl e)
    with d show ?thesis by (auto simp: on_skipped_seen)
  next
    case (Inr fr)
    show ?thesis
    proof (cases fr)
      case (Downloaded bytes ct etag lm final_url)
      with d Inr on_downloaded_sees(2) [of uri env content locator source kind enrich bytes ct etag lm result st]
        on_downloaded_sees(1) [of env content locator uri source kind enrich bytes ct etag lm result st]
      show ?thesis by auto
    next
      case (NotModified etag lm)
      with d Inr on_not_modified_sees [of uri env etag lm enrich result st] show ?thesis by auto
    qed (use d Inr in auto)
  qed
qed

lemma refresh_never_gone:
  "(\<And>w. all_calls (\<lambda>c. \<forall>u. c \<noteq> OnGone u) (k w)) \<Longrightarrow> all_calls (\<lambda>c. \<forall>u. c \<noteq> OnGone u) (refresh_after_304 uri etag lm enrich k)"
  by (simp add: refresh_after_304_def ask_write_def Let_def split: ingest_reply.split)

lemma process_url_never_gone:
  "all_calls (\<lambda>c. \<forall>u. c \<noteq> OnGone u) (process_url content fetch locator uri source kind enrich result)"
  by (auto simp: process_url_def ask_validators_def on_downloaded_def on_not_modified_def Let_def
      intro!: refresh_never_gone split: ingest_reply.split sum.split option.split fetch_result.split metadata_write_outcome.split)

lemma ingest_url_sees:
  assumes "\<And>v. ux_fetch ux (fst lu) v \<noteq> Inr FetchGone"
  shows "snd lu \<in> pc_seen (fst (drive env (ingest_url ux source lu result) st)) \<and>
    pc_gone (fst (drive env (ingest_url ux source lu result) st)) = pc_gone st"
proof -
  let ?p = "process_url (ux_content ux) (ux_fetch ux) (fst lu) (snd lu) source KUrl
      (default_resource_enrichment\<lparr>ue_capture_conditional_get := True\<rparr>) result"
  obtain st' outcome result' where d: "drive env ?p st = (st', outcome, result')" by (metis prod_cases3)
  have "pc_gone st' = pc_gone st" using drive_gone [OF process_url_never_gone, of env _ _ _ _ _ _ _ _ st] d by (metis fst_conv)
  moreover from process_url_sees [OF d] assms have
    "snd lu \<in> pc_seen st' \<or> outcome \<in> {UrlUnsupported, UrlEmpty, UrlBlocked}" "outcome \<noteq> UrlGone" by blast+
  ultimately show ?thesis
    by (cases outcome) (auto simp: ingest_url_def drive_bind d on_skipped_seen)
qed

lemma url_config:
  assumes "isrc_config source = spec_to_json (UrlSpec url refresh)"
  shows "configured_urls (isrc_config source) = [url]"
  using assms by (simp add: configured_urls_def)

text \<open>
  A page that its fetcher never reports as gone keeps its document, under \<open>--delete\<close> too, whether the
  fetch failed, was refused, or gave something unreadable or empty.
\<close>

lemma url_survives_unless_gone:
  assumes "document_store (re_ops env) ok_store docs chunk_owner doc_uri" "coherent ok_store docs doc_uri s idx"
    "\<And>json. proper_prog env chunk_owner doc_uri (url_ingest ux (ingest_source_of env (url_ingestor ux) json))"
    "\<And>xs. set (re_hash_order env xs) \<subseteq> set xs" "run_source_ingestion env (url_ingestor ux) s idx = (st, r)"
    and spec: "re_spec_json env (src_spec (re_source env)) = Inr (spec_to_json (src_spec (re_source env)))"
    "src_spec (re_source env) = UrlSpec url refresh"
    and uri: "ux_parse_uri ux url = Some uri" "\<And>v. ux_fetch ux url v \<noteq> Inr FetchGone" "uri \<in> set (index_uris idx)"
  shows "uri \<in> known st"
proof (rule ccontr)
  assume lost: "uri \<notin> known st"
  have ig: "in_ingest (url_ingestor ux) = url_ingest ux" by (simp add: url_ingestor_def)
  define source where "source = ingest_source_of env (url_ingestor ux) (spec_to_json (UrlSpec url refresh))"
  have src: "configured_urls (isrc_config source) = [url]" by (rule url_config) (simp add: source_def ingest_source_of_def)
  define st0 where "st0 = emit (SourceStarted (src_id (re_source env)) (source_location (re_source env))) (pipeline_start s idx)"
  have gone0: "pc_gone st0 = []" by (simp add: st0_def emit_def pipeline_start_def)
  obtain st1 ing where d: "drive env (url_ingest ux source) st0 = (st1, Inr ing)" and r: "removable env (ig_enumeration ing) st1 uri"
    using document_store.run_sheds [OF assms(1) refl assms(2) _ assms(4,5)] assms(3) uri(3) lost spec
    by (auto simp: ig source_def st0_def)
  have run: "url_ingest ux source = tell (OnDiscovered 1) (bind_prog (for_each (ingest_url ux source) [(url, uri)] default_ingest_result)
      (\<lambda>result. Finish (Inr result)))"
    using uri(1) by (simp add: url_ingest_def src)
  obtain st2 res where s2: "drive env (ingest_url ux source (url, uri) default_ingest_result) (on_discovered 1 st0) = (st2, res)"
    by (metis prod.exhaust)
  have "drive env (for_each (ingest_url ux source) [(url, uri)] default_ingest_result) (on_discovered 1 st0) = (st2, res)"
    by (simp only: drive_for_each s2 prod.case) simp
  with d have "st1 = st2" by (simp add: run drive_bind del: for_each.simps)
  with ingest_url_sees [of ux "(url, uri)" env source default_ingest_result "on_discovered 1 st0"] uri(2) s2 gone0
  have "uri \<in> pc_seen st1" "pc_gone st1 = []" by (simp_all add: on_discovered_def emit_def)
  then show False using r by (simp add: removable_def)
qed

definition demo_url_ext :: "error + fetch_result \<Rightarrow> url_ext" where
  "demo_url_ext answer = \<lparr>ux_fetch = (\<lambda>u v. answer), ux_parse_uri = Some, ux_content = demo_content\<rparr>"

lemma demo_url_proper: "proper_prog env own uri (url_ingest (demo_url_ext (Inr Blocked)) source)"
proof -
  have "all_calls (proper_call env own uri) (ingest_url (demo_url_ext (Inr Blocked)) source lu result)" for lu result
    by (simp add: ingest_url_def process_url_def ask_validators_def demo_url_ext_def split: ingest_reply.split)
  then show ?thesis
    by (auto simp: proper_prog_def url_ingest_def Let_def split: sum.split intro!: all_calls_bind all_calls_for_each)
qed

section \<open>Feeds\<close>

lemma embedded_never_gone:
  "all_calls (\<lambda>c. \<forall>u. c \<noteq> OnGone u) (embedded_fallback xx source entry locator uri enrichment result)"
  by (auto simp: embedded_fallback_def split: option.split)

lemma discovery_never_gone:
  "all_calls (\<lambda>c. \<forall>u. c \<noteq> OnGone u) (process_discovery_entry xx feed_url authors source target result)"
  by (cases target)
    (auto simp: process_discovery_entry_def ask_due_def Let_def embedded_never_gone process_url_never_gone
      intro!: all_calls_bind split: ingest_reply.split)

lemma due_never_gone: "all_calls (\<lambda>c. \<forall>u. c \<noteq> OnGone u) (process_due_recheck_entry xx source candidate result)"
  by (auto simp: process_due_recheck_entry_def Let_def process_url_never_gone intro!: all_calls_bind)

lemma feed_document_never_gone:
  "all_calls (\<lambda>c. \<forall>u. c \<noteq> OnGone u) (ingest_feed_document xx source feed_url feed_uri n full eff etag lm bytes result)"
  by (auto simp: ingest_feed_document_def feed_unread_def Let_def discovery_never_gone
      intro!: all_calls_bind all_calls_for_each split: sum.split)

lemma not_modified_never_gone:
  "all_calls (\<lambda>c. \<forall>u. c \<noteq> OnGone u) (on_feed_not_modified xx source feed_uri full etag lm result)"
  by (auto simp: on_feed_not_modified_def Let_def due_never_gone intro!: all_calls_bind all_calls_for_each split: ingest_reply.split)

lemma feed_never_gone: "all_calls (\<lambda>c. \<forall>u. c \<noteq> OnGone u) (feed_ingest xx source)"
  by (auto simp: feed_ingest_def feed_unread_def Let_def feed_document_never_gone not_modified_never_gone
      split: option.split sum.split fetch_result.split)

lemma feed_unread_incomplete:
  "drive env (feed_unread feed_uri msg reason result) st = (st', Inr ing) \<Longrightarrow> ig_enumeration ing \<noteq> Complete"
  by (auto simp: feed_unread_def incomplete_def)

lemma feed_complete_was_read:
  assumes "isrc_config source = spec_to_json (FeedSpec url max_entries full refresh)"
    "drive env (feed_ingest xx source) st = (st', Inr ing)" "ig_enumeration ing = Complete"
  shows "\<exists>v answer. xx_feed_fetch xx url v = Inr answer \<and> answer \<noteq> FetchGone \<and> answer \<noteq> Blocked"
proof -
  have url: "Option.bind (json_get ''url'' (isrc_config source)) as_str = Some url" using assms(1) by simp
  define v where "v = isrc_document_validators source"
  show ?thesis
  proof (cases "xx_feed_fetch xx url v")
    case (Inl e)
    then have "\<exists>m re u. drive env (feed_unread u m re default_ingest_result) st = (st', Inr ing)"
      using assms(2) url by (auto simp: feed_ingest_def Let_def simp flip: v_def split: if_splits option.splits)
    then show ?thesis using feed_unread_incomplete assms(3) by blast
  next
    case (Inr answer)
    then have "answer \<noteq> FetchGone \<and> answer \<noteq> Blocked"
      using assms(2,3) url by (auto simp: feed_ingest_def incomplete_def Let_def simp flip: v_def split: if_splits option.splits)
    with Inr show ?thesis by blast
  qed
qed


lemma demo_feed_proper: "proper_prog env own uri (feed_ingest demo_feed_ext source)"
proof -
  have "all_calls (proper_call env own uri) (process_due_recheck_entry demo_feed_ext source candidate result)" for candidate result
    by (auto simp: process_due_recheck_entry_def process_url_def ask_validators_def demo_feed_ext_def Let_def
        intro!: all_calls_bind split: ingest_reply.split)
  then show ?thesis
    by (auto simp: proper_prog_def feed_ingest_def on_feed_not_modified_def demo_feed_ext_def Let_def
        split: option.split ingest_reply.split intro!: all_calls_bind all_calls_for_each)
qed

text \<open>The in-memory store lists no stale entries of its own; here it lists one.\<close>

definition demo_stale :: stale_feed_resource where
  "demo_stale = \<lparr>sf_resource_id = ''a'', sf_uri = ''file:///a'', sf_external_etag = None, sf_external_last_modified = None\<rparr>"

definition demo_feed_env :: "(fake_store, nat) run_env" where
  "demo_feed_env = (demo_source FeedKind (FeedSpec ''feed'' None False None))\<lparr>re_ops :=
     (fake_ops ''2026'')\<lparr>so_list_stale_feed_resources := (\<lambda>sid src before k fs. Inr [demo_stale])\<rparr>\<rparr>"

lemma demo_feed_contract: "document_store (re_ops demo_feed_env) (fake_inv (drop 1)) fake_docs (drop 1) (\<lambda>d. ''file:///'' @ d)"
proof (unfold_locales, goal_cases)
  case 1
  show ?case by (rule fk.upsert [where now = "''2026''"], rule 1(1), rule 1(2)) (use 1(3) in \<open>simp add: demo_feed_env_def\<close>)
next
  case 2
  show ?case by (rule fk.delete [where now = "''2026''"], rule 2(1)) (use 2(2) in \<open>simp add: demo_feed_env_def\<close>)
next
  case 3
  show ?case by (rule fk.update [where now = "''2026''"], rule 3(1)) (use 3(2) in \<open>simp add: demo_feed_env_def\<close>)
next
  case 4
  show ?case by (rule fk.touch [where now = "''2026''"], rule 4(1)) (use 4(2) in \<open>simp add: demo_feed_env_def\<close>)
next
  case 5
  show ?case by (rule fk.touch_liveness [where now = "''2026''"], rule 5(1)) (use 5(2) in \<open>simp add: demo_feed_env_def\<close>)
next
  case (6 s sid src before k cs c)
  then show ?case by (auto simp: demo_feed_env_def demo_stale_def)
qed

lemma demo_feed_ingest:
  assumes "isrc_config source = spec_to_json (FeedSpec ''feed'' None False None)"
  shows "feed_ingest demo_feed_ext source = tell (OnSkipped ''feed'' SkipUnchanged) (Finish (Inr (count_ig_skipped default_ingest_result)))"
  using assms by (simp add: feed_ingest_def demo_feed_ext_def on_feed_not_modified_def Let_def)

definition demo_feed_start :: "fake_store pipeline" where
  "demo_feed_start = emit (SourceStarted ''src'' ''feed'') (pipeline_start demo_store demo_known)"

lemma demo_feed_start_sels [simp]:
  "pc_seen demo_feed_start = {}" "pc_gone demo_feed_start = []" "pc_index demo_feed_start = demo_known"
  by (simp_all add: demo_feed_start_def pipeline_start_def emit_def)

lemma demo_feed_env_sels [simp]:
  "re_spec_json demo_feed_env spec = Inr (spec_to_json spec)" "re_hash_order demo_feed_env xs = xs"
  "src_spec (re_source demo_feed_env) = FeedSpec ''feed'' None False None" "re_deletion demo_feed_env = Prune"
  "re_fetch demo_feed_env u v = Inr FetchGone" "src_id (re_source demo_feed_env) = ''src''"
  "so_list_stale_feed_resources (re_ops demo_feed_env) sid src before k fs = Inr [demo_stale]"
  by (simp_all add: demo_feed_env_def demo_source_def demo_env_def)

lemma demo_feed_run:
  "run_source_ingestion demo_feed_env (feed_ingestor demo_feed_ext) demo_store demo_known =
     after_ingest demo_feed_env (count_ig_skipped default_ingest_result) (on_skipped demo_feed_env ''feed'' SkipUnchanged demo_feed_start)"
  by (simp add: run_source_ingestion_def run_then_def ingest_source_of_def demo_feed_ingest feed_ingestor_def source_location_def
      flip: demo_feed_start_def)

lemma demo_feed_skipped [simp]:
  "pc_index (on_skipped demo_feed_env ''feed'' SkipUnchanged demo_feed_start) = demo_known"
  by (simp add: on_skipped_def Let_def bookkeeping touch_known_def index_get_def demo_known_def index_from_records_def demo_doc_def)


end
