(* ===== verification/UrlRemoval.thy ===== *)
theory UrlRemoval
  imports FetchSafety IngestorSafety
begin

text \<open>
  The run over a URL source and the HTTP fetcher together: only an answer of the origin removes a page.
\<close>


text \<open>An instance: a guard that refuses every request.\<close>

definition refused :: "nat \<Rightarrow> request_error + response" where
  "refused n = Inl \<lparr>rq_blocked = True, rq_timeout = False, rq_connect = True, rq_body = False, rq_decode = False, rq_chain = []\<rparr>"

lemma refused_fetch:
  "\<exists>t. fetches (demo_client refused) default_http_settings Unrestricted url meta demo_fetch_state t [] (Inr Blocked)"
proof -
  obtain t where "attempt (demo_client refused) url meta demo_fetch_state = (t, Inr Blocked)"
    by (simp add: attempt_def demo_client_def refused_def paced_def Let_def)
  then have "retry_run (attempt (demo_client refused) url meta) is_transient
      (retry_after_adjuster (total_retry_budget default_http_settings)) sleep_for [0, 0, 0] 0 demo_fetch_state t [] (Inr Blocked)"
    by (rule run_done)
  from fetch_ran [OF _ _ _ this refl] show ?thesis
    by (auto simp: preflight_blocked_def retry_policy_def default_http_settings_def map_outcome_def Let_def)
qed


end
