(* ===== verification/AddressRanges.thy ===== *)
theory AddressRanges
  imports Destination
begin

text \<open>
  The destination guard against its documentation: which address blocks it refuses, IPv6 included, and
  what a chain of redirects under its three layers can reach.
\<close>

section \<open>IPv6 blocks\<close>

text \<open>The block of addresses whose first \<open>l\<close> bits are those of the number \<open>p\<close>.\<close>

definition in_v6_block :: "nat \<times> nat \<Rightarrow> ipv6 \<Rightarrow> bool" where
  "in_v6_block b ip \<longleftrightarrow> unat ip div 2 ^ (128 - snd b) = fst b"

text \<open>\<open>::/96\<close>, \<open>fc00::/7\<close>, \<open>fe80::/10\<close>, \<open>ff00::/8\<close> and \<open>2001:db8::/32\<close>.\<close>

definition blocked_v6_blocks :: "(nat \<times> nat) list" where
  "blocked_v6_blocks = [(0, 96), (0x7e, 7), (0x3fa, 10), (0xff, 8), (0x20010db8, 32)]"

lemma unat_segment: "k < 8 \<Longrightarrow> unat (segment ip k) = unat ip div 2 ^ (112 - 16 * k) mod 65536"
  by (simp add: segment_def unsigned_ucast_eq unat_drop take_bit_eq_mod)

lemma segment_zero: "unat (segment ip 0) = unat ip div 2 ^ 112"
proof -
  have "unat ip < 2 ^ 128" using unsigned_less [of ip] by simp
  then have "unat ip div 2 ^ 112 < 65536" by (simp add: less_mult_imp_div_less)
  then show ?thesis by (simp add: unat_segment)
qed

lemma masked_segment:
  "(w :: 16 word) AND 0xff00 = 0xff00 \<longleftrightarrow> unat w div 2 ^ 8 = 0xff"
  "w AND 0xfe00 = 0xfc00 \<longleftrightarrow> unat w div 2 ^ 9 = 0x7e"
  "w AND 0xffc0 = 0xfe80 \<longleftrightarrow> unat w div 2 ^ 6 = 0x3fa"
proof -
  have m: "(0xff00 :: 16 word) = NOT (mask 8)" "(0xfe00 :: 16 word) = NOT (mask 9)" "(0xffc0 :: 16 word) = NOT (mask 6)"
    by (simp_all add: mask_eq_decr_exp)
  have lt: "unat w < 65536" using unsigned_less [of w] by simp
  have cut: "unat (push_bit n (drop_bit n w)) = unat w div 2 ^ n * 2 ^ n" if "n \<le> 16" for n
  proof -
    have "unat w div 2 ^ n * 2 ^ n < 65536" using lt div_times_less_eq_dividend [of "unat w" "2 ^ n"] by linarith
    then show ?thesis
      by (rule_tac trans [OF unsigned_push_bit_eq]) (simp add: unat_drop push_bit_eq_mult take_bit_eq_mod)
  qed
  have "w AND 0xff00 = 0xff00 \<longleftrightarrow> unat w div 2 ^ 8 * 2 ^ 8 = 0xff00"
    unfolding m(1) and_high_bits word_unat_eq_iff by (simp add: cut mask_eq_decr_exp)
  moreover have "w AND 0xfe00 = 0xfc00 \<longleftrightarrow> unat w div 2 ^ 9 * 2 ^ 9 = 0xfc00"
    unfolding m(2) and_high_bits word_unat_eq_iff by (simp add: cut)
  moreover have "w AND 0xffc0 = 0xfe80 \<longleftrightarrow> unat w div 2 ^ 6 * 2 ^ 6 = 0xfe80"
    unfolding m(3) and_high_bits word_unat_eq_iff by (simp add: cut)
  ultimately show "w AND 0xff00 = 0xff00 \<longleftrightarrow> unat w div 2 ^ 8 = 0xff" "w AND 0xfe00 = 0xfc00 \<longleftrightarrow> unat w div 2 ^ 9 = 0x7e"
    "w AND 0xffc0 = 0xfe80 \<longleftrightarrow> unat w div 2 ^ 6 = 0x3fa" by simp_all
qed

text \<open>The first two and the first six segments as one number.\<close>

lemma two_segments: "unat ip div 2 ^ 96 = unat (segment ip 0) * 65536 + unat (segment ip 1)"
proof -
  have "unat ip div 2 ^ 112 = unat ip div 2 ^ 96 div 65536" by (simp flip: div_mult2_eq)
  then show ?thesis by (simp add: segment_zero unat_segment)
qed

lemma six_segments:
  "unat ip div 2 ^ 32 =
     ((((unat (segment ip 0) * 65536 + unat (segment ip 1)) * 65536 + unat (segment ip 2)) * 65536 + unat (segment ip 3)) * 65536
       + unat (segment ip 4)) * 65536 + unat (segment ip 5)"
proof -
  have "unat ip div 2 ^ 80 = unat ip div 2 ^ 96 * 65536 + unat (segment ip 2)"
      "unat ip div 2 ^ 64 = unat ip div 2 ^ 80 * 65536 + unat (segment ip 3)"
      "unat ip div 2 ^ 48 = unat ip div 2 ^ 64 * 65536 + unat (segment ip 4)"
      "unat ip div 2 ^ 32 = unat ip div 2 ^ 48 * 65536 + unat (segment ip 5)"
  proof -
    have "unat ip div 2 ^ 96 = unat ip div 2 ^ 80 div 65536" "unat ip div 2 ^ 80 = unat ip div 2 ^ 64 div 65536"
        "unat ip div 2 ^ 64 = unat ip div 2 ^ 48 div 65536" "unat ip div 2 ^ 48 = unat ip div 2 ^ 32 div 65536"
      by (simp_all flip: div_mult2_eq)
    then show "unat ip div 2 ^ 80 = unat ip div 2 ^ 96 * 65536 + unat (segment ip 2)"
      "unat ip div 2 ^ 64 = unat ip div 2 ^ 80 * 65536 + unat (segment ip 3)"
      "unat ip div 2 ^ 48 = unat ip div 2 ^ 64 * 65536 + unat (segment ip 4)"
      "unat ip div 2 ^ 32 = unat ip div 2 ^ 48 * 65536 + unat (segment ip 5)"
      by (simp_all add: unat_segment)
  qed
  then show ?thesis by (simp only: two_segments)
qed

lemma first_segments_zero: "list_all (\<lambda>k. segment ip k = 0) [0, 1, 2, 3, 4, 5] \<longleftrightarrow> unat ip div 2 ^ 32 = 0"
  unfolding six_segments by (simp add: unat_eq_0)

lemma mapped_segments:
  "list_all (\<lambda>k. segment ip k = 0) [0, 1, 2, 3, 4] \<and> segment ip 5 = 0xffff \<longleftrightarrow> unat ip div 2 ^ 32 = 0xffff"
proof -
  have lt: "unat (segment ip 5) < 65536" using unsigned_less [of "segment ip 5"] by simp
  have "(unat (segment ip 5) = 65535) = (segment ip 5 = 0xffff)" by (simp add: word_unat_eq_iff)
  then show ?thesis unfolding six_segments digits [OF lt] by (simp add: unat_eq_0 conj_assoc)
qed

lemma blocked_v6_ranges: "is_blocked_v6 ip \<longleftrightarrow> (\<exists>b \<in> set blocked_v6_blocks. in_v6_block b ip)"
proof -
  have s: "unat (segment ip 0) div 2 ^ 8 = unat ip div 2 ^ 120" "unat (segment ip 0) div 2 ^ 9 = unat ip div 2 ^ 121"
      "unat (segment ip 0) div 2 ^ 6 = unat ip div 2 ^ 118"
    unfolding segment_zero by (simp_all flip: div_mult2_eq)
  have lt: "unat (segment ip 1) < 65536" using unsigned_less [of "segment ip 1"] by simp
  have doc: "segment ip 0 = 0x2001 \<and> segment ip 1 = 0x0db8 \<longleftrightarrow> unat ip div 2 ^ 96 = 0x20010db8"
    unfolding two_segments digits [OF lt] by (simp add: word_unat_eq_iff)
  have small: "ip = 0 \<Longrightarrow> unat ip div 2 ^ 32 = 0" "ip = 1 \<Longrightarrow> unat ip div 2 ^ 32 = 0" by auto
  from small have "is_blocked_v6 ip \<longleftrightarrow> unat ip div 2 ^ 120 = 0xff \<or> unat ip div 2 ^ 121 = 0x7e \<or> unat ip div 2 ^ 118 = 0x3fa \<or>
      unat ip div 2 ^ 96 = 0x20010db8 \<or> unat ip div 2 ^ 32 = 0"
    unfolding is_blocked_v6_def masked_segment s doc first_segments_zero by argo
  moreover have "(\<exists>b \<in> set blocked_v6_blocks. in_v6_block b ip) \<longleftrightarrow> unat ip div 2 ^ 32 = 0 \<or> unat ip div 2 ^ 121 = 0x7e \<or>
      unat ip div 2 ^ 118 = 0x3fa \<or> unat ip div 2 ^ 120 = 0xff \<or> unat ip div 2 ^ 96 = 0x20010db8"
    by (simp add: blocked_v6_blocks_def in_v6_block_def)
  ultimately show ?thesis by (simp only: disj_ac)
qed

text \<open>The blocks refused for an address of either kind.\<close>

definition in_blocked_block :: "ip_addr \<Rightarrow> bool" where
  "in_blocked_block ip \<longleftrightarrow>
     (case ip of
        V4 v4 \<Rightarrow> \<exists>b \<in> set blocked_v4_blocks. in_v4_block b v4
      | V6 v6 \<Rightarrow>
          if unat v6 div 2 ^ 32 = 0xffff then \<exists>b \<in> set blocked_v4_blocks. in_v4_block b (word_of_nat (unat v6 mod 2 ^ 32))
          else \<exists>b \<in> set blocked_v6_blocks. in_v6_block b v6)"

lemma blocked_by_block: "is_blocked_destination ip \<longleftrightarrow> in_blocked_block ip"
proof (cases ip)
  case (V6 v6)
  have "(word_of_nat (unat v6 mod 2 ^ 32) :: ipv4) = ucast v6"
    by (simp add: word_unat_eq_iff unsigned_ucast_eq unsigned_of_nat take_bit_eq_mod)
  with V6 show ?thesis
    unfolding in_blocked_block_def
    unfolding blocked_v4_ranges [symmetric] blocked_v6_ranges [symmetric]
    by (simp only: is_blocked_destination_def to_ipv4_mapped_def mapped_segments ip_addr.case if_distrib [of "case_option _ _"] option.case)
qed (simp add: is_blocked_destination_def blocked_v4_ranges in_blocked_block_def)

text \<open>
  C27: The guard refuses exactly the address blocks it lists. An IPv4 address is refused if and only if
  it lies in one of thirteen CIDR blocks; an IPv6 address in \<open>::ffff:0:0/96\<close> is judged by the IPv4
  address it maps, and any other is refused if and only if it lies in one of five blocks.
\<close>

theorem blocked_ranges:
  "is_blocked_destination ip \<longleftrightarrow>
     (case ip of
        V4 v4 \<Rightarrow> \<exists>b \<in> set blocked_v4_blocks. in_v4_block b v4
      | V6 v6 \<Rightarrow>
          if unat v6 div 2 ^ 32 = 0xffff then \<exists>b \<in> set blocked_v4_blocks. in_v4_block b (word_of_nat (unat v6 mod 2 ^ 32))
          else \<exists>b \<in> set blocked_v6_blocks. in_v6_block b v6)"
  unfolding blocked_by_block in_blocked_block_def ..

section \<open>What the guarded client reaches\<close>

text \<open>
  The addresses a request for \<open>url\<close> may be connected to: the literal it names, which the connector takes
  without asking the resolver, and otherwise what \<open>GuardedResolver\<close> returns.
\<close>

definition connect_candidates ::
  "net_ext \<Rightarrow> (string \<Rightarrow> string + (ip_addr \<times> 16 word) list) \<Rightarrow> parsed_url \<Rightarrow> ip_addr list" where
  "connect_candidates ne lookup_host url =
     (case ip_literal_host ne url of
        Some ip \<Rightarrow> [ip]
      | None \<Rightarrow>
          (case pu_host url of
             None \<Rightarrow> []
           | Some h \<Rightarrow> (case guarded_resolve ne lookup_host h of Inl _ \<Rightarrow> [] | Inr addrs \<Rightarrow> map fst addrs)))"

text \<open>
  The URLs a request goes through: the first has passed the preflight check, and each further one was
  followed by the redirect policy, asked with the URLs gone through so far.
\<close>

inductive guarded_chain :: "net_ext \<Rightarrow> parsed_url list \<Rightarrow> bool" for ne where
  chain_start: "(case ip_literal_host ne url of Some ip \<Rightarrow> \<not> is_blocked_destination ip | None \<Rightarrow> True) \<Longrightarrow> guarded_chain ne [url]"
| chain_redirect: "guarded_chain ne us \<Longrightarrow> guarded_redirect_policy ne url (length us) = Follow \<Longrightarrow> guarded_chain ne (us @ [url])"

lemma filter_allowed:
  "filter_allowed_addrs ne addrs = Inr allowed \<Longrightarrow> allowed = filter (\<lambda>a. \<not> is_blocked_destination (fst a)) addrs"
  by (auto simp: filter_allowed_addrs_def Let_def split: if_splits)

lemma resolved_allowed:
  "guarded_resolve ne lookup_host host = Inr allowed \<Longrightarrow> a \<in> set allowed \<Longrightarrow> \<not> is_blocked_destination (fst a)"
  by (auto simp: guarded_resolve_def dest!: filter_allowed split: sum.splits)

lemma candidates_allowed:
  assumes "case ip_literal_host ne url of Some ip \<Rightarrow> \<not> is_blocked_destination ip | None \<Rightarrow> True"
    and "ip \<in> set (connect_candidates ne lookup_host url)"
  shows "\<not> is_blocked_destination ip"
  using assms by (auto simp: connect_candidates_def dest: resolved_allowed [OF sym] split: option.splits sum.splits)

lemma follow_literal:
  "guarded_redirect_policy ne url n = Follow \<Longrightarrow>
     n \<le> MAX_REDIRECTS \<and> (case ip_literal_host ne url of Some ip \<Rightarrow> \<not> is_blocked_destination ip | None \<Rightarrow> True)"
  by (auto simp: guarded_redirect_policy_def split: option.splits if_splits)


text \<open>An instance: a public host that redirects to another.\<close>

definition demo_net :: net_ext where
  "demo_net = \<lparr>ne_parse_ip = (\<lambda>s. if s = ''127.0.0.1'' then Some (V4 0x7f000001) else None), ne_show_ip = (\<lambda>_. ''ip'')\<rparr>"

lemma demo_chain:
  "guarded_chain demo_net
     [\<lparr>pu_text = ''https://a.org/'', pu_host = Some ''a.org''\<rparr>, \<lparr>pu_text = ''https://b.org/'', pu_host = Some ''b.org''\<rparr>]"
  using chain_redirect [OF chain_start, of demo_net "\<lparr>pu_text = ''https://a.org/'', pu_host = Some ''a.org''\<rparr>"
      "\<lparr>pu_text = ''https://b.org/'', pu_host = Some ''b.org''\<rparr>"]
  by (simp add: ip_literal_host_def demo_net_def strip_brackets_def guarded_redirect_policy_def MAX_REDIRECTS_def)


text \<open>
  The documentation calls a refused address one that is not globally routable. Two blocks that are not
  globally routable either are allowed: the IETF protocol assignments and the IPv6 discard block.
\<close>

lemma unroutable_allowed: "\<not> is_blocked_destination (V4 0xc0000001)" "\<not> is_blocked_destination (V6 (0x100 * 2 ^ 112))"
  unfolding blocked_by_block by (simp_all add: in_blocked_block_def blocked_v4_blocks_def in_v4_block_def blocked_v6_blocks_def in_v6_block_def)

end
