(* ===== verification/RefreshInterval.thy ===== *)
theory RefreshInterval
  imports HttpPolicy
begin

text \<open>
  Refresh intervals: the validation of \<open>core/src/config/refresh.rs\<close>, applied before an interval is
  stored, and the reading of stored intervals when the daemon starts (\<open>server/src/daemon.rs\<close>).
\<close>

definition strip_suffix_char :: "char \<Rightarrow> string \<Rightarrow> string option" where
  "strip_suffix_char c s = (if s \<noteq> [] \<and> last s = c then Some (butlast s) else None)"

text \<open>\<open>u64::checked_mul\<close>.\<close>

definition checked_mul :: "nat \<Rightarrow> nat \<Rightarrow> nat option" where
  "checked_mul k n = (if n * k < 2 ^ 64 then Some (n * k) else None)"

definition validate_refresh_interval :: "string \<Rightarrow> error + nat option" where
  "validate_refresh_interval s0 =
     (let s = trim s0
      in if s = [] then Inr None
         else let secs =
                (case strip_suffix_char CHR ''h'' s of
                   Some h \<Rightarrow> Option.bind (parse_u64 h) (checked_mul 3600)
                 | None \<Rightarrow>
                    (case strip_suffix_char CHR ''m'' s of
                       Some m \<Rightarrow> Option.bind (parse_u64 m) (checked_mul 60)
                     | None \<Rightarrow>
                        (case strip_suffix_char CHR ''s'' s of
                           Some sec \<Rightarrow> parse_u64 sec
                         | None \<Rightarrow> parse_u64 s)))
              in case secs of
                   None \<Rightarrow> Inl (InvalidRequest (''invalid refresh interval '' @ [CHR 0x27] @ s @ [CHR 0x27] @
                     '': expected a duration like '' @ [CHR 0x27] @ ''24h'' @ [CHR 0x27] @ '', '' @ [CHR 0x27] @ ''30m'' @ [CHR 0x27] @
                     '', or '' @ [CHR 0x27] @ ''3600s'' @ [CHR 0x27]))
                 | Some n \<Rightarrow>
                     if n = 0 then Inl (InvalidRequest (''invalid refresh interval '' @ [CHR 0x27] @ s @ [CHR 0x27] @
                       '': duration must be greater than zero''))
                     else Inr (Some n))"

definition parse_refresh_interval :: "string \<Rightarrow> nat option" where
  "parse_refresh_interval s0 =
     (let s = trim s0
      in if s = [] then None
         else (case strip_suffix_char CHR ''h'' s of
                 Some h \<Rightarrow> Option.bind (parse_u64 h) (checked_mul 3600)
               | None \<Rightarrow>
                  (case strip_suffix_char CHR ''m'' s of
                     Some m \<Rightarrow> Option.bind (parse_u64 m) (checked_mul 60)
                   | None \<Rightarrow>
                      (case strip_suffix_char CHR ''s'' s of
                         Some sec \<Rightarrow> parse_u64 sec
                       | None \<Rightarrow> parse_u64 s))))"

section \<open>Reading a number back\<close>

lemma shown_digits: "list_all is_ascii_digit (show_nat n) \<and> show_nat n \<noteq> []"
proof (induction n rule: show_nat.induct)
  case (1 n)
  have "is_ascii_digit (char_of (48 + d))" if "d < 10" for d :: nat using that by (simp add: is_ascii_digit_def)
  then show ?case using 1 by (cases "n < 10") (simp_all add: show_nat.simps [of n])
qed

lemma shown_value: "digits_value (show_nat n) = n"
  using show_nat_value [of n] by (simp add: digits_value_def foldl_conv_fold mult.commute)

lemma parse_show_nat: "n < 2 ^ 64 \<Longrightarrow> parse_u64 (show_nat n) = Some n"
proof -
  obtain c cs where s: "show_nat n = c # cs" using shown_digits by (cases "show_nat n") auto
  then have "is_ascii_digit c" using shown_digits [of n] by simp
  then have "c \<noteq> CHR ''+''" by (auto simp: is_ascii_digit_def)
  moreover assume "n < 2 ^ 64"
  ultimately show ?thesis using shown_digits [of n] shown_value [of n] by (simp add: parse_u64_def s Let_def)
qed

lemma last_digit: "is_ascii_digit (last (show_nat n))"
  using shown_digits [of n] by (auto simp: list_all_iff)

lemma digit_not_space: "is_ascii_digit c \<Longrightarrow> solid c"
  by (simp add: is_ascii_digit_def solid_def)

lemma interval_trimmed: "u \<in> {''h'', ''m'', ''s'', []} \<Longrightarrow> trim (show_nat n @ u) = show_nat n @ u"
proof (rule trim_solid)
  assume u: "u \<in> {''h'', ''m'', ''s'', []}"
  have d: "\<forall>c \<in> set (show_nat n). is_ascii_digit c" using shown_digits [of n] by (simp add: list_all_iff)
  then show "solid (hd (show_nat n @ u))" using shown_digits [of n] by (auto intro!: digit_not_space)
  show "solid (last (show_nat n @ u))" using u digit_not_space [OF last_digit] shown_digits [of n] by (auto simp: solid_def)
qed (simp add: shown_digits)

lemma last_no_unit: "last (show_nat n) \<notin> {CHR ''h'', CHR ''m'', CHR ''s''}"
  using last_digit [of n] by (auto simp: is_ascii_digit_def)

lemma checked_mul_1: "parse_u64 s = Option.bind (parse_u64 s) (checked_mul 1)"
  by (auto simp: parse_u64_def checked_mul_def Let_def)

lemma validate_show:
  assumes "(u, k) \<in> {(''h'', 3600), (''m'', 60), (''s'', 1), ([], 1)}" "0 < n" "n * k < 2 ^ 64"
  shows "validate_refresh_interval (show_nat n @ u) = Inr (Some (n * k))" "parse_refresh_interval (show_nat n @ u) = Some (n * k)"
proof -
  have "n \<le> n * k" using assms(1) by auto
  then have n: "n < 2 ^ 64" using assms(3) by linarith
  have parts: "trim (show_nat n @ u) = show_nat n @ u" "show_nat n \<noteq> []"
    using assms(1) interval_trimmed [of u n] shown_digits [of n] by auto
  show p: "parse_refresh_interval (show_nat n @ u) = Some (n * k)"
    using assms n parts last_no_unit [of n]
    by (auto simp: parse_refresh_interval_def Let_def strip_suffix_char_def parse_show_nat checked_mul_def butlast_append)
  show "validate_refresh_interval (show_nat n @ u) = Inr (Some (n * k))"
    using p parts assms(1,2)
    by (auto simp: validate_refresh_interval_def parse_refresh_interval_def Let_def split: option.splits if_splits)
qed

lemma validate_agrees: "validate_refresh_interval s = Inr v \<Longrightarrow> parse_refresh_interval s = v \<and> v \<noteq> Some 0"
  by (auto simp: validate_refresh_interval_def parse_refresh_interval_def Let_def split: if_splits option.splits)

text \<open>
  A refresh interval means the same when it is accepted and when the daemon starts again. Writing a
  positive number of hours, minutes or seconds that fits in 64 bits is accepted as that many seconds;
  and whatever validation accepts is never zero and is read back at start-up as the same interval.
\<close>

theorem refresh_interval_roundtrip:
  assumes "(u, k) \<in> {(''h'', 3600), (''m'', 60), (''s'', 1), ([], 1)}" "0 < n" "n * k < 2 ^ 64"
  shows "validate_refresh_interval (show_nat n @ u) = Inr (Some (n * k)) \<and> parse_refresh_interval (show_nat n @ u) = Some (n * k) \<and>
    (\<forall>s v. validate_refresh_interval s = Inr v \<longrightarrow> parse_refresh_interval s = v \<and> v \<noteq> Some 0)"
  using validate_show [OF assms] validate_agrees by blast

lemma refresh_interval_roundtrip_witness: "validate_refresh_interval (show_nat 24 @ ''h'') = Inr (Some 86400)"
  using refresh_interval_roundtrip [of "''h''" 3600 24] by simp

end
