(* ===== verification/Sources.thy ===== *)
theory Sources
  imports RefreshInterval
begin

text \<open>
  Sources (\<open>core/src/source/\<close>): a request is parsed and validated by kind, stored as a row, and read back
  from the row by every run. serde_json's reading and printing of text, and the parsing of URLs, are
  parameters.
\<close>

record source_row =
  sr_id :: string
  sr_store_id :: string
  sr_kind :: source_kind
  sr_root :: "string option"
  sr_url :: "string option"
  sr_include :: "string list"
  sr_exclude :: "string list"
  sr_preset :: string
  sr_refresh :: "string option"
  sr_created_at :: string
  sr_config_json :: "string option"
  sr_feed_etag :: "string option"
  sr_feed_last_modified :: "string option"
  sr_feed_inputs_digest :: "string option"

record parsed_source_spec =
  ps_kind :: source_kind
  ps_root :: "string option"
  ps_url :: "string option"
  ps_include :: "string list"
  ps_exclude :: "string list"
  ps_config_json :: "string option"

text \<open>\<open>jx_scheme\<close> is the scheme of a text that parses as a URI.\<close>

record json_ext =
  jx_from_str :: "string \<Rightarrow> json option"
  jx_to_string :: "json \<Rightarrow> string"
  jx_scheme :: "string \<Rightarrow> string option"

definition quoted :: "string \<Rightarrow> string" where
  "quoted s = [CHR 0x27] @ s @ [CHR 0x27]"

section \<open>Parsing a request\<close>

definition required_string_field :: "json \<Rightarrow> string \<Rightarrow> string \<Rightarrow> error + string" where
  "required_string_field spec field missing_message =
     (case Option.bind (json_get field spec) as_str of Some s \<Rightarrow> Inr s | None \<Rightarrow> Inl (InvalidRequest missing_message))"

fun all_strings :: "string \<Rightarrow> json list \<Rightarrow> error + string list" where
  "all_strings field [] = Inr []"
| "all_strings field (v # vs) =
     (case as_str v of
        None \<Rightarrow> Inl (InvalidRequest (''source spec field '' @ quoted field @ '' contains a non-string value''))
      | Some s \<Rightarrow> and_then (all_strings field vs) (\<lambda>ss. Inr (s # ss)))"

definition string_array_field :: "json \<Rightarrow> string \<Rightarrow> error + string list" where
  "string_array_field spec field =
     (case json_get field spec of
        None \<Rightarrow> Inr []
      | Some raw \<Rightarrow>
          (case as_array raw of
             None \<Rightarrow> Inl (InvalidRequest (''source spec field '' @ quoted field @ '' must be a JSON array of strings''))
           | Some arr \<Rightarrow> all_strings field arr))"

definition parse_path_spec :: "json \<Rightarrow> error + parsed_source_spec" where
  "parse_path_spec spec =
     and_then (required_string_field spec ''root'' (''path source requires '' @ quoted ''root'')) (\<lambda>dir.
     and_then (string_array_field spec ''include'') (\<lambda>include.
     and_then (string_array_field spec ''exclude'') (\<lambda>exclude.
       Inr \<lparr>ps_kind = PathKind, ps_root = Some dir, ps_url = None, ps_include = include, ps_exclude = exclude, ps_config_json = None\<rparr>)))"

definition parse_url_spec :: "json \<Rightarrow> error + parsed_source_spec" where
  "parse_url_spec spec =
     and_then (required_string_field spec ''url'' (''url source requires '' @ quoted ''url'')) (\<lambda>url.
       Inr \<lparr>ps_kind = UrlKind, ps_root = None, ps_url = Some url, ps_include = [], ps_exclude = [], ps_config_json = None\<rparr>)"

definition validate_max_entries :: "u32 option \<Rightarrow> error + u32 option" where
  "validate_max_entries max_entries =
     (if max_entries = Some 0
      then Inl (InvalidRequest (''invalid max_entries '' @ quoted ''0'' @ '': must be greater than zero, or omitted for unbounded''))
      else Inr max_entries)"

definition requested_max_entries :: "json_ext \<Rightarrow> json \<Rightarrow> error + u32 option" where
  "requested_max_entries jx spec =
     (case json_get ''max_entries'' spec of
        None \<Rightarrow> Inr None
      | Some JNull \<Rightarrow> Inr None
      | Some v \<Rightarrow>
          (case as_u64 v of
             Some n \<Rightarrow> if n < 2 ^ 32 then Inr (Some (word_of_nat n))
                       else Inl (InvalidRequest (''feed source '' @ quoted ''max_entries'' @
                         '' must be a positive integer no greater than 4294967295: '' @ jx_to_string jx v))
           | None \<Rightarrow> Inl (InvalidRequest (''feed source '' @ quoted ''max_entries'' @
                '' must be a positive integer no greater than 4294967295: '' @ jx_to_string jx v))))"

definition requested_full_content :: "json_ext \<Rightarrow> json \<Rightarrow> error + bool" where
  "requested_full_content jx spec =
     (case json_get ''fetch_full_content'' spec of
        None \<Rightarrow> Inr True
      | Some JNull \<Rightarrow> Inr True
      | Some (JBool b) \<Rightarrow> Inr b
      | Some v \<Rightarrow> Inl (InvalidRequest (''feed source '' @ quoted ''fetch_full_content'' @ '' must be a boolean: '' @ jx_to_string jx v)))"

definition feed_config_value :: "u32 option \<Rightarrow> bool \<Rightarrow> json" where
  "feed_config_value max_entries fetch_full_content =
     JObject [(''max_entries'', json_option (\<lambda>n. JNumber (uint n)) max_entries), (''fetch_full_content'', JBool fetch_full_content)]"

definition build_feed_config_json :: "json_ext \<Rightarrow> u32 option \<Rightarrow> bool \<Rightarrow> string" where
  "build_feed_config_json jx max_entries fetch_full_content = jx_to_string jx (feed_config_value max_entries fetch_full_content)"

definition parse_feed_spec :: "json_ext \<Rightarrow> json \<Rightarrow> error + parsed_source_spec" where
  "parse_feed_spec jx spec =
     and_then (required_string_field spec ''url'' (''feed source requires '' @ quoted ''url'')) (\<lambda>url.
     if jx_scheme jx url \<notin> {Some ''http'', Some ''https''}
     then Inl (InvalidRequest (''feed source '' @ quoted ''url'' @ '' must be a valid http(s) URL: '' @ quoted url))
     else
       and_then (and_then (requested_max_entries jx spec) validate_max_entries) (\<lambda>max_entries.
       and_then (requested_full_content jx spec) (\<lambda>fetch_full_content.
         Inr \<lparr>ps_kind = FeedKind, ps_root = None, ps_url = Some url, ps_include = [], ps_exclude = [],
              ps_config_json = Some (build_feed_config_json jx max_entries fetch_full_content)\<rparr>)))"

definition source_kind_str :: "source_kind \<Rightarrow> string" where
  "source_kind_str k = (case k of PathKind \<Rightarrow> ''path'' | UrlKind \<Rightarrow> ''url'' | FeedKind \<Rightarrow> ''feed'')"

definition parse_source_spec :: "json_ext \<Rightarrow> string \<Rightarrow> json \<Rightarrow> error + parsed_source_spec" where
  "parse_source_spec jx kind spec =
     (case find (\<lambda>k. source_kind_str k = kind) [PathKind, UrlKind, FeedKind] of
        Some PathKind \<Rightarrow> parse_path_spec spec
      | Some UrlKind \<Rightarrow> parse_url_spec spec
      | Some FeedKind \<Rightarrow> parse_feed_spec jx spec
      | None \<Rightarrow> Inl (InvalidRequest (''unknown source kind '' @ quoted kind)))"

section \<open>The stored row, and reading it back\<close>

text \<open>\<open>AppState::add_source\<close> up to the write of the row.\<close>

definition new_source_row ::
  "json_ext \<Rightarrow> string \<Rightarrow> string \<Rightarrow> string \<Rightarrow> string \<Rightarrow> json \<Rightarrow> string \<Rightarrow> string option \<Rightarrow> error + source_row" where
  "new_source_row jx new_id now store_id kind spec preset refresh =
     and_then (parse_source_spec jx kind spec) (\<lambda>p.
     and_then (case refresh of Some r \<Rightarrow> validate_refresh_interval r | None \<Rightarrow> Inr None) (\<lambda>interval_secs.
       if refresh \<noteq> None \<and> ps_kind p \<noteq> UrlKind \<and> ps_kind p \<noteq> FeedKind
       then Inl (InvalidRequest ''refresh is only supported for URL and feed sources'')
       else Inr \<lparr>sr_id = new_id, sr_store_id = store_id, sr_kind = ps_kind p, sr_root = ps_root p, sr_url = ps_url p,
              sr_include = ps_include p, sr_exclude = ps_exclude p, sr_preset = preset, sr_refresh = refresh, sr_created_at = now,
              sr_config_json = ps_config_json p, sr_feed_etag = None, sr_feed_last_modified = None, sr_feed_inputs_digest = None\<rparr>))"

record feed_config =
  fc_max_entries :: "u32 option"
  fc_fetch_full_content :: bool

definition default_feed_config :: feed_config where
  "default_feed_config = \<lparr>fc_max_entries = None, fc_fetch_full_content = True\<rparr>"

definition parse_feed_config_json :: "json_ext \<Rightarrow> string option \<Rightarrow> feed_config" where
  "parse_feed_config_json jx config_json =
     (case config_json of
        None \<Rightarrow> default_feed_config
      | Some raw \<Rightarrow>
          (let trimmed = trim raw
           in if trimmed = [] then default_feed_config
              else case jx_from_str jx trimmed of
                     Some (JObject entries) \<Rightarrow>
                       \<lparr>fc_max_entries = map_option word_of_nat (Option.bind (json_get ''max_entries'' (JObject entries)) as_u64),
                        fc_fetch_full_content =
                          (case Option.bind (json_get ''fetch_full_content'' (JObject entries)) as_bool of Some b \<Rightarrow> b | None \<Rightarrow> True)\<rparr>
                   | _ \<Rightarrow> default_feed_config))"

definition refresh_interval_from :: "source_row \<Rightarrow> u64 option" where
  "refresh_interval_from row =
     (case sr_refresh row of
        None \<Rightarrow> None
      | Some s \<Rightarrow> (case validate_refresh_interval s of Inr v \<Rightarrow> map_option word_of_nat v | Inl e \<Rightarrow> None))"

definition or_empty :: "string option \<Rightarrow> string" where
  "or_empty x = (case x of Some s \<Rightarrow> s | None \<Rightarrow> [])"

definition path_row_to_spec :: "source_row \<Rightarrow> source_spec" where
  "path_row_to_spec row = PathSpec (or_empty (sr_root row)) (sr_include row) (sr_exclude row)"

definition url_row_to_spec :: "source_row \<Rightarrow> source_spec" where
  "url_row_to_spec row = UrlSpec (or_empty (sr_url row)) (refresh_interval_from row)"

definition feed_row_to_spec :: "json_ext \<Rightarrow> source_row \<Rightarrow> source_spec" where
  "feed_row_to_spec jx row =
     (let config = parse_feed_config_json jx (sr_config_json row)
      in FeedSpec (or_empty (sr_url row)) (fc_max_entries config) (fc_fetch_full_content config) (refresh_interval_from row))"

definition row_to_spec :: "json_ext \<Rightarrow> source_row \<Rightarrow> source_spec" where
  "row_to_spec jx row =
     (case sr_kind row of
        PathKind \<Rightarrow> path_row_to_spec row
      | UrlKind \<Rightarrow> url_row_to_spec row
      | FeedKind \<Rightarrow> feed_row_to_spec jx row)"

definition source_row_to_source :: "json_ext \<Rightarrow> source_row \<Rightarrow> source" where
  "source_row_to_source jx row =
     \<lparr>src_id = sr_id row, src_store_id = sr_store_id row, src_kind = sr_kind row, src_spec = row_to_spec jx row, src_preset = sr_preset row\<rparr>"

section \<open>What was accepted is what is run\<close>

lemmas row_specs = row_to_spec_def path_row_to_spec_def url_row_to_spec_def feed_row_to_spec_def

text \<open>serde_json reads what it printed, and prints no white space around an object.\<close>

definition prints_feed_config :: "json_ext \<Rightarrow> bool" where
  "prints_feed_config jx \<longleftrightarrow>
     (\<forall>m b. trim (build_feed_config_json jx m b) \<noteq> [] \<and>
        jx_from_str jx (trim (build_feed_config_json jx m b)) = Some (feed_config_value m b))"

lemma feed_config_roundtrip:
  assumes "prints_feed_config jx"
  shows "parse_feed_config_json jx (Some (build_feed_config_json jx m b)) = \<lparr>fc_max_entries = m, fc_fetch_full_content = b\<rparr>"
proof -
  have "map_option word_of_nat (Option.bind (Some (json_option (\<lambda>n. JNumber (uint n)) m)) as_u64) = m"
  proof (cases m)
    case (Some n)
    have "uint n < 2 ^ 64" using uint_lt2p [of n] by simp
    with Some show ?thesis by (simp add: json_option_def)
  qed (simp add: json_option_def)
  with assms show ?thesis
    by (simp add: parse_feed_config_json_def prints_feed_config_def Let_def) (simp add: feed_config_value_def)
qed

lemma all_strings_accepts: "all_strings field vs = Inr ss \<Longrightarrow> vs = map JString ss"
proof (induction vs arbitrary: ss)
  case (Cons v vs)
  then show ?case by (cases v) (auto simp: and_then_eq_Inr split: option.splits)
qed simp

lemma required_string_accepts: "required_string_field spec field msg = Inr s \<longleftrightarrow> json_get field spec = Some (JString s)"
proof (cases "json_get field spec")
  case (Some v)
  then show ?thesis by (cases v) (auto simp: required_string_field_def)
qed (simp add: required_string_field_def)

text \<open>An absent list of globs is the empty one.\<close>

definition requested_globs :: "json \<Rightarrow> string \<Rightarrow> string list \<Rightarrow> bool" where
  "requested_globs spec field globs \<longleftrightarrow>
     (case json_get field spec of None \<Rightarrow> globs = [] | Some v \<Rightarrow> v = JArray (map JString globs))"

lemma string_array_accepts: "string_array_field spec field = Inr ss \<Longrightarrow> requested_globs spec field ss"
proof (cases "json_get field spec")
  case (Some v)
  then show "string_array_field spec field = Inr ss \<Longrightarrow> requested_globs spec field ss"
    by (cases v) (auto simp: string_array_field_def requested_globs_def dest: all_strings_accepts)
qed (simp add: string_array_field_def requested_globs_def)

text \<open>An absent bound and a null one are no bound; an absent or null switch is on.\<close>

definition requested_entries :: "json \<Rightarrow> u32 option \<Rightarrow> bool" where
  "requested_entries spec max_entries \<longleftrightarrow>
     (case max_entries of
        None \<Rightarrow> json_get ''max_entries'' spec \<in> {None, Some JNull}
      | Some n \<Rightarrow> json_get ''max_entries'' spec = Some (JNumber (uint n)) \<and> n \<noteq> 0)"

definition requested_full :: "json \<Rightarrow> bool \<Rightarrow> bool" where
  "requested_full spec full \<longleftrightarrow>
     json_get ''fetch_full_content'' spec \<in> (if full then {None, Some JNull, Some (JBool True)} else {Some (JBool False)})"

lemma max_entries_accepts:
  "and_then (requested_max_entries jx spec) validate_max_entries = Inr m \<Longrightarrow> requested_entries spec m"
proof (cases "json_get ''max_entries'' spec")
  case (Some v)
  assume a: "and_then (requested_max_entries jx spec) validate_max_entries = Inr m"
  show ?thesis
  proof (cases v)
    case (JNumber k)
    with Some a have k: "0 \<le> k" "k < 2 ^ 32" "m = Some (word_of_nat (nat k))" "m \<noteq> Some 0"
      by (auto simp: requested_max_entries_def validate_max_entries_def and_then_eq_Inr split: if_splits)
    then have "uint (word_of_nat (nat k) :: u32) = k" using k by (simp add: unsigned_of_int take_bit_int_eq_self)
    with k Some JNumber show ?thesis by (simp add: requested_entries_def)
  qed (use a Some in \<open>auto simp: requested_max_entries_def validate_max_entries_def and_then_eq_Inr requested_entries_def\<close>)
qed (auto simp: requested_max_entries_def validate_max_entries_def and_then_eq_Inr requested_entries_def)

lemma full_content_accepts: "requested_full_content jx spec = Inr b \<Longrightarrow> requested_full spec b"
  by (auto simp: requested_full_content_def requested_full_def split: option.splits json.splits)

lemma parse_u64_bound: "parse_u64 s = Some n \<Longrightarrow> n < 2 ^ 64"
  by (auto simp: parse_u64_def Let_def split: if_splits list.splits)

lemma interval_bound: "validate_refresh_interval s = Inr (Some n) \<Longrightarrow> n < 2 ^ 64"
  by (auto simp: validate_refresh_interval_def Let_def checked_mul_def bind_eq_Some_conv dest: parse_u64_bound
      split: if_splits option.splits)

lemma interval_read_back:
  assumes "(case refresh of Some r \<Rightarrow> validate_refresh_interval r | None \<Rightarrow> Inr None) = Inr v" "sr_refresh row = refresh"
  shows "map_option unat (refresh_interval_from row) = v"
proof (cases refresh)
  case (Some r)
  with assms interval_bound [of r] show ?thesis
    by (cases v) (simp_all add: refresh_interval_from_def unsigned_of_nat take_bit_nat_eq_self)
qed (use assms in \<open>auto simp: refresh_interval_from_def\<close>)

lemma parsed_source_cases:
  assumes "parse_source_spec jx kind spec = Inr p"
  obtains (path) dir inc exc where "kind = ''path''" "json_get ''root'' spec = Some (JString dir)"
      "requested_globs spec ''include'' inc" "requested_globs spec ''exclude'' exc"
      "p = \<lparr>ps_kind = PathKind, ps_root = Some dir, ps_url = None, ps_include = inc, ps_exclude = exc, ps_config_json = None\<rparr>"
  | (url) url where "kind = ''url''" "json_get ''url'' spec = Some (JString url)"
      "p = \<lparr>ps_kind = UrlKind, ps_root = None, ps_url = Some url, ps_include = [], ps_exclude = [], ps_config_json = None\<rparr>"
  | (feed) url m full where "kind = ''feed''" "json_get ''url'' spec = Some (JString url)" "jx_scheme jx url \<in> {Some ''http'', Some ''https''}"
      "requested_entries spec m" "requested_full spec full"
      "p = \<lparr>ps_kind = FeedKind, ps_root = None, ps_url = Some url, ps_include = [], ps_exclude = [],
              ps_config_json = Some (build_feed_config_json jx m full)\<rparr>"
proof -
  consider (p) "kind = ''path''" "parse_path_spec spec = Inr p" | (u) "kind = ''url''" "parse_url_spec spec = Inr p"
    | (f) "kind = ''feed''" "parse_feed_spec jx spec = Inr p"
    using assms by (auto simp: parse_source_spec_def source_kind_str_def split: if_splits)
  then show thesis
  proof cases
    case p
    then show ?thesis
      by (auto simp: parse_path_spec_def and_then_eq_Inr required_string_accepts dest!: string_array_accepts intro: path)
  next
    case u
    then show ?thesis by (auto simp: parse_url_spec_def and_then_eq_Inr required_string_accepts intro: url)
  next
    case f
    then obtain url m full where "json_get ''url'' spec = Some (JString url)" "jx_scheme jx url \<in> {Some ''http'', Some ''https''}"
      "and_then (requested_max_entries jx spec) validate_max_entries = Inr m" "requested_full_content jx spec = Inr full"
      "p = \<lparr>ps_kind = FeedKind, ps_root = None, ps_url = Some url, ps_include = [], ps_exclude = [],
              ps_config_json = Some (build_feed_config_json jx m full)\<rparr>"
      by (auto simp: parse_feed_spec_def and_then_eq_Inr required_string_accepts split: if_splits)
    then show ?thesis using f(1) max_entries_accepts full_content_accepts by (intro feed) auto
  qed
qed

text \<open>
  C22: What a run indexes is what the request that made the source asked for. Whatever request is accepted,
  the source read back from the stored row has the kind, root, globs or URL of the request, the feed
  options it gave (or their defaults), no bound of zero entries, and the refresh interval the text means;
  a path source has none.
\<close>

theorem stored_source_reads_back:
  assumes "prints_feed_config jx" "new_source_row jx new_id now store kind spec preset refresh = Inr row"
  shows "(let source = source_row_to_source jx row;
              interval_of = (\<lambda>interval. (case refresh of Some r \<Rightarrow> validate_refresh_interval r | None \<Rightarrow> Inr None) =
                                         Inr (map_option unat interval))
          in src_id source = new_id \<and> src_store_id source = store \<and> src_preset source = preset \<and>
            kind = source_kind_str (src_kind source) \<and>
            (case src_spec source of
               PathSpec dir include exclude \<Rightarrow>
                 src_kind source = PathKind \<and> json_get ''root'' spec = Some (JString dir) \<and>
                 requested_globs spec ''include'' include \<and> requested_globs spec ''exclude'' exclude \<and> refresh = None
             | UrlSpec url interval \<Rightarrow>
                 src_kind source = UrlKind \<and> json_get ''url'' spec = Some (JString url) \<and> interval_of interval
             | FeedSpec url max_entries full interval \<Rightarrow>
                 src_kind source = FeedKind \<and> json_get ''url'' spec = Some (JString url) \<and>
                 jx_scheme jx url \<in> {Some ''http'', Some ''https''} \<and>
                 requested_entries spec max_entries \<and> requested_full spec full \<and> interval_of interval))"
proof -
  from assms(2) obtain p v where p: "parse_source_spec jx kind spec = Inr p"
      and v: "(case refresh of Some r \<Rightarrow> validate_refresh_interval r | None \<Rightarrow> Inr None) = Inr v"
      and path: "refresh \<noteq> None \<Longrightarrow> ps_kind p \<noteq> PathKind"
      and row: "sr_id row = new_id" "sr_store_id row = store" "sr_kind row = ps_kind p" "sr_root row = ps_root p" "sr_url row = ps_url p"
        "sr_include row = ps_include p" "sr_exclude row = ps_exclude p" "sr_preset row = preset" "sr_refresh row = refresh"
        "sr_config_json row = ps_config_json p"
    by (auto simp: new_source_row_def and_then_eq_Inr split: if_splits)
  note interval = interval_read_back [OF v row(9)]
  show ?thesis
    using p
  proof (cases rule: parsed_source_cases)
    case (path dir inc exc)
    then have "refresh = None" using assms(2) p path(5) \<open>refresh \<noteq> None \<Longrightarrow> ps_kind p \<noteq> PathKind\<close> by (cases refresh) simp_all
    then show ?thesis using path row
      by (simp add: source_row_to_source_def row_specs or_empty_def source_kind_str_def Let_def)
  next
    case (url url)
    then show ?thesis using row v interval
      by (simp add: source_row_to_source_def row_specs or_empty_def source_kind_str_def Let_def)
  next
    case (feed url m full)
    then show ?thesis using row v interval feed_config_roundtrip [OF assms(1)]
      by (simp add: source_row_to_source_def row_specs or_empty_def source_kind_str_def Let_def)
  qed
qed

text \<open>A printer and reader for the options of a feed, to run the statement on.\<close>

definition demo_print :: "json \<Rightarrow> string" where
  "demo_print v =
     (case v of
        JObject [(_, bound), (_, JBool full)] \<Rightarrow>
          (if full then CHR ''+'' else CHR ''-'') # (case bound of JNumber n \<Rightarrow> show_nat (nat n) | _ \<Rightarrow> ''.'')
      | _ \<Rightarrow> [])"

definition demo_read :: "string \<Rightarrow> json option" where
  "demo_read s =
     (case s of
        c # ds \<Rightarrow> Some (JObject [(''max_entries'', if ds = ''.'' then JNull else JNumber (int (digits_value ds))),
                              (''fetch_full_content'', JBool (c = CHR ''+''))])
      | _ \<Rightarrow> None)"

definition demo_json :: json_ext where
  "demo_json = \<lparr>jx_from_str = demo_read, jx_to_string = demo_print, jx_scheme = (\<lambda>url. if take 6 url = ''https:'' then Some ''https'' else None)\<rparr>"

lemma demo_prints: "prints_feed_config demo_json"
proof -
  have solid_ends: "trim (c # s) = c # s" if "solid c" "solid (last (c # s))" for c s
    using trim_solid [of "c # s"] that by simp
  have number: "show_nat n \<noteq> ''.''" for n using shown_digits [of n] by (auto simp: is_ascii_digit_def)
  have "trim (build_feed_config_json demo_json m b) = build_feed_config_json demo_json m b" for m b
    using shown_digits digit_not_space [OF last_digit]
    by (auto simp: build_feed_config_json_def demo_json_def feed_config_value_def demo_print_def json_option_def solid_def
        split: option.split intro!: solid_ends)
  then show ?thesis
    using number shown_value
    by (auto simp: prints_feed_config_def build_feed_config_json_def demo_json_def feed_config_value_def demo_print_def demo_read_def
        json_option_def split: option.split)
qed

lemma stored_source_reads_back_witness:
  "\<exists>row. new_source_row demo_json ''id'' ''now'' ''store'' ''feed''
       (JObject [(''url'', JString ''https://a''), (''max_entries'', JNumber 9)]) ''prose'' (Some (show_nat 1 @ ''h'')) = Inr row \<and>
     (\<exists>m interval. src_spec (source_row_to_source demo_json row) = FeedSpec ''https://a'' m True interval)"
proof -
  let ?spec = "JObject [(''url'', JString ''https://a''), (''max_entries'', JNumber 9)]"
  have "validate_refresh_interval (show_nat 1 @ ''h'') = Inr (Some 3600)"
    using validate_show [of "''h''" 3600 1] by simp
  then obtain row where row: "new_source_row demo_json ''id'' ''now'' ''store'' ''feed'' ?spec ''prose'' (Some (show_nat 1 @ ''h'')) = Inr row"
    by (simp add: new_source_row_def parse_source_spec_def source_kind_str_def parse_feed_spec_def required_string_field_def demo_json_def
        requested_max_entries_def requested_full_content_def validate_max_entries_def)
  show ?thesis using stored_source_reads_back [OF demo_prints row] row
    by (auto simp: Let_def source_kind_str_def requested_full_def split: source_spec.splits source_kind.splits if_splits)
qed

end
