(* ===== verification/Scheduler.thy ===== *)
theory Scheduler
  imports QueueEvents Sources Pipeline
begin

text \<open>
  The refresh scheduler (\<open>server/src/scheduler.rs\<close>) beside the job queue: the records of the sources, the
  tick that submits a job for every source that is due, and the watcher each job leaves behind. Instants
  and intervals are naturals of one unit.
\<close>

section \<open>Records\<close>

record refresh_record =
  rr_source_id :: string
  rr_store_name :: string
  rr_url :: string
  rr_interval :: "nat option"
  rr_last_refreshed :: "nat option"
  rr_inflight :: bool

definition is_due :: "nat \<Rightarrow> refresh_record \<Rightarrow> bool" where
  "is_due now r \<longleftrightarrow>
     (if rr_inflight r then False
      else case rr_interval r of
             None \<Rightarrow> False
           | Some interval \<Rightarrow> (case rr_last_refreshed r of None \<Rightarrow> True | Some stamped \<Rightarrow> now - stamped \<ge> interval))"

type_synonym refresh_records = "(string \<times> refresh_record) list"

definition register :: "string \<Rightarrow> string \<Rightarrow> string \<Rightarrow> nat option \<Rightarrow> refresh_records \<Rightarrow> refresh_records" where
  "register source_id store_name url interval recs =
     AList.update source_id \<lparr>rr_source_id = source_id, rr_store_name = store_name, rr_url = url, rr_interval = interval,
       rr_last_refreshed = None, rr_inflight = False\<rparr> recs"

definition unregister :: "string \<Rightarrow> refresh_records \<Rightarrow> refresh_records" where
  "unregister source_id recs = AList.delete source_id recs"

definition due_records :: "nat \<Rightarrow> refresh_records \<Rightarrow> refresh_record list" where
  "due_records now recs = filter (is_due now) (map snd recs)"

definition mark_inflight :: "string \<Rightarrow> refresh_records \<Rightarrow> refresh_records" where
  "mark_inflight source_id recs =
     (case map_of recs source_id of Some r \<Rightarrow> AList.update source_id (r\<lparr>rr_inflight := True\<rparr>) recs | None \<Rightarrow> recs)"

text \<open>What the watcher of a job writes once the job is over.\<close>

definition stamp :: "nat \<Rightarrow> string \<Rightarrow> refresh_records \<Rightarrow> refresh_records" where
  "stamp now source_id recs =
     (case map_of recs source_id of
        Some r \<Rightarrow> AList.update source_id (r\<lparr>rr_last_refreshed := Some now, rr_inflight := False\<rparr>) recs
      | None \<Rightarrow> recs)"

definition source_count :: "refresh_records \<Rightarrow> nat" where
  "source_count recs = length recs"

text \<open>
  The registration when the daemon starts: a stored source of kind URL or feed with a URL is registered
  under the interval its stored text reads as; a store whose sources cannot be listed is passed over.
\<close>

definition register_stored :: "string \<Rightarrow> source_row \<Rightarrow> refresh_records \<Rightarrow> refresh_records" where
  "register_stored store_name source recs =
     (if sr_kind source = UrlKind \<or> sr_kind source = FeedKind
      then (case sr_url source of
              Some url \<Rightarrow> register (sr_id source) store_name url (Option.bind (sr_refresh source) parse_refresh_interval) recs
            | None \<Rightarrow> recs)
      else recs)"

definition register_all ::
  "(error + (string \<times> string) list) \<Rightarrow> (string \<Rightarrow> error + source_row list) \<Rightarrow> refresh_records \<Rightarrow> refresh_records" where
  "register_all stores list_sources recs =
     (case stores of
        Inl e \<Rightarrow> recs
      | Inr ss \<Rightarrow>
          fold (\<lambda>(store_id, store_name) recs.
                  case list_sources store_id of
                    Inl e \<Rightarrow> recs
                  | Inr sources \<Rightarrow> fold (register_stored store_name) sources recs) ss recs)"

text \<open>
  What a submitted job runs: the ingestion of its source, which never prunes. Looking up the store and
  running the job are operations of the daemon's state.
\<close>

definition run_refresh_job ::
  "'st option \<Rightarrow> ('st \<Rightarrow> string \<Rightarrow> error + 'row option) \<Rightarrow>
   ('st \<Rightarrow> 'row \<Rightarrow> job_scope \<Rightarrow> deletion_policy \<Rightarrow> bool \<Rightarrow> error + 'stats) \<Rightarrow> string \<Rightarrow> string \<Rightarrow> error + 'stats" where
  "run_refresh_job state get_store_by_name run_scoped_job store_name source_id =
     (case state of
        None \<Rightarrow> Inl (Internal ''URL refresh scheduler has no state attached'' ''url_refresh_no_state'')
      | Some st \<Rightarrow>
          and_then (get_store_by_name st store_name) (\<lambda>row.
            case row of
              None \<Rightarrow> Inl (StoreNotFound store_name)
            | Some store_row \<Rightarrow> run_scoped_job st store_row (ScopeSource source_id) Retain False))"

section \<open>The scheduler and the queue\<close>

text \<open>
  Where the loop is: asleep, at the records still to be submitted, or in the middle of one of them: the
  guard of its store is taken, its job exists, the submit call has returned, the record is marked.
\<close>

datatype tick_pc =
    TickAsleep
  | TickAt "refresh_record list"
  | TickReserved refresh_record "refresh_record list"
  | TickCreated string refresh_record "refresh_record list"
  | TickReturned string refresh_record "refresh_record list"
  | TickMarked string refresh_record "refresh_record list"

text \<open>The log: jobs the scheduler created and records the watchers stamped, the newest first.\<close>

datatype refresh_event = RefreshSubmitted nat refresh_record string | RefreshStamped nat string string

record refresh_sys =
  rs_queue :: sys
  rs_records :: refresh_records
  rs_tick :: tick_pc
  rs_watching :: "(string \<times> string) multiset"
  rs_now :: nat
  rs_known :: "string set"
  rs_again :: "string set"
  rs_log :: "refresh_event list"

definition init_refresh :: "nat \<Rightarrow> refresh_sys" where
  "init_refresh n = \<lparr>rs_queue = init_sys n, rs_records = [], rs_tick = TickAsleep, rs_watching = {#}, rs_now = 0, rs_known = {},
     rs_again = {}, rs_log = []\<rparr>"

text \<open>The submit calls that are between the creation of job \<open>i\<close> and their return.\<close>

definition call_of :: "submit_pc \<Rightarrow> string option" where
  "call_of pc =
     (case pc of
        SReserved st sc \<Rightarrow> None
      | SInstalled j \<Rightarrow> Some (job_id j)
      | SRegistered j \<Rightarrow> Some (job_id j)
      | SSendFailed j \<Rightarrow> Some (job_id j)
      | SReleased j \<Rightarrow> Some (job_id j)
      | SFailed j snap \<Rightarrow> Some (job_id j))"

text \<open>
  The queue moves on its own: workers, other submit calls, cancellations, and the rest of the tick's own
  submit call. A tick works on the records due when it began. Registering an id that was registered
  before is remembered in \<open>rs_again\<close>.
\<close>

inductive rstep :: "refresh_sys \<Rightarrow> refresh_sys \<Rightarrow> bool" where
  time_passes: "rs_now s \<le> t \<Longrightarrow> rstep s (s\<lparr>rs_now := t\<rparr>)"
| queue_moves: "qstep (rs_queue s) q \<Longrightarrow> rstep s (s\<lparr>rs_queue := q\<rparr>)"
| source_registered:
    "rstep s (s\<lparr>rs_records := register sid st url interval (rs_records s), rs_known := insert sid (rs_known s),
                rs_again := (if sid \<in> rs_known s then insert sid (rs_again s) else rs_again s)\<rparr>)"
| source_unregistered: "rstep s (s\<lparr>rs_records := unregister sid (rs_records s)\<rparr>)"
| tick_begin: "rs_tick s = TickAsleep \<Longrightarrow> rstep s (s\<lparr>rs_tick := TickAt (due_records (rs_now s) (rs_records s))\<rparr>)"
| tick_end: "rs_tick s = TickAt [] \<Longrightarrow> rstep s (s\<lparr>rs_tick := TickAsleep\<rparr>)"
| tick_refused:
    "rs_tick s = TickAt (r # rest) \<Longrightarrow> submit_reserve (rr_store_name r) (sq (rs_queue s)) = Inl e \<Longrightarrow>
     rstep s (s\<lparr>rs_tick := TickAt rest\<rparr>)"
| tick_reserve:
    "rs_tick s = TickAt (r # rest) \<Longrightarrow> submit_reserve (rr_store_name r) (sq (rs_queue s)) = Inr q \<Longrightarrow>
     rstep s (s\<lparr>rs_queue := (rs_queue s)\<lparr>sq := q,
                  calls := add_mset (SReserved (rr_store_name r) (ScopeSource (rr_source_id r))) (calls (rs_queue s))\<rparr>,
                rs_tick := TickReserved r rest\<rparr>)"
| tick_create:
    "rs_tick s = TickReserved r rest \<Longrightarrow>
     calls (rs_queue s) = add_mset (SReserved (rr_store_name r) (ScopeSource (rr_source_id r))) C \<Longrightarrow> i \<notin> used_ids (rs_queue s) \<Longrightarrow>
     rstep s (s\<lparr>rs_queue := (rs_queue s)\<lparr>sq := submit_install i (sq (rs_queue s)),
                  calls := add_mset (SInstalled (create_index_job i stamp_text (rr_store_name r) (ScopeSource (rr_source_id r)))) C,
                  used_ids := insert i (used_ids (rs_queue s))\<rparr>,
                rs_tick := TickCreated i r rest, rs_log := RefreshSubmitted (rs_now s) r i # rs_log s\<rparr>)"
| tick_return:
    "rs_tick s = TickCreated i r rest \<Longrightarrow> \<forall>pc \<in># calls (rs_queue s). call_of pc \<noteq> Some i \<Longrightarrow>
     rstep s (s\<lparr>rs_tick := TickReturned i r rest\<rparr>)"
| tick_mark:
    "rs_tick s = TickReturned i r rest \<Longrightarrow>
     rstep s (s\<lparr>rs_records := mark_inflight (rr_source_id r) (rs_records s), rs_tick := TickMarked i r rest\<rparr>)"
| tick_watch:
    "rs_tick s = TickMarked i r rest \<Longrightarrow>
     rstep s (s\<lparr>rs_watching := add_mset (rr_source_id r, i) (rs_watching s), rs_tick := TickAt rest\<rparr>)"
| watcher_stamps:
    "rs_watching s = add_mset (sid, i) W \<Longrightarrow> i \<notin> handles (sq (rs_queue s)) \<Longrightarrow>
     rstep s (s\<lparr>rs_records := stamp (rs_now s) sid (rs_records s), rs_watching := W,
                rs_log := RefreshStamped (rs_now s) sid i # rs_log s\<rparr>)"

inductive rreachable :: "nat \<Rightarrow> refresh_sys \<Rightarrow> bool" for n where
  rreach_init: "rreachable n (init_refresh n)"
| rreach_step: "rreachable n s \<Longrightarrow> rstep s t \<Longrightarrow> rreachable n t"

text \<open>The queue of a reachable scheduler is a reachable queue.\<close>

lemma rstep_queue: "rstep s t \<Longrightarrow> rs_queue t = rs_queue s \<or> qstep (rs_queue s) (rs_queue t)"
proof (induction rule: rstep.induct)
  case (tick_reserve s r rest q)
  then show ?case by (auto intro: qstep.submit_begin)
next
  case (tick_create s r rest C i)
  then show ?case by (auto intro: qstep.submit_create)
qed auto

lemma rreachable_queue: "rreachable n s \<Longrightarrow> reachable n (rs_queue s)"
proof (induction rule: rreachable.induct)
  case (rreach_step s t)
  then show ?case using rstep_queue [OF rreach_step(2)] by (auto intro: reach_step)
qed (simp add: init_refresh_def reach_init)

end
