(* ===== verification/SchedulerSafety.thy ===== *)
theory SchedulerSafety
  imports Scheduler
begin

text \<open>
  What the scheduler guarantees: a source is refreshed by one job at a time, and after a job it is left
  alone for a whole interval, however the job ended.
\<close>

section \<open>The history of one source\<close>

fun event_source :: "refresh_event \<Rightarrow> string" where
  "event_source (RefreshSubmitted t r i) = rr_source_id r"
| "event_source (RefreshStamped t sid i) = sid"

fun event_time :: "refresh_event \<Rightarrow> nat" where
  "event_time (RefreshSubmitted t r i) = t"
| "event_time (RefreshStamped t sid i) = t"

definition history :: "string \<Rightarrow> refresh_sys \<Rightarrow> refresh_event list" where
  "history sid s = filter (\<lambda>e. event_source e = sid) (rs_log s)"

text \<open>
  Jobs and stamps alternate, newest first: a stamp is that of the job before it, and a job is created no
  earlier than its interval after the stamp before it.
\<close>

fun backs_off :: "refresh_event list \<Rightarrow> bool" where
  "backs_off [] = True"
| "backs_off (RefreshSubmitted t r i # es) =
     (backs_off es \<and>
      (case es of
         [] \<Rightarrow> True
       | RefreshStamped t0 sid j # _ \<Rightarrow> (\<exists>interval. rr_interval r = Some interval \<and> t0 + interval \<le> t)
       | RefreshSubmitted t0 r0 j # _ \<Rightarrow> False))"
| "backs_off (RefreshStamped t sid i # es) =
     (backs_off es \<and> (case es of RefreshSubmitted t0 r j # _ \<Rightarrow> i = j \<and> t0 \<le> t | _ \<Rightarrow> False))"

section \<open>The invariant\<close>

text \<open>The records a tick has still to create a job for, the job it is busy with, and whether it is yet to be marked.\<close>

fun waiting :: "tick_pc \<Rightarrow> refresh_record list" where
  "waiting TickAsleep = []"
| "waiting (TickAt rs) = rs"
| "waiting (TickReserved r rs) = r # rs"
| "waiting (TickCreated i r rs) = rs"
| "waiting (TickReturned i r rs) = rs"
| "waiting (TickMarked i r rs) = rs"

fun busy_with :: "tick_pc \<Rightarrow> (string \<times> string) multiset" where
  "busy_with (TickCreated i r rs) = {#(rr_source_id r, i)#}"
| "busy_with (TickReturned i r rs) = {#(rr_source_id r, i)#}"
| "busy_with (TickMarked i r rs) = {#(rr_source_id r, i)#}"
| "busy_with _ = {#}"

fun unmarked :: "tick_pc \<Rightarrow> string option" where
  "unmarked (TickCreated i r rs) = Some (rr_source_id r)"
| "unmarked (TickReturned i r rs) = Some (rr_source_id r)"
| "unmarked _ = None"

fun tick_ids :: "tick_pc \<Rightarrow> string list" where
  "tick_ids TickAsleep = []"
| "tick_ids (TickAt rs) = map rr_source_id rs"
| "tick_ids (TickReserved r rs) = map rr_source_id (r # rs)"
| "tick_ids (TickCreated i r rs) = map rr_source_id (r # rs)"
| "tick_ids (TickReturned i r rs) = map rr_source_id (r # rs)"
| "tick_ids (TickMarked i r rs) = map rr_source_id (r # rs)"

definition outstanding :: "string \<Rightarrow> refresh_sys \<Rightarrow> string multiset" where
  "outstanding sid s = image_mset snd (filter_mset (\<lambda>w. fst w = sid) (rs_watching s + busy_with (rs_tick s)))"

text \<open>What holds of one source: its history, its unstamped jobs, its record, and its place in the tick.\<close>

definition source_ok ::
  "refresh_event list \<Rightarrow> string multiset \<Rightarrow> refresh_record option \<Rightarrow> refresh_record list \<Rightarrow> bool \<Rightarrow> nat \<Rightarrow> bool" where
  "source_ok evs out rec ws un now \<longleftrightarrow>
     backs_off evs \<and>
     (case evs of
        [] \<Rightarrow> out = {#}
      | RefreshStamped t0 sid i # _ \<Rightarrow>
          out = {#} \<and> t0 \<le> now \<and> (\<forall>r. rec = Some r \<longrightarrow> rr_last_refreshed r = Some t0) \<and>
          (\<forall>r \<in> set ws. \<exists>interval. rr_interval r = Some interval \<and> t0 + interval \<le> now)
      | RefreshSubmitted t r i # _ \<Rightarrow>
          out = {#i#} \<and> t \<le> now \<and> ws = [] \<and> (\<forall>r. rec = Some r \<longrightarrow> rr_inflight r \<or> un))"

definition source_inv :: "refresh_sys \<Rightarrow> string \<Rightarrow> bool" where
  "source_inv s sid \<longleftrightarrow>
     source_ok (history sid s) (outstanding sid s) (map_of (rs_records s) sid)
       (filter (\<lambda>r. rr_source_id r = sid) (waiting (rs_tick s))) (unmarked (rs_tick s) = Some sid) (rs_now s)"

definition shape_inv :: "refresh_sys \<Rightarrow> bool" where
  "shape_inv s \<longleftrightarrow>
     distinct (map fst (rs_records s)) \<and> (\<forall>p \<in> set (rs_records s). rr_source_id (snd p) = fst p \<and> fst p \<in> rs_known s) \<and>
     distinct (tick_ids (rs_tick s)) \<and> set (tick_ids (rs_tick s)) \<subseteq> rs_known s \<and>
     event_source ` set (rs_log s) \<subseteq> rs_known s \<and> fst ` set_mset (rs_watching s) \<subseteq> rs_known s"

lemma source_ok_simps:
  "source_ok [] out rec ws un now \<longleftrightarrow> out = {#}"
  "source_ok (RefreshStamped t0 sid i # es) out rec ws un now \<longleftrightarrow>
     backs_off (RefreshStamped t0 sid i # es) \<and> out = {#} \<and> t0 \<le> now \<and> (\<forall>r. rec = Some r \<longrightarrow> rr_last_refreshed r = Some t0) \<and>
     (\<forall>r \<in> set ws. \<exists>interval. rr_interval r = Some interval \<and> t0 + interval \<le> now)"
  "source_ok (RefreshSubmitted t r i # es) out rec ws un now \<longleftrightarrow>
     backs_off (RefreshSubmitted t r i # es) \<and> out = {#i#} \<and> t \<le> now \<and> ws = [] \<and> (\<forall>r. rec = Some r \<longrightarrow> rr_inflight r \<or> un)"
  by (auto simp: source_ok_def)

lemma history_cases:
  obtains "evs = []" | t r i es where "evs = RefreshSubmitted t r i # es" | t sid i es where "evs = RefreshStamped t sid i # es"
  by (metis list.exhaust refresh_event.exhaust)

lemma source_ok_later: "source_ok evs out rec ws un now \<Longrightarrow> now \<le> now' \<Longrightarrow> source_ok evs out rec ws un now'"
  by (cases evs rule: history_cases) (auto simp: source_ok_simps simp del: backs_off.simps intro: order_trans dest!: bspec)

lemma source_ok_drop:
  "source_ok evs out rec (r # ws) un now \<Longrightarrow> source_ok evs out rec ws un now"
  by (cases evs rule: history_cases) (auto simp: source_ok_simps simp del: backs_off.simps)

lemma source_ok_unregistered: "source_ok evs out rec ws un now \<Longrightarrow> source_ok evs out None ws un now"
  by (cases evs rule: history_cases) (auto simp: source_ok_simps simp del: backs_off.simps)

text \<open>Records.\<close>

lemma records_shape:
  assumes "distinct (map fst recs)" "\<forall>p \<in> set recs. rr_source_id (snd p) = fst p \<and> fst p \<in> K"
  shows "distinct (map fst (AList.update k x recs))" "distinct (map fst (AList.delete k recs))"
    "rr_source_id x = k \<Longrightarrow> k \<in> K' \<Longrightarrow> K \<subseteq> K' \<Longrightarrow> \<forall>p \<in> set (AList.update k x recs). rr_source_id (snd p) = fst p \<and> fst p \<in> K'"
    "\<forall>p \<in> set (AList.delete k recs). rr_source_id (snd p) = fst p \<and> fst p \<in> K"
proof -
  have "p = (k, x) \<or> p \<in> set recs" if "p \<in> set (AList.update k x recs)" for p
    using that by (induction recs) (auto split: if_splits)
  then show "rr_source_id x = k \<Longrightarrow> k \<in> K' \<Longrightarrow> K \<subseteq> K' \<Longrightarrow> \<forall>p \<in> set (AList.update k x recs). rr_source_id (snd p) = fst p \<and> fst p \<in> K'"
    using assms(2) by (metis fst_conv snd_conv subsetD)
  show "distinct (map fst (AList.update k x recs))" "distinct (map fst (AList.delete k recs))"
    using assms(1) by (simp_all add: distinct_update distinct_delete)
  show "\<forall>p \<in> set (AList.delete k recs). rr_source_id (snd p) = fst p \<and> fst p \<in> K" using assms(2) by (simp add: AList.delete_eq)
qed

lemma due_ids:
  assumes "distinct (map fst recs)" "\<forall>p \<in> set recs. rr_source_id (snd p) = fst p \<and> fst p \<in> K"
  shows "distinct (map rr_source_id (due_records now recs))" "rr_source_id ` set (due_records now recs) \<subseteq> K"
    "filter (\<lambda>r. rr_source_id r = sid) (due_records now recs) =
       (case map_of recs sid of Some r \<Rightarrow> if is_due now r then [r] else [] | None \<Rightarrow> [])"
proof -
  have ids: "map rr_source_id (map snd recs) = map fst recs" using assms(2) by (auto intro!: map_cong)
  then show "distinct (map rr_source_id (due_records now recs))"
    using assms(1) by (metis distinct_map_filter due_records_def)
  show "rr_source_id ` set (due_records now recs) \<subseteq> K" using assms(2) by (auto simp: due_records_def)
  show "filter (\<lambda>r. rr_source_id r = sid) (due_records now recs) =
       (case map_of recs sid of Some r \<Rightarrow> if is_due now r then [r] else [] | None \<Rightarrow> [])"
    using assms
  proof (induction recs)
    case (Cons p recs)
    obtain k r where p: "p = (k, r)" by (cases p)
    with Cons.prems have k: "rr_source_id r = k" "k \<notin> fst ` set recs" by auto
    show ?case
    proof (cases "k = sid")
      case True
      with k have "map_of recs sid = None" by (simp add: map_of_eq_None_iff)
      with Cons p k True show ?thesis by (auto simp: due_records_def)
    next
      case False
      with Cons p k show ?thesis by (auto simp: due_records_def)
    qed
  qed (simp add: due_records_def)
qed

lemma modify_records:
  assumes "map_of recs k = Some r" "\<And>q. rr_source_id (f q) = rr_source_id q"
    and "distinct (map fst recs)" "\<forall>p \<in> set recs. rr_source_id (snd p) = fst p \<and> fst p \<in> K"
  shows "distinct (map fst (AList.update k (f r) recs))"
    "\<forall>p \<in> set (AList.update k (f r) recs). rr_source_id (snd p) = fst p \<and> fst p \<in> K"
proof -
  have "(k, r) \<in> set recs" using assms(1) by (rule map_of_SomeD)
  then have "rr_source_id (f r) = k" "k \<in> K" using assms(2,4) by force+
  then show "distinct (map fst (AList.update k (f r) recs))"
    "\<forall>p \<in> set (AList.update k (f r) recs). rr_source_id (snd p) = fst p \<and> fst p \<in> K"
    using records_shape [OF assms(3,4)] by simp_all
qed

lemma mark_lookup: "map_of (mark_inflight k recs) sid =
    (if sid = k then map_option (\<lambda>r. r\<lparr>rr_inflight := True\<rparr>) (map_of recs sid) else map_of recs sid)"
  by (simp add: mark_inflight_def update_conv' split: option.split)

lemma stamp_lookup: "map_of (stamp now k recs) sid =
    (if sid = k then map_option (\<lambda>r. r\<lparr>rr_last_refreshed := Some now, rr_inflight := False\<rparr>) (map_of recs sid) else map_of recs sid)"
  by (simp add: stamp_def update_conv' split: option.split)

lemma mark_shape:
  assumes "distinct (map fst recs)" "\<forall>p \<in> set recs. rr_source_id (snd p) = fst p \<and> fst p \<in> K"
  shows "distinct (map fst (mark_inflight k recs))" "\<forall>p \<in> set (mark_inflight k recs). rr_source_id (snd p) = fst p \<and> fst p \<in> K"
  using assms modify_records [where f = "\<lambda>r. r\<lparr>rr_inflight := True\<rparr>" and K = K and recs = recs and k = k]
  by (simp_all add: mark_inflight_def split: option.split)

lemma stamp_shape:
  assumes "distinct (map fst recs)" "\<forall>p \<in> set recs. rr_source_id (snd p) = fst p \<and> fst p \<in> K"
  shows "distinct (map fst (stamp now k recs))" "\<forall>p \<in> set (stamp now k recs). rr_source_id (snd p) = fst p \<and> fst p \<in> K"
  using assms modify_records [where f = "\<lambda>r. r\<lparr>rr_last_refreshed := Some now, rr_inflight := False\<rparr>" and K = K and recs = recs and k = k]
  by (simp_all add: stamp_def split: option.split)

lemma shape_step: "rstep s t \<Longrightarrow> shape_inv s \<Longrightarrow> shape_inv t"
proof (induction rule: rstep.induct)
  case (source_registered s sid st url interval)
  then have R: "distinct (map fst (rs_records s))" "\<forall>p \<in> set (rs_records s). rr_source_id (snd p) = fst p \<and> fst p \<in> rs_known s"
    by (simp_all add: shape_inv_def)
  have "\<forall>p \<in> set (register sid st url interval (rs_records s)). rr_source_id (snd p) = fst p \<and> fst p \<in> insert sid (rs_known s)"
    unfolding register_def by (rule records_shape(3) [OF R]) auto
  moreover have "distinct (map fst (register sid st url interval (rs_records s)))"
    unfolding register_def by (rule records_shape(1) [OF R])
  ultimately show ?case using source_registered by (auto simp: shape_inv_def)
next
  case (source_unregistered s sid)
  then show ?case
    using records_shape(2,4) [of "rs_records s" "rs_known s" sid] by (simp add: shape_inv_def unregister_def)
next
  case (tick_begin s)
  then show ?case using due_ids(1,2) [of "rs_records s" "rs_known s" "rs_now s"] by (simp add: shape_inv_def)
next
  case (tick_mark s i r rest)
  then show ?case using mark_shape [of "rs_records s" "rs_known s" "rr_source_id r"] by (simp add: shape_inv_def)
next
  case (watcher_stamps s sid i W)
  then show ?case using stamp_shape [of "rs_records s" "rs_known s" "rs_now s" sid] by (simp add: shape_inv_def)
qed (simp_all add: shape_inv_def)

lemma unknown_quiet:
  assumes "shape_inv s" "sid \<notin> rs_known s"
  shows "history sid s = []" "outstanding sid s = {#}" "filter (\<lambda>r. rr_source_id r = sid) (waiting (rs_tick s)) = []"
proof -
  show "history sid s = []" using assms by (auto simp: history_def shape_inv_def filter_empty_conv)
  have "sid \<notin> set (tick_ids (rs_tick s))" using assms by (auto simp: shape_inv_def)
  then show "filter (\<lambda>r. rr_source_id r = sid) (waiting (rs_tick s)) = []"
    by (cases "rs_tick s") (auto simp: filter_empty_conv)
  have "filter_mset (\<lambda>w. fst w = sid) (rs_watching s) = {#}" by (intro multiset_eqI) (use assms in \<open>auto simp: shape_inv_def count_eq_zero_iff\<close>)
  moreover have "filter_mset (\<lambda>w. fst w = sid) (busy_with (rs_tick s)) = {#}"
    using \<open>sid \<notin> set (tick_ids (rs_tick s))\<close> by (cases "rs_tick s") auto
  ultimately show "outstanding sid s = {#}" by (simp add: outstanding_def)
qed

lemma source_ok_created:
  assumes "source_ok evs out rec [r] un now"
  shows "source_ok (RefreshSubmitted now r i # evs) {#i#} rec [] True now" "out = {#}"
  using assms by (cases evs rule: history_cases; auto simp: source_ok_simps)+

lemma source_ok_stamped:
  assumes "source_ok evs out rec ws un now" "i \<in># out"
  shows "source_ok (RefreshStamped now sid i # evs) {#} (map_option (\<lambda>r. r\<lparr>rr_last_refreshed := Some now, rr_inflight := False\<rparr>) rec) ws un' now"
    "out = {#i#}"
  using assms by (cases evs rule: history_cases; auto simp: source_ok_simps)+

lemma source_ok_marked:
  "source_ok evs out rec ws un now \<Longrightarrow> source_ok evs out (map_option (\<lambda>r. r\<lparr>rr_inflight := True\<rparr>) rec) ws False now"
  by (cases evs rule: history_cases) (auto simp: source_ok_simps simp del: backs_off.simps)

lemma source_ok_due:
  "source_ok evs out (Some r) [] False now \<Longrightarrow> is_due now r \<Longrightarrow> source_ok evs out (Some r) [r] False now"
  by (cases evs rule: history_cases)
     (auto simp: source_ok_simps is_due_def simp del: backs_off.simps split: option.splits if_splits)

lemma filter_others: "sid \<notin> rr_source_id ` set rs \<Longrightarrow> filter (\<lambda>r. rr_source_id r = sid) rs = []"
  by (induction rs) auto

lemma source_step: "rstep s t \<Longrightarrow> shape_inv s \<Longrightarrow> sid \<notin> rs_again t \<Longrightarrow> source_inv s sid \<Longrightarrow> source_inv t sid"
proof (induction rule: rstep.induct)
  case (time_passes s t)
  then show ?case by (auto simp: source_inv_def history_def outstanding_def intro: source_ok_later)
next
  case (source_registered s sid' st url interval)
  show ?case
  proof (cases "sid = sid'")
    case True
    with source_registered have "sid \<notin> rs_known s" by (auto split: if_splits)
    from unknown_quiet [OF source_registered(1) this] show ?thesis
      by (simp add: source_inv_def history_def outstanding_def source_ok_simps)
  next
    case False
    with source_registered show ?thesis by (simp add: source_inv_def history_def outstanding_def register_def update_conv')
  qed
next
  case (source_unregistered s sid')
  then show ?case
    by (cases "sid = sid'")
      (auto simp: source_inv_def history_def outstanding_def unregister_def delete_conv' intro: source_ok_unregistered)
next
  case (tick_begin s)
  have D: "filter (\<lambda>r. rr_source_id r = sid) (due_records (rs_now s) (rs_records s)) =
      (case map_of (rs_records s) sid of Some r \<Rightarrow> if is_due (rs_now s) r then [r] else [] | None \<Rightarrow> [])"
    using tick_begin(2) by (intro due_ids(3) [where K = "rs_known s"]) (simp_all add: shape_inv_def)
  show ?case
    using tick_begin
    by (auto simp: source_inv_def history_def outstanding_def D split: option.split intro: source_ok_due)
next
  case (tick_refused s r rest e)
  then show ?case by (auto simp: source_inv_def history_def outstanding_def split: if_splits intro: source_ok_drop)
next
  case (tick_create s r rest C i)
  show ?case
  proof (cases "rr_source_id r = sid")
    case True
    have "filter (\<lambda>r. rr_source_id r = sid) rest = []" using tick_create(1,4) True by (intro filter_others) (auto simp: shape_inv_def)
    moreover from this have "source_ok (history sid s) (outstanding sid s) (map_of (rs_records s) sid) [r] False (rs_now s)"
      using tick_create(1,6) True by (simp add: source_inv_def)
    note S = source_ok_created [OF this]
    have W: "image_mset snd (filter_mset (\<lambda>w. fst w = sid) (rs_watching s)) = {#}"
      using S(2) unfolding outstanding_def tick_create(1) by (simp only: busy_with.simps add_0_right)
    ultimately show ?thesis
      using S(1) [of i] True tick_create(1) by (simp add: source_inv_def history_def outstanding_def W)
  next
    case False
    with tick_create show ?thesis by (simp add: source_inv_def history_def outstanding_def)
  qed
next
  case (tick_mark s i r rest)
  show ?case
  proof (cases "rr_source_id r = sid")
    case True
    with tick_mark have "source_ok (history sid s) (outstanding sid s) (map_of (rs_records s) sid)
        (filter (\<lambda>r. rr_source_id r = sid) rest) True (rs_now s)" by (simp add: source_inv_def)
    from source_ok_marked [OF this] True tick_mark(1) show ?thesis
      by (simp add: source_inv_def history_def outstanding_def mark_lookup)
  next
    case False
    with tick_mark show ?thesis by (simp add: source_inv_def history_def outstanding_def mark_lookup)
  qed
next
  case (watcher_stamps s sid' i W)
  show ?case
  proof (cases "sid' = sid")
    case True
    have ok: "source_ok (history sid s) (outstanding sid s) (map_of (rs_records s) sid)
        (filter (\<lambda>r. rr_source_id r = sid) (waiting (rs_tick s))) (unmarked (rs_tick s) = Some sid) (rs_now s)"
      using watcher_stamps(5) by (simp add: source_inv_def)
    have "i \<in># outstanding sid s" using watcher_stamps(1) True by (simp add: outstanding_def)
    note S = source_ok_stamped [OF ok this]
    have "outstanding sid (s\<lparr>rs_records := stamp (rs_now s) sid (rs_records s), rs_watching := W,
        rs_log := RefreshStamped (rs_now s) sid i # rs_log s\<rparr>) = {#}"
      using S(2) [unfolded outstanding_def watcher_stamps(1)] True by (simp add: outstanding_def)
    with S(1) True show ?thesis by (simp add: source_inv_def history_def stamp_lookup)
  next
    case False
    with watcher_stamps show ?thesis by (simp add: source_inv_def history_def outstanding_def stamp_lookup)
  qed
qed (simp_all add: source_inv_def history_def outstanding_def)

lemma again_step: "rstep s t \<Longrightarrow> rs_again s \<subseteq> rs_again t"
  by (induction rule: rstep.induct) auto

lemma rreachable_shape: "rreachable n s \<Longrightarrow> shape_inv s"
proof (induction rule: rreachable.induct)
  case rreach_init
  then show ?case by (simp add: shape_inv_def init_refresh_def)
qed (rule shape_step)

lemma rreachable_source: "rreachable n s \<Longrightarrow> sid \<notin> rs_again s \<Longrightarrow> source_inv s sid"
proof (induction rule: rreachable.induct)
  case rreach_init
  then show ?case by (simp add: source_inv_def init_refresh_def history_def outstanding_def source_ok_simps)
next
  case (rreach_step s t)
  then show ?case using source_step rreachable_shape again_step by blast
qed

section \<open>The jobs behind the stamps\<close>

lemma closed_stays: "qstep s t \<Longrightarrow> i \<in> used_ids s \<Longrightarrow> i \<notin> handles (sq s) \<Longrightarrow> i \<notin> handles (sq t)"
  by (induction rule: qstep.induct)
    (auto simp: same_but_registry_def dest!: reserve_frame send_frame record_failure_frame record_outcome_frame
      claim_start_frame claim_skip_frame)

definition jobs_inv :: "refresh_sys \<Rightarrow> bool" where
  "jobs_inv s \<longleftrightarrow>
     snd ` set_mset (rs_watching s + busy_with (rs_tick s)) \<subseteq> used_ids (rs_queue s) \<and>
     (\<forall>t sid i. RefreshStamped t sid i \<in> set (rs_log s) \<longrightarrow> i \<in> used_ids (rs_queue s) \<and> i \<notin> handles (sq (rs_queue s)))"

lemma jobs_step: "rstep s t \<Longrightarrow> jobs_inv s \<Longrightarrow> jobs_inv t"
proof -
  assume s: "rstep s t" and inv: "jobs_inv s"
  from rstep_queue [OF s] have used: "used_ids (rs_queue s) \<subseteq> used_ids (rs_queue t)" using step_used by auto
  from rstep_queue [OF s] have closed: "i \<notin> handles (sq (rs_queue t))"
    if "i \<in> used_ids (rs_queue s)" "i \<notin> handles (sq (rs_queue s))" for i
    using closed_stays that by auto
  have "snd ` set_mset (rs_watching t + busy_with (rs_tick t)) \<subseteq> used_ids (rs_queue t)"
    using s inv used unfolding jobs_inv_def by (induction rule: rstep.induct) auto
  moreover have "i \<in> used_ids (rs_queue s) \<and> i \<notin> handles (sq (rs_queue s))" if "RefreshStamped u sid i \<in> set (rs_log t)" for u sid i
    using s inv that unfolding jobs_inv_def by (induction rule: rstep.induct) auto
  ultimately show ?thesis unfolding jobs_inv_def using used closed by blast
qed

lemma rreachable_jobs: "rreachable n s \<Longrightarrow> jobs_inv s"
proof (induction rule: rreachable.induct)
  case rreach_init
  then show ?case by (simp add: jobs_inv_def init_refresh_def)
qed (rule jobs_step)

text \<open>A job without a handle is over.\<close>

lemma closed_terminal:
  assumes "reachable n s" "i \<notin> handles (sq s)" "map_of (registry (sq s)) i = Some j"
  shows "is_terminal j"
proof (rule ccontr)
  assume "\<not> is_terminal j"
  then have "i \<in># image_mset fst (live s)"
    using inv_registryD(1) [OF reachable_inv_registry [OF assms(1)]] assms(3) by (auto simp: registry_covers_def)
  moreover have "finite (handles (sq s))" "image_mset fst (live s) = mset_set (handles (sq s))"
    using reachable_inv_handles [OF assms(1)] by (simp_all add: inv_handles_def)
  ultimately show False using assms(2) by simp
qed

text \<open>
  C10: A source is refreshed by one job at a time and then left alone for its interval. Whatever workers,
  requests, cancellations and ticks interleave, for a source registered once the jobs the scheduler
  creates and the stamps of their watchers alternate; each next job is created no earlier than the
  interval after the stamp of the one before; at most one job is unstamped; and a stamped job is over:
  done, failed or cancelled, its stream closed.
\<close>

theorem refresh_backs_off:
  assumes "rreachable n s" "sid \<notin> rs_again s"
  shows "backs_off (history sid s) \<and> size (outstanding sid s) \<le> 1 \<and>
    (\<forall>t i. RefreshStamped t sid i \<in> set (rs_log s) \<longrightarrow>
       i \<notin> handles (sq (rs_queue s)) \<and> (\<forall>j. map_of (registry (sq (rs_queue s))) i = Some j \<longrightarrow> is_terminal j))"
proof (intro conjI allI impI)
  have ok: "source_inv s sid" by (rule rreachable_source [OF assms])
  then show "backs_off (history sid s)" by (simp add: source_inv_def source_ok_def)
  from ok show "size (outstanding sid s) \<le> 1"
    unfolding source_inv_def by (cases "history sid s" rule: history_cases) (simp_all add: source_ok_simps)
  fix t i assume "RefreshStamped t sid i \<in> set (rs_log s)"
  then show h: "i \<notin> handles (sq (rs_queue s))" using rreachable_jobs [OF assms(1)] by (simp add: jobs_inv_def)
  fix j assume "map_of (registry (sq (rs_queue s))) i = Some j"
  then show "is_terminal j" by (rule closed_terminal [OF rreachable_queue [OF assms(1)] h])
qed

text \<open>An instance: a new source is due at once, and its first job is created.\<close>

definition demo_record :: refresh_record where
  "demo_record = \<lparr>rr_source_id = ''src'', rr_store_name = ''notes'', rr_url = ''https://a.org/feed'', rr_interval = Some 3600,
     rr_last_refreshed = None, rr_inflight = False\<rparr>"

lemma demo_submission:
  "\<exists>s. rreachable 1 s \<and> rs_again s = {} \<and> rs_log s = [RefreshSubmitted 0 demo_record ''job'']"
proof -
  define s1 where "s1 = (init_refresh 1)\<lparr>rs_records := register ''src'' ''notes'' ''https://a.org/feed'' (Some 3600) [], rs_known := {''src''}\<rparr>"
  have "rreachable 1 s1"
    using rreach_step [OF rreach_init source_registered, of 1 "''src''" "''notes''" "''https://a.org/feed''" "Some 3600"]
    by (simp add: s1_def init_refresh_def)
  moreover have "due_records (rs_now s1) (rs_records s1) = [demo_record]"
    by (simp add: s1_def init_refresh_def due_records_def register_def is_due_def demo_record_def)
  ultimately have r2: "rreachable 1 (s1\<lparr>rs_tick := TickAt [demo_record]\<rparr>)"
    using rreach_step [OF _ tick_begin, of 1 s1] by (simp add: s1_def init_refresh_def)
  define q where "q = new_queue\<lparr>inflight := {''notes''}\<rparr>"
  define s3 where "s3 = s1\<lparr>rs_queue := (rs_queue s1)\<lparr>sq := q, calls := {#SReserved ''notes'' (ScopeSource ''src'')#}\<rparr>,
      rs_tick := TickReserved demo_record []\<rparr>"
  have "rreachable 1 s3"
    using rreach_step [OF r2 tick_reserve, of demo_record "[]" q]
    by (simp add: s3_def s1_def init_refresh_def init_sys_def submit_reserve_def new_queue_def demo_record_def q_def)
  from rreach_step [OF this tick_create, of demo_record "[]" "{#}" "''job''"] show ?thesis
    by (fastforce simp: s3_def s1_def init_refresh_def init_sys_def demo_record_def)
qed

lemma refresh_backs_off_witness:
  "\<exists>s. rreachable 1 s \<and> history ''src'' s = [RefreshSubmitted 0 demo_record ''job''] \<and> size (outstanding ''src'' s) \<le> 1"
proof -
  obtain s where "rreachable 1 s" "rs_again s = {}" "rs_log s = [RefreshSubmitted 0 demo_record ''job'']" using demo_submission by blast
  with refresh_backs_off [of 1 s "''src''"] show ?thesis by (auto simp: history_def demo_record_def)
qed

end
