(* ===== verification/Snippet.thy ===== *)
theory Snippet
  imports ChunkCode
begin

text \<open>
  Truncation of snippets for display (\<open>core/src/snippet.rs\<close>, \<open>format_snippet\<close> of
  \<open>cli/src/normalize.rs\<close>): the cut is moved to a paragraph, sentence or word near the cap.
\<close>

section \<open>The code\<close>

definition safe_trim_end :: "string \<Rightarrow> string" where
  "safe_trim_end s = (let t = trim_end s in if t = [] then s else t)"

definition TERMINATORS :: "string list" where
  "TERMINATORS = [''.'', ''!'', ''?'']"

text \<open>The last closer is the full-width parenthesis U+FF09.\<close>

definition CLOSERS :: "string list" where
  "CLOSERS = [[CHR 0x22], [CHR 0x27], '')'', '']'', map char_of [239, 188, 137 :: nat]]"

definition nth_opt :: "'a list \<Rightarrow> nat \<Rightarrow> 'a option" where
  "nth_opt xs i = (if i < length xs then Some (xs ! i) else None)"

text \<open>The end of a sentence whose terminator is the \<open>i\<close>th character of the window, if it is one.\<close>

definition sentence_end_at :: "(nat \<times> string) list \<Rightarrow> string option \<Rightarrow> nat \<Rightarrow> nat option" where
  "sentence_end_at cs next_after_window i =
     (let (byte_pos, ch) = cs ! i
      in if ch \<notin> set TERMINATORS then None
         else let (end_idx, end_byte) =
                (case nth_opt cs (i + 1) of
                   Some (cb, cc) \<Rightarrow> if cc \<in> set CLOSERS then (i + 2, cb + length cc) else (i + 1, byte_pos + length ch)
                 | None \<Rightarrow> (i + 1, byte_pos + length ch));
              followed_by_boundary =
                (case nth_opt cs end_idx of
                   None \<Rightarrow> (case next_after_window of None \<Rightarrow> True | Some c \<Rightarrow> is_whitespace c)
                 | Some (_, next_ch) \<Rightarrow> is_whitespace next_ch)
              in if followed_by_boundary then Some end_byte else None)"

definition last_sentence_end :: "string \<Rightarrow> string option \<Rightarrow> nat option" where
  "last_sentence_end window next_after_window =
     (let cs = char_indices window
      in fold (\<lambda>i best. case sentence_end_at cs next_after_window i of Some e \<Rightarrow> Some e | None \<Rightarrow> best) [0 ..< length cs] None)"

definition char_to_byte :: "string \<Rightarrow> nat \<Rightarrow> nat" where
  "char_to_byte tx k = (let char_bytes = map fst (char_indices tx) in if k < length char_bytes then char_bytes ! k else length tx)"

text \<open>\<open>rfind("\n\n")\<close> and \<open>rfind(char::is_whitespace)\<close>.\<close>

definition rfind_paragraph :: "string \<Rightarrow> nat option" where
  "rfind_paragraph w = find (\<lambda>p. take 2 (drop p w) = [CHR 0x0A, CHR 0x0A]) (rev [0 ..< length w])"

definition rfind_whitespace :: "string \<Rightarrow> nat option" where
  "rfind_whitespace w = map_option fst (find (\<lambda>ic. is_whitespace (snd ic)) (rev (char_indices w)))"

text \<open>A cut at a byte offset, refused at zero.\<close>

definition cut_at :: "string \<Rightarrow> nat \<Rightarrow> (fault + string \<times> bool) option" where
  "cut_at tx n = (if n > 0 then Some (and_then (or_panic (str_slice tx 0 n)) (\<lambda>p. Inr (safe_trim_end p, True))) else None)"

definition truncate_snippet :: "string \<Rightarrow> nat \<Rightarrow> fault + string \<times> bool" where
  "truncate_snippet tx soft_cap =
     (if tx = [] then Inr (tx, False)
      else let total_chars = length (char_indices tx)
           in if total_chars \<le> soft_cap then Inr (tx, False)
              else let hi_chars = min (soft_cap + soft_cap div 5) total_chars;
                       lo_chars = min (soft_cap div 2) hi_chars;
                       lo_byte = char_to_byte tx lo_chars;
                       hi_byte = char_to_byte tx hi_chars
                   in and_then (or_panic (str_slice tx lo_byte hi_byte)) (\<lambda>window.
                      case Option.bind (rfind_paragraph window) (\<lambda>p. cut_at tx (lo_byte + p)) of
                        Some r \<Rightarrow> r
                      | None \<Rightarrow>
                          and_then (or_panic (str_slice tx hi_byte (length tx))) (\<lambda>rest.
                          case Option.bind (last_sentence_end window (case chars rest of [] \<Rightarrow> None | c # _ \<Rightarrow> Some c))
                                 (\<lambda>e. cut_at tx (lo_byte + e)) of
                            Some r \<Rightarrow> r
                          | None \<Rightarrow>
                              let cap_byte = char_to_byte tx soft_cap;
                                  word_search_byte = char_to_byte tx (min (soft_cap + 1) total_chars)
                              in and_then (or_panic (str_slice tx 0 word_search_byte)) (\<lambda>head.
                                 case Option.bind (rfind_whitespace head) (\<lambda>w. if w \<le> cap_byte then cut_at tx w else None) of
                                   Some r \<Rightarrow> r
                                 | None \<Rightarrow>
                                     and_then (or_panic (str_slice tx 0 (floor_char_boundary tx cap_byte)))
                                       (\<lambda>p. Inr (safe_trim_end p, True))))))"

text \<open>The line the command line prints: runs of white space become one space, and a cut is marked.\<close>

definition format_snippet :: "string \<Rightarrow> nat \<Rightarrow> fault + string" where
  "format_snippet snippet max_chars =
     and_then (truncate_snippet (join '' '' (split_whitespace snippet)) max_chars) (\<lambda>(body, truncated).
       Inr (if truncated then body @ map char_of [226, 128, 166 :: nat] else body))"

section \<open>Offsets of characters\<close>

lemma nth_indices:
  "k < length cs \<Longrightarrow> indices_from i cs ! k = (i + length (concat (take k cs)), cs ! k)"
proof (induction cs arbitrary: i k)
  case (Cons c cs)
  then show ?case by (cases k) auto
qed simp

lemma length_indices [simp]: "length (indices_from i cs) = length cs"
  by (induction cs arbitrary: i) auto

lemma length_char_indices [simp]: "length (char_indices s) = length (chars s)"
  by (simp add: char_indices_def)

lemma char_to_byte_chars: "char_to_byte s k = length (concat (take k (chars s)))"
proof -
  have "char_to_byte s k = length (concat (take k (chars s)))" if "\<not> k < length (chars s)"
    using that by (simp add: char_to_byte_def char_indices_def Let_def flip: map_map)
  then show ?thesis
    by (cases "k < length (chars s)") (auto simp: char_to_byte_def char_indices_def Let_def nth_indices)
qed

text \<open>What a prefix of whole characters is.\<close>

definition char_prefix :: "string \<Rightarrow> nat \<Rightarrow> nat \<Rightarrow> bool" where
  "char_prefix s n b \<longleftrightarrow> (\<exists>p q. s = p @ q \<and> length p = b \<and> utf8 p \<and> utf8 q \<and> char_count p \<le> n)"

lemma char_prefix_byte: "utf8 s \<Longrightarrow> k \<le> n \<Longrightarrow> char_prefix s n (char_to_byte s k)"
  unfolding char_prefix_def char_to_byte_chars
  using take_chars [of s k] char_count_chars [of "concat (take k (chars s))"]
  by (intro exI [of _ "concat (take k (chars s))"] exI [of _ "concat (drop k (chars s))"]) auto

lemma char_prefix_slice: "char_prefix s n b \<Longrightarrow> str_slice s 0 b = Some (take b s)"
  unfolding char_prefix_def using slice_prefix utf8_starts by fastforce

lemma char_prefix_boundary: "char_prefix s n b \<Longrightarrow> is_char_boundary s b"
  using char_prefix_slice [of s n b] by (auto simp: str_slice_def split: if_splits)

lemma slice_bytes:
  assumes "utf8 s" "j \<le> k"
  shows "str_slice s (char_to_byte s j) (char_to_byte s k) = Some (concat (take (k - j) (drop j (chars s))))"
proof -
  let ?a = "concat (take j (chars s))" and ?b = "concat (take (k - j) (drop j (chars s)))" and ?c = "concat (drop k (chars s))"
  have split: "take j (chars s) @ take (k - j) (drop j (chars s)) = take k (chars s)"
    using assms(2) take_add [of j "k - j" "chars s"] by simp
  then have len: "length ?a + length ?b = length (concat (take k (chars s)))" by (metis concat_append length_append)
  have s: "s = ?a @ ?b @ ?c"
    using take_chars(4) [OF assms(1), of k] split by (metis append_assoc concat_append)
  have "set (take (k - j) (drop j (chars s))) \<subseteq> set (chars s)" by (meson in_set_dropD in_set_takeD subsetI)
  then have "starts ?b" "starts ?c"
    using utf8_concat_chars(1) [OF assms(1)] take_chars(2) [OF assms(1)] utf8_starts by blast+
  from slice_middle [OF this, of ?a] show ?thesis by (simp only: char_to_byte_chars len flip: s)
qed

section \<open>Every cut is between two characters\<close>

lemma sentence_end_chars:
  assumes "sentence_end_at (indices_from 0 cs) nx i = Some e" "i < length cs"
  shows "\<exists>j. e = length (concat (take j cs)) \<and> j \<le> length cs"
proof -
  have next_end: "length (concat (take i cs)) + length (cs ! i) = length (concat (take (i + 1) cs))"
    using assms(2) by (simp add: take_Suc_conv_app_nth)
  have "e = length (concat (take (i + 1) cs)) \<or> (i + 1 < length cs \<and> e = length (concat (take (i + 1) cs)) + length (cs ! (i + 1)))"
    using assms next_end by (auto simp: sentence_end_at_def nth_opt_def nth_indices Let_def split: if_splits option.splits prod.splits)
  then show ?thesis
  proof
    assume "i + 1 < length cs \<and> e = length (concat (take (i + 1) cs)) + length (cs ! (i + 1))"
    then show ?thesis by (intro exI [of _ "i + 2"]) (simp add: take_Suc_conv_app_nth)
  qed (use assms(2) in \<open>auto intro: exI [of _ "i + 1"]\<close>)
qed

lemma last_sentence_chars:
  assumes "last_sentence_end w nx = Some e"
  shows "\<exists>j. e = length (concat (take j (chars w))) \<and> j \<le> length (chars w)"
proof -
  have "P (fold (\<lambda>i best. case f i of Some e \<Rightarrow> Some e | None \<Rightarrow> best) is b)"
    if "P b" "\<And>i e. i \<in> set is \<Longrightarrow> f i = Some e \<Longrightarrow> P (Some e)" for P :: "nat option \<Rightarrow> bool" and f :: "nat \<Rightarrow> nat option" and "is" b
    using that by (induction "is" arbitrary: b) (auto split: option.split)
  from this [of "\<lambda>b. \<forall>e. b = Some e \<longrightarrow> (\<exists>j. e = length (concat (take j (chars w))) \<and> j \<le> length (chars w))" None
      "[0 ..< length (char_indices w)]" "sentence_end_at (char_indices w) nx"]
  show ?thesis using assms sentence_end_chars by (auto simp: last_sentence_end_def char_indices_def)
qed

lemma char_prefix_shorter:
  assumes "char_prefix s n b" "c \<le> b" "is_char_boundary s c"
  shows "char_prefix s n c"
proof -
  obtain p q where s: "s = p @ q" "length p = b" "utf8 p" "utf8 q" "char_count p \<le> n" using assms(1) by (auto simp: char_prefix_def)
  have p: "p = take c p @ drop c p" by simp
  have st: "starts (drop c p)"
  proof (cases "c < length p")
    case True
    with assms(3) s(1) have "c = 0 \<or> \<not> is_cont (p ! c)" by (auto simp: is_char_boundary_def nth_append)
    with True utf8_starts [OF s(3)] show ?thesis by (auto simp: starts_def hd_drop_conv_nth hd_conv_nth)
  qed simp
  have "char_count (take c p) \<le> n" using s(5) p char_count_append [of "take c p" "drop c p"] by simp
  moreover have "utf8 (drop c p @ q)" "utf8 (take c p)"
    using utf8_appendD [OF _ st, of "take c p"] s(3,4) utf8_append by simp_all
  ultimately show ?thesis unfolding char_prefix_def using s(1,2) assms(2)
    by (intro exI [of _ "take c p"] exI [of _ "drop c p @ q"]) simp
qed

lemma rfind_paragraph_newline:
  "rfind_paragraph w = Some p \<Longrightarrow> p < length w \<and> w ! p = CHR 0x0A"
  by (auto simp: rfind_paragraph_def find_Some_iff rev_nth take_Suc_conv_app_nth Cons_nth_drop_Suc [symmetric] numeral_2_eq_2)

lemma rfind_whitespace_chars:
  "rfind_whitespace w = Some i \<Longrightarrow> \<exists>j. i = length (concat (take j (chars w))) \<and> j \<le> length (chars w)"
proof -
  assume "rfind_whitespace w = Some i"
  then obtain c where "find (\<lambda>ic. is_whitespace (snd ic)) (rev (char_indices w)) = Some (i, c)" by (auto simp: rfind_whitespace_def)
  then have "(i, c) \<in> set (char_indices w)" by (metis find_Some_iff nth_mem set_rev)
  then obtain xs ys where "chars w = xs @ c # ys" "i = length (concat xs)"
    using indices_in [of i c 0 "chars w"] by (auto simp: char_indices_def)
  then show ?thesis by (intro exI [of _ "length xs"]) simp
qed

text \<open>Trimming leaves a prefix, and never the empty string.\<close>

lemma strip_one_split: "strip_one ps s = Some t \<Longrightarrow> \<exists>p \<in> set ps. s = p @ t"
  by (auto simp: strip_one_def find_Some_iff) (metis append_take_drop_id nth_mem)

lemma trim_start_rev_split: "\<exists>ws. s = concat (map rev ws) @ trim_start_rev s \<and> set ws \<subseteq> set white_space"
proof (induction s rule: trim_start_rev.induct)
  case (1 s)
  show ?case
  proof (cases "strip_one (map rev white_space) s")
    case None
    then show ?thesis by (intro exI [of _ "[]"]) (simp add: trim_start_rev.simps)
  next
    case (Some t)
    obtain p where p: "p \<in> set white_space" "s = rev p @ t" using strip_one_split [OF Some] by auto
    from 1 [OF Some] obtain ws where "t = concat (map rev ws) @ trim_start_rev t" "set ws \<subseteq> set white_space" by blast
    moreover have "trim_start_rev s = trim_start_rev t" using Some by (subst trim_start_rev.simps) simp
    ultimately show ?thesis using p by (intro exI [of _ "p # ws"]) simp
  qed
qed

lemma trim_end_split: "\<exists>r. s = trim_end s @ r \<and> starts r"
proof -
  obtain ws where ws: "rev s = concat (map rev ws) @ trim_start_rev (rev s)" "set ws \<subseteq> set white_space"
    using trim_start_rev_split by blast
  have "rev (rev s) = trim_end s @ rev (concat (map rev ws))" by (subst ws(1)) (simp add: trim_end_def)
  then have "s = trim_end s @ concat (rev ws)" by (simp add: rev_concat rev_map comp_def)
  moreover have "starts (concat (rev ws))"
    using ws(2) by (intro starts_concat) (auto simp: white_space_def is_cont_def)
  ultimately show ?thesis by blast
qed

lemma safe_trim_prefix:
  assumes "utf8 p"
  shows "\<exists>r. p = safe_trim_end p @ r \<and> starts r" "utf8 (safe_trim_end p)" "p \<noteq> [] \<Longrightarrow> safe_trim_end p \<noteq> []"
    "char_count (safe_trim_end p) \<le> char_count p"
proof -
  show split: "\<exists>r. p = safe_trim_end p @ r \<and> starts r" using trim_end_split [of p] by (auto simp: safe_trim_end_def Let_def)
  then obtain r where r: "p = safe_trim_end p @ r" "starts r" by blast
  then show "utf8 (safe_trim_end p)" using assms utf8_appendD(1) by metis
  show "char_count (safe_trim_end p) \<le> char_count p" by (subst (2) r(1)) simp
qed (auto simp: safe_trim_end_def Let_def)

section \<open>The result\<close>

text \<open>A result that keeps the promises of the documentation, cut at no more than \<open>m\<close> characters.\<close>

definition good_cut :: "string \<Rightarrow> nat \<Rightarrow> fault + string \<times> bool \<Rightarrow> bool" where
  "good_cut tx m r \<longleftrightarrow> (\<exists>p q. r = Inr (p, True) \<and> tx = p @ q \<and> utf8 p \<and> utf8 q \<and> char_count p \<le> m \<and> p \<noteq> [])"

lemma good_cut_trim:
  assumes "char_prefix tx m b" "0 < b"
  shows "good_cut tx m (Inr (safe_trim_end (take b tx), True))"
proof -
  obtain p q where p: "tx = p @ q" "length p = b" "utf8 p" "utf8 q" "char_count p \<le> m" using assms(1) by (auto simp: char_prefix_def)
  obtain r where r: "p = safe_trim_end p @ r" "starts r" using safe_trim_prefix(1) [OF p(3)] by blast
  have "utf8 r" using utf8_appendD(2) [OF _ r(2), of "safe_trim_end p"] p(3) r(1) by metis
  moreover have "p \<noteq> []" using p(2) assms(2) by auto
  ultimately show ?thesis
    using p r safe_trim_prefix(2,3,4) [OF p(3)] utf8_append
    unfolding good_cut_def by (intro exI [of _ "safe_trim_end p"] exI [of _ "r @ q"]) (auto simp: append_assoc [symmetric] simp del: append_assoc)
qed

lemma good_cut_at:
  assumes "char_prefix tx m b" "cut_at tx b = Some r"
  shows "good_cut tx m r"
  using assms good_cut_trim [OF assms(1)] char_prefix_slice [OF assms(1)]
  by (auto simp: cut_at_def or_panic_def split: if_splits)

lemma window_byte:
  assumes "utf8 tx" "j \<le> k" "i \<le> k - j" "k \<le> m"
  shows "char_prefix tx m (char_to_byte tx j + length (concat (take i (take (k - j) (drop j (chars tx))))))"
proof -
  have "take j (chars tx) @ take i (take (k - j) (drop j (chars tx))) = take (j + i) (chars tx)"
    using assms(3) by (simp add: take_add min_absorb1)
  then have "char_to_byte tx j + length (concat (take i (take (k - j) (drop j (chars tx))))) = char_to_byte tx (j + i)"
    unfolding char_to_byte_chars by (metis concat_append length_append)
  moreover have "j + i \<le> m" using assms by linarith
  ultimately show ?thesis using char_prefix_byte [OF assms(1)] by metis
qed

text \<open>Every place the code cuts at is a good cut.\<close>

lemma paragraph_cut:
  assumes "utf8 tx" "hi \<le> cap" "str_slice tx (char_to_byte tx lo) (char_to_byte tx hi) = Some w"
    "rfind_paragraph w = Some p" "cut_at tx (char_to_byte tx lo + p) = Some r"
  shows "good_cut tx cap r"
proof -
  let ?l = "char_to_byte tx lo" and ?h = "char_to_byte tx hi"
  have "w = take (?h - ?l) (drop ?l tx)" "?h \<le> length tx" using assms(3) by (auto simp: str_slice_def split: if_splits)
  with rfind_paragraph_newline [OF assms(4)] have p: "?l + p < ?h" "tx ! (?l + p) = CHR 0x0A" by auto
  with \<open>?h \<le> length tx\<close> have "is_char_boundary tx (?l + p)" by (simp add: is_char_boundary_def is_cont_def)
  then have "char_prefix tx cap (?l + p)"
    using char_prefix_shorter [OF char_prefix_byte [OF assms(1,2)], of "?l + p"] p(1) by simp
  then show ?thesis by (rule good_cut_at [OF _ assms(5)])
qed

lemma sentence_cut:
  assumes "utf8 tx" "lo \<le> hi" "hi \<le> cap" "chars w = take (hi - lo) (drop lo (chars tx))"
    "last_sentence_end w nx = Some e" "cut_at tx (char_to_byte tx lo + e) = Some r"
  shows "good_cut tx cap r"
proof -
  from last_sentence_chars [OF assms(5)] obtain i where i: "e = length (concat (take i (chars w)))" "i \<le> length (chars w)" by blast
  then have "char_prefix tx cap (char_to_byte tx lo + e)"
    using window_byte [OF assms(1,2) _ assms(3), of i] by (simp add: assms(4))
  then show ?thesis by (rule good_cut_at [OF _ assms(6)])
qed

lemma word_cut:
  assumes "utf8 tx" "n \<le> cap" "rfind_whitespace (concat (take k (chars tx))) = Some x" "x \<le> char_to_byte tx n" "cut_at tx x = Some r"
  shows "good_cut tx cap r"
proof -
  from rfind_whitespace_chars [OF assms(3)] obtain j where "x = length (concat (take j (chars (concat (take k (chars tx))))))" by blast
  then have "x = char_to_byte tx (min j k)" by (simp add: take_chars(3) [OF assms(1)] char_to_byte_chars)
  then have "is_char_boundary tx x" using char_prefix_boundary [OF char_prefix_byte [OF assms(1) order_refl]] by simp
  then have "char_prefix tx cap x"
    using char_prefix_shorter [OF char_prefix_byte [OF assms(1,2)] assms(4)] by simp
  then show ?thesis by (rule good_cut_at [OF _ assms(5)])
qed

lemma hard_cut:
  assumes "utf8 tx" "n \<le> cap" "tx \<noteq> []" "0 < n"
  shows "good_cut tx cap (Inr (safe_trim_end (take (char_to_byte tx n) tx), True))"
proof (rule good_cut_trim [OF char_prefix_byte [OF assms(1,2)]])
  obtain c cs where c: "chars tx = c # cs" using assms(3) by (cases "chars tx") auto
  then have "c \<noteq> []" using chars_nonempty [of c tx] by simp
  with c assms(4) show "0 < char_to_byte tx n" by (cases n) (auto simp: char_to_byte_chars)
qed

lemma cap_boundary:
  assumes "utf8 tx"
  shows "floor_char_boundary tx (char_to_byte tx n) = char_to_byte tx n"
    "take (char_to_byte tx n) tx = concat (take n (chars tx))"
proof -
  note cap = char_prefix_byte [OF assms order_refl, of n]
  show "floor_char_boundary tx (char_to_byte tx n) = char_to_byte tx n"
    using char_prefix_boundary [OF cap] char_prefix_slice [OF cap] by (auto simp: str_slice_def intro!: floor_boundary split: if_splits)
  show "take (char_to_byte tx n) tx = concat (take n (chars tx))"
    using slice_bytes [OF assms, of 0 n] char_prefix_slice [OF cap] by (simp add: char_to_byte_chars)
qed

lemma truncate_long:
  assumes "utf8 tx" "tx \<noteq> []" "n < length (chars tx)"
  shows "good_cut tx (n + n div 5) (truncate_snippet tx n) \<or> (n = 0 \<and> truncate_snippet tx n = Inr ([], True))"
proof -
  define total_chars where "total_chars = length (chars tx)"
  define hi where "hi = min (n + n div 5) total_chars"
  define lo where "lo = min (n div 2) hi"
  define w where "w = concat (take (hi - lo) (drop lo (chars tx)))"
  have le: "lo \<le> hi" "hi \<le> n + n div 5" "hi \<le> total_chars" "n \<le> n + n div 5"
    using assms(3) by (auto simp: lo_def hi_def total_chars_def)
  have cw: "chars w = take (hi - lo) (drop lo (chars tx))"
    unfolding w_def by (rule utf8_concat_chars(2) [OF assms(1)]) (meson in_set_dropD in_set_takeD subsetI)
  note window = slice_bytes [OF assms(1) le(1), folded w_def]
  have all: "char_to_byte tx total_chars = length tx" by (simp add: char_to_byte_chars total_chars_def)
  have rest: "str_slice tx (char_to_byte tx hi) (length tx) = Some (concat (drop hi (chars tx)))"
    using slice_bytes [OF assms(1) le(3)] unfolding all by (simp add: total_chars_def)
  have head: "str_slice tx 0 (char_to_byte tx k) = Some (concat (take k (chars tx)))" for k
    using slice_bytes [OF assms(1), of 0 k] by (simp add: char_to_byte_chars)
  let ?next = "case chars (concat (drop hi (chars tx))) of [] \<Rightarrow> None | c # _ \<Rightarrow> Some c"
  have code: "truncate_snippet tx n =
      (case Option.bind (rfind_paragraph w) (\<lambda>p. cut_at tx (char_to_byte tx lo + p)) of
         Some r \<Rightarrow> r
       | None \<Rightarrow>
          (case Option.bind (last_sentence_end w ?next) (\<lambda>e. cut_at tx (char_to_byte tx lo + e)) of
             Some r \<Rightarrow> r
           | None \<Rightarrow>
              (case Option.bind (rfind_whitespace (concat (take (min (n + 1) total_chars) (chars tx))))
                  (\<lambda>x. if x \<le> char_to_byte tx n then cut_at tx x else None) of
                 Some r \<Rightarrow> r
               | None \<Rightarrow> Inr (safe_trim_end (take (char_to_byte tx n) tx), True))))"
    using assms(2,3) window rest
    by (simp add: truncate_snippet_def Let_def or_panic_def head cap_boundary [OF assms(1)] cong: option.case_cong
        flip: total_chars_def hi_def lo_def)
  have "n = 0 \<Longrightarrow> safe_trim_end (take (char_to_byte tx n) tx) = []"
    using trim_end_split [of "[]"] by (simp add: char_to_byte_chars safe_trim_end_def Let_def)
  then show ?thesis
    unfolding code
    using paragraph_cut [OF assms(1) le(2) window] sentence_cut [OF assms(1) le(1,2) cw] word_cut [OF assms(1) le(4)]
      hard_cut [OF assms(1) le(4) assms(2)]
    by (auto simp: bind_eq_Some_conv split: option.split if_splits)
qed

text \<open>
  C28: Truncating a snippet never panics and keeps its promises, for every valid text and every cap: the
  result is a prefix of whole characters, at most a fifth over the cap, not empty unless the text is or
  the cap is zero; and exactly the texts of more characters than the cap are reported as truncated, the
  others returned whole.
\<close>

theorem truncate_snippet_safe:
  assumes "utf8 tx"
  shows "\<exists>p q t. truncate_snippet tx n = Inr (p, t) \<and> tx = p @ q \<and> utf8 p \<and> utf8 q \<and> char_count p \<le> n + n div 5 \<and>
    (tx \<noteq> [] \<and> 0 < n \<longrightarrow> p \<noteq> []) \<and> (t \<longleftrightarrow> n < char_count tx) \<and> (t \<or> p = tx)"
proof (cases "tx = [] \<or> length (chars tx) \<le> n")
  case True
  then have "truncate_snippet tx n = Inr (tx, False)" by (auto simp: truncate_snippet_def Let_def)
  moreover have "char_count tx \<le> n" using True char_count_chars [OF assms] by auto
  ultimately show ?thesis by (intro exI [of _ tx] exI [of _ "[]"] exI [of _ False]) (auto simp: assms)
next
  case False
  then have "n < char_count tx" using char_count_chars [OF assms] by simp
  moreover have "good_cut tx (n + n div 5) (truncate_snippet tx n) \<or> (n = 0 \<and> truncate_snippet tx n = Inr ([], True))"
    using False by (intro truncate_long [OF assms]) auto
  ultimately show ?thesis
  proof (elim disjE conjE)
    assume "n < char_count tx" "good_cut tx (n + n div 5) (truncate_snippet tx n)"
    then show ?thesis by (fastforce simp: good_cut_def)
  next
    assume "n < char_count tx" "n = 0" "truncate_snippet tx n = Inr ([], True)"
    with assms show ?thesis by (intro exI [of _ "[]"] exI [of _ tx] exI [of _ True]) simp
  qed
qed

lemma truncate_snippet_safe_witness:
  "\<exists>p q. truncate_snippet ''Ready. Set, go'' 8 = Inr (p, True) \<and> ''Ready. Set, go'' = p @ q \<and> char_count p \<le> 9 \<and> p \<noteq> []"
proof -
  define S where "S = ''Ready. Set, go''"
  have "utf8 S" "char_count S = 14" by (simp_all add: S_def utf8_def is_cont_def char_width_def char_count_def)
  with truncate_snippet_safe [of S 8] show ?thesis unfolding S_def [symmetric] by auto
qed

text \<open>
  Truncated is more than cut: a sentence that ends the text within the fifth over the cap is kept whole
  and still reported as truncated, so that the command line marks a cut where there is none.
\<close>

lemma trim_end_solid: "s \<noteq> [] \<Longrightarrow> solid (last s) \<Longrightarrow> trim_end s = s"
proof -
  assume s: "s \<noteq> []" "solid (last s)"
  have "strip_one (map rev white_space) (rev s) = None"
    using s white_space_hd by (intro strip_one_fst) (force simp: hd_rev)
  then show ?thesis by (simp add: trim_end_def trim_start_rev.simps)
qed

lemma solid_no_space: "solid c \<Longrightarrow> \<not> is_whitespace [c]"
  using white_space_hd [of "[c]"] by (auto simp: is_whitespace_def)

lemma space: "is_whitespace '' ''"
proof -
  have "CHR '' '' = char_of (32 :: nat)" by code_simp
  then show ?thesis by (simp add: is_whitespace_def white_space_def)
qed

lemma whole_but_truncated:
  "truncate_snippet ''Go up.'' 5 = Inr (''Go up.'', True)"
  "format_snippet ''Go up.'' 5 = Inr (''Go up.'' @ map char_of [226, 128, 166 :: nat])"
proof -
  have c: "chars ''Go up.'' = [''G'', ''o'', '' '', ''u'', ''p'', ''.'']" "chars '' up.'' = ['' '', ''u'', ''p'', ''.'']"
    by (simp_all add: is_cont_def)
  have l: "length (char_indices ''Go up.'') = 6" "length ''Go up.'' = 6" "length (chars ''Go up.'') = 6"
    by (simp_all add: c del: chars.simps)
  have b: "char_to_byte ''Go up.'' 2 = 2" "char_to_byte ''Go up.'' 6 = 6"
    by (simp_all add: char_to_byte_chars c numeral_eq_Suc del: chars.simps)
  have e: "sentence_end_at [(0, '' ''), (Suc 0, ''u''), (Suc (Suc 0), ''p''), (Suc (Suc (Suc 0)), ''.'')] None (Suc (Suc (Suc 0))) = Some 4"
    by (simp add: sentence_end_at_def TERMINATORS_def nth_opt_def)
  have "last_sentence_end '' up.'' None = Some 4"
    by (simp add: last_sentence_end_def char_indices_def c upt_rec Let_def e del: chars.simps)
  moreover have "rfind_paragraph '' up.'' = None" by (simp add: rfind_paragraph_def upt_rec)
  moreover have "str_slice ''Go up.'' 2 6 = Some '' up.''" "str_slice ''Go up.'' 6 6 = Some []" "str_slice ''Go up.'' 0 6 = Some ''Go up.''"
    by (simp_all add: str_slice_def is_char_boundary_def is_cont_def)
  moreover have "safe_trim_end ''Go up.'' = ''Go up.''" by (simp add: safe_trim_end_def trim_end_solid solid_def)
  ultimately show t: "truncate_snippet ''Go up.'' 5 = Inr (''Go up.'', True)"
    by (simp add: truncate_snippet_def l b cut_at_def Let_def del: list.size chars.simps(2) cong: option.case_cong)
  have "split_whitespace ''Go up.'' = [''Go'', ''up.'']"
    by (simp add: split_whitespace_def c space solid_no_space solid_def del: chars.simps)
  with t show "format_snippet ''Go up.'' 5 = Inr (''Go up.'' @ map char_of [226, 128, 166 :: nat])" by (simp add: format_snippet_def)
qed

end
