(* ===== verification/Registry.thy ===== *)
theory Registry
  imports Sources Store StoreErrors
begin

text \<open>
  The registry of stores, sources and documents (\<open>store-libsql/src/registry/\<close>): three tables of the one
  database file, the statements that write and read them, with the constraints of
  \<open>store-libsql/src/schema.rs\<close>. A row holds the values its columns decode to. What SQLite says about a
  failure, and when a statement fails for a reason of its own, are parameters. Rows with equal sort keys
  keep the order they were inserted in.
\<close>

section \<open>Rows and tables\<close>

datatype store_visibility = Private | Shared

record store_row =
  st_id :: string
  st_name :: string
  st_visibility :: store_visibility
  st_backend :: string
  st_indexing_policy :: string
  st_policy_version :: string
  st_acl :: string
  st_created_at :: string

record document_info =
  di_store_id :: string
  di_id :: string
  di_source_id :: string
  di_ingestor_kind :: string
  di_uri :: string
  di_title :: "string option"
  di_mime :: "string option"
  di_content_hash :: string
  di_fetched_at :: string
  di_origin_store :: string
  di_policy_version :: string
  di_metadata :: metadata
  di_date_original :: "string option"
  di_date_parsed :: "string option"
  di_index_updated_at :: "string option"

record registry =
  rg_stores :: "store_row list"
  rg_sources :: "source_row list"
  rg_documents :: "document_info list"

section \<open>Statements and their failures\<close>

datatype sql_failure = UniqueFailed | CheckFailed | ForeignKeyFailed | OtherFailure string

datatype db_call =
    UpsertStore store_row
  | DeleteStore string
  | GetStore string
  | GetStoreByName string
  | ListStores
  | UpsertSource source_row
  | DeleteSource string
  | GetSource string
  | ListSources string
  | FindSource string string
  | UpdateFeedCache string
  | FindDocument string "string option"
  | ListDocuments string "string option" "u64 option" u64
  | CountDocuments string "string option"

text \<open>\<open>dx_fault\<close> says when a statement fails although no constraint is violated.\<close>

record db_ext =
  dx_text :: "sql_failure \<Rightarrow> string"
  dx_fault :: "db_call \<Rightarrow> sql_failure option"

definition perform :: "db_ext \<Rightarrow> db_call \<Rightarrow> sql_failure + 'a \<Rightarrow> sql_failure + 'a" where
  "perform dx call r = (case dx_fault dx call of Some f \<Rightarrow> Inl f | None \<Rightarrow> r)"

definition select :: "db_ext \<Rightarrow> db_call \<Rightarrow> 'a \<Rightarrow> error + 'a" where
  "select dx call a = (case perform dx call (Inr a) of Inl f \<Rightarrow> Inl (map_libsql_err (dx_text dx f)) | Inr a \<Rightarrow> Inr a)"

text \<open>A statement that fails writes nothing.\<close>

definition write_with ::
  "(string \<Rightarrow> error) \<Rightarrow> db_ext \<Rightarrow> db_call \<Rightarrow> sql_failure + registry \<times> 'a \<Rightarrow> registry \<Rightarrow> registry \<times> (error + 'a)" where
  "write_with map_err dx call r rg =
     (case perform dx call r of Inl f \<Rightarrow> (rg, Inl (map_err (dx_text dx f))) | Inr (rg', a) \<Rightarrow> (rg', Inr a))"

definition replace_row :: "('r \<Rightarrow> string) \<Rightarrow> 'r \<Rightarrow> 'r list \<Rightarrow> 'r list" where
  "replace_row key row rows = (if list_ex (\<lambda>r. key r = key row) rows then map (\<lambda>r. if key r = key row then row else r) rows else rows @ [row])"

section \<open>Stores\<close>

text \<open>The insert, or on a known id the update; the name is unique and the creation date stays.\<close>

definition upsert_store_sql :: "store_row \<Rightarrow> registry \<Rightarrow> sql_failure + registry \<times> unit" where
  "upsert_store_sql store rg =
     (if list_ex (\<lambda>r. st_name r = st_name store \<and> st_id r \<noteq> st_id store) (rg_stores rg) then Inl UniqueFailed
      else let row = (case find (\<lambda>r. st_id r = st_id store) (rg_stores rg) of
                        Some old \<Rightarrow> store\<lparr>st_created_at := st_created_at old\<rparr> | None \<Rightarrow> store)
           in Inr (rg\<lparr>rg_stores := replace_row st_id row (rg_stores rg)\<rparr>, ()))"

definition upsert_store :: "db_ext \<Rightarrow> store_row \<Rightarrow> registry \<Rightarrow> registry \<times> (error + unit)" where
  "upsert_store dx store rg = write_with map_libsql_err dx (UpsertStore store) (upsert_store_sql store rg) rg"

text \<open>Deleting a store cascades to its sources and documents.\<close>

definition delete_store_sql :: "string \<Rightarrow> registry \<Rightarrow> registry \<times> bool" where
  "delete_store_sql i rg =
     (if list_ex (\<lambda>r. st_id r = i) (rg_stores rg)
      then (\<lparr>rg_stores = filter (\<lambda>r. st_id r \<noteq> i) (rg_stores rg), rg_sources = filter (\<lambda>r. sr_store_id r \<noteq> i) (rg_sources rg),
             rg_documents = filter (\<lambda>d. di_store_id d \<noteq> i) (rg_documents rg)\<rparr>, True)
      else (rg, False))"

definition delete_store :: "db_ext \<Rightarrow> string \<Rightarrow> registry \<Rightarrow> registry \<times> (error + bool)" where
  "delete_store dx i rg = write_with map_libsql_err dx (DeleteStore i) (Inr (delete_store_sql i rg)) rg"

definition get_store :: "db_ext \<Rightarrow> registry \<Rightarrow> string \<Rightarrow> error + store_row option" where
  "get_store dx rg i = select dx (GetStore i) (find (\<lambda>r. st_id r = i) (rg_stores rg))"

definition get_store_by_name :: "db_ext \<Rightarrow> registry \<Rightarrow> string \<Rightarrow> error + store_row option" where
  "get_store_by_name dx rg name = select dx (GetStoreByName name) (find (\<lambda>r. st_name r = name) (rg_stores rg))"

definition list_stores :: "db_ext \<Rightarrow> registry \<Rightarrow> error + store_row list" where
  "list_stores dx rg = select dx ListStores (sort_by (\<lambda>r r'. ord_cmp (st_name r) (st_name r')) (rg_stores rg))"

section \<open>Sources\<close>

text \<open>
  On a known id every column but the creation date is taken over, and the feed's cached validators and
  digest only where the URL is the same.
\<close>

definition updated_source :: "source_row option \<Rightarrow> source_row \<Rightarrow> source_row" where
  "updated_source old source =
     (case old of
        None \<Rightarrow> source
      | Some r \<Rightarrow>
          (let same = (sr_url r = sr_url source)
           in source\<lparr>sr_created_at := sr_created_at r,
                sr_feed_etag := (if same then sr_feed_etag source else None),
                sr_feed_last_modified := (if same then sr_feed_last_modified source else None),
                sr_feed_inputs_digest := (if same then sr_feed_inputs_digest source else None)\<rparr>))"

definition source_check :: "source_row \<Rightarrow> bool" where
  "source_check r \<longleftrightarrow>
     (sr_kind r = PathKind \<and> sr_root r \<noteq> None) \<or> (sr_kind r = UrlKind \<and> sr_url r \<noteq> None) \<or> (sr_kind r \<noteq> PathKind \<and> sr_kind r \<noteq> UrlKind)"

text \<open>Two sources of a store never share a root, nor a URL.\<close>

definition source_clash :: "source_row \<Rightarrow> source_row \<Rightarrow> bool" where
  "source_clash r s \<longleftrightarrow> sr_store_id r = sr_store_id s \<and>
     ((sr_root r \<noteq> None \<and> sr_root r = sr_root s) \<or> (sr_url r \<noteq> None \<and> sr_url r = sr_url s))"

definition upsert_source_sql :: "source_row \<Rightarrow> registry \<Rightarrow> sql_failure + registry \<times> unit" where
  "upsert_source_sql source rg =
     (let old = find (\<lambda>r. sr_id r = sr_id source) (rg_sources rg);
          row = updated_source old source
      in if \<not> source_check source then Inl CheckFailed
         else if list_ex (\<lambda>r. sr_id r \<noteq> sr_id source \<and> source_clash r row) (rg_sources rg) then Inl UniqueFailed
         else if \<not> list_ex (\<lambda>s. st_id s = sr_store_id source) (rg_stores rg) then Inl ForeignKeyFailed
         else if list_ex (\<lambda>d. di_source_id d = sr_id source \<and> di_store_id d \<noteq> sr_store_id source) (rg_documents rg)
              then Inl ForeignKeyFailed
         else Inr (rg\<lparr>rg_sources := replace_row sr_id row (rg_sources rg)\<rparr>, ()))"

definition upsert_source_error :: "string \<Rightarrow> error" where
  "upsert_source_error msg =
     (if str_contains ''UNIQUE constraint failed'' msg
      then InvalidRequest ''a source with the same path or URL already exists in this store'' else map_libsql_err msg)"

definition upsert_source :: "db_ext \<Rightarrow> source_row \<Rightarrow> registry \<Rightarrow> registry \<times> (error + unit)" where
  "upsert_source dx source rg = write_with upsert_source_error dx (UpsertSource source) (upsert_source_sql source rg) rg"

definition update_feed_cache_sql :: "string \<Rightarrow> string option \<Rightarrow> string option \<Rightarrow> string option \<Rightarrow> registry \<Rightarrow> registry \<times> bool" where
  "update_feed_cache_sql i etag last_modified digest rg =
     (rg\<lparr>rg_sources := map (\<lambda>r. if sr_id r = i
           then r\<lparr>sr_feed_etag := etag, sr_feed_last_modified := last_modified, sr_feed_inputs_digest := digest\<rparr> else r) (rg_sources rg)\<rparr>,
      list_ex (\<lambda>r. sr_id r = i) (rg_sources rg))"

definition update_source_feed_cache ::
  "db_ext \<Rightarrow> string \<Rightarrow> string option \<Rightarrow> string option \<Rightarrow> string option \<Rightarrow> registry \<Rightarrow> registry \<times> (error + bool)" where
  "update_source_feed_cache dx i etag last_modified digest rg =
     write_with map_libsql_err dx (UpdateFeedCache i) (Inr (update_feed_cache_sql i etag last_modified digest rg)) rg"

text \<open>Deleting a source cascades to its documents.\<close>

definition delete_source_sql :: "string \<Rightarrow> registry \<Rightarrow> registry \<times> bool" where
  "delete_source_sql i rg =
     (rg\<lparr>rg_sources := filter (\<lambda>r. sr_id r \<noteq> i) (rg_sources rg),
         rg_documents := filter (\<lambda>d. \<not> (di_source_id d = i \<and>
           list_ex (\<lambda>r. sr_id r = i \<and> sr_store_id r = di_store_id d) (rg_sources rg))) (rg_documents rg)\<rparr>,
      list_ex (\<lambda>r. sr_id r = i) (rg_sources rg))"

definition delete_source :: "db_ext \<Rightarrow> string \<Rightarrow> registry \<Rightarrow> registry \<times> (error + bool)" where
  "delete_source dx i rg = write_with map_libsql_err dx (DeleteSource i) (Inr (delete_source_sql i rg)) rg"

definition get_source :: "db_ext \<Rightarrow> registry \<Rightarrow> string \<Rightarrow> error + source_row option" where
  "get_source dx rg i = select dx (GetSource i) (find (\<lambda>r. sr_id r = i) (rg_sources rg))"

definition list_sources :: "db_ext \<Rightarrow> registry \<Rightarrow> string \<Rightarrow> error + source_row list" where
  "list_sources dx rg store_id =
     select dx (ListSources store_id)
       (sort_by (\<lambda>r r'. ord_cmp (sr_created_at r) (sr_created_at r')) (filter (\<lambda>r. sr_store_id r = store_id) (rg_sources rg)))"

text \<open>\<open>LIMIT 1\<close> of an unordered query takes the first row that matches.\<close>

definition find_source_by_root_or_url :: "db_ext \<Rightarrow> registry \<Rightarrow> string \<Rightarrow> string \<Rightarrow> error + source_row option" where
  "find_source_by_root_or_url dx rg value store_id =
     select dx (FindSource value store_id)
       (find (\<lambda>r. sr_store_id r = store_id \<and> (sr_root r = Some value \<or> sr_url r = Some value)) (rg_sources rg))"

section \<open>Documents\<close>

definition find_document :: "db_ext \<Rightarrow> registry \<Rightarrow> string \<Rightarrow> string option \<Rightarrow> error + document_info option" where
  "find_document dx rg doc_id store_id =
     (case store_id of
        Some s \<Rightarrow> select dx (FindDocument doc_id store_id) (find (\<lambda>d. di_id d = doc_id \<and> di_store_id d = s) (rg_documents rg))
      | None \<Rightarrow>
          and_then (select dx (FindDocument doc_id store_id) (filter (\<lambda>d. di_id d = doc_id) (rg_documents rg))) (\<lambda>found.
            case found of
              [] \<Rightarrow> Inr None
            | [d] \<Rightarrow> Inr (Some d)
            | _ \<Rightarrow> Inl (InvalidRequest (''document '' @ quoted doc_id @
                '' exists in multiple stores; use store-scoped search to disambiguate''))))"

definition of_source :: "string \<Rightarrow> string option \<Rightarrow> document_info \<Rightarrow> bool" where
  "of_source store_id source_id d \<longleftrightarrow> di_store_id d = store_id \<and> (case source_id of Some s \<Rightarrow> di_source_id d = s | None \<Rightarrow> True)"

text \<open>
  The bound and the offset are cast to \<open>i64\<close>; SQLite takes a negative bound for none and a negative offset
  for zero.
\<close>

definition list_documents ::
  "db_ext \<Rightarrow> registry \<Rightarrow> string \<Rightarrow> string option \<Rightarrow> u64 option \<Rightarrow> u64 \<Rightarrow> error + document_info list" where
  "list_documents dx rg store_id source_id bound offset =
     (let limit_param = (case bound of Some l \<Rightarrow> sint l | None \<Rightarrow> -1);
          offset_param = sint offset
      in select dx (ListDocuments store_id source_id bound offset)
           (let rows = drop (nat offset_param)
                  (sort_by (\<lambda>d d'. ord_cmp (di_uri d) (di_uri d')) (filter (of_source store_id source_id) (rg_documents rg)))
            in if limit_param < 0 then rows else take (nat limit_param) rows))"

definition count_documents :: "db_ext \<Rightarrow> registry \<Rightarrow> string \<Rightarrow> string option \<Rightarrow> error + nat" where
  "count_documents dx rg store_id source_id =
     select dx (CountDocuments store_id source_id) (length (filter (of_source store_id source_id) (rg_documents rg)))"

interpretation by_uri: comparator "\<lambda>d d'. ord_cmp (di_uri d) (di_uri d')" UNIV
  by unfold_locales (auto simp: ord_cmp_rev cmp_simps not_less)

section \<open>The constraints hold\<close>

definition store_rows_ok :: "store_row list \<Rightarrow> bool" where
  "store_rows_ok stores \<longleftrightarrow> distinct (map st_id stores) \<and> distinct (map st_name stores)"

definition source_rows_ok :: "string set \<Rightarrow> source_row list \<Rightarrow> bool" where
  "source_rows_ok stores sources \<longleftrightarrow> distinct (map sr_id sources) \<and>
     (\<forall>r \<in> set sources. source_check r \<and> sr_store_id r \<in> stores) \<and>
     (\<forall>r \<in> set sources. \<forall>s \<in> set sources. sr_id r \<noteq> sr_id s \<longrightarrow> \<not> source_clash r s)"

definition document_rows_ok :: "source_row list \<Rightarrow> document_info list \<Rightarrow> bool" where
  "document_rows_ok sources documents \<longleftrightarrow> distinct (map (\<lambda>d. (di_store_id d, di_id d)) documents) \<and>
     (\<forall>d \<in> set documents. \<exists>r \<in> set sources. sr_id r = di_source_id d \<and> sr_store_id r = di_store_id d)"

definition tables_ok :: "registry \<Rightarrow> bool" where
  "tables_ok rg \<longleftrightarrow> store_rows_ok (rg_stores rg) \<and> source_rows_ok (st_id ` set (rg_stores rg)) (rg_sources rg) \<and>
     document_rows_ok (rg_sources rg) (rg_documents rg)"

lemma select_Inr: "select dx call a = Inr b \<Longrightarrow> b = a"
  by (auto simp: select_def perform_def split: option.splits)

lemma select_calm [simp]: "dx_fault dx call = None \<Longrightarrow> select dx call a = Inr a"
  by (simp add: select_def perform_def)

lemma write_with_cases:
  "write_with map_err dx call r rg = (rg', res) \<Longrightarrow>
     (rg' = rg \<and> (\<exists>e. res = Inl e)) \<or> (\<exists>a. r = Inr (rg', a) \<and> res = Inr a)"
  by (auto simp: write_with_def perform_def split: option.splits sum.splits)

lemma write_calm:
  "dx_fault dx call = None \<Longrightarrow> write_with map_err dx call (Inr (rg', a)) rg = (rg', Inr a)"
  by (simp add: write_with_def perform_def)

lemma replace_row_set:
  "distinct (map key rows) \<Longrightarrow> set (replace_row key row rows) = insert row {r \<in> set rows. key r \<noteq> key row}"
  by (auto simp: replace_row_def list_ex_iff)

lemma replace_row_keys:
  "map key (replace_row key row rows) = (if key row \<in> key ` set rows then map key rows else map key rows @ [key row])"
  by (auto simp: replace_row_def list_ex_iff image_iff) metis

lemma replace_row_distinct: "distinct (map key rows) \<Longrightarrow> distinct (map key (replace_row key row rows))"
  by (auto simp: replace_row_keys)

lemma replace_row_absent: "key row \<notin> key ` set rows \<Longrightarrow> replace_row key row rows = rows @ [row]"
  by (auto simp: replace_row_def list_ex_iff) (metis imageI)

lemma find_row: "distinct (map key rows) \<Longrightarrow> r \<in> set rows \<Longrightarrow> find (\<lambda>r'. key r' = key r) rows = Some r"
  by (induction rows) (auto simp: rev_image_eqI)

lemma distinct_key: "distinct (map key rows) \<Longrightarrow> r \<in> set rows \<Longrightarrow> s \<in> set rows \<Longrightarrow> key r = key s \<longleftrightarrow> r = s"
  by (auto simp: distinct_map inj_on_def)

lemma find_SomeD: "find P xs = Some x \<Longrightarrow> x \<in> set xs \<and> P x"
  by (auto simp: find_Some_iff)

lemma replace_row_names:
  assumes "distinct (map key rows)" "distinct (map name rows)" "\<And>r. r \<in> set rows \<Longrightarrow> name r = name row \<Longrightarrow> key r = key row"
  shows "distinct (map name (replace_row key row rows))"
  using assms
proof (induction rows)
  case (Cons r rows)
  show ?case
  proof (cases "key r = key row")
    case True
    then have "key row \<notin> key ` set rows" using Cons.prems(1) by (metis distinct.simps(2) list.set_map list.simps(9))
    then have "map (\<lambda>r'. if key r' = key row then row else r') rows = rows" by (auto intro!: map_idI simp: image_iff)
    moreover have "name row \<notin> name ` set rows" using Cons.prems(3) \<open>key row \<notin> _\<close> by (auto simp: image_iff)
    ultimately show ?thesis using True Cons.prems by (simp add: replace_row_def)
  next
    case False
    then have "replace_row key row (r # rows) = r # replace_row key row rows" by (simp add: replace_row_def)
    moreover have "name r \<notin> name ` set (replace_row key row rows)"
      using Cons.prems False by (auto simp: replace_row_set)
    ultimately show ?thesis using Cons by simp
  qed
qed (simp add: replace_row_def)

lemma tables_okD:
  assumes "tables_ok rg"
  shows "distinct (map st_id (rg_stores rg))" "distinct (map st_name (rg_stores rg))" "distinct (map sr_id (rg_sources rg))"
    "r \<in> set (rg_sources rg) \<Longrightarrow> source_check r" "r \<in> set (rg_sources rg) \<Longrightarrow> sr_store_id r \<in> st_id ` set (rg_stores rg)"
    "r \<in> set (rg_sources rg) \<Longrightarrow> s \<in> set (rg_sources rg) \<Longrightarrow> sr_id r \<noteq> sr_id s \<Longrightarrow> \<not> source_clash r s"
    "distinct (map (\<lambda>d. (di_store_id d, di_id d)) (rg_documents rg))"
    "d \<in> set (rg_documents rg) \<Longrightarrow> \<exists>r \<in> set (rg_sources rg). sr_id r = di_source_id d \<and> sr_store_id r = di_store_id d"
  using assms by (simp_all add: tables_ok_def store_rows_ok_def source_rows_ok_def document_rows_ok_def)

lemma tables_okI:
  assumes "distinct (map st_id (rg_stores rg))" "distinct (map st_name (rg_stores rg))" "distinct (map sr_id (rg_sources rg))"
    "\<And>r. r \<in> set (rg_sources rg) \<Longrightarrow> source_check r" "\<And>r. r \<in> set (rg_sources rg) \<Longrightarrow> sr_store_id r \<in> st_id ` set (rg_stores rg)"
    "\<And>r s. r \<in> set (rg_sources rg) \<Longrightarrow> s \<in> set (rg_sources rg) \<Longrightarrow> sr_id r \<noteq> sr_id s \<Longrightarrow> \<not> source_clash r s"
    "distinct (map (\<lambda>d. (di_store_id d, di_id d)) (rg_documents rg))"
    "\<And>d. d \<in> set (rg_documents rg) \<Longrightarrow> \<exists>r \<in> set (rg_sources rg). sr_id r = di_source_id d \<and> sr_store_id r = di_store_id d"
  shows "tables_ok rg"
  using assms by (simp add: tables_ok_def store_rows_ok_def source_rows_ok_def document_rows_ok_def)

lemma upsert_store_ok:
  assumes "tables_ok rg" "upsert_store_sql store rg = Inr (rg', u)"
  shows "tables_ok rg' \<and> rg_sources rg' = rg_sources rg \<and> rg_documents rg' = rg_documents rg"
    "\<exists>row. st_id row = st_id store \<and> st_name row = st_name store \<and>
       set (rg_stores rg') = insert row {r \<in> set (rg_stores rg). st_id r \<noteq> st_id store}"
proof -
  define row where "row = (case find (\<lambda>r. st_id r = st_id store) (rg_stores rg) of
    Some old \<Rightarrow> store\<lparr>st_created_at := st_created_at old\<rparr> | None \<Rightarrow> store)"
  have row: "st_id row = st_id store" "st_name row = st_name store" by (simp_all add: row_def split: option.split)
  have names: "\<And>r. r \<in> set (rg_stores rg) \<Longrightarrow> st_name r = st_name row \<Longrightarrow> st_id r = st_id row"
    and rg': "rg' = rg\<lparr>rg_stores := replace_row st_id row (rg_stores rg)\<rparr>"
    using assms(2) row by (auto simp: upsert_store_sql_def row_def [symmetric] Let_def list_ex_iff split: if_splits)
  have ok: "distinct (map st_id (rg_stores rg))" "distinct (map st_name (rg_stores rg))"
    using assms(1) by (simp_all add: tables_ok_def store_rows_ok_def)
  have set: "set (rg_stores rg') = insert row {r \<in> set (rg_stores rg). st_id r \<noteq> st_id row}"
    using rg' replace_row_set [OF ok(1), of row] by simp
  note okD = tables_okD [OF assms(1)]
  have same: "rg_sources rg' = rg_sources rg" "rg_documents rg' = rg_documents rg" using rg' by simp_all
  have "tables_ok rg'"
  proof (rule tables_okI)
    show "distinct (map st_id (rg_stores rg'))" using replace_row_distinct [OF ok(1), of row] rg' by simp
    show "distinct (map st_name (rg_stores rg'))" using replace_row_names [OF ok names] rg' by simp
    show "sr_store_id r \<in> st_id ` set (rg_stores rg')" if "r \<in> set (rg_sources rg')" for r
      using okD(5) [of r] that by (auto simp: set same)
  qed (use okD in \<open>simp_all add: same\<close>)
  then show "tables_ok rg' \<and> rg_sources rg' = rg_sources rg \<and> rg_documents rg' = rg_documents rg" using same by simp
  show "\<exists>row. st_id row = st_id store \<and> st_name row = st_name store \<and>
       set (rg_stores rg') = insert row {r \<in> set (rg_stores rg). st_id r \<noteq> st_id store}"
    using set row by metis
qed

lemma delete_store_ok: "tables_ok rg \<Longrightarrow> tables_ok (fst (delete_store_sql i rg))"
proof (cases "list_ex (\<lambda>r. st_id r = i) (rg_stores rg)")
  case True
  assume ok: "tables_ok rg"
  let ?rg = "fst (delete_store_sql i rg)"
  have rg: "rg_stores ?rg = filter (\<lambda>r. st_id r \<noteq> i) (rg_stores rg)" "rg_sources ?rg = filter (\<lambda>r. sr_store_id r \<noteq> i) (rg_sources rg)"
    "rg_documents ?rg = filter (\<lambda>d. di_store_id d \<noteq> i) (rg_documents rg)"
    using True by (simp_all add: delete_store_sql_def)
  note ok = tables_okD [OF ok]
  show ?thesis
  proof (rule tables_okI)
    show "sr_store_id r \<in> st_id ` set (rg_stores ?rg)" if "r \<in> set (rg_sources ?rg)" for r
      using ok(5) [of r] that by (auto simp: rg)
    show "\<exists>r \<in> set (rg_sources ?rg). sr_id r = di_source_id d \<and> sr_store_id r = di_store_id d" if "d \<in> set (rg_documents ?rg)" for d
      using ok(8) [of d] that by (auto simp: rg)
  qed (use ok(1-4,6,7) in \<open>auto simp: rg distinct_map_filter\<close>)
qed (simp add: delete_store_sql_def)

lemma delete_source_ok: "tables_ok rg \<Longrightarrow> tables_ok (fst (delete_source_sql i rg))"
  unfolding tables_ok_def delete_source_sql_def
  by (auto simp: source_rows_ok_def document_rows_ok_def distinct_map_filter list_ex_iff) metis+

lemma update_feed_cache_ok: "tables_ok rg \<Longrightarrow> tables_ok (fst (update_feed_cache_sql i e l d rg))"
proof -
  define f where "f r = (if sr_id r = i then r\<lparr>sr_feed_etag := e, sr_feed_last_modified := l, sr_feed_inputs_digest := d\<rparr> else r)" for r :: source_row
  have f: "sr_id (f r) = sr_id r" "sr_store_id (f r) = sr_store_id r" "source_check (f r) = source_check r"
    "source_clash (f r) (f s) = source_clash r s" for r s
    by (simp_all add: f_def source_check_def source_clash_def)
  have "map sr_id (map f rows) = map sr_id rows" for rows by (simp add: f)
  then show "tables_ok rg \<Longrightarrow> tables_ok (fst (update_feed_cache_sql i e l d rg))"
    unfolding tables_ok_def update_feed_cache_sql_def f_def [symmetric]
    by (auto simp: source_rows_ok_def document_rows_ok_def f comp_def)
qed

lemma updated_source_simps [simp]:
  "sr_id (updated_source old s) = sr_id s" "sr_store_id (updated_source old s) = sr_store_id s" "sr_kind (updated_source old s) = sr_kind s"
  "sr_root (updated_source old s) = sr_root s" "sr_url (updated_source old s) = sr_url s" "sr_refresh (updated_source old s) = sr_refresh s"
  "source_check (updated_source old s) = source_check s"
  by (simp_all add: updated_source_def source_check_def Let_def split: option.split)

lemma source_clash_sym: "source_clash r s \<longleftrightarrow> source_clash s r"
  unfolding source_clash_def by metis

lemma upsert_source_ok:
  assumes "tables_ok rg" "upsert_source_sql source rg = Inr (rg', u)"
  shows "tables_ok rg' \<and> rg_stores rg' = rg_stores rg \<and> rg_documents rg' = rg_documents rg"
    "set (rg_sources rg') = insert (updated_source (find (\<lambda>r. sr_id r = sr_id source) (rg_sources rg)) source)
       {r \<in> set (rg_sources rg). sr_id r \<noteq> sr_id source}" "sr_store_id source \<in> st_id ` set (rg_stores rg)"
proof -
  define row where "row = updated_source (find (\<lambda>r. sr_id r = sr_id source) (rg_sources rg)) source"
  have row: "sr_id row = sr_id source" "sr_store_id row = sr_store_id source" by (simp_all add: row_def)
  have c: "source_check source" "\<And>r. r \<in> set (rg_sources rg) \<Longrightarrow> sr_id r \<noteq> sr_id source \<Longrightarrow> \<not> source_clash r row"
      "\<And>d. d \<in> set (rg_documents rg) \<Longrightarrow> di_source_id d = sr_id source \<Longrightarrow> di_store_id d = sr_store_id source"
    and rg': "rg' = rg\<lparr>rg_sources := replace_row sr_id row (rg_sources rg)\<rparr>"
    and store: "sr_store_id source \<in> st_id ` set (rg_stores rg)"
    using assms(2) by (auto simp: upsert_source_sql_def row_def [symmetric] Let_def list_ex_iff rev_image_eqI split: if_splits)
  have ok: "distinct (map sr_id (rg_sources rg))" using assms(1) by (simp add: tables_ok_def source_rows_ok_def)
  have set: "set (rg_sources rg') = insert row {r \<in> set (rg_sources rg). sr_id r \<noteq> sr_id row}"
    using rg' replace_row_set [OF ok, of row] by simp
  have check: "source_check row" using c(1) by (simp add: row_def)
  note okD = tables_okD [OF assms(1)]
  have same: "rg_stores rg' = rg_stores rg" "rg_documents rg' = rg_documents rg" using rg' by simp_all
  have "tables_ok rg'"
  proof (rule tables_okI)
    show "distinct (map sr_id (rg_sources rg'))" using replace_row_distinct [OF ok, of row] rg' by simp
    show "source_check r" if "r \<in> set (rg_sources rg')" for r using that check okD(4) by (auto simp: set)
    show "sr_store_id r \<in> st_id ` set (rg_stores rg')" if "r \<in> set (rg_sources rg')" for r
      using that store row okD(5) by (auto simp: set same)
    show "\<not> source_clash r s" if "r \<in> set (rg_sources rg')" "s \<in> set (rg_sources rg')" "sr_id r \<noteq> sr_id s" for r s
      using that okD(6) c(2) source_clash_sym row by (simp add: set) metis
    show "\<exists>r \<in> set (rg_sources rg'). sr_id r = di_source_id d \<and> sr_store_id r = di_store_id d" if "d \<in> set (rg_documents rg')" for d
      using okD(8) [of d] c(3) [of d] that row by (cases "di_source_id d = sr_id source") (auto simp: set same)
  qed (use okD in \<open>simp_all add: same\<close>)
  then show "tables_ok rg' \<and> rg_stores rg' = rg_stores rg \<and> rg_documents rg' = rg_documents rg"
    using same by simp
  show "set (rg_sources rg') = insert (updated_source (find (\<lambda>r. sr_id r = sr_id source) (rg_sources rg)) source)
       {r \<in> set (rg_sources rg). sr_id r \<noteq> sr_id source}" using set by (simp add: row_def)
  show "sr_store_id source \<in> st_id ` set (rg_stores rg)" by fact
qed

end
