(* ===== verification/AppState.thy ===== *)
theory AppState
  imports Registry Scheduler SourceRun
begin

text \<open>
  The daemon's state (\<open>server/src/state.rs\<close>): the operations behind the HTTP handlers on stores and
  sources, each on the registry and on the records of the refresh scheduler, and the two caches. The
  generated id and the current time of an operation are arguments; so are the parsing and printing of
  JSON texts.
\<close>

section \<open>The state\<close>

record 'p app_env =
  ax_db :: db_ext
  ax_json :: json_ext
  ax_parse_policy :: "string \<Rightarrow> string + 'p"
  ax_default_policy :: "string + string"
  ax_default_version :: string

record app =
  ap_registry :: registry
  ap_records :: refresh_records

definition with_registry :: "app \<Rightarrow> registry \<times> 'b \<Rightarrow> app \<times> 'b" where
  "with_registry app r = (app\<lparr>ap_registry := fst r\<rparr>, snd r)"

definition ok_or :: "error \<Rightarrow> 'a option \<Rightarrow> error + 'a" where
  "ok_or e x = (case x of Some a \<Rightarrow> Inr a | None \<Rightarrow> Inl e)"

definition named_store :: "'p app_env \<Rightarrow> string \<Rightarrow> app \<Rightarrow> error + store_row" where
  "named_store ax name app =
     and_then (get_store_by_name (ax_db ax) (ap_registry app) name) (ok_or (StoreNotFound name))"

section \<open>Stores\<close>

definition store_visibility_to_str :: "store_visibility \<Rightarrow> string" where
  "store_visibility_to_str v = (case v of Private \<Rightarrow> ''private'' | Shared \<Rightarrow> ''shared'')"

record 'p effective_store =
  es_name :: string
  es_id :: string
  es_visibility :: string
  es_backend :: string
  es_indexing :: 'p

definition effective_store_of :: "'p app_env \<Rightarrow> store_row \<Rightarrow> error + 'p effective_store" where
  "effective_store_of ax store =
     (case ax_parse_policy ax (st_indexing_policy store) of
        Inl e \<Rightarrow> Inl (Internal (''invalid indexing_policy JSON for store '' @ quoted (st_name store) @ '': '' @ e) ''effective_config_policy_parse'')
      | Inr policy \<Rightarrow> Inr \<lparr>es_name = st_name store, es_id = st_id store,
          es_visibility = store_visibility_to_str (st_visibility store), es_backend = st_backend store, es_indexing = policy\<rparr>)"

fun collect :: "('a \<Rightarrow> 'e + 'b) \<Rightarrow> 'a list \<Rightarrow> 'e + 'b list" where
  "collect f [] = Inr []"
| "collect f (x # xs) = and_then (f x) (\<lambda>y. and_then (collect f xs) (\<lambda>ys. Inr (y # ys)))"

definition effective_config :: "'p app_env \<Rightarrow> app \<Rightarrow> error + 'p effective_store list" where
  "effective_config ax app = and_then (list_stores (ax_db ax) (ap_registry app)) (collect (effective_store_of ax))"

record store_record =
  sd_name :: string
  sd_id :: string
  sd_visibility :: string
  sd_backend :: string

definition store_record_of :: "'p effective_store \<Rightarrow> store_record" where
  "store_record_of s = \<lparr>sd_name = es_name s, sd_id = es_id s, sd_visibility = es_visibility s, sd_backend = es_backend s\<rparr>"

definition store_by_name :: "'p app_env \<Rightarrow> string \<Rightarrow> app \<Rightarrow> error + store_record" where
  "store_by_name ax name app =
     and_then (effective_config ax app) (\<lambda>stores.
       ok_or (StoreNotFound name) (map_option store_record_of (find (\<lambda>s. es_name s = name) stores)))"

definition default_store_row :: "'p app_env \<Rightarrow> string \<Rightarrow> string \<Rightarrow> string \<Rightarrow> store_visibility \<Rightarrow> error + store_row" where
  "default_store_row ax new_id now name visibility =
     (case ax_default_policy ax of
        Inl e \<Rightarrow> Inl (Internal (''cannot serialize indexing policy: '' @ e) ''store_factory_serialize'')
      | Inr policy \<Rightarrow> Inr \<lparr>st_id = new_id, st_name = name, st_visibility = visibility, st_backend = ''libsql'',
          st_indexing_policy = policy, st_policy_version = ax_default_version ax, st_acl = ''{}'', st_created_at = now\<rparr>)"

definition parse_visibility :: "(string \<Rightarrow> string) \<Rightarrow> string \<Rightarrow> error + store_visibility" where
  "parse_visibility message v =
     (if v = ''shared'' then Inr Shared else if v = ''private'' then Inr Private else Inl (InvalidRequest (message v)))"

text \<open>The store that is returned has the new row's id, name and visibility.\<close>

definition add_store :: "'p app_env \<Rightarrow> string \<Rightarrow> string \<Rightarrow> string \<Rightarrow> string \<Rightarrow> app \<Rightarrow> app \<times> (error + string \<times> string \<times> store_visibility)" where
  "add_store ax new_id now name visibility app =
     run_then (app, get_store_by_name (ax_db ax) (ap_registry app) name) (\<lambda>existing app.
       if existing \<noteq> None then (app, Inl (InvalidRequest (''store '' @ quoted name @ '' already exists'')))
       else run_then (app, and_then (parse_visibility (\<lambda>v. ''unknown visibility '' @ quoted v @ ''; expected '' @ quoted ''private'' @
                '' or '' @ quoted ''shared'') visibility)
              (\<lambda>vis. default_store_row ax new_id now name vis)) (\<lambda>row app.
            run_then (with_registry app (upsert_store (ax_db ax) row (ap_registry app))) (\<lambda>_ app.
              (app, Inr (st_id row, name, st_visibility row)))))"

definition update_store :: "'p app_env \<Rightarrow> string \<Rightarrow> string option \<Rightarrow> app \<Rightarrow> app \<times> (error + unit)" where
  "update_store ax name visibility app =
     run_then (app, named_store ax name app) (\<lambda>row app.
     run_then (app, case visibility of
                      None \<Rightarrow> Inr (st_visibility row)
                    | Some v \<Rightarrow> parse_visibility (\<lambda>v. ''unknown visibility '' @ quoted v) v) (\<lambda>vis app.
       with_registry app (upsert_store (ax_db ax) (row\<lparr>st_visibility := vis\<rparr>) (ap_registry app))))"

text \<open>The removal of a store: its sources leave the scheduler first, then the row goes.\<close>

definition unregister_all :: "source_row list \<Rightarrow> refresh_records \<Rightarrow> refresh_records" where
  "unregister_all rows recs = fold (\<lambda>src. unregister (sr_id src)) rows recs"

definition forget_sources :: "'p app_env \<Rightarrow> string \<Rightarrow> app \<Rightarrow> app \<times> (error + store_row)" where
  "forget_sources ax name app =
     run_then (app, named_store ax name app) (\<lambda>row app.
     run_then (app, list_sources (ax_db ax) (ap_registry app) (st_id row)) (\<lambda>rows app.
       (app\<lparr>ap_records := unregister_all rows (ap_records app)\<rparr>, Inr row)))"

definition drop_store :: "'p app_env \<Rightarrow> string \<Rightarrow> store_row \<Rightarrow> app \<Rightarrow> app \<times> (error + unit)" where
  "drop_store ax name row app =
     run_then (with_registry app (delete_store (ax_db ax) (st_id row) (ap_registry app))) (\<lambda>deleted app.
       if deleted then (app, Inr ()) else (app, Inl (StoreNotFound name)))"

definition remove_store :: "'p app_env \<Rightarrow> string \<Rightarrow> app \<Rightarrow> app \<times> (error + unit)" where
  "remove_store ax name app = run_then (forget_sources ax name app) (drop_store ax name)"

section \<open>Sources\<close>

record source_record =
  sc_id :: string
  sc_store_id :: string
  sc_kind :: string
  sc_spec :: json
  sc_preset :: string
  sc_refresh :: "string option"

definition source_row_to_record :: "json_ext \<Rightarrow> source_row \<Rightarrow> error + source_record" where
  "source_row_to_record jx row =
     and_then
       (case sr_kind row of
          PathKind \<Rightarrow>
            (case sr_root row of
               None \<Rightarrow> Inl (Internal (''path source '' @ quoted (sr_id row) @ '' has no root'') ''server_source_row_path'')
             | Some dir \<Rightarrow> Inr (''path'', JObject [(''root'', JString dir), (''include'', JArray (map JString (sr_include row))),
                 (''exclude'', JArray (map JString (sr_exclude row)))]))
        | UrlKind \<Rightarrow>
            (case sr_url row of
               None \<Rightarrow> Inl (Internal (''url source '' @ quoted (sr_id row) @ '' has no url'') ''server_source_row_url'')
             | Some url \<Rightarrow> Inr (''url'', JObject [(''url'', JString url)]))
        | FeedKind \<Rightarrow>
            (case sr_url row of
               None \<Rightarrow> Inl (Internal (''feed source '' @ quoted (sr_id row) @ '' has no url'') ''server_source_row_feed'')
             | Some url \<Rightarrow>
                 (let config = parse_feed_config_json jx (sr_config_json row)
                  in Inr (''feed'', JObject [(''url'', JString url),
                       (''max_entries'', json_option (\<lambda>n. JNumber (uint n)) (fc_max_entries config)),
                       (''fetch_full_content'', JBool (fc_fetch_full_content config))]))))
       (\<lambda>(kind, spec). Inr \<lparr>sc_id = sr_id row, sc_store_id = sr_store_id row, sc_kind = kind, sc_spec = spec,
          sc_preset = sr_preset row, sc_refresh = sr_refresh row\<rparr>)"

text \<open>The two halves of adding a source: the row is written, then the scheduler learns of it.\<close>

definition store_source ::
  "'p app_env \<Rightarrow> string \<Rightarrow> string \<Rightarrow> string \<Rightarrow> string \<Rightarrow> json \<Rightarrow> string \<Rightarrow> string option \<Rightarrow> app \<Rightarrow> app \<times> (error + source_row)" where
  "store_source ax new_id now store_name kind spec preset refresh app =
     run_then (app, named_store ax store_name app) (\<lambda>store app.
     run_then (app, new_source_row (ax_json ax) new_id now (st_id store) kind spec preset refresh) (\<lambda>row app.
     run_then (with_registry app (upsert_source (ax_db ax) row (ap_registry app))) (\<lambda>_ app. (app, Inr row))))"

definition announce_source :: "'p app_env \<Rightarrow> string \<Rightarrow> source_row \<Rightarrow> app \<Rightarrow> app \<times> (error + source_record)" where
  "announce_source ax store_name row app =
     (let interval = Option.bind (sr_refresh row) (\<lambda>r. case validate_refresh_interval r of Inr v \<Rightarrow> v | Inl e \<Rightarrow> None);
          app' = (if sr_kind row = UrlKind \<or> sr_kind row = FeedKind
                  then case sr_url row of
                         Some u \<Rightarrow> app\<lparr>ap_records := register (sr_id row) store_name u interval (ap_records app)\<rparr>
                       | None \<Rightarrow> app
                  else app)
      in (app', source_row_to_record (ax_json ax) row))"

definition add_source ::
  "'p app_env \<Rightarrow> string \<Rightarrow> string \<Rightarrow> string \<Rightarrow> string \<Rightarrow> json \<Rightarrow> string \<Rightarrow> string option \<Rightarrow> app \<Rightarrow> app \<times> (error + source_record)" where
  "add_source ax new_id now store_name kind spec preset refresh app =
     run_then (store_source ax new_id now store_name kind spec preset refresh app) (announce_source ax store_name)"

definition sources_of_store :: "'p app_env \<Rightarrow> string \<Rightarrow> app \<Rightarrow> error + source_record list" where
  "sources_of_store ax store_name app =
     and_then (named_store ax store_name app) (\<lambda>store.
     and_then (list_sources (ax_db ax) (ap_registry app) (st_id store)) (collect (source_row_to_record (ax_json ax))))"

definition remove_source :: "'p app_env \<Rightarrow> string \<Rightarrow> app \<Rightarrow> app \<times> (error + unit)" where
  "remove_source ax source_id app =
     run_then (with_registry app (delete_source (ax_db ax) source_id (ap_registry app))) (\<lambda>deleted app.
       if deleted then (app\<lparr>ap_records := unregister source_id (ap_records app)\<rparr>, Inr ())
       else (app, Inl (SourceNotFound source_id)))"

definition source_by_id :: "'p app_env \<Rightarrow> string \<Rightarrow> app \<Rightarrow> error + source_record" where
  "source_by_id ax source_id app =
     and_then (get_source (ax_db ax) (ap_registry app) source_id) (\<lambda>row.
     and_then (ok_or (SourceNotFound source_id) row) (source_row_to_record (ax_json ax)))"

text \<open>The registration of the stored sources when the daemon starts.\<close>

definition start_scheduler :: "'p app_env \<Rightarrow> app \<Rightarrow> app" where
  "start_scheduler ax app =
     app\<lparr>ap_records := register_all (map_sum id (map (\<lambda>s. (st_id s, st_name s))) (list_stores (ax_db ax) (ap_registry app)))
       (list_sources (ax_db ax) (ap_registry app)) []\<rparr>"

section \<open>The caches\<close>

text \<open>
  One slot, keyed by the settings its content was built from. The check under the read lock and the one
  under the write lock are the same test.
\<close>

definition get_or_build :: "'k \<Rightarrow> (unit \<Rightarrow> error + 'v) \<Rightarrow> ('k \<times> 'v) option \<Rightarrow> ('k \<times> 'v) option \<times> (error + 'v)" where
  "get_or_build key build cache =
     (let hit = (case cache of Some (cached, v) \<Rightarrow> if cached = key then Some v else None | None \<Rightarrow> None)
      in case hit of
           Some v \<Rightarrow> (cache, Inr v)
         | None \<Rightarrow> (case build () of Inl e \<Rightarrow> (cache, Inl e) | Inr v \<Rightarrow> (Some (key, v), Inr v)))"

definition get_or_build_embedder ::
  "'policy \<Rightarrow> 'providers \<Rightarrow> 'http \<Rightarrow> ('policy \<times> 'providers \<times> 'http \<Rightarrow> error + 'e) \<Rightarrow>
   (('policy \<times> 'providers \<times> 'http) \<times> 'e) option \<Rightarrow> (('policy \<times> 'providers \<times> 'http) \<times> 'e) option \<times> (error + 'e)" where
  "get_or_build_embedder policy providers http create_embedder cache =
     get_or_build (policy, providers, http) (\<lambda>_. create_embedder (policy, providers, http)) cache"

definition get_or_build_fetchers ::
  "'http \<Rightarrow> ('http \<Rightarrow> error + 'pair) \<Rightarrow> ('http \<times> 'pair) option \<Rightarrow> ('http \<times> 'pair) option \<times> (error + 'pair)" where
  "get_or_build_fetchers http new_pair cache = get_or_build http (\<lambda>_. new_pair http) cache"

lemma cache_shares:
  "get_or_build key build cache = (cache', Inr v) \<Longrightarrow> get_or_build key build' cache' = (cache', Inr v)"
  by (auto simp: get_or_build_def Let_def split: option.splits sum.splits if_splits)

end
