(* ===== verification/Listing.thy ===== *)
theory Listing
  imports AppState Search SearchFilters
begin

text \<open>
  What the daemon answers in pages (\<open>server/src/handlers/\<close>, \<open>server/src/search_service.rs\<close>), and the loop
  with which the command line reads a whole listing (\<open>cli/src/daemon_client.rs\<close>). \<open>usize\<close> has 64 bits.
  The HTTP exchange is a parameter: what a GET of a URL answers, as JSON.
\<close>

section \<open>Pages\<close>

definition parse_cursor :: "string option \<Rightarrow> error + u64" where
  "parse_cursor cursor =
     (case cursor of
        None \<Rightarrow> Inr 0
      | Some s \<Rightarrow>
          (case parse_u64 s of
             Some n \<Rightarrow> Inr (word_of_nat n)
           | None \<Rightarrow> Inl (InvalidRequest (''invalid pagination cursor '' @ quoted s @ ''; expected a non-negative integer''))))"

definition parse_limit :: "u64 \<Rightarrow> error + u64" where
  "parse_limit limit = (if limit = 0 then Inl (InvalidRequest ''limit must be at least 1'') else Inr limit)"

definition default_limit :: u64 where
  "default_limit = 20"

definition checked_add :: "u64 \<Rightarrow> u64 \<Rightarrow> u64 option" where
  "checked_add a b = (if unat a + unat b < 2 ^ 64 then Some (a + b) else None)"

record 'a page =
  pg_items :: "'a list"
  pg_next_cursor :: "string option"
  pg_total :: u64

definition paginated_list :: "'a list \<Rightarrow> u64 \<Rightarrow> u64 \<Rightarrow> u64 \<Rightarrow> 'a page" where
  "paginated_list items offset limit n_total =
     \<lparr>pg_items = take (unat limit) items,
      pg_next_cursor =
        (case checked_add offset limit of
           Some page_end \<Rightarrow> if page_end < n_total then Some (show_nat (unat page_end)) else None
         | None \<Rightarrow> None),
      pg_total = n_total\<rparr>"

section \<open>The listings\<close>

definition list_stores_page :: "'p app_env \<Rightarrow> string option \<Rightarrow> u64 \<Rightarrow> app \<Rightarrow> error + store_record page" where
  "list_stores_page ax cursor limit app =
     and_then (effective_config ax app) (\<lambda>effective.
     and_then (parse_cursor cursor) (\<lambda>offset.
     and_then (parse_limit limit) (\<lambda>limit.
       let everything = map store_record_of effective
       in Inr (paginated_list (drop (unat offset) everything) offset limit (word_of_nat (length everything))))))"

definition list_sources_page :: "'p app_env \<Rightarrow> string \<Rightarrow> string option \<Rightarrow> u64 \<Rightarrow> app \<Rightarrow> error + source_record page" where
  "list_sources_page ax store_name cursor limit app =
     and_then (parse_cursor cursor) (\<lambda>offset.
     and_then (parse_limit limit) (\<lambda>limit.
     and_then (sources_of_store ax store_name app) (\<lambda>everything.
       Inr (paginated_list (drop (unat offset) everything) offset limit (word_of_nat (length everything))))))"

definition documents_of_store ::
  "'p app_env \<Rightarrow> string \<Rightarrow> string option \<Rightarrow> u64 option \<Rightarrow> u64 \<Rightarrow> app \<Rightarrow> error + document_info list \<times> nat" where
  "documents_of_store ax store_name source_id bound offset app =
     and_then (named_store ax store_name app) (\<lambda>store.
     and_then (list_documents (ax_db ax) (ap_registry app) (st_id store) source_id bound offset) (\<lambda>items.
     and_then (count_documents (ax_db ax) (ap_registry app) (st_id store) source_id) (\<lambda>n. Inr (items, n))))"

definition list_documents_page ::
  "'p app_env \<Rightarrow> string \<Rightarrow> string option \<Rightarrow> string option \<Rightarrow> u64 \<Rightarrow> app \<Rightarrow> error + document_info page" where
  "list_documents_page ax store_name source_id cursor limit app =
     and_then (parse_cursor cursor) (\<lambda>offset.
     and_then (parse_limit limit) (\<lambda>limit.
     and_then (documents_of_store ax store_name source_id (Some limit) offset app) (\<lambda>(page, n_total).
       Inr (paginated_list page offset limit (word_of_nat n_total)))))"

section \<open>Search\<close>

record search_request =
  sq_query :: string
  sq_store_filter :: "string list"
  sq_limit :: u64
  sq_cursor :: "string option"
  sq_filters :: search_filters

record search_response =
  sv_citations :: "citation list"
  sv_total_candidates :: nat
  sv_next_cursor :: "string option"

text \<open>Building the embedder and opening a store for search.\<close>

record search_ext =
  sx_create_embedder :: "error + embed_fn"
  sx_error_text :: "error \<Rightarrow> string"
  sx_open :: "string \<Rightarrow> string \<Rightarrow> error + store_handle"

definition resolve_page_end :: "u64 \<Rightarrow> u64 \<Rightarrow> error + u64" where
  "resolve_page_end offset limit =
     ok_or (InvalidRequest (''pagination cursor '' @ quoted (show_nat (unat offset)) @ '' combined with limit '' @
       quoted (show_nat (unat limit)) @ '' overflows; request an earlier page or a smaller limit'')) (checked_add offset limit)"

definition clamp_limit :: "u64 \<Rightarrow> u64" where
  "clamp_limit limit = word_of_nat (clamp_search_limit (unat limit))"

definition known_stores :: "'p effective_store list \<Rightarrow> string list \<Rightarrow> error + unit" where
  "known_stores stores names =
     (case find (\<lambda>name. \<not> list_ex (\<lambda>s. es_name s = name) stores) names of
        Some name \<Rightarrow> Inl (StoreNotFound name) | None \<Rightarrow> Inr ())"

definition target_stores :: "'p effective_store list \<Rightarrow> string list \<Rightarrow> 'p effective_store list" where
  "target_stores stores names = (if names = [] then stores else filter (\<lambda>s. es_name s \<in> set names) stores)"

definition search_page ::
  "'p app_env \<Rightarrow> search_ext \<Rightarrow> ('i, 'd) time_api \<Rightarrow> search_request \<Rightarrow> app \<Rightarrow> error + search_response" where
  "search_page ax sx ta req app =
     (if sq_query req = [] then Inl (InvalidRequest ''query cannot be empty'')
      else
        and_then (into_metadata_filters ta (sq_filters req)) (\<lambda>metadata_filters.
        and_then (parse_cursor (sq_cursor req)) (\<lambda>offset.
        let limit = clamp_limit (sq_limit req) in
        and_then (resolve_page_end offset limit) (\<lambda>page_end.
        and_then (effective_config ax app) (\<lambda>effective.
        and_then (known_stores effective (sq_store_filter req)) (\<lambda>_.
        and_then (case sx_create_embedder sx of Inl e \<Rightarrow> Inl (InvalidConfig (sx_error_text sx e)) | Inr emb \<Rightarrow> Inr emb) (\<lambda>emb.
        and_then (collect (\<lambda>s. sx_open sx (es_id s) (es_name s)) (target_stores effective (sq_store_filter req))) (\<lambda>handles.
          if handles = [] then Inr \<lparr>sv_citations = [], sv_total_candidates = 0, sv_next_cursor = None\<rparr>
          else
            and_then (query handles emb \<lparr>q_query = sq_query req, q_leg_k = None, q_top_n = Some (unat page_end), q_filters = metadata_filters\<rparr>)
              (\<lambda>response.
                 let n = qr_total_candidates response
                 in Inr \<lparr>sv_citations = drop (unat offset) (qr_citations response), sv_total_candidates = n,
                      sv_next_cursor = (if unat page_end < n then Some (show_nat (unat page_end)) else None)\<rparr>)))))))))"

section \<open>Reading a whole listing\<close>

definition MAX_DAEMON_PAGES :: nat where
  "MAX_DAEMON_PAGES = 10000"

text \<open>Everything but letters, digits and \<open>- . _ ~\<close> is percent-encoded.\<close>

definition unreserved :: "char \<Rightarrow> bool" where
  "unreserved c \<longleftrightarrow>
     (let n = (of_char c :: nat)
      in (48 \<le> n \<and> n \<le> 57) \<or> (65 \<le> n \<and> n \<le> 90) \<or> (97 \<le> n \<and> n \<le> 122) \<or> c \<in> {CHR ''-'', CHR ''.'', CHR ''_'', CHR ''~''})"

definition hex_digit :: "nat \<Rightarrow> char" where
  "hex_digit n = char_of (if n < 10 then 48 + n else 55 + n)"

definition encode_path_segment :: "string \<Rightarrow> string" where
  "encode_path_segment s =
     concat (map (\<lambda>c. if unreserved c then [c]
                      else [CHR ''%'', hex_digit (of_char c div 16), hex_digit (of_char c mod 16)]) s)"

definition daemon_url :: "string \<Rightarrow> string \<Rightarrow> string option \<Rightarrow> string" where
  "daemon_url base_url path cursor =
     (case cursor of
        Some c \<Rightarrow> base_url @ path @ [if CHR ''?'' \<in> set path then CHR ''&'' else CHR ''?''] @ ''cursor='' @ encode_path_segment c
      | None \<Rightarrow> base_url @ path)"

definition pagination_shape :: "string \<Rightarrow> error" where
  "pagination_shape path =
     Internal (''unexpected response shape from GET '' @ path @ '' (missing or non-array '' @ quoted ''items'' @ '' field)'')
       ''daemon_pagination_shape''"

definition pagination_cycle :: "string \<Rightarrow> string \<Rightarrow> error" where
  "pagination_cycle path next_cursor =
     Internal (''daemon returned a repeating pagination cursor '' @ quoted next_cursor @ '' for GET '' @ path @
       '' '' @ [CHR 0xE2, CHR 0x80, CHR 0x94] @ '' a cursor value was seen twice, which a well-behaved daemon never produces'') ''daemon_pagination_cycle''"

definition pagination_page_cap :: "string \<Rightarrow> error" where
  "pagination_page_cap path =
     Internal (''daemon pagination for GET '' @ path @ '' did not terminate within '' @ show_nat MAX_DAEMON_PAGES @ '' pages'')
       ''daemon_pagination_page_cap''"

text \<open>The accumulator \<open>'a\<close> is what \<open>on_page\<close> writes; it says whether to stop.\<close>

fun walk_pages ::
  "nat \<Rightarrow> (string \<Rightarrow> error + json) \<Rightarrow> string \<Rightarrow> string \<Rightarrow> (json list \<Rightarrow> 'a \<Rightarrow> 'a \<times> bool) \<Rightarrow> string option \<Rightarrow> string list \<Rightarrow> 'a \<Rightarrow>
   'a \<times> (error + unit)" where
  "walk_pages 0 get base_url path on_page cursor seen_cursors a = (a, Inl (pagination_page_cap path))"
| "walk_pages (Suc n) get base_url path on_page cursor seen_cursors a =
     (case get (daemon_url base_url path cursor) of
        Inl e \<Rightarrow> (a, Inl e)
      | Inr resp \<Rightarrow>
          (case Option.bind (json_get ''items'' resp) as_array of
             None \<Rightarrow> (a, Inl (pagination_shape path))
           | Some items \<Rightarrow>
               (case on_page items a of
                  (a', stop) \<Rightarrow>
                    if stop then (a', Inr ())
                    else case Option.bind (json_get ''next_cursor'' resp) as_str of
                           None \<Rightarrow> (a', Inr ())
                         | Some next_cursor \<Rightarrow>
                             if next_cursor \<in> set seen_cursors then (a', Inl (pagination_cycle path next_cursor))
                             else walk_pages n get base_url path on_page (Some next_cursor) (next_cursor # seen_cursors) a')))"

definition walk_daemon_pages ::
  "(string \<Rightarrow> error + json) \<Rightarrow> string \<Rightarrow> string \<Rightarrow> (json list \<Rightarrow> 'a \<Rightarrow> 'a \<times> bool) \<Rightarrow> 'a \<Rightarrow> 'a \<times> (error + unit)" where
  "walk_daemon_pages get base_url path on_page a = walk_pages MAX_DAEMON_PAGES get base_url path on_page None [] a"

definition store_names_of :: "json list \<Rightarrow> string list" where
  "store_names_of items = List.map_filter (\<lambda>item. Option.bind (json_get ''name'' item) as_str) items"

definition fetch_all_daemon_store_names :: "(string \<Rightarrow> error + json) \<Rightarrow> string \<Rightarrow> error + string list" where
  "fetch_all_daemon_store_names get base_url =
     (case walk_daemon_pages get base_url ''/v1/stores'' (\<lambda>items names. (names @ store_names_of items, False)) [] of
        (names, Inl e) \<Rightarrow> Inl e
      | (names, Inr _) \<Rightarrow> Inr names)"

text \<open>Which store of the daemon has a source: the stores in scope are asked in order.\<close>

definition daemon_store_has_source :: "(string \<Rightarrow> error + json) \<Rightarrow> string \<Rightarrow> string \<Rightarrow> string \<Rightarrow> error + bool" where
  "daemon_store_has_source get base_url store_name source_id =
     (case walk_daemon_pages get base_url (''/v1/stores/'' @ encode_path_segment store_name @ ''/sources'')
             (\<lambda>items found. if list_ex (\<lambda>item. Option.bind (json_get ''id'' item) as_str = Some source_id) items
                             then (True, True) else (found, False)) False of
        (found, Inl e) \<Rightarrow> Inl e
      | (found, Inr _) \<Rightarrow> Inr found)"

fun resolve_daemon_source_owner :: "(string \<Rightarrow> error + json) \<Rightarrow> string \<Rightarrow> string list \<Rightarrow> string \<Rightarrow> error + string" where
  "resolve_daemon_source_owner get base_url [] source_id = Inl (SourceNotFound source_id)"
| "resolve_daemon_source_owner get base_url (name # scoped_names) source_id =
     and_then (daemon_store_has_source get base_url name source_id) (\<lambda>found.
       if found then Inr name else resolve_daemon_source_owner get base_url scoped_names source_id)"

text \<open>How the daemon prints a page and a store.\<close>

definition page_json :: "('a \<Rightarrow> json) \<Rightarrow> 'a page \<Rightarrow> json" where
  "page_json item p =
     JObject [(''items'', JArray (map item (pg_items p))), (''next_cursor'', json_option JString (pg_next_cursor p)),
       (''total'', JNumber (uint (pg_total p)))]"

definition store_json :: "store_record \<Rightarrow> json" where
  "store_json s =
     JObject [(''name'', JString (sd_name s)), (''id'', JString (sd_id s)), (''visibility'', JString (sd_visibility s)),
       (''backend'', JString (sd_backend s))]"

definition source_json :: "source_record \<Rightarrow> json" where
  "source_json s =
     JObject [(''id'', JString (sc_id s)), (''store_id'', JString (sc_store_id s)), (''kind'', JString (sc_kind s)),
       (''spec'', sc_spec s), (''preset'', JString (sc_preset s)), (''refresh'', json_option JString (sc_refresh s))]"

end
