(* ===== verification/AppSafety.thy ===== *)
theory AppSafety
  imports AppState
begin

text \<open>
  The registry and the scheduler stay in step: under any sequence of the daemon's operations, each run
  after the other, and whatever statements of the database fail.
\<close>

section \<open>The operations, one after another\<close>

definition fault_free :: "db_ext \<Rightarrow> bool" where
  "fault_free dx \<longleftrightarrow> (\<forall>call. dx_fault dx call = None)"

text \<open>
  Every step has its own environment: new ids are fresh, and with \<open>calm\<close> no statement fails for a reason
  of its own. Beside the operations of the daemon: a restart, what the jobs write (documents, under the
  constraints of their table, the cached validators of a feed, the policy of a store), and what the
  scheduler notes in its records.
\<close>

inductive app_step :: "bool \<Rightarrow> app \<Rightarrow> app \<Rightarrow> bool" for calm where
  step_add_store: "(calm \<Longrightarrow> fault_free (ax_db (ax :: string app_env))) \<Longrightarrow> new_id \<notin> st_id ` set (rg_stores (ap_registry app)) \<Longrightarrow>
    app_step calm app (fst (add_store ax new_id now name vis app))"
| step_update_store: "(calm \<Longrightarrow> fault_free (ax_db (ax :: string app_env))) \<Longrightarrow> app_step calm app (fst (update_store ax name change app))"
| step_remove_store: "(calm \<Longrightarrow> fault_free (ax_db (ax :: string app_env))) \<Longrightarrow> app_step calm app (fst (remove_store ax name app))"
| step_add_source: "(calm \<Longrightarrow> fault_free (ax_db (ax :: string app_env))) \<Longrightarrow> new_id \<notin> sr_id ` set (rg_sources (ap_registry app)) \<Longrightarrow>
    app_step calm app (fst (add_source ax new_id now store kind spec preset refresh app))"
| step_remove_source: "(calm \<Longrightarrow> fault_free (ax_db (ax :: string app_env))) \<Longrightarrow> app_step calm app (fst (remove_source ax source_id app))"
| step_restart: "(calm \<Longrightarrow> fault_free (ax_db (ax :: string app_env))) \<Longrightarrow> app_step calm app (start_scheduler ax app)"
| step_feed_cache: "app_step calm app (app\<lparr>ap_registry := fst (update_source_feed_cache dx i etag modified digest (ap_registry app))\<rparr>)"
| step_policy: "row \<in> set (rg_stores (ap_registry app)) \<Longrightarrow>
    app_step calm app (app\<lparr>ap_registry := fst (upsert_store dx (row\<lparr>st_policy_version := v, st_indexing_policy := policy\<rparr>) (ap_registry app))\<rparr>)"
| step_documents: "document_rows_ok (rg_sources (ap_registry app)) docs \<Longrightarrow>
    app_step calm app (app\<lparr>ap_registry := (ap_registry app)\<lparr>rg_documents := docs\<rparr>\<rparr>)"
| step_mark: "app_step calm app (app\<lparr>ap_records := mark_inflight source_id (ap_records app)\<rparr>)"
| step_stamp: "app_step calm app (app\<lparr>ap_records := stamp time source_id (ap_records app)\<rparr>)"

definition empty_app :: app where
  "empty_app = \<lparr>ap_registry = \<lparr>rg_stores = [], rg_sources = [], rg_documents = []\<rparr>, ap_records = []\<rparr>"

inductive app_reachable :: "bool \<Rightarrow> app \<Rightarrow> bool" for calm where
  app_start: "app_reachable calm empty_app"
| app_next: "app_reachable calm app \<Longrightarrow> app_step calm app app' \<Longrightarrow> app_reachable calm app'"

section \<open>A record is backed by a row\<close>

definition backs :: "source_row \<Rightarrow> store_row \<Rightarrow> refresh_record \<Rightarrow> bool" where
  "backs row store r \<longleftrightarrow>
     rr_source_id r = sr_id row \<and> sr_kind row \<in> {UrlKind, FeedKind} \<and> sr_url row = Some (rr_url r) \<and>
     st_id store = sr_store_id row \<and> st_name store = rr_store_name r \<and>
     rr_interval r = Option.bind (sr_refresh row) parse_refresh_interval"

definition backed :: "registry \<Rightarrow> string \<Rightarrow> refresh_record \<Rightarrow> bool" where
  "backed rg sid r \<longleftrightarrow> (\<exists>row \<in> set (rg_sources rg). \<exists>store \<in> set (rg_stores rg). sr_id row = sid \<and> backs row store r)"

definition refreshable :: "source_row \<Rightarrow> bool" where
  "refreshable row \<longleftrightarrow> sr_kind row \<in> {UrlKind, FeedKind} \<and> sr_url row \<noteq> None"

definition in_step :: "bool \<Rightarrow> app \<Rightarrow> bool" where
  "in_step calm app \<longleftrightarrow> tables_ok (ap_registry app) \<and>
     (\<forall>sid r. map_of (ap_records app) sid = Some r \<longrightarrow> backed (ap_registry app) sid r) \<and>
     (calm \<longrightarrow> (\<forall>row \<in> set (rg_sources (ap_registry app)). refreshable row \<longrightarrow> map_of (ap_records app) (sr_id row) \<noteq> None))"

lemma in_stepI:
  assumes "tables_ok (ap_registry app)" "\<And>sid r. map_of (ap_records app) sid = Some r \<Longrightarrow> backed (ap_registry app) sid r"
    "\<And>row. calm \<Longrightarrow> row \<in> set (rg_sources (ap_registry app)) \<Longrightarrow> refreshable row \<Longrightarrow> map_of (ap_records app) (sr_id row) \<noteq> None"
  shows "in_step calm app"
  using assms unfolding in_step_def by blast

lemma in_stepD:
  assumes "in_step calm app"
  shows "tables_ok (ap_registry app)" "map_of (ap_records app) sid = Some r \<Longrightarrow> backed (ap_registry app) sid r"
    "calm \<Longrightarrow> row \<in> set (rg_sources (ap_registry app)) \<Longrightarrow> refreshable row \<Longrightarrow> map_of (ap_records app) (sr_id row) \<noteq> None"
  using assms unfolding in_step_def by blast+

text \<open>Changing the stores keeps it as long as ids and names stay, and so does changing documents.\<close>

lemma in_step_same_sources:
  assumes "in_step calm app" "tables_ok rg" "rg_sources rg = rg_sources (ap_registry app)"
    "\<And>store. store \<in> set (rg_stores (ap_registry app)) \<Longrightarrow>
       \<exists>store' \<in> set (rg_stores rg). st_id store' = st_id store \<and> st_name store' = st_name store"
  shows "in_step calm (app\<lparr>ap_registry := rg\<rparr>)"
proof (rule in_stepI)
  fix sid r assume "map_of (ap_records (app\<lparr>ap_registry := rg\<rparr>)) sid = Some r"
  then obtain row store where "row \<in> set (rg_sources (ap_registry app))" "store \<in> set (rg_stores (ap_registry app))" "sr_id row = sid" "backs row store r"
    using in_stepD(2) [OF assms(1), of sid r] unfolding backed_def by auto
  then show "backed (ap_registry (app\<lparr>ap_registry := rg\<rparr>)) sid r"
    using assms(4) [of store] assms(3) by (auto simp: backed_def backs_def)
qed (use in_stepD [OF assms(1)] assms(2,3) in auto)

lemma upsert_store_in_step:
  assumes "in_step calm app"
    "\<And>r. r \<in> set (rg_stores (ap_registry app)) \<Longrightarrow> st_id r = st_id store \<Longrightarrow> st_name r = st_name store"
  shows "in_step calm (app\<lparr>ap_registry := fst (upsert_store dx store (ap_registry app))\<rparr>)"
proof -
  obtain rg res where u: "upsert_store dx store (ap_registry app) = (rg, res)" by (metis prod.exhaust)
  from write_with_cases [OF u [unfolded upsert_store_def]]
  show ?thesis
  proof
    assume "\<exists>a. upsert_store_sql store (ap_registry app) = Inr (rg, a) \<and> res = Inr a"
    then obtain a where "upsert_store_sql store (ap_registry app) = Inr (rg, a)" by blast
    note ok = upsert_store_ok [OF in_stepD(1) [OF assms(1)] this]
    have "in_step calm (app\<lparr>ap_registry := rg\<rparr>)"
    proof (rule in_step_same_sources [OF assms(1)])
      fix r assume r: "r \<in> set (rg_stores (ap_registry app))"
      show "\<exists>store' \<in> set (rg_stores rg). st_id store' = st_id r \<and> st_name store' = st_name r"
        using ok(2) r assms(2) [OF r] by (cases "st_id r = st_id store") auto
    qed (use ok in auto)
    then show ?thesis using u by simp
  qed (use u assms(1) in simp)
qed

lemma run_then_cases: "fst (run_then r f) = (case snd r of Inl e \<Rightarrow> fst r | Inr a \<Rightarrow> fst (f a (fst r)))"
  by (auto simp: run_then_def split: prod.split sum.split)

lemma named_store_found:
  assumes "named_store ax name app = Inr row"
  shows "row \<in> set (rg_stores (ap_registry app)) \<and> st_name row = name"
  using assms by (auto simp: named_store_def and_then_eq_Inr get_store_by_name_def ok_or_def dest!: select_Inr find_SomeD [OF sym] split: option.splits)

lemma add_store_in_step:
  assumes "in_step calm app" "new_id \<notin> st_id ` set (rg_stores (ap_registry app))"
  shows "in_step calm (fst (add_store ax new_id now name vis app))"
proof -
  have "in_step calm (app\<lparr>ap_registry := fst (upsert_store (ax_db ax) row (ap_registry app))\<rparr>)" if "st_id row = new_id" for row
    by (rule upsert_store_in_step [OF assms(1)]) (use assms(2) that in auto)
  moreover have "st_id row = new_id" if "default_store_row ax new_id now name v = Inr row" for v row
    using that by (auto simp: default_store_row_def split: sum.splits)
  ultimately show ?thesis
    using assms(1) by (auto simp: add_store_def run_then_cases with_registry_def and_then_eq_Inr split: sum.split)
qed

lemma update_store_in_step:
  assumes "in_step calm app"
  shows "in_step calm (fst (update_store ax name change app))"
proof -
  have "in_step calm (app\<lparr>ap_registry := fst (upsert_store (ax_db ax) (row\<lparr>st_visibility := vis\<rparr>) (ap_registry app))\<rparr>)"
    if "named_store ax name app = Inr row" for row vis
    by (rule upsert_store_in_step [OF assms])
      (use named_store_found [OF that] tables_okD(1) [OF in_stepD(1) [OF assms]] in \<open>auto simp: inj_on_def distinct_map\<close>)
  then show ?thesis using assms by (auto simp: update_store_def run_then_cases with_registry_def split: sum.split)
qed

section \<open>Sources come and go\<close>

lemma map_of_unregister_all:
  "map_of (unregister_all rows recs) sid = (if sid \<in> sr_id ` set rows then None else map_of recs sid)"
  by (induction rows arbitrary: recs) (auto simp: unregister_all_def unregister_def map_of_delete_key)

lemma drop_records_in_step:
  assumes "in_step calm app" "map_of recs \<subseteq>\<^sub>m map_of (ap_records app)"
    "\<And>row. calm \<Longrightarrow> row \<in> set (rg_sources (ap_registry app)) \<Longrightarrow> map_of recs (sr_id row) \<noteq> map_of (ap_records app) (sr_id row) \<Longrightarrow> row \<notin> set (rg_sources rg)"
    "tables_ok rg" "set (rg_sources rg) \<subseteq> set (rg_sources (ap_registry app))"
    "\<And>sid r. map_of recs sid = Some r \<Longrightarrow> backed (ap_registry app) sid r \<Longrightarrow> backed rg sid r"
  shows "in_step calm \<lparr>ap_registry = rg, ap_records = recs\<rparr>"
proof (rule in_stepI)
  fix sid r assume "map_of (ap_records \<lparr>ap_registry = rg, ap_records = recs\<rparr>) sid = Some r"
  then have r: "map_of recs sid = Some r" by simp
  then have "map_of (ap_records app) sid = Some r" using assms(2) unfolding map_le_def by (metis domI)
  from assms(6) [OF r in_stepD(2) [OF assms(1) this]] show "backed (ap_registry \<lparr>ap_registry = rg, ap_records = recs\<rparr>) sid r" by simp
next
  fix row assume row: calm "row \<in> set (rg_sources (ap_registry \<lparr>ap_registry = rg, ap_records = recs\<rparr>))" "refreshable row"
  then have "row \<in> set (rg_sources (ap_registry app))" using assms(5) by auto
  then show "map_of (ap_records \<lparr>ap_registry = rg, ap_records = recs\<rparr>) (sr_id row) \<noteq> None"
    using in_stepD(3) [OF assms(1) row(1) _ row(3)] assms(3) [OF row(1)] row(2) by force
qed (simp add: assms(4))

lemma remove_source_in_step:
  assumes "in_step calm app"
  shows "in_step calm (fst (remove_source ax source_id app))"
proof -
  obtain rg res where d: "delete_source (ax_db ax) source_id (ap_registry app) = (rg, res)" by (metis prod.exhaust)
  from write_with_cases [OF d [unfolded delete_source_def]]
  consider (failed) e where "rg = ap_registry app" "res = Inl e"
    | (gone) b where "delete_source_sql source_id (ap_registry app) = (rg, b)" "res = Inr b"
    by auto
  then show ?thesis
  proof cases
    case failed
    then show ?thesis using d assms by (simp add: remove_source_def run_then_cases with_registry_def)
  next
    case (gone b)
    have rg: "tables_ok rg" "rg_stores rg = rg_stores (ap_registry app)"
      "rg_sources rg = filter (\<lambda>r. sr_id r \<noteq> source_id) (rg_sources (ap_registry app))"
      "b = list_ex (\<lambda>r. sr_id r = source_id) (rg_sources (ap_registry app))"
      using gone(1) delete_source_ok [OF in_stepD(1) [OF assms], of source_id] by (auto simp: delete_source_sql_def)
    show ?thesis
    proof (cases b)
      case True
      have "in_step calm \<lparr>ap_registry = rg, ap_records = unregister source_id (ap_records app)\<rparr>"
        by (rule drop_records_in_step [OF assms])
          (auto simp: unregister_def map_of_delete_key map_le_def rg(2,3) rg(1) backed_def split: if_splits)
      moreover have "fst (remove_source ax source_id app) = \<lparr>ap_registry = rg, ap_records = unregister source_id (ap_records app)\<rparr>"
        using d gone True by (simp add: remove_source_def run_then_cases with_registry_def)
      ultimately show ?thesis by simp
    next
      case False
      then have "rg_sources rg = rg_sources (ap_registry app)" using rg(3,4) by (auto simp: list_ex_iff intro: filter_True)
      then have "in_step calm (app\<lparr>ap_registry := rg\<rparr>)"
        using rg(1,2) by (intro in_step_same_sources [OF assms]) auto
      then show ?thesis using d gone False by (simp add: remove_source_def run_then_cases with_registry_def)
    qed
  qed
qed

lemma forget_sources_in_step:
  assumes "in_step calm app" "forget_sources ax name app = (app', Inr row)"
  shows "app' = app\<lparr>ap_records := ap_records app'\<rparr>" "row \<in> set (rg_stores (ap_registry app))"
    "map_of (ap_records app') sid =
       (if sid \<in> sr_id ` {r \<in> set (rg_sources (ap_registry app)). sr_store_id r = st_id row} then None else map_of (ap_records app) sid)"
proof -
  from assms(2) obtain rows where n: "named_store ax name app = Inr row"
    and l: "list_sources (ax_db ax) (ap_registry app) (st_id row) = Inr rows"
    and app': "app' = app\<lparr>ap_records := unregister_all rows (ap_records app)\<rparr>"
    by (auto simp: forget_sources_def run_then_def split: sum.splits)
  show "app' = app\<lparr>ap_records := ap_records app'\<rparr>" using app' by simp
  show "row \<in> set (rg_stores (ap_registry app))" using named_store_found [OF n] by simp
  have "set rows = {r \<in> set (rg_sources (ap_registry app)). sr_store_id r = st_id row}"
    using select_Inr [OF l [unfolded list_sources_def]] by simp
  then show "map_of (ap_records app') sid =
       (if sid \<in> sr_id ` {r \<in> set (rg_sources (ap_registry app)). sr_store_id r = st_id row} then None else map_of (ap_records app) sid)"
    using app' by (simp add: map_of_unregister_all)
qed

lemma remove_store_in_step:
  assumes "in_step calm app" "calm \<Longrightarrow> fault_free (ax_db ax)"
  shows "in_step calm (fst (remove_store ax name app))"
proof -
  obtain app1 r1 where f: "forget_sources ax name app = (app1, r1)" by (metis prod.exhaust)
  show ?thesis
  proof (cases r1)
    case (Inl e)
    then have "app1 = app" using f by (auto simp: forget_sources_def run_then_def split: sum.splits)
    then show ?thesis using assms(1) f Inl by (simp add: remove_store_def run_then_cases)
  next
    case (Inr row)
    note f1 = forget_sources_in_step [OF assms(1) f [unfolded Inr]]
    note okD = tables_okD [OF in_stepD(1) [OF assms(1)]]
    have sub: "map_of (ap_records app1) \<subseteq>\<^sub>m map_of (ap_records app)" by (auto simp: map_le_def f1(3))
    have reg: "ap_registry app1 = ap_registry app" by (subst f1(1)) simp
    obtain rg res where d: "delete_store (ax_db ax) (st_id row) (ap_registry app) = (rg, res)" by (metis prod.exhaust)
    have out: "fst (remove_store ax name app) = \<lparr>ap_registry = rg, ap_records = ap_records app1\<rparr>"
      using f d Inr reg by (simp add: remove_store_def drop_store_def run_then_cases with_registry_def split: sum.split)
    from write_with_cases [OF d [unfolded delete_store_def]]
    consider (failed) e where "rg = ap_registry app" "res = Inl e"
      | (gone) b where "delete_store_sql (st_id row) (ap_registry app) = (rg, b)" "res = Inr b"
      by auto
    then show ?thesis
    proof cases
      case failed
      have "\<not> calm"
      proof
        assume calm
        then have "dx_fault (ax_db ax) (DeleteStore (st_id row)) = None" using assms(2) by (simp add: fault_free_def)
        then show False using d failed(2) by (simp add: delete_store_def write_with_def perform_def split: prod.splits)
      qed
      with failed show ?thesis unfolding out failed(1)
        by (intro drop_records_in_step [OF assms(1) sub]) (use in_stepD(1) [OF assms(1)] assms(1) in \<open>auto simp: in_step_def\<close>)
    next
      case (gone b)
      have rg: "tables_ok rg" using delete_store_ok [OF in_stepD(1) [OF assms(1)], of "st_id row"] gone(1) by simp
      have rows: "rg_stores rg = filter (\<lambda>r. st_id r \<noteq> st_id row) (rg_stores (ap_registry app))"
        "rg_sources rg = filter (\<lambda>r. sr_store_id r \<noteq> st_id row) (rg_sources (ap_registry app))"
        using gone(1) f1(2) by (auto simp: delete_store_sql_def list_ex_iff split: if_splits)
      show ?thesis unfolding out
      proof (rule drop_records_in_step [OF assms(1) sub _ rg])
        fix r assume "map_of (ap_records app1) (sr_id r) \<noteq> map_of (ap_records app) (sr_id r)" "r \<in> set (rg_sources (ap_registry app))"
        then obtain r' where "r' \<in> set (rg_sources (ap_registry app))" "sr_store_id r' = st_id row" "sr_id r' = sr_id r"
          by (auto simp: f1(3) split: if_splits)
        then have "r' = r" using okD(3) \<open>r \<in> _\<close> by (metis distinct_map inj_onD)
        then show "r \<notin> set (rg_sources rg)" using \<open>sr_store_id r' = _\<close> by (simp add: rows)
      next
        fix sid r assume r: "map_of (ap_records app1) sid = Some r" "backed (ap_registry app) sid r"
        then obtain row' store where w: "row' \<in> set (rg_sources (ap_registry app))" "store \<in> set (rg_stores (ap_registry app))"
          "sr_id row' = sid" "backs row' store r" by (auto simp: backed_def)
        moreover have "sr_store_id row' \<noteq> st_id row" using r(1) w(1,3) by (auto simp: f1(3) split: if_splits)
        moreover from this w(4) have "st_id store \<noteq> st_id row" by (simp add: backs_def)
        ultimately show "backed rg sid r" unfolding backed_def rows by auto
      qed (simp add: rows)
    qed
  qed
qed

text \<open>A new source is registered under the interval its text means when it is read back.\<close>

lemma new_source_row_shape:
  assumes "new_source_row jx new_id now store kind spec preset refresh = Inr row"
  shows "sr_id row = new_id" "sr_store_id row = store" "sr_refresh row = refresh"
    "Option.bind refresh (\<lambda>r. case validate_refresh_interval r of Inr v \<Rightarrow> v | Inl e \<Rightarrow> None) = Option.bind refresh parse_refresh_interval"
proof -
  from assms obtain v where "(case refresh of Some r \<Rightarrow> validate_refresh_interval r | None \<Rightarrow> Inr None) = Inr v"
      "sr_id row = new_id" "sr_store_id row = store" "sr_refresh row = refresh"
    by (auto simp: new_source_row_def and_then_eq_Inr split: if_splits)
  then show "sr_id row = new_id" "sr_store_id row = store" "sr_refresh row = refresh"
    "Option.bind refresh (\<lambda>r. case validate_refresh_interval r of Inr v \<Rightarrow> v | Inl e \<Rightarrow> None) = Option.bind refresh parse_refresh_interval"
    by (auto split: option.splits dest: validate_agrees)
qed

lemma announce_in_step:
  assumes "in_step calm app" "new_source_row jx new_id now (st_id store) kind spec preset refresh = Inr row"
    "store \<in> set (rg_stores (ap_registry app))" "st_name store = store_name" "new_id \<notin> sr_id ` set (rg_sources (ap_registry app))"
    "tables_ok rg" "rg_stores rg = rg_stores (ap_registry app)" "set (rg_sources rg) = insert row (set (rg_sources (ap_registry app)))"
  shows "in_step calm (fst (announce_source ax store_name row (app\<lparr>ap_registry := rg\<rparr>)))"
proof -
  note shape = new_source_row_shape [OF assms(2)]
  define app' where "app' = fst (announce_source ax store_name row (app\<lparr>ap_registry := rg\<rparr>))"
  define r where "r u = \<lparr>rr_source_id = new_id, rr_store_name = store_name, rr_url = u,
    rr_interval = Option.bind refresh parse_refresh_interval, rr_last_refreshed = None, rr_inflight = False\<rparr>" for u
  have app': "ap_registry app' = rg"
    "map_of (ap_records app') = (if refreshable row then (map_of (ap_records app))(new_id \<mapsto> r (the (sr_url row))) else map_of (ap_records app))"
    using shape by (auto simp: app'_def announce_source_def Let_def refreshable_def register_def map_of_update_key r_def split: option.split)
  have old: "backed rg sid x" if "map_of (ap_records app) sid = Some x" for sid x
    using in_stepD(2) [OF assms(1) that] assms(7,8) by (auto simp: backed_def)
  have new: "backed rg new_id (r u)" if "refreshable row" "sr_url row = Some u" for u
    using that shape assms(3,4,7,8) by (auto simp: backed_def backs_def r_def refreshable_def intro!: bexI [of _ row] bexI [of _ store])
  show ?thesis unfolding app'_def [symmetric]
  proof (rule in_stepI)
    fix sid x assume "map_of (ap_records app') sid = Some x"
    then show "backed (ap_registry app') sid x" using old new by (auto simp: app' refreshable_def split: if_splits)
  next
    fix x assume x: "calm" "x \<in> set (rg_sources (ap_registry app'))" "refreshable x"
    show "map_of (ap_records app') (sr_id x) \<noteq> None"
    proof (cases "x = row")
      case False
      then have "x \<in> set (rg_sources (ap_registry app))" using x(2) assms(8) app' by simp
      from in_stepD(3) [OF assms(1) x(1) this x(3)] show ?thesis by (simp add: app')
    qed (use x shape in \<open>simp add: app'\<close>)
  qed (simp add: app' assms(6))
qed

lemma add_source_in_step:
  assumes "in_step calm app" "new_id \<notin> sr_id ` set (rg_sources (ap_registry app))"
  shows "in_step calm (fst (add_source ax new_id now store_name kind spec preset refresh app))"
proof (cases "named_store ax store_name app")
  case (Inl e)
  then show ?thesis using assms(1) by (simp add: add_source_def store_source_def run_then_def)
next
  case (Inr store)
  note store = named_store_found [OF Inr]
  show ?thesis
  proof (cases "new_source_row (ax_json ax) new_id now (st_id store) kind spec preset refresh")
    case (Inl e)
    then show ?thesis using assms(1) \<open>named_store ax store_name app = Inr store\<close> by (simp add: add_source_def store_source_def run_then_def)
  next
    case row: (Inr row)
    obtain rg res where u: "upsert_source (ax_db ax) row (ap_registry app) = (rg, res)" by (metis prod.exhaust)
    from write_with_cases [OF u [unfolded upsert_source_def]]
    consider (failed) e where "rg = ap_registry app" "res = Inl e"
      | (written) a where "upsert_source_sql row (ap_registry app) = Inr (rg, a)" "res = Inr a" by auto
    then show ?thesis
    proof cases
      case failed
      then show ?thesis using u row Inr assms(1) by (simp add: add_source_def store_source_def run_then_def with_registry_def)
    next
      case (written a)
      have fresh: "find (\<lambda>r. sr_id r = sr_id row) (rg_sources (ap_registry app)) = None"
        using assms(2) new_source_row_shape(1) [OF row] by (auto simp: find_None_iff image_iff)
      note ok = upsert_source_ok [OF in_stepD(1) [OF assms(1)] written(1)]
      have "set (rg_sources rg) = insert row (set (rg_sources (ap_registry app)))"
        using ok(2) fresh by (auto simp: updated_source_def find_None_iff)
      then have "in_step calm (fst (announce_source ax store_name row (app\<lparr>ap_registry := rg\<rparr>)))"
        using ok(1) store by (intro announce_in_step [OF assms(1) row _ _ assms(2)]) auto
      then show ?thesis using u row Inr written by (simp add: add_source_def store_source_def run_then_def with_registry_def split: prod.split)
    qed
  qed
qed

section \<open>The restart\<close>

definition lists_registry :: "registry \<Rightarrow> (string \<Rightarrow> error + source_row list) \<Rightarrow> bool" where
  "lists_registry rg list_of \<longleftrightarrow>
     (\<forall>i rows. list_of i = Inr rows \<longrightarrow> set rows = {r \<in> set (rg_sources rg). sr_store_id r = i})"

lemma lists_registry_sources: "lists_registry rg (list_sources dx rg)"
  by (auto simp: lists_registry_def list_sources_def dest!: select_Inr)

definition backed_by_stores :: "registry \<Rightarrow> refresh_records \<Rightarrow> bool" where
  "backed_by_stores rg recs \<longleftrightarrow> (\<forall>sid r. map_of recs sid = Some r \<longrightarrow> backed rg sid r)"

lemma register_stored_map:
  "map_of (register_stored name row recs) =
     (if refreshable row
      then (map_of recs)(sr_id row \<mapsto> \<lparr>rr_source_id = sr_id row, rr_store_name = name, rr_url = the (sr_url row),
             rr_interval = Option.bind (sr_refresh row) parse_refresh_interval, rr_last_refreshed = None, rr_inflight = False\<rparr>)
      else map_of recs)"
  by (auto simp: register_stored_def refreshable_def register_def map_of_update_key split: option.split)

lemma register_stored_backed:
  assumes "backed_by_stores rg recs" "row \<in> set (rg_sources rg)" "store \<in> set (rg_stores rg)" "sr_store_id row = st_id store"
  shows "backed_by_stores rg (register_stored (st_name store) row recs)"
  using assms unfolding backed_by_stores_def register_stored_map
  by (auto simp: backed_def backs_def refreshable_def intro!: bexI [of _ row] bexI [of _ store])

lemma fold_register:
  assumes "backed_by_stores rg recs" "set rows \<subseteq> {r \<in> set (rg_sources rg). sr_store_id r = st_id store}" "store \<in> set (rg_stores rg)"
  shows "backed_by_stores rg (fold (register_stored (st_name store)) rows recs)"
    "map_keys (fold (register_stored (st_name store)) rows recs) = map_keys recs \<union> sr_id ` {r \<in> set rows. refreshable r}"
  using assms
proof (induction rows arbitrary: recs)
  case (Cons row rows)
  {
    case 1
    then show ?case using Cons.IH(1) [OF register_stored_backed [OF 1(1)]] by auto
  next
    case 2
    have "map_keys (register_stored (st_name store) row recs) = map_keys recs \<union> (if refreshable row then {sr_id row} else {})"
      by (simp add: map_keys_dom register_stored_map)
    then show ?case using 2 Cons.IH(2) [OF register_stored_backed [OF 2(1)]] by auto
  }
qed auto

definition register_store :: "(string \<Rightarrow> error + source_row list) \<Rightarrow> store_row \<Rightarrow> refresh_records \<Rightarrow> refresh_records" where
  "register_store list_of store recs =
     (case list_of (st_id store) of Inl e \<Rightarrow> recs | Inr sources \<Rightarrow> fold (register_stored (st_name store)) sources recs)"

lemma register_all_stores:
  "register_all (Inr (map (\<lambda>s. (st_id s, st_name s)) stores)) list_of recs = fold (register_store list_of) stores recs"
  by (induction stores arbitrary: recs) (auto simp: register_all_def register_store_def)

lemma fold_register_store:
  assumes "backed_by_stores rg recs" "set stores \<subseteq> set (rg_stores rg)" "lists_registry rg list_of"
  shows "backed_by_stores rg (fold (register_store list_of) stores recs)"
    "(\<And>i. \<exists>rows. list_of i = Inr rows) \<Longrightarrow>
       map_keys recs \<union> sr_id ` {r \<in> set (rg_sources rg). refreshable r \<and> sr_store_id r \<in> st_id ` set stores}
         \<subseteq> map_keys (fold (register_store list_of) stores recs)"
  using assms
proof (induction stores arbitrary: recs)
  case (Cons store stores)
  have rows: "set rows = {r \<in> set (rg_sources rg). sr_store_id r = st_id store}" if "list_of (st_id store) = Inr rows" for rows
    using that assms(3) by (auto simp: lists_registry_def)
  have step: "backed_by_stores rg (register_store list_of store recs)" if "backed_by_stores rg recs" "store \<in> set (rg_stores rg)" for recs
    using that fold_register(1) [OF that(1) _ that(2)] rows by (auto simp: register_store_def split: sum.split)
  {
    case 1
    then show ?case using Cons.IH(1) [OF step [OF 1(1)]] by simp
  next
    case 2
    then obtain rows where l: "list_of (st_id store) = Inr rows" by blast
    have "map_keys (register_store list_of store recs) = map_keys recs \<union> sr_id ` {r \<in> set rows. refreshable r}"
      using 2 fold_register(2) [OF 2(2), of rows store] rows [OF l] l by (simp add: register_store_def)
    moreover have "map_keys (register_store list_of store recs) \<union>
        sr_id ` {r \<in> set (rg_sources rg). refreshable r \<and> sr_store_id r \<in> st_id ` set stores}
        \<subseteq> map_keys (fold (register_store list_of) stores (register_store list_of store recs))"
      using 2 by (intro Cons.IH(2) step) auto
    moreover have "{r \<in> set (rg_sources rg). refreshable r \<and> sr_store_id r \<in> st_id ` set (store # stores)} =
        {r \<in> set rows. refreshable r} \<union> {r \<in> set (rg_sources rg). refreshable r \<and> sr_store_id r \<in> st_id ` set stores}"
      using rows [OF l] by auto
    ultimately show ?case by (simp add: image_Un)
  }
qed auto

lemma start_scheduler_in_step:
  assumes "in_step calm app" "calm \<Longrightarrow> fault_free (ax_db ax)"
  shows "in_step calm (start_scheduler ax app)"
proof -
  let ?rg = "ap_registry app" and ?list = "list_sources (ax_db ax) (ap_registry app)"
  have none: "backed_by_stores ?rg []" by (simp add: backed_by_stores_def)
  show ?thesis
  proof (cases "list_stores (ax_db ax) ?rg")
    case (Inl e)
    then have "\<not> calm" using assms(2) by (auto simp: list_stores_def fault_free_def)
    then show ?thesis using Inl in_stepD(1) [OF assms(1)] by (auto simp: start_scheduler_def register_all_def in_step_def)
  next
    case (Inr stores)
    then have stores: "set stores = set (rg_stores ?rg)" by (auto simp: list_stores_def dest!: select_Inr)
    have recs: "ap_records (start_scheduler ax app) = fold (register_store ?list) stores []" "ap_registry (start_scheduler ax app) = ?rg"
      using Inr by (simp_all add: start_scheduler_def register_all_stores)
    have f: "backed_by_stores ?rg (fold (register_store ?list) stores [])"
      "(\<And>i. \<exists>rows. ?list i = Inr rows) \<Longrightarrow> sr_id ` {r \<in> set (rg_sources ?rg). refreshable r \<and> sr_store_id r \<in> st_id ` set stores}
         \<subseteq> map_keys (fold (register_store ?list) stores [])"
      using fold_register_store [OF none _ lists_registry_sources, of stores "ax_db ax"] stores by simp_all
    show ?thesis
    proof (rule in_stepI)
      show "tables_ok (ap_registry (start_scheduler ax app))" using in_stepD(1) [OF assms(1)] recs by simp
      show "backed (ap_registry (start_scheduler ax app)) sid r" if "map_of (ap_records (start_scheduler ax app)) sid = Some r" for sid r
        using f(1) stores that recs by (auto simp: backed_by_stores_def)
      fix row assume row: calm "row \<in> set (rg_sources (ap_registry (start_scheduler ax app)))" "refreshable row"
      have "\<exists>rows. ?list i = Inr rows" for i using assms(2) [OF row(1)] by (simp add: list_sources_def fault_free_def)
      moreover have "sr_store_id row \<in> st_id ` set stores"
        using tables_okD(5) [OF in_stepD(1) [OF assms(1)], of row] row(2) stores recs by simp
      ultimately have "sr_id row \<in> map_keys (ap_records (start_scheduler ax app))" using f(2) stores row(2,3) recs by auto
      then show "map_of (ap_records (start_scheduler ax app)) (sr_id row) \<noteq> None" by (auto simp: map_keys_dom)
    qed
  qed
qed

section \<open>Always in step\<close>

lemma app_step_in_step: "app_step calm app app' \<Longrightarrow> in_step calm app \<Longrightarrow> in_step calm app'"
proof (induction rule: app_step.induct)
  case (step_feed_cache app dx i etag modified digest)
  obtain rg res where u: "update_source_feed_cache dx i etag modified digest (ap_registry app) = (rg, res)" by (metis prod.exhaust)
  from write_with_cases [OF u [unfolded update_source_feed_cache_def]]
  show ?case
  proof
    assume "rg = ap_registry app \<and> (\<exists>e. res = Inl e)"
    then show ?thesis using u step_feed_cache by simp
  next
    define f where "f r = (if sr_id r = i then r\<lparr>sr_feed_etag := etag, sr_feed_last_modified := modified, sr_feed_inputs_digest := digest\<rparr> else r)"
      for r :: source_row
    assume "\<exists>a. Inr (update_feed_cache_sql i etag modified digest (ap_registry app)) = Inr (rg, a) \<and> res = Inr a"
    then have rg: "tables_ok rg" "rg_stores rg = rg_stores (ap_registry app)" "rg_sources rg = map f (rg_sources (ap_registry app))"
      using update_feed_cache_ok [OF in_stepD(1) [OF step_feed_cache], of i etag modified digest]
      by (auto simp: update_feed_cache_sql_def f_def)
    have f: "sr_id (f r) = sr_id r" "backs (f r) = backs r" "refreshable (f r) = refreshable r" for r
      by (auto simp: f_def backs_def refreshable_def fun_eq_iff)
    have "in_step calm (app\<lparr>ap_registry := rg\<rparr>)"
      using step_feed_cache rg by (simp add: in_step_def backed_def f)
    then show ?thesis using u by simp
  qed
next
  case (step_policy row app dx v policy)
  show ?case
    by (rule upsert_store_in_step [OF step_policy(2)])
      (use tables_okD(1) [OF in_stepD(1) [OF step_policy(2)]] step_policy(1) in \<open>auto simp: distinct_map inj_on_def\<close>)
next
  case (step_documents app docs)
  then show ?case by (intro in_step_same_sources) (auto simp: in_step_def tables_ok_def)
next
  case (step_mark app source_id)
  then show ?case
    by (auto simp: in_step_def backed_def mark_inflight_def backs_def map_of_update_key split: option.splits if_splits)
next
  case (step_stamp app time source_id)
  then show ?case
    by (auto simp: in_step_def backed_def stamp_def backs_def map_of_update_key split: option.splits if_splits)
qed (simp_all add: add_store_in_step update_store_in_step remove_store_in_step add_source_in_step remove_source_in_step start_scheduler_in_step)


text \<open>A daemon with one store and one URL source.\<close>

definition demo_env :: "string app_env" where
  "demo_env = \<lparr>ax_db = \<lparr>dx_text = (\<lambda>_. ''failed''), dx_fault = (\<lambda>_. None)\<rparr>, ax_json = demo_json, ax_parse_policy = Inr,
     ax_default_policy = Inr ''{}'', ax_default_version = ''v1''\<rparr>"

definition demo_url_spec :: json where
  "demo_url_spec = JObject [(''url'', JString ''https://a'')]"

definition hourly :: "string option" where
  "hourly = Some (show_nat 1 @ ''h'')"

definition demo_store_row :: store_row where
  "demo_store_row = \<lparr>st_id = ''st'', st_name = ''docs'', st_visibility = Private, st_backend = ''libsql'',
     st_indexing_policy = ''{}'', st_policy_version = ''v1'', st_acl = ''{}'', st_created_at = ''now''\<rparr>"

definition demo_source_row :: source_row where
  "demo_source_row = \<lparr>sr_id = ''src'', sr_store_id = ''st'', sr_kind = UrlKind, sr_root = None, sr_url = Some ''https://a'',
     sr_include = [], sr_exclude = [], sr_preset = ''prose'', sr_refresh = hourly, sr_created_at = ''now'', sr_config_json = None,
     sr_feed_etag = None, sr_feed_last_modified = None, sr_feed_inputs_digest = None\<rparr>"

definition demo_record :: refresh_record where
  "demo_record = \<lparr>rr_source_id = ''src'', rr_store_name = ''docs'', rr_url = ''https://a'', rr_interval = Some 3600,
     rr_last_refreshed = None, rr_inflight = False\<rparr>"

lemma demo_hourly: "validate_refresh_interval (show_nat 1 @ ''h'') = Inr (Some 3600)"
  using validate_show [of "''h''" 3600 1] by simp

lemma demo_row: "new_source_row demo_json ''src'' ''now'' ''st'' ''url'' demo_url_spec ''prose'' hourly = Inr demo_source_row"
  using demo_hourly
  by (simp add: new_source_row_def parse_source_spec_def source_kind_str_def parse_url_spec_def required_string_field_def demo_url_spec_def
      hourly_def demo_source_row_def)

lemma demo_add_store: "fst (add_store demo_env ''st'' ''now'' ''docs'' ''private'' empty_app) =
    \<lparr>ap_registry = \<lparr>rg_stores = [demo_store_row], rg_sources = [], rg_documents = []\<rparr>, ap_records = []\<rparr>"
  by (simp add: add_store_def run_then_def demo_env_def empty_app_def get_store_by_name_def parse_visibility_def default_store_row_def
      with_registry_def upsert_store_def upsert_store_sql_def write_with_def perform_def replace_row_def demo_store_row_def)

lemma demo_add_source: "add_source demo_env ''src'' ''now'' ''docs'' ''url'' demo_url_spec ''prose'' hourly
      \<lparr>ap_registry = \<lparr>rg_stores = [demo_store_row], rg_sources = [], rg_documents = []\<rparr>, ap_records = []\<rparr> =
    (\<lparr>ap_registry = \<lparr>rg_stores = [demo_store_row], rg_sources = [demo_source_row], rg_documents = []\<rparr>,
      ap_records = [(''src'', demo_record)]\<rparr>, source_row_to_record demo_json demo_source_row)"
proof -
  have store: "named_store demo_env ''docs'' \<lparr>ap_registry = \<lparr>rg_stores = [demo_store_row], rg_sources = [], rg_documents = []\<rparr>,
      ap_records = []\<rparr> = Inr demo_store_row"
    by (simp add: named_store_def get_store_by_name_def demo_env_def ok_or_def demo_store_row_def)
  have upsert: "upsert_source (ax_db demo_env) demo_source_row \<lparr>rg_stores = [demo_store_row], rg_sources = [], rg_documents = []\<rparr> =
      (\<lparr>rg_stores = [demo_store_row], rg_sources = [demo_source_row], rg_documents = []\<rparr>, Inr ())"
    by (simp add: upsert_source_def upsert_source_sql_def write_with_def perform_def demo_env_def replace_row_def updated_source_def
        source_check_def demo_source_row_def demo_store_row_def)
  have "ax_json demo_env = demo_json" "st_id demo_store_row = ''st''" by (simp_all add: demo_env_def demo_store_row_def)
  with store upsert demo_row demo_hourly show ?thesis
    by (simp add: add_source_def store_source_def run_then_def with_registry_def announce_source_def register_def)
      (simp add: demo_source_row_def demo_record_def hourly_def register_def)
qed

lemma demo_reached: "app_reachable calm (fst (add_source demo_env ''src'' ''now'' ''docs'' ''url'' demo_url_spec ''prose'' hourly
    (fst (add_store demo_env ''st'' ''now'' ''docs'' ''private'' empty_app))))"
proof (rule app_next [OF app_next [OF app_start]])
  show "app_step calm empty_app (fst (add_store demo_env ''st'' ''now'' ''docs'' ''private'' empty_app))"
    by (rule step_add_store) (simp_all add: demo_env_def fault_free_def empty_app_def)
  show "app_step calm (fst (add_store demo_env ''st'' ''now'' ''docs'' ''private'' empty_app))
      (fst (add_source demo_env ''src'' ''now'' ''docs'' ''url'' demo_url_spec ''prose'' hourly
        (fst (add_store demo_env ''st'' ''now'' ''docs'' ''private'' empty_app))))"
    by (rule step_add_source) (simp_all add: demo_env_def fault_free_def demo_add_store [unfolded demo_env_def])
qed


text \<open>
  The operations are not atomic. The removal of a store unregisters the sources it found and only then
  deletes the store; a source added in between is deleted with the store but stays registered, so the
  scheduler goes on submitting jobs for it.
\<close>

lemma store_removed_during_add:
  "\<exists>app1 row app2 app3. app_reachable True app1 \<and>
     forget_sources demo_env ''docs'' app1 = (app1, Inr row) \<and>
     add_source demo_env ''src'' ''now'' ''docs'' ''url'' demo_url_spec ''prose'' hourly app1 =
       (app2, source_row_to_record demo_json demo_source_row) \<and>
     drop_store demo_env ''docs'' row app2 = (app3, Inr ()) \<and>
     rg_stores (ap_registry app3) = [] \<and> rg_sources (ap_registry app3) = [] \<and>
     map_of (ap_records app3) ''src'' = Some demo_record \<and> is_due 0 demo_record"
proof -
  define app1 where "app1 = \<lparr>ap_registry = \<lparr>rg_stores = [demo_store_row], rg_sources = [], rg_documents = []\<rparr>, ap_records = []\<rparr>"
  define app2 where "app2 = \<lparr>ap_registry = \<lparr>rg_stores = [demo_store_row], rg_sources = [demo_source_row], rg_documents = []\<rparr>,
    ap_records = [(''src'', demo_record)]\<rparr>"
  have "app_reachable True app1"
    using app_next [OF app_start step_add_store [of True demo_env "''st''" empty_app "''now''" "''docs''" "''private''"]]
    by (simp add: demo_add_store app1_def) (simp add: demo_env_def fault_free_def empty_app_def)
  moreover have "forget_sources demo_env ''docs'' app1 = (app1, Inr demo_store_row)"
    by (simp add: forget_sources_def run_then_def named_store_def get_store_by_name_def list_sources_def ok_or_def demo_env_def
        unregister_all_def app1_def demo_store_row_def)
  moreover have "drop_store demo_env ''docs'' demo_store_row app2 =
      (\<lparr>ap_registry = \<lparr>rg_stores = [], rg_sources = [], rg_documents = []\<rparr>, ap_records = [(''src'', demo_record)]\<rparr>, Inr ())"
    by (simp add: drop_store_def run_then_def with_registry_def delete_store_def write_with_def perform_def delete_store_sql_def
        demo_env_def app2_def demo_store_row_def demo_source_row_def)
  ultimately show ?thesis using demo_add_source unfolding app1_def [symmetric] app2_def [symmetric]
    by (intro exI [of _ app1] exI [of _ demo_store_row] exI [of _ app2] exI conjI)
      (assumption | simp | simp add: is_due_def demo_record_def)+
qed

end
