(* ===== verification/Paging.thy ===== *)
theory Paging
  imports Listing AppSafety
begin

text \<open>
  Reading in pages loses and repeats nothing: the page at a cursor is a slice of the listing, and the
  pages reached by following the cursors, put together, are the listing.
\<close>

section \<open>A page is a slice\<close>

definition cursor_at :: "nat \<Rightarrow> string option" where
  "cursor_at i = (if i = 0 then None else Some (show_nat i))"

lemma parse_cursor_at: "i < 2 ^ 64 \<Longrightarrow> parse_cursor (cursor_at i) = Inr (word_of_nat i)"
  by (simp add: parse_cursor_def cursor_at_def parse_show_nat)

lemma unat_of_small: "i < 2 ^ 64 \<Longrightarrow> unat (word_of_nat i :: u64) = i"
  by (simp add: unsigned_of_nat take_bit_nat_eq_self)

definition next_at :: "nat \<Rightarrow> nat \<Rightarrow> string option" where
  "next_at i n = (if i < n then cursor_at i else None)"

lemma paginated_list_slice:
  assumes "i < 2 ^ 64" "length xs < 2 ^ 64" "0 < limit"
  shows "paginated_list (drop i xs) (word_of_nat i) limit (word_of_nat (length xs)) =
    \<lparr>pg_items = take (unat limit) (drop i xs), pg_next_cursor = next_at (i + unat limit) (length xs), pg_total = word_of_nat (length xs)\<rparr>"
proof -
  have l: "0 < unat limit" using assms(3) by (simp add: word_greater_zero_iff unat_gt_0)
  show ?thesis
  proof (cases "i + unat limit < 2 ^ 64")
    case True
    have "unat (word_of_nat i + limit :: u64) = i + unat limit"
      using True assms(1) by (simp add: unat_word_ariths unat_of_small)
    moreover have "(word_of_nat i + limit :: u64) < word_of_nat (length xs) \<longleftrightarrow> i + unat limit < length xs"
      using calculation assms(2) by (simp add: word_less_nat_alt unat_of_small)
    ultimately show ?thesis using True assms(1) l
      by (simp add: paginated_list_def checked_add_def unat_of_small next_at_def cursor_at_def)
  next
    case False
    then show ?thesis using assms(1,2) by (simp add: paginated_list_def checked_add_def unat_of_small next_at_def)
  qed
qed

section \<open>Following the cursors\<close>

text \<open>A client that asks for page after page; what a page holds and where it points.\<close>

fun follow :: "nat \<Rightarrow> (string option \<Rightarrow> error + 'a list \<times> string option) \<Rightarrow> string option \<Rightarrow> error + 'a list" where
  "follow 0 get cursor = Inl (Internal ''more pages'' ''follow'')"
| "follow (Suc n) get cursor =
     and_then (get cursor) (\<lambda>(items, next_cursor).
       case next_cursor of
         None \<Rightarrow> Inr items
       | Some c \<Rightarrow> and_then (follow n get (Some c)) (\<lambda>rest. Inr (items @ rest)))"

definition slices :: "(string option \<Rightarrow> error + 'a list \<times> string option) \<Rightarrow> nat \<Rightarrow> 'a list \<Rightarrow> bool" where
  "slices get l xs \<longleftrightarrow> (\<forall>i. i = 0 \<or> i < length xs \<longrightarrow> get (cursor_at i) = Inr (take l (drop i xs), next_at (i + l) (length xs)))"

lemma follow_slices:
  assumes "slices get l xs" "0 < l" "i = 0 \<or> i < length xs" "length xs < i + n * l \<or> (n \<noteq> 0 \<and> length xs \<le> i + n * l)"
  shows "follow n get (cursor_at i) = Inr (drop i xs)"
  using assms(3,4)
proof (induction n arbitrary: i)
  case (Suc n)
  have page: "get (cursor_at i) = Inr (take l (drop i xs), next_at (i + l) (length xs))"
    using assms(1) Suc.prems(1) unfolding slices_def by blast
  show ?case
  proof (cases "i + l < length xs")
    case True
    then have "n \<noteq> 0" using Suc.prems(2) by (cases n) auto
    then have "follow n get (cursor_at (i + l)) = Inr (drop (i + l) xs)"
      using Suc True assms(2) by (simp add: algebra_simps)
    moreover have "take l (drop i xs) @ drop (i + l) xs = drop i xs"
      by (metis add.commute append_take_drop_id drop_drop)
    moreover have "cursor_at (i + l) = Some (show_nat (i + l))" using assms(2) by (simp add: cursor_at_def)
    ultimately show ?thesis using page True by (simp add: next_at_def)
  next
    case False
    then show ?thesis using page by (simp add: next_at_def)
  qed
qed (use assms(2) in auto)

lemma follow_all:
  assumes "slices get l xs" "0 < l"
  shows "follow (length xs + 1) get None = Inr xs"
proof -
  have "length xs \<le> (length xs + 1) * l" using assms(2) by (cases l) auto
  then show ?thesis using follow_slices [OF assms, of 0 "length xs + 1"] by (simp add: cursor_at_def)
qed

section \<open>The documents of a store\<close>

definition documents_in_order :: "registry \<Rightarrow> string \<Rightarrow> string option \<Rightarrow> document_info list" where
  "documents_in_order rg store_id source_id =
     sort_by (\<lambda>d d'. ord_cmp (di_uri d) (di_uri d')) (filter (of_source store_id source_id) (rg_documents rg))"

lemma sint_bound: "sint (w :: u64) < 0 \<or> sint w = int (unat w)"
proof (cases "sint w < 0")
  case False
  then have "take_bit 64 (sint w) = sint w" using sint_lt [of w] by (intro take_bit_int_eq_self) simp_all
  then show ?thesis using uint_sint [of w] by simp
qed simp

lemma positive_sint:
  assumes "unat (w :: u64) < 2 ^ 63"
  shows "sint w = int (unat w)"
proof -
  have "int (unat w) < int (2 ^ 63)" using assms by (simp only: of_nat_less_iff)
  then have "uint w < 2 ^ 63" by simp
  moreover have "- (2 ^ 63) \<le> uint w" by (rule order_trans [OF _ uint_ge_0]) simp
  ultimately have "signed_take_bit 63 (uint w) = uint w" by (intro signed_take_bit_int_eq_self)
  then show ?thesis using sint_uint [of w] by simp
qed

definition page_parts :: "error + 'a page \<Rightarrow> error + 'a list \<times> string option" where
  "page_parts r = and_then r (\<lambda>p. Inr (pg_items p, pg_next_cursor p))"

lemma named_store_known:
  assumes "tables_ok (ap_registry app)" "store \<in> set (rg_stores (ap_registry app))" "fault_free (ax_db ax)"
  shows "named_store ax (st_name store) app = Inr store"
  using assms find_row [OF tables_okD(2) [OF assms(1)] assms(2)]
  by (simp add: named_store_def get_store_by_name_def fault_free_def ok_or_def)

lemma document_slices:
  assumes "tables_ok (ap_registry app)" "store \<in> set (rg_stores (ap_registry app))" "fault_free (ax_db ax)"
    "length (rg_documents (ap_registry app)) < 2 ^ 63" "0 < limit"
  shows "slices (\<lambda>cursor. page_parts (list_documents_page ax (st_name store) source_id cursor limit app)) (unat limit)
    (documents_in_order (ap_registry app) (st_id store) source_id)"
  unfolding slices_def
proof (intro allI impI)
  fix i
  let ?docs = "documents_in_order (ap_registry app) (st_id store) source_id"
  assume i: "i = 0 \<or> i < length ?docs"
  have n: "length ?docs < 2 ^ 63"
    using assms(4) le_less_trans [OF length_filter_le] by (simp add: documents_in_order_def)
  then have small: "i < 2 ^ 63" using i by auto
  then have cursor: "parse_cursor (cursor_at i) = Inr (word_of_nat i)" by (simp add: parse_cursor_at)
  have offset: "sint (word_of_nat i :: u64) = int i" using small by (simp add: positive_sint unat_of_small)
  have "take (unat limit) (if sint limit < 0 then drop i ?docs else take (nat (sint limit)) (drop i ?docs)) = take (unat limit) (drop i ?docs)"
    using sint_bound [of limit] by (auto simp: min_def)
  then have cut: "\<not> sint limit < 0 \<Longrightarrow> take (min (unat limit) (nat (sint limit))) (drop i ?docs) = take (unat limit) (drop i ?docs)"
    by simp
  have count: "length (filter (of_source (st_id store) source_id) (rg_documents (ap_registry app))) = length ?docs"
    by (simp add: documents_in_order_def)
  have "limit \<noteq> 0" using assms(5) by auto
  have "page_parts (list_documents_page ax (st_name store) source_id (cursor_at i) limit app) =
      page_parts (Inr (paginated_list (drop i ?docs) (word_of_nat i) limit (word_of_nat (length ?docs))))"
    using named_store_known [OF assms(1-3)] assms(3) cursor \<open>limit \<noteq> 0\<close> cut
    by (simp add: list_documents_page_def parse_limit_def documents_of_store_def list_documents_def count_documents_def fault_free_def
        offset count Let_def flip: documents_in_order_def) (simp add: paginated_list_def page_parts_def)
  also have "\<dots> = Inr (take (unat limit) (drop i ?docs), next_at (i + unat limit) (length ?docs))"
    using small n assms(5) by (simp add: paginated_list_slice page_parts_def)
  finally show "page_parts (list_documents_page ax (st_name store) source_id (cursor_at i) limit app) =
      Inr (take (unat limit) (drop i ?docs), next_at (i + unat limit) (length ?docs))" .
qed

section \<open>Stores and sources, as the command line reads them\<close>

text \<open>What is written while page after page is seen.\<close>

fun over_pages :: "('b list \<Rightarrow> 'a \<Rightarrow> 'a \<times> bool) \<Rightarrow> 'b list list \<Rightarrow> 'a \<Rightarrow> 'a" where
  "over_pages on_page [] a = a"
| "over_pages on_page (p # ps) a = (case on_page p a of (a', stop) \<Rightarrow> if stop then a' else over_pages on_page ps a')"

fun pages_from :: "nat \<Rightarrow> nat \<Rightarrow> 'b list \<Rightarrow> 'b list list" where
  "pages_from 0 l xs = []"
| "pages_from (Suc n) l xs = take l xs # (if l < length xs then pages_from n l (drop l xs) else [])"

lemma concat_pages: "0 < l \<Longrightarrow> length xs \<le> n * l \<Longrightarrow> 0 < n \<Longrightarrow> concat (pages_from n l xs) = xs"
proof (induction n arbitrary: xs)
  case (Suc n)
  show ?case
  proof (cases "l < length xs")
    case True
    then have "0 < n" using Suc.prems(2) by (cases n) auto
    then have "concat (pages_from n l (drop l xs)) = drop l xs" using Suc by auto
    then show ?thesis using True by simp
  qed simp
qed simp

lemma unreserved_digits: "encode_path_segment (show_nat n) = show_nat n"
proof -
  have "concat (map (\<lambda>c. if unreserved c then [c] else f c) s) = s" if "list_all is_ascii_digit s" for s f
    using that by (induction s) (auto simp: is_ascii_digit_def unreserved_def Let_def)
  then show ?thesis using shown_digits [of n] by (simp add: encode_path_segment_def)
qed

lemma show_nat_inject: "show_nat m = show_nat n \<longleftrightarrow> m = n"
  by (metis shown_value)

text \<open>The daemon answers a GET of the listing with its pages.\<close>

definition answers_pages :: "(string \<Rightarrow> error + json) \<Rightarrow> string \<Rightarrow> string \<Rightarrow> ('a \<Rightarrow> json) \<Rightarrow> (string option \<Rightarrow> error + 'a page) \<Rightarrow> bool" where
  "answers_pages get base_url path item handler \<longleftrightarrow>
     (\<forall>i. get (daemon_url base_url path (cursor_at i)) = map_sum id (page_json item) (handler (cursor_at i)))"

lemma walk_slices:
  assumes "answers_pages get base_url path item handler" "slices (\<lambda>cursor. page_parts (handler cursor)) l xs" "0 < l"
    "i = 0 \<or> i < length xs" "length xs \<le> i + n * l" "0 < n" "set seen \<subseteq> show_nat ` {1..i}"
  shows "walk_pages n get base_url path on_page (cursor_at i) seen a =
    (over_pages on_page (map (map item) (pages_from n l (drop i xs))) a, Inr ())"
  using assms(4-7)
proof (induction n arbitrary: i seen a)
  case (Suc n)
  obtain p where p: "handler (cursor_at i) = Inr p" "pg_items p = take l (drop i xs)" "pg_next_cursor p = next_at (i + l) (length xs)"
    using assms(2) Suc.prems(1) unfolding slices_def page_parts_def and_then_eq_Inr by blast
  have get: "get (daemon_url base_url path (cursor_at i)) = Inr (page_json item p)"
    using assms(1) p(1) by (simp add: answers_pages_def)
  have items: "Option.bind (json_get ''items'' (page_json item p)) as_array = Some (map item (take l (drop i xs)))"
    using p by (simp add: page_json_def)
  have next_c: "Option.bind (json_get ''next_cursor'' (page_json item p)) as_str = next_at (i + l) (length xs)"
    using p by (simp add: page_json_def json_option_def split: option.split)
  obtain a' stop where a': "on_page (map item (take l (drop i xs))) a = (a', stop)" by (metis prod.exhaust)
  show ?case
  proof (cases "i + l < length xs")
    case True
    then have n: "0 < n" using Suc.prems(2) by (cases n) auto
    have cursor: "next_at (i + l) (length xs) = Some (show_nat (i + l))" "cursor_at (i + l) = Some (show_nat (i + l))"
      using True assms(3) by (simp_all add: next_at_def cursor_at_def)
    have "show_nat (i + l) \<notin> set seen" using Suc.prems(4) assms(3) by (auto simp: show_nat_inject)
    moreover have "set (show_nat (i + l) # seen) \<subseteq> show_nat ` {1..i + l}" using Suc.prems(4) assms(3) by auto
    then have "walk_pages n get base_url path on_page (cursor_at (i + l)) (show_nat (i + l) # seen) a' =
        (over_pages on_page (map (map item) (pages_from n l (drop (i + l) xs))) a', Inr ())"
      using Suc.prems(2) True n by (intro Suc.IH) (auto simp: algebra_simps)
    ultimately show ?thesis using get items next_c a' cursor True by (simp add: add.commute less_diff_conv)
  next
    case False
    then show ?thesis using get items next_c a' by (simp add: next_at_def less_diff_conv add.commute)
  qed
qed simp

lemma walk_daemon_slices:
  assumes "answers_pages get base_url path item handler" "slices (\<lambda>cursor. page_parts (handler cursor)) l xs" "0 < l"
    "length xs \<le> MAX_DAEMON_PAGES * l"
  shows "walk_daemon_pages get base_url path on_page a =
    (over_pages on_page (map (map item) (pages_from MAX_DAEMON_PAGES l xs)) a, Inr ())"
  using walk_slices [OF assms(1-3), of 0 MAX_DAEMON_PAGES "[]" on_page a] assms(4)
  by (simp add: walk_daemon_pages_def cursor_at_def MAX_DAEMON_PAGES_def)

lemma collect_map: "collect f xs = Inr ys \<Longrightarrow> (\<And>x y. f x = Inr y \<Longrightarrow> g y = h x) \<Longrightarrow> map g ys = map h xs"
  by (induction xs arbitrary: ys) (auto simp: and_then_eq_Inr)

lemma collect_all: "(\<And>x. x \<in> set xs \<Longrightarrow> \<exists>y. f x = Inr y) \<Longrightarrow> \<exists>ys. collect f xs = Inr ys"
  by (induction xs) (auto simp: and_then_eq_Inr)

lemma listing_slices:
  assumes "\<And>i. i < 2 ^ 64 \<Longrightarrow> handler (cursor_at i) =
      Inr (paginated_list (drop i xs) (word_of_nat i) default_limit (word_of_nat (length xs)))" "length xs < 2 ^ 64"
  shows "slices (\<lambda>cursor. page_parts (handler cursor)) 20 xs"
  unfolding slices_def
proof (intro allI impI)
  fix i assume i: "i = 0 \<or> i < length xs"
  then have "i < 2 ^ 64" using assms(2) by auto
  moreover have "(0 :: u64) < default_limit" "unat default_limit = 20" by (simp_all add: default_limit_def)
  ultimately show "page_parts (handler (cursor_at i)) = Inr (take 20 (drop i xs), next_at (i + 20) (length xs))"
    using assms by (simp add: page_parts_def paginated_list_slice)
qed

lemma store_slices:
  assumes "effective_config ax app = Inr es" "length es < 2 ^ 64"
  shows "slices (\<lambda>cursor. page_parts (list_stores_page ax cursor default_limit app)) 20 (map store_record_of es)"
  by (rule listing_slices)
    (use assms in \<open>simp_all add: list_stores_page_def parse_cursor_at parse_limit_def default_limit_def unat_of_small drop_map Let_def\<close>)

lemma source_slices:
  assumes "sources_of_store ax store_name app = Inr recs" "length recs < 2 ^ 64"
  shows "slices (\<lambda>cursor. page_parts (list_sources_page ax store_name cursor default_limit app)) 20 recs"
  by (rule listing_slices)
    (use assms in \<open>simp_all add: list_sources_page_def parse_cursor_at parse_limit_def default_limit_def unat_of_small\<close>)

lemma over_pages_append: "over_pages (\<lambda>items names. (names @ f items, False)) ps a = a @ concat (map f ps)"
  by (induction ps arbitrary: a) auto

lemma over_pages_found:
  "over_pages (\<lambda>items found. if P items then (True, True) else (found, False)) ps b \<longleftrightarrow> b \<or> list_ex P ps"
  by (induction ps arbitrary: b) auto

lemma store_names_read_whole:
  assumes "answers_pages get base_url ''/v1/stores'' store_json (\<lambda>cursor. list_stores_page ax cursor default_limit app)"
    "effective_config ax app = Inr es" "length es \<le> MAX_DAEMON_PAGES * 20"
  shows "fetch_all_daemon_store_names get base_url = Inr (map es_name es)"
proof -
  have names: "store_names_of (map store_json xs) = map sd_name xs" for xs
    by (induction xs) (simp_all add: store_names_of_def store_json_def map_filter_simps)
  let ?ps = "pages_from MAX_DAEMON_PAGES 20 (map store_record_of es)"
  have "concat (map (\<lambda>p. store_names_of (map store_json p)) ?ps) = map sd_name (concat ?ps)"
    by (simp add: names map_concat)
  also have "concat ?ps = map store_record_of es" using assms(3) by (intro concat_pages) (simp_all add: MAX_DAEMON_PAGES_def)
  also have "map sd_name (map store_record_of es) = map es_name es" by (simp add: store_record_of_def)
  finally have all: "concat (map store_names_of (map (map store_json) ?ps)) = map es_name es" by (simp add: comp_def)
  have "length es < 2 ^ 64" using assms(3) by (simp add: MAX_DAEMON_PAGES_def)
  note walk = walk_daemon_slices [OF assms(1) store_slices [OF assms(2) this],
      of "\<lambda>items names. (names @ store_names_of items, False)" "[]"]
  show ?thesis using assms(3) all unfolding fetch_all_daemon_store_names_def
    by (subst walk) (simp_all add: over_pages_append)
qed

lemma has_source_reads_whole:
  assumes "answers_pages get base_url (''/v1/stores/'' @ encode_path_segment name @ ''/sources'') source_json
      (\<lambda>cursor. list_sources_page ax name cursor default_limit app)"
    "sources_of_store ax name app = Inr recs" "length recs \<le> MAX_DAEMON_PAGES * 20"
  shows "daemon_store_has_source get base_url name source_id = Inr (source_id \<in> sc_id ` set recs)"
proof -
  let ?ps = "pages_from MAX_DAEMON_PAGES 20 recs"
  let ?P = "\<lambda>items. list_ex (\<lambda>item. Option.bind (json_get ''id'' item) as_str = Some source_id) items"
  have "?P (map source_json xs) \<longleftrightarrow> source_id \<in> sc_id ` set xs" for xs
    by (induction xs) (auto simp: source_json_def)
  then have "list_ex ?P (map (map source_json) ?ps) \<longleftrightarrow> source_id \<in> sc_id ` set (concat ?ps)"
    by (auto simp: list_ex_iff)
  also have "concat ?ps = recs" using assms(3) by (intro concat_pages) (simp_all add: MAX_DAEMON_PAGES_def)
  finally have found: "list_ex ?P (map (map source_json) ?ps) \<longleftrightarrow> source_id \<in> sc_id ` set recs" .
  have "length recs < 2 ^ 64" using assms(3) by (simp add: MAX_DAEMON_PAGES_def)
  note walk = walk_daemon_slices [OF assms(1) source_slices [OF assms(2) this],
      of "\<lambda>items found. if ?P items then (True, True) else (found, False)" False]
  show ?thesis using assms(3) found unfolding daemon_store_has_source_def
    by (subst walk) (simp_all add: over_pages_found)
qed

section \<open>Nothing lost, nothing twice\<close>

text \<open>
  C20: A client that follows the cursors of a document listing sees every document once. For any page size
  it ends after at most one request more than there are documents, and has then received exactly the
  documents of the store (and of the source it asked for), ordered by URI.
\<close>

theorem document_pages_cover:
  assumes "tables_ok (ap_registry app)" "store \<in> set (rg_stores (ap_registry app))" "fault_free (ax_db ax)"
    "length (rg_documents (ap_registry app)) < 2 ^ 63" "0 < limit"
  shows "\<exists>docs. follow (length (rg_documents (ap_registry app)) + 1)
           (\<lambda>cursor. page_parts (list_documents_page ax (st_name store) source_id cursor limit app)) None = Inr docs \<and>
         mset docs = mset (filter (of_source (st_id store) source_id) (rg_documents (ap_registry app))) \<and>
         sorted_wrt (\<lambda>d d'. di_uri d \<le> di_uri d') docs"
proof -
  let ?docs = "documents_in_order (ap_registry app) (st_id store) source_id"
  have l: "0 < unat limit" using assms(5) by (simp add: word_greater_zero_iff unat_gt_0)
  have "length ?docs \<le> length (rg_documents (ap_registry app))" by (simp add: documents_in_order_def)
  then have "length ?docs \<le> (length (rg_documents (ap_registry app)) + 1) * unat limit" using l by (cases "unat limit") auto
  then have "follow (length (rg_documents (ap_registry app)) + 1)
      (\<lambda>cursor. page_parts (list_documents_page ax (st_name store) source_id cursor limit app)) (cursor_at 0) = Inr (drop 0 ?docs)"
    by (intro follow_slices [OF document_slices [OF assms] l]) auto
  moreover have "sorted_wrt (\<lambda>d d'. di_uri d \<le> di_uri d') ?docs"
    using by_uri.sorted_sort_by [of "filter (of_source (st_id store) source_id) (rg_documents (ap_registry app))"]
    by (simp add: documents_in_order_def sorted_by_def cmp_simps not_less)
  ultimately show ?thesis by (auto simp: cursor_at_def documents_in_order_def)
qed

lemma document_pages_cover_witness:
  "\<exists>docs. follow 1 (\<lambda>cursor. page_parts (list_documents_page demo_env ''docs'' None cursor 20
        \<lparr>ap_registry = \<lparr>rg_stores = [demo_store_row], rg_sources = [demo_source_row], rg_documents = []\<rparr>, ap_records = []\<rparr>)) None =
     Inr docs \<and> docs = []"
  using document_pages_cover [of "\<lparr>ap_registry = \<lparr>rg_stores = [demo_store_row], rg_sources = [demo_source_row], rg_documents = []\<rparr>,
    ap_records = []\<rparr>" demo_store_row demo_env 20 None]
  by (simp add: tables_ok_def store_rows_ok_def source_rows_ok_def document_rows_ok_def source_check_def demo_env_def fault_free_def)
    (simp add: demo_store_row_def demo_source_row_def)

lemma record_exists:
  assumes "source_check row" "sr_kind row = FeedKind \<longrightarrow> sr_url row \<noteq> None"
  shows "\<exists>rec. source_row_to_record jx row = Inr rec"
  using assms by (cases "sr_kind row") (auto simp: source_row_to_record_def source_check_def Let_def)

lemma record_id: "source_row_to_record jx row = Inr rec \<Longrightarrow> sc_id rec = sr_id row"
  by (auto simp: source_row_to_record_def and_then_eq_Inr)

lemma sources_listed:
  assumes "tables_ok (ap_registry app)" "store \<in> set (rg_stores (ap_registry app))" "fault_free (ax_db ax)"
    "\<forall>row \<in> set (rg_sources (ap_registry app)). sr_kind row = FeedKind \<longrightarrow> sr_url row \<noteq> None"
  obtains recs where "sources_of_store ax (st_name store) app = Inr recs" "length recs \<le> length (rg_sources (ap_registry app))"
    "sc_id ` set recs = sr_id ` {r \<in> set (rg_sources (ap_registry app)). sr_store_id r = st_id store}"
proof -
  obtain rows where rows: "list_sources (ax_db ax) (ap_registry app) (st_id store) = Inr rows"
      "set rows = {r \<in> set (rg_sources (ap_registry app)). sr_store_id r = st_id store}" "length rows \<le> length (rg_sources (ap_registry app))"
    using assms(3) by (simp add: list_sources_def fault_free_def)
  have "\<exists>rec. source_row_to_record (ax_json ax) row = Inr rec" if "row \<in> set rows" for row
    using record_exists tables_okD(4) [OF assms(1)] assms(4) rows(2) that by auto
  then obtain recs where recs: "collect (source_row_to_record (ax_json ax)) rows = Inr recs"
    using collect_all [of rows "source_row_to_record (ax_json ax)"] by blast
  have ids: "map sc_id recs = map sr_id rows" by (rule collect_map [OF recs]) (rule record_id)
  show thesis
  proof
    show "sources_of_store ax (st_name store) app = Inr recs"
      using named_store_known [OF assms(1-3)] rows(1) recs by (simp add: sources_of_store_def)
    show "length recs \<le> length (rg_sources (ap_registry app))" using rows(3) map_eq_imp_length_eq [OF ids] by simp
    show "sc_id ` set recs = sr_id ` {r \<in> set (rg_sources (ap_registry app)). sr_store_id r = st_id store}"
      using ids rows(2) by (metis list.set_map)
  qed
qed

text \<open>The name of the store a source belongs to.\<close>

definition owner_of :: "registry \<Rightarrow> string \<Rightarrow> string option" where
  "owner_of rg source_id =
     (case find (\<lambda>row. sr_id row = source_id) (rg_sources rg) of
        None \<Rightarrow> None
      | Some row \<Rightarrow> map_option st_name (find (\<lambda>store. st_id store = sr_store_id row) (rg_stores rg)))"

lemma owner_of_iff:
  assumes "tables_ok rg" "store \<in> set (rg_stores rg)"
  shows "owner_of rg source_id = Some (st_name store) \<longleftrightarrow> source_id \<in> sr_id ` {r \<in> set (rg_sources rg). sr_store_id r = st_id store}"
proof (cases "find (\<lambda>row. sr_id row = source_id) (rg_sources rg)")
  case None
  then have "source_id \<notin> sr_id ` set (rg_sources rg)" by (auto simp: find_None_iff)
  then show ?thesis using None by (auto simp: owner_of_def)
next
  case (Some row)
  note okD = tables_okD [OF assms(1)]
  have row: "row \<in> set (rg_sources rg)" "sr_id row = source_id" using find_SomeD [OF Some] by simp_all
  then obtain st where st: "st \<in> set (rg_stores rg)" "st_id st = sr_store_id row" using okD(5) [OF row(1)] by auto
  have "find (\<lambda>store. st_id store = sr_store_id row) (rg_stores rg) = Some st"
    using find_row [OF okD(1) st(1)] st(2) by simp
  then have owner: "owner_of rg source_id = Some (st_name st)" using Some by (simp add: owner_of_def)
  have "source_id \<in> sr_id ` {r \<in> set (rg_sources rg). sr_store_id r = st_id store} \<longleftrightarrow> sr_store_id row = st_id store"
  proof
    assume "source_id \<in> sr_id ` {r \<in> set (rg_sources rg). sr_store_id r = st_id store}"
    then obtain r where "r \<in> set (rg_sources rg)" "sr_id r = sr_id row" "sr_store_id r = st_id store" using row(2) by auto
    then show "sr_store_id row = st_id store" using distinct_key [OF okD(3) _ row(1)] by auto
  next
    assume "sr_store_id row = st_id store"
    then show "source_id \<in> sr_id ` {r \<in> set (rg_sources rg). sr_store_id r = st_id store}" using row by auto
  qed
  also have "\<dots> \<longleftrightarrow> st = store" using st(2) distinct_key [OF okD(1) st(1) assms(2)] by simp
  also have "\<dots> \<longleftrightarrow> st_name st = st_name store" using distinct_key [OF okD(2) st(1) assms(2)] by simp
  finally show ?thesis using owner by simp
qed

text \<open>
  C18: \<open>localdb index --source\<close> asks the right store. The command line finds the store of a source by
  reading, page by page, the source listings of the stores in scope: with at most 200,000 sources it
  finds the store that owns the source, if it is in scope, and reports the source as unknown otherwise.
\<close>

theorem source_owner_found:
  assumes "tables_ok (ap_registry app)" "fault_free (ax_db ax)"
    "\<forall>name \<in> set scope. name \<in> st_name ` set (rg_stores (ap_registry app))"
    "\<forall>row \<in> set (rg_sources (ap_registry app)). sr_kind row = FeedKind \<longrightarrow> sr_url row \<noteq> None"
    "length (rg_sources (ap_registry app)) \<le> 200000"
    "\<forall>name \<in> set scope. answers_pages get base_url (''/v1/stores/'' @ encode_path_segment name @ ''/sources'') source_json
       (\<lambda>cursor. list_sources_page ax name cursor default_limit app)"
  shows "resolve_daemon_source_owner get base_url scope source_id =
    (case owner_of (ap_registry app) source_id of
       None \<Rightarrow> Inl (SourceNotFound source_id)
     | Some name \<Rightarrow> if name \<in> set scope then Inr name else Inl (SourceNotFound source_id))"
proof -
  have has: "daemon_store_has_source get base_url name source_id = Inr (owner_of (ap_registry app) source_id = Some name)"
    if name: "name \<in> set scope" for name
  proof -
    obtain store where store: "store \<in> set (rg_stores (ap_registry app))" "st_name store = name" using assms(3) name by auto
    from assms(4) obtain recs where recs: "sources_of_store ax (st_name store) app = Inr recs" "length recs \<le> length (rg_sources (ap_registry app))"
        "sc_id ` set recs = sr_id ` {r \<in> set (rg_sources (ap_registry app)). sr_store_id r = st_id store}"
      by (rule sources_listed [OF assms(1) store(1) assms(2)])
    have "length recs \<le> MAX_DAEMON_PAGES * 20" using recs(2) assms(5) by (simp add: MAX_DAEMON_PAGES_def)
    from has_source_reads_whole [OF bspec [OF assms(6) name] recs(1) [unfolded store(2)] this]
    show ?thesis using owner_of_iff [OF assms(1) store(1), of source_id] recs(3) store(2) by simp
  qed
  have "resolve_daemon_source_owner get base_url names source_id =
      (case owner_of (ap_registry app) source_id of
         None \<Rightarrow> Inl (SourceNotFound source_id) | Some name \<Rightarrow> if name \<in> set names then Inr name else Inl (SourceNotFound source_id))"
    if "set names \<subseteq> set scope" for names
    using that
  proof (induction names)
    case (Cons name names)
    then show ?case using has [of name] by (cases "owner_of (ap_registry app) source_id") auto
  qed (simp split: option.split)
  from this [of scope] show ?thesis by simp
qed

text \<open>A daemon that reads the cursor from the URL.\<close>

definition serve :: "string \<Rightarrow> string \<Rightarrow> ('a \<Rightarrow> json) \<Rightarrow> (string option \<Rightarrow> error + 'a page) \<Rightarrow> string \<Rightarrow> error + json" where
  "serve base_url path item handler url =
     (let rest = drop (length (base_url @ path)) url
      in map_sum id (page_json item) (handler (if rest = [] then None else Some (drop 8 rest))))"

lemma serve_answers: "CHR ''?'' \<notin> set path \<Longrightarrow> answers_pages (serve base_url path item handler) base_url path item handler"
  by (simp add: answers_pages_def serve_def daemon_url_def cursor_at_def unreserved_digits)

definition demo_app :: app where
  "demo_app = \<lparr>ap_registry = \<lparr>rg_stores = [demo_store_row], rg_sources = [demo_source_row], rg_documents = []\<rparr>, ap_records = []\<rparr>"

definition demo_sources_path :: string where
  "demo_sources_path = ''/v1/stores/'' @ encode_path_segment ''docs'' @ ''/sources''"

lemma demo_tables: "tables_ok (ap_registry demo_app)"
  by (simp add: demo_app_def tables_ok_def store_rows_ok_def source_rows_ok_def document_rows_ok_def source_check_def)
    (simp add: demo_store_row_def demo_source_row_def)

lemma source_owner_found_witness:
  "resolve_daemon_source_owner
     (serve [] demo_sources_path source_json (\<lambda>cursor. list_sources_page demo_env ''docs'' cursor default_limit demo_app))
     [] [''docs''] ''src'' = Inr ''docs''"
proof -
  let ?get = "serve [] demo_sources_path source_json (\<lambda>cursor. list_sources_page demo_env ''docs'' cursor default_limit demo_app)"
  have path: "encode_path_segment ''docs'' = ''docs''" by (simp add: encode_path_segment_def unreserved_def)
  then have plain: "CHR ''?'' \<notin> set demo_sources_path" by (simp add: demo_sources_path_def)
  have answers: "\<forall>name \<in> set [''docs'']. answers_pages ?get [] (''/v1/stores/'' @ encode_path_segment name @ ''/sources'') source_json
      (\<lambda>cursor. list_sources_page demo_env name cursor default_limit demo_app)"
  proof
    fix name assume "name \<in> set [''docs'']"
    then have n: "name = ''docs''" by simp
    show "answers_pages ?get [] (''/v1/stores/'' @ encode_path_segment name @ ''/sources'') source_json
        (\<lambda>cursor. list_sources_page demo_env name cursor default_limit demo_app)"
      unfolding n demo_sources_path_def [symmetric] by (rule serve_answers [OF plain])
  qed
  have "owner_of (ap_registry demo_app) ''src'' = Some ''docs''"
    by (simp add: owner_of_def demo_app_def demo_source_row_def demo_store_row_def)
  then show ?thesis
    using source_owner_found [OF demo_tables _ _ _ _ answers, of "''src''"]
    by (simp add: demo_env_def fault_free_def demo_app_def demo_source_row_def demo_store_row_def)
qed

section \<open>Search\<close>

text \<open>The bound on the results only cuts the ranking.\<close>

lemma query_ranking:
  assumes "query hs emb (r\<lparr>q_top_n := Some m\<rparr>) = Inr resp"
  shows "\<exists>ranking. length ranking = qr_total_candidates resp \<and>
    (\<forall>n. query hs emb (r\<lparr>q_top_n := Some n\<rparr>) = Inr \<lparr>qr_citations = take n ranking, qr_total_candidates = length ranking\<rparr>)"
proof (cases "hs = []")
  case False
  let ?k = "case q_leg_k r of Some k \<Rightarrow> k | None \<Rightarrow> DEFAULT_LEG_K"
  obtain qv where qv: "embed_query emb (q_query r) = Inr qv"
    using assms False by (cases "embed_query emb (q_query r)") (simp_all add: query_def Let_def)
  obtain dense bm25 names where ps: "try_fold (fan_out_step qv (q_query r) ?k (q_filters r)) hs ([], [], []) = Inr (dense, bm25, names)"
    using assms False qv by (cases "try_fold (fan_out_step qv (q_query r) ?k (q_filters r)) hs ([], [], [])") (auto simp: query_def Let_def)
  define fused where "fused = rrf_fuse_global (pool_leg_results dense) (pool_leg_results bm25) RRF_K"
  have q: "query hs emb (r\<lparr>q_top_n := Some n\<rparr>) =
      Inr \<lparr>qr_citations = take n (map (cite_entry names) fused), qr_total_candidates = length fused\<rparr>" for n
    using False qv ps by (simp add: query_def Let_def fused_def [symmetric] empty_response_def rerank_noop_def take_map)
  show ?thesis using q [of m] assms by (intro exI [of _ "map (cite_entry names) fused"]) (auto simp: q)
qed (use assms in \<open>auto simp: query_def empty_response_def\<close>)

lemma clamped: "0 < limit \<Longrightarrow> 0 < unat (clamp_limit limit) \<and> unat (clamp_limit limit) \<le> 100"
  by (simp add: clamp_limit_def clamp_search_limit_def SEARCH_MAX_LIMIT_def unat_of_small word_greater_zero_iff unat_gt_0)

text \<open>
  C21: A client that pages through a search sees the ranking, once. If the first page of a search is
  answered, then, while nothing is written, following its cursors never fails and ends; the pages
  together are the full ranking of the query over the stores in scope, as long as the reported number
  of candidates.
\<close>

theorem search_pages_cover:
  assumes "search_page ax sx ta (req\<lparr>sq_cursor := None\<rparr>) app = Inr first" "sv_total_candidates first < 2 ^ 63" "0 < sq_limit req"
  shows "\<exists>ranking hs emb filters effective.
    follow (length ranking + 1)
      (\<lambda>cursor. and_then (search_page ax sx ta (req\<lparr>sq_cursor := cursor\<rparr>) app) (\<lambda>p. Inr (sv_citations p, sv_next_cursor p))) None = Inr ranking \<and>
    length ranking = sv_total_candidates first \<and>
    effective_config ax app = Inr effective \<and> into_metadata_filters ta (sq_filters req) = Inr filters \<and>
    collect (\<lambda>s. sx_open sx (es_id s) (es_name s)) (target_stores effective (sq_store_filter req)) = Inr hs \<and>
    (hs \<noteq> [] \<longrightarrow>
       query hs emb \<lparr>q_query = sq_query req, q_leg_k = None, q_top_n = Some (length ranking), q_filters = filters\<rparr> =
         Inr \<lparr>qr_citations = ranking, qr_total_candidates = length ranking\<rparr>)"
proof -
  let ?l = "clamp_limit (sq_limit req)"
  note l = clamped [OF assms(3)]
  from assms(1) obtain filters effective emb hs where q: "sq_query req \<noteq> []"
    and filters: "into_metadata_filters ta (sq_filters req) = Inr filters" and effective: "effective_config ax app = Inr effective"
    and known: "known_stores effective (sq_store_filter req) = Inr ()" and emb: "sx_create_embedder sx = Inr emb"
    and hs: "collect (\<lambda>s. sx_open sx (es_id s) (es_name s)) (target_stores effective (sq_store_filter req)) = Inr hs"
    by (auto simp: search_page_def and_then_eq_Inr Let_def split: if_splits sum.splits)
  define r where "r = \<lparr>q_query = sq_query req, q_leg_k = None, q_top_n = None, q_filters = filters\<rparr>"
  have page: "search_page ax sx ta (req\<lparr>sq_cursor := cursor_at i\<rparr>) app =
      (if hs = [] then Inr \<lparr>sv_citations = [], sv_total_candidates = 0, sv_next_cursor = None\<rparr>
       else and_then (query hs emb (r\<lparr>q_top_n := Some (i + unat ?l)\<rparr>)) (\<lambda>response.
         Inr \<lparr>sv_citations = drop i (qr_citations response), sv_total_candidates = qr_total_candidates response,
           sv_next_cursor = (if i + unat ?l < qr_total_candidates response then Some (show_nat (i + unat ?l)) else None)\<rparr>))"
    if "i < 2 ^ 63" for i
  proof -
    have "checked_add (word_of_nat i) ?l = Some (word_of_nat i + ?l)" "unat (word_of_nat i + ?l) = i + unat ?l"
      using that l by (simp_all add: checked_add_def unat_of_small unat_word_ariths)
    then show ?thesis using that q filters effective known emb hs
      by (simp add: search_page_def parse_cursor_at Let_def resolve_page_end_def ok_or_def unat_of_small r_def cong: if_cong)
  qed
  show ?thesis
  proof (cases "hs = []")
    case True
    then show ?thesis using page [of 0] assms(1) filters effective hs by (intro exI [of _ "[]"]) (auto simp: cursor_at_def)
  next
    case False
    obtain resp where "query hs emb (r\<lparr>q_top_n := Some (unat ?l)\<rparr>) = Inr resp" "sv_total_candidates first = qr_total_candidates resp"
    proof (cases "query hs emb (r\<lparr>q_top_n := Some (unat ?l)\<rparr>)")
      case (Inl e)
      then show thesis using page [of 0] assms(1) False by (simp add: cursor_at_def)
    next
      case (Inr resp)
      then have "sv_total_candidates first = qr_total_candidates resp"
        using page [of 0] assms(1) False by (simp add: cursor_at_def search_response.defs)
      with Inr show thesis by (rule that)
    qed
    with query_ranking obtain ranking where rk: "length ranking = sv_total_candidates first"
      "\<And>n. query hs emb (r\<lparr>q_top_n := Some n\<rparr>) = Inr \<lparr>qr_citations = take n ranking, qr_total_candidates = length ranking\<rparr>" by metis
    have "slices (\<lambda>cursor. and_then (search_page ax sx ta (req\<lparr>sq_cursor := cursor\<rparr>) app) (\<lambda>p. Inr (sv_citations p, sv_next_cursor p)))
        (unat ?l) ranking"
      unfolding slices_def
    proof (intro allI impI)
      fix i assume "i = 0 \<or> i < length ranking"
      then have "i < 2 ^ 63" using rk(1) assms(2) by auto
      then show "and_then (search_page ax sx ta (req\<lparr>sq_cursor := cursor_at i\<rparr>) app) (\<lambda>p. Inr (sv_citations p, sv_next_cursor p)) =
          Inr (take (unat ?l) (drop i ranking), next_at (i + unat ?l) (length ranking))"
        using page [of i] False rk(2) l by (simp add: drop_take next_at_def cursor_at_def)
    qed
    from follow_all [OF this conjunct1 [OF l]] rk filters effective hs show ?thesis
      by (intro exI [of _ ranking] exI [of _ hs] exI [of _ emb] exI [of _ filters] exI [of _ effective]) (simp add: r_def)
  qed
qed

text \<open>
  A limit of zero is not refused here, as it is for listings: the page is empty and points to itself.
\<close>

lemma search_limit_zero_loops:
  assumes "search_page ax sx ta (req\<lparr>sq_cursor := cursor_at i, sq_limit := 0\<rparr>) app = Inr p" "i < sv_total_candidates p" "i < 2 ^ 63"
  shows "sv_citations p = [] \<and> sv_next_cursor p = Some (show_nat i)"
proof -
  have "clamp_limit 0 = 0" by (simp add: clamp_limit_def clamp_search_limit_def)
  then have e: "resolve_page_end (word_of_nat i) (clamp_limit 0) = Inr (word_of_nat i)" "parse_cursor (cursor_at i) = Inr (word_of_nat i)"
    using assms(3) by (simp_all add: resolve_page_end_def ok_or_def checked_add_def unat_of_small parse_cursor_at)
  obtain hs emb r resp where "query hs emb (r\<lparr>q_top_n := Some i\<rparr>) = Inr resp" "sv_citations p = drop i (qr_citations resp)"
    "sv_total_candidates p = qr_total_candidates resp"
    "sv_next_cursor p = (if i < qr_total_candidates resp then Some (show_nat i) else None)"
  proof -
    from assms(1,2) obtain hs emb filters resp where
      "query hs emb \<lparr>q_query = sq_query req, q_leg_k = None, q_top_n = Some i, q_filters = filters\<rparr> = Inr resp"
      "p = \<lparr>sv_citations = drop i (qr_citations resp), sv_total_candidates = qr_total_candidates resp,
              sv_next_cursor = (if i < qr_total_candidates resp then Some (show_nat i) else None)\<rparr>"
      using e assms(3) by (auto simp: search_page_def and_then_eq_Inr Let_def unat_of_small split: if_splits sum.splits)
    then show thesis
      using that [of hs emb "\<lparr>q_query = sq_query req, q_leg_k = None, q_top_n = None, q_filters = filters\<rparr>" resp] by simp
  qed
  moreover from this(1) obtain ranking where "resp = \<lparr>qr_citations = take i ranking, qr_total_candidates = length ranking\<rparr>"
    using query_ranking [of hs emb i r resp] by (metis sum.inject(2))
  ultimately show ?thesis using assms(2) by simp
qed

text \<open>One store that returns one chunk.\<close>

definition one_hit :: "string \<Rightarrow> string \<Rightarrow> error + store_handle" where
  "one_hit i name = Inr \<lparr>sh_id = i, sh_name = name, sh_dense = (\<lambda>_ _ _. Inr [demo_result ''c'' i (Num 1)]), sh_bm25 = (\<lambda>_ _ _. Inr [])\<rparr>"

definition demo_search_ext :: search_ext where
  "demo_search_ext = \<lparr>sx_create_embedder = Inr (\<lambda>_. Inr [[[Num 1]]]), sx_error_text = (\<lambda>_. ''error''), sx_open = one_hit\<rparr>"

definition demo_search :: search_request where
  "demo_search = \<lparr>sq_query = ''q'', sq_store_filter = [], sq_limit = 1, sq_cursor = None,
     sq_filters = \<lparr>sf_path = None, sf_mime = None, sf_added_after = None, sf_added_before = None, sf_updated_after = None,
       sf_updated_before = None, sf_modified_after = None, sf_modified_before = None, sf_document_after = None, sf_document_before = None\<rparr>\<rparr>"

definition demo_times :: "(int, int) time_api" where
  "demo_times = \<lparr>ta_chrono = \<lparr>parse_from_rfc3339 = (\<lambda>_. None), timestamp_subsec_nanos = (\<lambda>_. 0), checked_add_secs = (\<lambda>i n. Some (i + n)),
       rfc3339_secs = (\<lambda>_. [])\<rparr>, ta_parse_duration = (\<lambda>_. None), ta_in_range = (\<lambda>_. True), ta_now_minus = (\<lambda>_. None),
     ta_debug_str = id\<rparr>"

lemma demo_effective: "effective_config demo_env demo_app =
    Inr [\<lparr>es_name = ''docs'', es_id = ''st'', es_visibility = ''private'', es_backend = ''libsql'', es_indexing = ''{}''\<rparr>]"
  by (simp add: effective_config_def list_stores_def demo_env_def demo_app_def effective_store_of_def store_visibility_to_str_def
      demo_store_row_def)

lemma demo_filters: "into_metadata_filters demo_times (sq_filters demo_search) = Inr []"
  by (simp add: into_metadata_filters_def demo_search_def filter_axes_def axis_step_def push_bound_def)

lemma demo_first_page: "\<exists>first. search_page demo_env demo_search_ext demo_times (demo_search\<lparr>sq_cursor := None\<rparr>) demo_app = Inr first \<and>
    sv_total_candidates first = 1"
proof -
  let ?r = "demo_result ''c'' ''st'' (Num 1)"
  have "length (fused_entries [?r] [] RRF_K) = 1"
    using distinct_card [OF fused_distinct, of "[?r]" "[]" RRF_K] fused_keys [of "[?r]" "[]" RRF_K] by simp
  then have n: "length (rrf_fuse_global [?r] [] RRF_K) = 1" by (simp add: rrf_fuse_global_def)
  then have "rrf_fuse_global [?r] [] RRF_K \<noteq> []" by auto
  have "demo_search\<lparr>sq_cursor := None\<rparr> = demo_search" by (simp add: demo_search_def)
  with \<open>rrf_fuse_global [?r] [] RRF_K \<noteq> []\<close> show ?thesis using n demo_effective demo_filters
    by (simp add: search_page_def parse_cursor_def resolve_page_end_def checked_add_def clamp_limit_def clamp_search_limit_def
        SEARCH_MAX_LIMIT_def ok_or_def known_stores_def target_stores_def Let_def)
      (simp add: demo_search_def demo_search_ext_def one_hit_def query_def embed_query_def fan_out_step_def search_store_def
        retain_own_chunks_def pool_leg_results_def Let_def)
qed

lemma search_pages_cover_witness:
  "\<exists>ranking. follow 2 (\<lambda>cursor. and_then (search_page demo_env demo_search_ext demo_times (demo_search\<lparr>sq_cursor := cursor\<rparr>) demo_app)
     (\<lambda>p. Inr (sv_citations p, sv_next_cursor p))) None = Inr ranking \<and> length ranking = 1"
proof -
  obtain first where f: "search_page demo_env demo_search_ext demo_times (demo_search\<lparr>sq_cursor := None\<rparr>) demo_app = Inr first"
      "sv_total_candidates first = 1"
    using demo_first_page by blast
  have "0 < sq_limit demo_search" by (simp add: demo_search_def)
  moreover have "sv_total_candidates first < 2 ^ 63" using f(2) by simp
  ultimately obtain ranking where r: "length ranking = sv_total_candidates first"
    "follow (length ranking + 1) (\<lambda>cursor. and_then (search_page demo_env demo_search_ext demo_times (demo_search\<lparr>sq_cursor := cursor\<rparr>) demo_app)
       (\<lambda>p. Inr (sv_citations p, sv_next_cursor p))) None = Inr ranking"
    using search_pages_cover [OF f(1)] by blast
  have two: "length ranking + 1 = 2" using r(1) f(2) by simp
  show ?thesis using r(2) [unfolded two] r(1) f(2) by (intro exI [of _ ranking] conjI) simp_all
qed

end
