(* ===== verification/Documents.thy ===== *)
theory Documents
  imports AppSafety
begin

text \<open>
  Reading one document (\<open>core/src/documents.rs\<close>, the scope resolution of \<open>core/src/backend.rs\<close>, the handler
  of \<open>server/src/handlers/documents.rs\<close>). What a store holds of a document, its chunks and its blocks, is
  a parameter.
\<close>

record document_detail =
  dd_info :: document_info
  dd_text :: "string option"
  dd_chunk_count :: "nat option"

record read_ext =
  rx_open :: "string \<Rightarrow> error + unit"
  rx_chunks :: "string \<Rightarrow> string \<Rightarrow> error + chunk_record list"
  rx_blocks :: "string \<Rightarrow> string \<Rightarrow> error + block list"

definition reconstruct_document_text :: "chunk_record list \<Rightarrow> block list \<Rightarrow> string" where
  "reconstruct_document_text chunks blocks =
     (if blocks = [] then join [CHR 0x0A] (map cr_text chunks) else join [CHR 0x0A, CHR 0x0A] (map block_text blocks))"

definition get_document_detail ::
  "db_ext \<Rightarrow> read_ext \<Rightarrow> registry \<Rightarrow> string \<Rightarrow> string option \<Rightarrow> bool \<Rightarrow> error + document_detail" where
  "get_document_detail dx rx rg doc_id store_id include_text =
     and_then (find_document dx rg doc_id store_id) (\<lambda>found.
     and_then (ok_or (ResourceNotFound doc_id) found) (\<lambda>info.
       if include_text
       then and_then (rx_open rx (di_store_id info)) (\<lambda>_.
            and_then (rx_chunks rx (di_store_id info) (di_id info)) (\<lambda>chunks.
            and_then (rx_blocks rx (di_store_id info) (di_id info)) (\<lambda>blocks.
              Inr \<lparr>dd_info = info, dd_text = Some (reconstruct_document_text chunks blocks), dd_chunk_count = Some (length chunks)\<rparr>)))
       else Inr \<lparr>dd_info = info, dd_text = None, dd_chunk_count = None\<rparr>))"

definition get_document_detail_scoped ::
  "db_ext \<Rightarrow> read_ext \<Rightarrow> registry \<Rightarrow> string \<Rightarrow> string list \<Rightarrow> bool \<Rightarrow> error + document_detail" where
  "get_document_detail_scoped dx rx rg doc_id allowed_store_ids include_text =
     (case allowed_store_ids of
        [] \<Rightarrow> get_document_detail dx rx rg doc_id None include_text
      | [only] \<Rightarrow> get_document_detail dx rx rg doc_id (Some only) include_text
      | many \<Rightarrow>
          and_then (get_document_detail dx rx rg doc_id None include_text) (\<lambda>detail.
            if di_store_id (dd_info detail) \<in> set many then Inr detail else Inl (ResourceNotFound doc_id)))"

text \<open>Names to stores, in the order asked for, each once.\<close>

fun resolve_from :: "db_ext \<Rightarrow> registry \<Rightarrow> string list \<Rightarrow> string list \<Rightarrow> error + store_row list" where
  "resolve_from dx rg seen [] = Inr []"
| "resolve_from dx rg seen (name # names) =
     (if name \<in> set seen then resolve_from dx rg seen names
      else and_then (and_then (get_store_by_name dx rg name) (ok_or (StoreNotFound name))) (\<lambda>store.
           and_then (resolve_from dx rg (name # seen) names) (\<lambda>stores. Inr (store # stores))))"

definition resolve_named_stores :: "db_ext \<Rightarrow> registry \<Rightarrow> string list \<Rightarrow> error + store_row list" where
  "resolve_named_stores dx rg names = resolve_from dx rg [] names"

definition get_document :: "'p app_env \<Rightarrow> read_ext \<Rightarrow> string \<Rightarrow> string list \<Rightarrow> app \<Rightarrow> error + document_detail" where
  "get_document ax rx doc_id store_names app =
     and_then (resolve_named_stores (ax_db ax) (ap_registry app) store_names) (\<lambda>stores.
       get_document_detail_scoped (ax_db ax) rx (ap_registry app) doc_id (map st_id stores) True)"

record document_record_out =
  do_id :: string
  do_uri :: string
  do_title :: "string option"
  do_store_id :: string
  do_source_id :: string
  do_content_hash :: string
  do_fetched_at :: string
  do_normalized_text :: string
  do_metadata :: metadata
  do_date_original :: "string option"
  do_date_parsed :: "string option"
  do_index_updated_at :: "string option"

definition document_response :: "'p app_env \<Rightarrow> read_ext \<Rightarrow> string \<Rightarrow> string list \<Rightarrow> app \<Rightarrow> error + document_record_out" where
  "document_response ax rx doc_id store_names app =
     and_then (get_document ax rx doc_id store_names app) (\<lambda>detail.
       let info = dd_info detail
       in Inr \<lparr>do_id = di_id info, do_uri = di_uri info, do_title = di_title info, do_store_id = di_store_id info,
            do_source_id = di_source_id info, do_content_hash = di_content_hash info, do_fetched_at = di_fetched_at info,
            do_normalized_text = or_empty (dd_text detail), do_metadata = di_metadata info, do_date_original = di_date_original info,
            do_date_parsed = di_date_parsed info, do_index_updated_at = di_index_updated_at info\<rparr>)"

section \<open>What is found\<close>

lemma resolve_from_known:
  assumes "fault_free dx" "distinct (map st_name (rg_stores rg))" "set names \<subseteq> st_name ` set (rg_stores rg)"
  shows "\<exists>stores. resolve_from dx rg seen names = Inr stores \<and> distinct stores \<and>
    set stores = {s \<in> set (rg_stores rg). st_name s \<in> set names - set seen}"
  using assms(3)
proof (induction names arbitrary: seen)
  case (Cons name names)
  show ?case
  proof (cases "name \<in> set seen")
    case True
    then show ?thesis using Cons.IH [of seen] Cons.prems by auto
  next
    case False
    obtain store where store: "store \<in> set (rg_stores rg)" "st_name store = name" using Cons.prems by auto
    have "get_store_by_name dx rg name = Inr (Some store)"
      using find_row [OF assms(2) store(1)] store(2) assms(1) by (simp add: get_store_by_name_def fault_free_def)
    moreover obtain stores where rest: "resolve_from dx rg (name # seen) names = Inr stores" "distinct stores"
      "set stores = {s \<in> set (rg_stores rg). st_name s \<in> set names - set (name # seen)}"
      using Cons.IH [of "name # seen"] Cons.prems by auto
    moreover have "set (store # stores) = {s \<in> set (rg_stores rg). st_name s \<in> set (name # names) - set seen}"
      using rest(3) store False distinct_key [OF assms(2) _ store(1)] by auto
    moreover have "store \<notin> set stores" using rest(3) store(2) by auto
    ultimately show ?thesis using False by (simp add: ok_or_def)
  qed
qed simp

definition readable :: "read_ext \<Rightarrow> bool" where
  "readable rx \<longleftrightarrow> (\<forall>s i. rx_open rx s = Inr () \<and> (\<exists>cs. rx_chunks rx s i = Inr cs) \<and> (\<exists>bs. rx_blocks rx s i = Inr bs))"

text \<open>The documents with an id that a caller who named these stores may see, and an id that two stores hold.\<close>

definition visible_documents :: "registry \<Rightarrow> string list \<Rightarrow> string \<Rightarrow> document_info set" where
  "visible_documents rg names doc_id =
     {d \<in> set (rg_documents rg). di_id d = doc_id \<and>
        (names = [] \<or> (\<exists>store \<in> set (rg_stores rg). st_name store \<in> set names \<and> st_id store = di_store_id d))}"

definition in_two_stores :: "registry \<Rightarrow> string \<Rightarrow> bool" where
  "in_two_stores rg doc_id \<longleftrightarrow>
     (\<exists>d \<in> set (rg_documents rg). \<exists>d' \<in> set (rg_documents rg). di_id d = doc_id \<and> di_id d' = doc_id \<and> di_store_id d \<noteq> di_store_id d')"

definition with_text :: "read_ext \<Rightarrow> document_detail \<Rightarrow> bool" where
  "with_text rx detail \<longleftrightarrow>
     (\<exists>chunks blocks. rx_chunks rx (di_store_id (dd_info detail)) (di_id (dd_info detail)) = Inr chunks \<and>
        rx_blocks rx (di_store_id (dd_info detail)) (di_id (dd_info detail)) = Inr blocks \<and>
        dd_text detail = Some (reconstruct_document_text chunks blocks) \<and> dd_chunk_count detail = Some (length chunks))"

lemma detail_missing:
  "find_document dx rg doc_id scope = Inr None \<Longrightarrow> get_document_detail dx rx rg doc_id scope full = Inl (ResourceNotFound doc_id)"
  by (simp add: get_document_detail_def ok_or_def)

lemma detail_found:
  assumes "readable rx" "find_document dx rg doc_id scope = Inr (Some info)"
  obtains detail where "get_document_detail dx rx rg doc_id scope True = Inr detail" "dd_info detail = info" "with_text rx detail"
proof -
  obtain cs bs where r: "rx_open rx (di_store_id info) = Inr ()" "rx_chunks rx (di_store_id info) (di_id info) = Inr cs"
    "rx_blocks rx (di_store_id info) (di_id info) = Inr bs" using assms(1) unfolding readable_def by metis
  show ?thesis
  proof (rule that)
    show "get_document_detail dx rx rg doc_id scope True =
        Inr \<lparr>dd_info = info, dd_text = Some (reconstruct_document_text cs bs), dd_chunk_count = Some (length cs)\<rparr>"
      using assms(2) r by (simp add: get_document_detail_def ok_or_def)
  qed (use r in \<open>simp_all add: with_text_def\<close>)
qed

lemma find_document_scoped:
  assumes "fault_free dx" "distinct (map (\<lambda>d. (di_store_id d, di_id d)) (rg_documents rg))"
  obtains found where "find_document dx rg doc_id (Some s) = Inr found"
    "set_option found = {d \<in> set (rg_documents rg). di_id d = doc_id \<and> di_store_id d = s}"
proof (rule that [of "find (\<lambda>d. di_id d = doc_id \<and> di_store_id d = s) (rg_documents rg)"])
  show "find_document dx rg doc_id (Some s) = Inr (find (\<lambda>d. di_id d = doc_id \<and> di_store_id d = s) (rg_documents rg))"
    using assms(1) by (simp add: find_document_def fault_free_def)
  show "set_option (find (\<lambda>d. di_id d = doc_id \<and> di_store_id d = s) (rg_documents rg)) =
      {d \<in> set (rg_documents rg). di_id d = doc_id \<and> di_store_id d = s}"
  proof (cases "find (\<lambda>d. di_id d = doc_id \<and> di_store_id d = s) (rg_documents rg)")
    case None
    then have "\<not> (\<exists>d. d \<in> set (rg_documents rg) \<and> di_id d = doc_id \<and> di_store_id d = s)" unfolding find_None_iff .
    then show ?thesis by (subst None) auto
  next
    case (Some d)
    note d = find_SomeD [OF Some]
    have "d' = d" if "d' \<in> set (rg_documents rg)" "di_id d' = doc_id" "di_store_id d' = s" for d'
      using distinct_key [OF assms(2) that(1), of d] d that by simp
    then show ?thesis using d by (subst Some) auto
  qed
qed

lemma find_document_anywhere:
  assumes "fault_free dx" "distinct (map (\<lambda>d. (di_store_id d, di_id d)) (rg_documents rg))"
  obtains found where "find_document dx rg doc_id None = Inr found" "set_option found = {d \<in> set (rg_documents rg). di_id d = doc_id}"
  | m where "find_document dx rg doc_id None = Inl (InvalidRequest m)" "in_two_stores rg doc_id"
proof -
  define found where "found = filter (\<lambda>d. di_id d = doc_id) (rg_documents rg)"
  have set: "{d \<in> set (rg_documents rg). di_id d = doc_id} = set found" by (auto simp: found_def)
  have calm: "select dx (FindDocument doc_id None) found = Inr found" using assms(1) by (simp add: fault_free_def)
  have "\<exists>m. find_document dx rg doc_id None = (case found of [] \<Rightarrow> Inr None | [d] \<Rightarrow> Inr (Some d) | _ \<Rightarrow> Inl (InvalidRequest m))"
    unfolding find_document_def option.case found_def [symmetric] calm and_then_Inr by (rule exI, rule refl)
  then obtain m where
    look: "find_document dx rg doc_id None = (case found of [] \<Rightarrow> Inr None | [d] \<Rightarrow> Inr (Some d) | _ \<Rightarrow> Inl (InvalidRequest m))" ..
  consider "found = []" | d where "found = [d]" | d d' rest where "found = d # d' # rest" by (metis list.exhaust)
  then show ?thesis
  proof cases
    case 1
    show ?thesis
    proof (rule that(1))
      show "find_document dx rg doc_id None = Inr None" unfolding look 1 by simp
      show "set_option None = {d \<in> set (rg_documents rg). di_id d = doc_id}" unfolding set 1 by simp
    qed
  next
    case (2 d)
    show ?thesis
    proof (rule that(1))
      show "find_document dx rg doc_id None = Inr (Some d)" unfolding look 2 by simp
      show "set_option (Some d) = {d \<in> set (rg_documents rg). di_id d = doc_id}" unfolding set 2 by simp
    qed
  next
    case (3 d d' rest)
    have "distinct (map (\<lambda>d. (di_store_id d, di_id d)) found)" using assms(2) unfolding found_def by (rule distinct_map_filter)
    then have "(di_store_id d, di_id d) \<noteq> (di_store_id d', di_id d')" unfolding 3 by simp
    moreover have "x \<in> set (rg_documents rg) \<and> di_id x = doc_id" if "x \<in> {d, d'}" for x
    proof -
      have "x \<in> set found" using that unfolding 3 by auto
      then show ?thesis by (simp add: found_def)
    qed
    ultimately have "in_two_stores rg doc_id"
      unfolding in_two_stores_def by (intro bexI [of _ d] bexI [of _ d']) auto
    moreover have "find_document dx rg doc_id None = Inl (InvalidRequest m)" unfolding look 3 by simp
    ultimately show ?thesis by (rule that(2) [rotated])
  qed
qed

lemma found_exactly:
  "set_option found = V \<Longrightarrow> (case found of None \<Rightarrow> V = {} | Some d \<Rightarrow> V = {d})"
  by (cases found) auto

text \<open>A lookup that went unscoped, cut down to the stores in scope.\<close>

lemma scoped_many:
  assumes "length ids \<noteq> 1"
  shows "get_document_detail_scoped dx rx rg doc_id ids full =
    and_then (get_document_detail dx rx rg doc_id None full) (\<lambda>detail.
      if ids = [] \<or> di_store_id (dd_info detail) \<in> set ids then Inr detail else Inl (ResourceNotFound doc_id))"
proof (cases ids)
  case Nil
  then show ?thesis
    by (cases "get_document_detail dx rx rg doc_id None full") (simp_all add: get_document_detail_scoped_def)
next
  case (Cons x xs)
  then obtain y ys where "xs = y # ys" using assms by (cases xs) auto
  with Cons show ?thesis by (simp add: get_document_detail_scoped_def)
qed

definition answers_visible :: "read_ext \<Rightarrow> registry \<Rightarrow> string list \<Rightarrow> string \<Rightarrow> error + document_detail \<Rightarrow> bool" where
  "answers_visible rx rg names doc_id answer \<longleftrightarrow>
     (case answer of
        Inr detail \<Rightarrow> visible_documents rg names doc_id = {dd_info detail} \<and> with_text rx detail
      | Inl e \<Rightarrow> (e = ResourceNotFound doc_id \<and> visible_documents rg names doc_id = {}) \<or>
          ((\<exists>m. e = InvalidRequest m) \<and> card (set names) \<noteq> 1 \<and> in_two_stores rg doc_id))"

lemma scoped_answers:
  assumes "fault_free dx" "readable rx" "distinct (map (\<lambda>d. (di_store_id d, di_id d)) (rg_documents rg))"
    and visible: "visible_documents rg names doc_id = {d \<in> set (rg_documents rg). di_id d = doc_id \<and> (ids = [] \<or> di_store_id d \<in> set ids)}"
    and count: "length ids = card (set names)"
  shows "answers_visible rx rg names doc_id (get_document_detail_scoped dx rx rg doc_id ids True)"
proof (cases "length ids = 1")
  case True
  then obtain s where s: "ids = [s]" by (cases ids) auto
  obtain found where found: "find_document dx rg doc_id (Some s) = Inr found"
    "set_option found = {d \<in> set (rg_documents rg). di_id d = doc_id \<and> di_store_id d = s}"
    using find_document_scoped [OF assms(1,3)] by blast
  then have V: "set_option found = visible_documents rg names doc_id" using visible s by simp
  have scoped: "get_document_detail_scoped dx rx rg doc_id ids True = get_document_detail dx rx rg doc_id (Some s) True"
    using s by (simp add: get_document_detail_scoped_def)
  show ?thesis
  proof (cases found)
    case None
    then show ?thesis using found_exactly [OF V] detail_missing found(1) scoped by (simp add: answers_visible_def)
  next
    case (Some info)
    then obtain detail where "get_document_detail dx rx rg doc_id (Some s) True = Inr detail" "dd_info detail = info" "with_text rx detail"
      using detail_found [OF assms(2)] found(1) by blast
    then show ?thesis using found_exactly [OF V] Some scoped by (simp add: answers_visible_def)
  qed
next
  case False
  then have card: "card (set names) \<noteq> 1" using count by simp
  note scoped = scoped_many [OF False, of dx rx rg doc_id True]
  from assms(1,3) show ?thesis
  proof (rule find_document_anywhere [where doc_id = doc_id])
    fix m assume "find_document dx rg doc_id None = Inl (InvalidRequest m)" "in_two_stores rg doc_id"
    then show ?thesis using scoped card by (simp add: answers_visible_def get_document_detail_def)
  next
    fix found assume found: "find_document dx rg doc_id None = Inr found" "set_option found = {d \<in> set (rg_documents rg). di_id d = doc_id}"
    have V: "visible_documents rg names doc_id = {d \<in> set_option found. ids = [] \<or> di_store_id d \<in> set ids}"
      unfolding visible found(2) by auto
    show ?thesis
    proof (cases found)
      case None
      then show ?thesis using V detail_missing [of dx rg doc_id None rx True] found(1) scoped by (simp add: answers_visible_def)
    next
      case (Some info)
      then obtain detail where d: "get_document_detail dx rx rg doc_id None True = Inr detail" "dd_info detail = info" "with_text rx detail"
        using detail_found [OF assms(2)] found(1) by blast
      show ?thesis
      proof (cases "ids = [] \<or> di_store_id info \<in> set ids")
        case True
        then have "visible_documents rg names doc_id = {info}" unfolding V Some by auto
        then show ?thesis using True d scoped by (simp add: answers_visible_def)
      next
        case out: False
        then have "visible_documents rg names doc_id = {}" unfolding V Some by auto
        then show ?thesis using out d scoped by (simp add: answers_visible_def)
      qed
    qed
  qed
qed

text \<open>
  C19: A document is looked up within the stores the caller named. With every name known, the answer is the
  one document with that id in those stores (in any store, when none is named), with its text put
  together from its blocks or, when it has none, its chunks; \<open>not found\<close> means there is none there; and a
  lookup is refused as ambiguous only when it names no store or several and two stores hold that id.
\<close>

theorem document_in_scope:
  assumes "tables_ok (ap_registry app)" "fault_free (ax_db ax)" "readable rx"
    "set names \<subseteq> st_name ` set (rg_stores (ap_registry app))"
  shows "case get_document ax rx doc_id names app of
       Inr detail \<Rightarrow> visible_documents (ap_registry app) names doc_id = {dd_info detail} \<and> with_text rx detail
     | Inl e \<Rightarrow> (e = ResourceNotFound doc_id \<and> visible_documents (ap_registry app) names doc_id = {}) \<or>
         ((\<exists>m. e = InvalidRequest m) \<and> card (set names) \<noteq> 1 \<and> in_two_stores (ap_registry app) doc_id)"
proof -
  let ?rg = "ap_registry app" and ?dx = "ax_db ax"
  note okD = tables_okD [OF assms(1)]
  obtain stores where stores: "resolve_named_stores ?dx ?rg names = Inr stores" "distinct stores"
      "set stores = {s \<in> set (rg_stores ?rg). st_name s \<in> set names}"
    using resolve_from_known [OF assms(2) okD(2) assms(4), of "[]"] by (auto simp: resolve_named_stores_def)
  have empty: "stores = [] \<longleftrightarrow> names = []"
    using stores(3) assms(4) by (cases names) (auto simp flip: set_empty)
  have visible: "visible_documents ?rg names doc_id =
      {d \<in> set (rg_documents ?rg). di_id d = doc_id \<and> (map st_id stores = [] \<or> di_store_id d \<in> set (map st_id stores))}"
    unfolding visible_documents_def map_is_Nil_conv empty set_map stores(3) by force
  have "st_name ` set stores = set names" using stores(3) assms(4) by auto
  moreover have "inj_on st_name (set stores)" using stores(3) okD(2) by (auto simp: distinct_map inj_on_def)
  ultimately have count: "length (map st_id stores) = card (set names)"
    using card_image [of st_name "set stores"] distinct_card [OF stores(2)] by simp
  have "get_document ax rx doc_id names app = get_document_detail_scoped ?dx rx ?rg doc_id (map st_id stores) True"
    using stores(1) by (simp add: get_document_def)
  then show ?thesis
    using scoped_answers [OF assms(2,3) okD(7) visible count] unfolding answers_visible_def by simp
qed

definition demo_shelf :: "string \<Rightarrow> store_row" where
  "demo_shelf i = demo_store_row\<lparr>st_id := i, st_name := i\<rparr>"

definition demo_copy :: "string \<Rightarrow> document_info" where
  "demo_copy i = \<lparr>di_store_id = i, di_id = ''doc'', di_source_id = i, di_ingestor_kind = ''url'', di_uri = ''https://a'', di_title = None,
     di_mime = None, di_content_hash = ''h'', di_fetched_at = ''now'', di_origin_store = i, di_policy_version = ''v1'',
     di_metadata = default_metadata, di_date_original = None, di_date_parsed = None, di_index_updated_at = None\<rparr>"

definition demo_library :: "string list \<Rightarrow> app" where
  "demo_library holders = \<lparr>ap_registry = \<lparr>rg_stores = map demo_shelf [''a'', ''b'', ''c''],
     rg_sources = map (\<lambda>i. demo_source_row\<lparr>sr_id := i, sr_store_id := i\<rparr>) [''a'', ''b'', ''c''],
     rg_documents = map demo_copy holders\<rparr>, ap_records = []\<rparr>"

definition demo_reader :: read_ext where
  "demo_reader = \<lparr>rx_open = (\<lambda>_. Inr ()), rx_chunks = (\<lambda>_ _. Inr []), rx_blocks = (\<lambda>_ _. Inr [])\<rparr>"

lemma demo_library_ok: "tables_ok (ap_registry (demo_library [''a'', ''c'']))"
  by (simp add: demo_library_def tables_ok_def store_rows_ok_def source_rows_ok_def document_rows_ok_def source_check_def)
    (simp add: demo_store_row_def demo_source_row_def demo_shelf_def demo_copy_def source_clash_def)

lemma demo_visible: "visible_documents (ap_registry (demo_library [''a'', ''c''])) [''a'', ''b''] ''doc'' = {demo_copy ''a''}"
  by (auto simp: visible_documents_def demo_library_def demo_shelf_def demo_copy_def demo_store_row_def)

lemma document_in_scope_witness:
  "case get_document demo_env demo_reader ''doc'' [''a''] (demo_library [''a'', ''c'']) of
     Inr detail \<Rightarrow> dd_info detail = demo_copy ''a'' | Inl e \<Rightarrow> False"
proof -
  have "visible_documents (ap_registry (demo_library [''a'', ''c''])) [''a''] ''doc'' = {demo_copy ''a''}"
    by (auto simp: visible_documents_def demo_library_def demo_shelf_def demo_copy_def demo_store_row_def)
  moreover have "fault_free (ax_db demo_env)" by (simp add: demo_env_def fault_free_def)
  moreover have "readable demo_reader" by (simp add: demo_reader_def readable_def)
  moreover have "set [''a''] \<subseteq> st_name ` set (rg_stores (ap_registry (demo_library [''a'', ''c''])))"
    by (simp add: demo_library_def demo_shelf_def)
  ultimately show ?thesis
    using document_in_scope [OF demo_library_ok, of demo_env demo_reader "[''a'']" "''doc''"] by (auto split: sum.splits)
qed

text \<open>
  With two stores named, a document that is the only one in scope is refused as ambiguous: a store outside
  the scope holds the same id.
\<close>

lemma copy_out_of_scope_refuses:
  "visible_documents (ap_registry (demo_library [''a'', ''c''])) [''a'', ''b''] ''doc'' = {demo_copy ''a''} \<and>
   (\<exists>m. get_document demo_env demo_reader ''doc'' [''a'', ''b''] (demo_library [''a'', ''c'']) = Inl (InvalidRequest m))"
proof
  have "resolve_named_stores (ax_db demo_env) (ap_registry (demo_library [''a'', ''c''])) [''a'', ''b''] = Inr [demo_shelf ''a'', demo_shelf ''b'']"
    by (simp add: resolve_named_stores_def get_store_by_name_def demo_env_def demo_library_def demo_shelf_def ok_or_def)
  then show "\<exists>m. get_document demo_env demo_reader ''doc'' [''a'', ''b''] (demo_library [''a'', ''c'']) = Inl (InvalidRequest m)"
    by (simp add: get_document_def get_document_detail_scoped_def get_document_detail_def find_document_def demo_env_def demo_library_def
        demo_copy_def)
qed (rule demo_visible)

end
