(* ===== verification/JobExec.thy ===== *)
theory JobExec
  imports AppSafety RunRemoval FileIngest FeedIngest
begin

text \<open>
  One indexing job (\<open>server/src/job_exec.rs\<close>, \<open>run_scoped_job\<close> of \<open>server/src/state.rs\<close>, the request of
  \<open>server/src/handlers/jobs.rs\<close>, \<open>ingest/src/factory.rs\<close>): the sources in scope are run one after another over
  one document index, and what a feed answered is remembered. The embedder is what it embeds with, a
  fetcher what it fetches; the environment of a run but for these two is a parameter.
\<close>

type_synonym embedder = "(string \<times> string list) list \<Rightarrow> error + flt list list list"
type_synonym fetcher_pair = "url_fetcher \<times> url_fetcher"

record ingest_exts =
  gx_file :: file_ext
  gx_url :: url_ext
  gx_feed :: feed_ext

text \<open>\<open>je_env\<close> is the world a source's run finds; \<open>je_list\<close> the listing of the documents a store holds.\<close>

record ('s, 'i) job_ext =
  je_db :: db_ext
  je_json :: json_ext
  je_policy_version :: string
  je_policy_json :: "string option"
  je_create_embedder :: "error + embedder"
  je_build_chain :: "error + unit"
  je_open :: "string \<Rightarrow> error + unit"
  je_list :: "'s \<Rightarrow> error + document_record list"
  je_new_pair :: "error + fetcher_pair"
  je_ingest :: "source_row \<Rightarrow> ingest_exts"
  je_env :: "source_row \<Rightarrow> ('s, 'i) run_env"

section \<open>The job\<close>

definition resolve_job_sources :: "db_ext \<Rightarrow> registry \<Rightarrow> string \<Rightarrow> job_scope \<Rightarrow> error + source_row list" where
  "resolve_job_sources dx rg store_id scope =
     and_then (list_sources dx rg store_id) (\<lambda>all_sources.
       case scope of
         ScopeStore \<Rightarrow> Inr all_sources
       | ScopeSource source_id \<Rightarrow>
           (case find (\<lambda>s. sr_id s = source_id) all_sources of
              Some s \<Rightarrow> Inr [s] | None \<Rightarrow> Inl (SourceNotFound source_id))
       | ScopeDocument _ \<Rightarrow> Inl (InvalidRequest ''document-scoped index jobs are not yet supported''))"

text \<open>A store whose policy has changed gets the current one; the rest of the row is the caller's copy.\<close>

definition refresh_policy :: "('s, 'i) job_ext \<Rightarrow> store_row \<Rightarrow> registry \<Rightarrow> registry" where
  "refresh_policy je row rg =
     (if st_policy_version row \<noteq> je_policy_version je
      then fst (upsert_store (je_db je)
             (row\<lparr>st_policy_version := je_policy_version je,
                  st_indexing_policy := (case je_policy_json je of Some s \<Rightarrow> s | None \<Rightarrow> st_indexing_policy row)\<rparr>) rg)
      else rg)"

text \<open>The first fetcher is the unrestricted one, for URLs of the operator; what a feed links to gets the second.\<close>

definition build_ingestor_for_spec :: "ingest_exts \<Rightarrow> source_spec \<Rightarrow> fetcher_pair \<Rightarrow> ingestor" where
  "build_ingestor_for_spec gx spec fetchers =
     (case spec of
        PathSpec _ _ _ \<Rightarrow> file_ingestor (gx_file gx)
      | UrlSpec _ _ \<Rightarrow> url_ingestor ((gx_url gx)\<lparr>ux_fetch := fst fetchers\<rparr>)
      | FeedSpec _ _ _ _ \<Rightarrow> feed_ingestor ((gx_feed gx)\<lparr>xx_feed_fetch := fst fetchers, xx_entry_fetch := snd fetchers\<rparr>))"

definition source_env ::
  "('s, 'i) job_ext \<Rightarrow> string \<Rightarrow> deletion_policy \<Rightarrow> bool \<Rightarrow> embedder \<Rightarrow> fetcher_pair \<Rightarrow> chunker_config \<Rightarrow> source_row \<Rightarrow>
   ('s, 'i) run_env" where
  "source_env je store_id deletion refetch embedder fetchers chunker row =
     (let base = je_env je row
      in base\<lparr>re_source := source_row_to_source (je_json je) row,
           re_ext := (re_ext base)\<lparr>ie_embed_documents := embedder\<rparr>,
           re_config := \<lparr>ic_store_id = store_id, ic_policy_version = je_policy_version je, ic_chunker = chunker\<rparr>,
           re_refetch := refetch, re_deletion := deletion,
           re_document_validators := \<lparr>v_etag = sr_feed_etag row, v_last_modified = sr_feed_last_modified row\<rparr>,
           re_stored_inputs_digest := sr_feed_inputs_digest row, re_fetch := snd fetchers\<rparr>)"

definition add_run_result :: "ingestion_result \<Rightarrow> job_stats \<Rightarrow> job_stats" where
  "add_run_result r stats =
     stats\<lparr>docs_seen := docs_seen stats + r_docs_seen r, docs_indexed := docs_indexed stats + r_docs_indexed r,
       docs_skipped := docs_skipped stats + r_docs_skipped r, docs_deleted := docs_deleted stats + r_docs_deleted r,
       docs_prunable := docs_prunable stats + r_docs_prunable r,
       docs_metadata_updated := docs_metadata_updated stats + r_docs_metadata_updated r,
       docs_recheck_deferred := docs_recheck_deferred stats + r_docs_recheck_deferred r,
       feed_entries_liveness_checked := feed_entries_liveness_checked stats + r_feed_entries_liveness_checked r,
       chunks_written := chunks_written stats + r_chunks_written r,
       unsupported_format_count := unsupported_format_count stats + r_unsupported_format_count r,
       error_count := error_count stats + r_error_count r\<rparr>"

text \<open>What is remembered of a feed: only after a run without errors, validators and digest together.\<close>

definition remember_feed :: "db_ext \<Rightarrow> string \<Rightarrow> ingestion_result \<Rightarrow> registry \<Rightarrow> registry" where
  "remember_feed dx source_id r rg =
     (case r_document_validators r of
        None \<Rightarrow> rg
      | Some v \<Rightarrow>
          if r_error_count r > 0 then rg
          else fst (update_source_feed_cache dx source_id (v_etag v) (v_last_modified v) (r_document_inputs_digest r) rg))"

record 's job_run =
  jr_registry :: registry
  jr_store :: 's
  jr_index :: document_index
  jr_stats :: job_stats

definition count_source_error :: "'s job_run \<Rightarrow> 's job_run" where
  "count_source_error jr = jr\<lparr>jr_stats := (jr_stats jr)\<lparr>error_count := error_count (jr_stats jr) + 1\<rparr>\<rparr>"

definition index_source ::
  "('s, 'i) job_ext \<Rightarrow> string \<Rightarrow> deletion_policy \<Rightarrow> bool \<Rightarrow> embedder \<Rightarrow> fetcher_pair \<Rightarrow> source_row \<Rightarrow> 's job_run \<Rightarrow> 's job_run" where
  "index_source je store_id deletion refetch embedder fetchers row jr =
     (let source = source_row_to_source (je_json je) row
      in case from_preset (src_preset source) of
           Inl e \<Rightarrow> count_source_error jr
         | Inr chunker \<Rightarrow>
             (case run_source_ingestion (source_env je store_id deletion refetch embedder fetchers chunker row)
                     (build_ingestor_for_spec (je_ingest je row) (src_spec source) fetchers) (jr_store jr) (jr_index jr) of
                (st, Inl e) \<Rightarrow> count_source_error (jr\<lparr>jr_store := pc_store st, jr_index := pc_index st\<rparr>)
              | (st, Inr r) \<Rightarrow>
                  jr\<lparr>jr_registry := remember_feed (je_db je) (sr_id row) r (jr_registry jr), jr_store := pc_store st,
                     jr_index := pc_index st, jr_stats := add_run_result r (jr_stats jr)\<rparr>))"

definition run_job ::
  "('s, 'i) job_ext \<Rightarrow> store_row \<Rightarrow> job_scope \<Rightarrow> deletion_policy \<Rightarrow> bool \<Rightarrow> embedder option \<Rightarrow> fetcher_pair option \<Rightarrow>
   registry \<times> 's \<Rightarrow> (registry \<times> 's) \<times> (error + job_stats \<times> embedder option)" where
  "run_job je store scope deletion refetch embedder fetchers w =
     run_then (w, resolve_job_sources (je_db je) (fst w) (st_id store) scope) (\<lambda>sources w.
       if sources = [] then (w, Inr (default_stats, embedder))
       else
         run_then ((refresh_policy je store (fst w), snd w),
                   case embedder of Some e \<Rightarrow> Inr e | None \<Rightarrow> je_create_embedder je) (\<lambda>embedder w.
         run_then (w, je_build_chain je) (\<lambda>_ w.
         run_then (w, and_then (je_open je (st_id store)) (\<lambda>_. je_list je (snd w))) (\<lambda>existing w.
         run_then (w, case fetchers of Some pair \<Rightarrow> Inr pair | None \<Rightarrow> je_new_pair je) (\<lambda>pair w.
           let jr = fold (index_source je (st_id store) deletion refetch embedder pair) sources
                      \<lparr>jr_registry = fst w, jr_store = snd w, jr_index = index_from_records existing,
                       jr_stats = default_stats\<lparr>sources_count := word_of_nat (length sources)\<rparr>\<rparr>
           in ((jr_registry jr, jr_store jr), Inr (jr_stats jr, Some embedder)))))))"

section \<open>The daemon's jobs\<close>

record ('k, 'h) app_caches =
  ca_embedder :: "('k \<times> embedder) option"
  ca_fetchers :: "('h \<times> fetcher_pair) option"

text \<open>
  The caches are asked only when there is something to index. \<open>key\<close> is the embedding policy with the
  provider and HTTP settings, \<open>http\<close> the HTTP settings.
\<close>

definition run_scoped_job ::
  "('s, 'i) job_ext \<Rightarrow> 'policy \<Rightarrow> 'providers \<Rightarrow> 'http \<Rightarrow> store_row \<Rightarrow> job_scope \<Rightarrow> deletion_policy \<Rightarrow> bool \<Rightarrow>
   ('policy \<times> 'providers \<times> 'http, 'http) app_caches \<Rightarrow> registry \<times> 's \<Rightarrow>
   ('policy \<times> 'providers \<times> 'http, 'http) app_caches \<times> (registry \<times> 's) \<times> (error + job_stats)" where
  "run_scoped_job je policy providers http store scope deletion refetch caches w =
     (case resolve_job_sources (je_db je) (fst w) (st_id store) scope of
        Inl e \<Rightarrow> (caches, w, Inl e)
      | Inr [] \<Rightarrow> (caches, apsnd (map_sum id fst) (run_job je store scope deletion refetch None None w))
      | Inr (_ # _) \<Rightarrow>
          (case get_or_build_embedder policy providers http (\<lambda>_. je_create_embedder je) (ca_embedder caches) of
             (ec, Inl e) \<Rightarrow> (caches\<lparr>ca_embedder := ec\<rparr>, w, Inl e)
           | (ec, Inr embedder) \<Rightarrow>
               (case get_or_build_fetchers http (\<lambda>_. je_new_pair je) (ca_fetchers caches) of
                  (fc, Inl e) \<Rightarrow> (caches\<lparr>ca_embedder := ec, ca_fetchers := fc\<rparr>, w, Inl e)
                | (fc, Inr pair) \<Rightarrow>
                    (caches\<lparr>ca_embedder := ec, ca_fetchers := fc\<rparr>,
                     apsnd (map_sum id fst) (run_job je store scope deletion refetch (Some embedder) (Some pair) w)))))"

definition parse_deletion_policy :: "string option \<Rightarrow> error + deletion_policy" where
  "parse_deletion_policy raw =
     (case raw of
        None \<Rightarrow> Inr Retain
      | Some s \<Rightarrow>
          if s = ''retain'' then Inr Retain
          else if s = ''delete'' then Inr Prune
          else Inl (InvalidRequest (''invalid deletion_policy '' @ quoted s @ ''; expected '' @ quoted ''retain'' @ '' or '' @ quoted ''delete'')))"

text \<open>What a request for a job submits: the store's row as it is now, the scope and the policy.\<close>

definition job_request ::
  "'p app_env \<Rightarrow> string \<Rightarrow> string option \<Rightarrow> string option \<Rightarrow> app \<Rightarrow> error + store_row \<times> job_scope \<times> deletion_policy" where
  "job_request ax store_name source_id deletion_policy app =
     and_then (parse_deletion_policy deletion_policy) (\<lambda>deletion.
     and_then (named_store ax store_name app) (\<lambda>row.
       Inr (row, case source_id of Some i \<Rightarrow> ScopeSource i | None \<Rightarrow> ScopeStore, deletion)))"

end
