(* ===== verification/JobSafety.thy ===== *)
theory JobSafety
  imports JobExec IngestorSafety
begin

text \<open>
  What a job does to documents, to the registry, and with which client it fetches what.
\<close>

section \<open>Documents\<close>

lemma fold_invariant:
  assumes "\<And>x s. x \<in> set xs \<Longrightarrow> P s \<Longrightarrow> P (f x s)" "P s"
  shows "P (fold f xs s)"
  using assms by (induction xs arbitrary: s) auto

text \<open>What the runs of a job may rely on, whatever preset a source has.\<close>

definition proper_source ::
  "('s, 'i) job_ext \<Rightarrow> string \<Rightarrow> deletion_policy \<Rightarrow> bool \<Rightarrow> embedder \<Rightarrow> fetcher_pair \<Rightarrow> (string \<Rightarrow> string) \<Rightarrow> (string \<Rightarrow> string) \<Rightarrow>
   source_row \<Rightarrow> bool" where
  "proper_source je store_id deletion refetch embedder fetchers chunk_owner doc_uri row \<longleftrightarrow>
     (\<forall>chunker json. let env = source_env je store_id deletion refetch embedder fetchers chunker row;
        ingestor = build_ingestor_for_spec (je_ingest je row) (src_spec (source_row_to_source (je_json je) row)) fetchers
      in proper_prog env chunk_owner doc_uri (in_ingest ingestor (ingest_source_of env ingestor json))) \<and>
     (\<forall>xs. set (re_hash_order (je_env je row) xs) \<subseteq> set xs)"

lemma index_source_keeps:
  assumes "document_store (re_ops (je_env je row)) ok_store docs chunk_owner doc_uri"
    "proper_source je store_id Retain refetch embedder fetchers chunk_owner doc_uri row"
    "coherent ok_store docs doc_uri (jr_store jr) (jr_index jr)"
  shows "coherent ok_store docs doc_uri (jr_store (index_source je store_id Retain refetch embedder fetchers row jr))
      (jr_index (index_source je store_id Retain refetch embedder fetchers row jr)) \<and>
    set (index_uris (jr_index jr)) \<subseteq> set (index_uris (jr_index (index_source je store_id Retain refetch embedder fetchers row jr)))"
proof (cases "from_preset (src_preset (source_row_to_source (je_json je) row))")
  case (Inl e)
  then show ?thesis using assms(3) by (simp add: index_source_def count_source_error_def Let_def)
next
  case (Inr chunker)
  define env where "env = source_env je store_id Retain refetch embedder fetchers chunker row"
  define ingestor where "ingestor = build_ingestor_for_spec (je_ingest je row) (src_spec (source_row_to_source (je_json je) row)) fetchers"
  obtain st r where run: "run_source_ingestion env ingestor (jr_store jr) (jr_index jr) = (st, r)" by (metis prod.exhaust)
  have env: "re_ops env = re_ops (je_env je row)" "re_deletion env = Retain" "re_hash_order env = re_hash_order (je_env je row)"
    by (simp_all add: env_def source_env_def Let_def)
  have "proper_prog env chunk_owner doc_uri (in_ingest ingestor (ingest_source_of env ingestor json))"
    "set (re_hash_order env xs) \<subseteq> set xs" for json xs
    using assms(2) env(3) unfolding proper_source_def Let_def env_def ingestor_def by auto
  then have "coherent ok_store docs doc_uri (pc_store st) (pc_index st) \<and> set (index_uris (jr_index jr)) \<subseteq> known st"
    using document_store.run_sheds [OF assms(1) env(1) assms(3) _ _ run] env(2) by (auto simp: removable_def good_def)
  with Inr run show ?thesis
    unfolding index_source_def Let_def by (cases r) (simp_all add: env_def ingestor_def count_source_error_def known_def)
qed

lemma index_from_records_uris: "set (index_uris (index_from_records records)) = dr_uri ` set records"
proof -
  have "set (map fst (fold (\<lambda>r idx. AList.update (dr_uri r) r idx) records idx)) = dr_uri ` set records \<union> set (map fst idx)" for idx
    by (induction records arbitrary: idx) (auto simp: update_conv' simp flip: dom_map_of_conv_image_fst)
  then show ?thesis by (simp add: index_from_records_def index_uris_def)
qed

lemma coherent_has:
  "coherent ok_store docs doc_uri s idx \<Longrightarrow> uri \<in> set (index_uris idx) \<Longrightarrow> \<exists>rid \<in> docs s. doc_uri rid = uri"
  unfolding coherent_iff by (metis index_get_def index_uris_def map_of_eq_None_iff option.exhaust set_map)

lemma resolved_sources:
  assumes "resolve_job_sources dx rg store_id scope = Inr sources"
  shows "set sources \<subseteq> set (rg_sources rg)"
proof -
  obtain all_sources where l: "list_sources dx rg store_id = Inr all_sources"
    using assms by (auto simp: resolve_job_sources_def and_then_eq_Inr)
  then have "set all_sources \<subseteq> set (rg_sources rg)" by (auto simp: list_sources_def dest: select_Inr)
  with l assms show ?thesis
    by (auto simp: resolve_job_sources_def split: job_scope.splits option.splits dest!: find_SomeD)
qed

lemma run_job_sources:
  assumes "run_job je store scope deletion refetch embedder fetchers (rg, s) = ((rg', s'), r)"
  obtains (stopped) "s' = s" "rg' = rg \<or> rg' = refresh_policy je store rg"
  | (ran) sources emb pair existing jr where "resolve_job_sources (je_db je) rg (st_id store) scope = Inr sources"
      "je_list je s = Inr existing" "case fetchers of Some p \<Rightarrow> pair = p | None \<Rightarrow> je_new_pair je = Inr pair"
      "jr = fold (index_source je (st_id store) deletion refetch emb pair) sources
         \<lparr>jr_registry = refresh_policy je store rg, jr_store = s, jr_index = index_from_records existing,
          jr_stats = default_stats\<lparr>sources_count := word_of_nat (length sources)\<rparr>\<rparr>"
      "rg' = jr_registry jr" "s' = jr_store jr"
proof -
  define emb where "emb = (case embedder of Some e \<Rightarrow> Inr e | None \<Rightarrow> je_create_embedder je)"
  define pair where "pair = (case fetchers of Some p \<Rightarrow> Inr p | None \<Rightarrow> je_new_pair je)"
  note code = assms [unfolded run_job_def, folded emb_def pair_def, unfolded run_then_def]
  show thesis
  proof (cases "resolve_job_sources (je_db je) rg (st_id store) scope")
    case (Inl e)
    with code show thesis by (intro stopped) simp_all
  next
    case resolved: (Inr sources)
    show thesis
    proof (cases "(\<exists>e x existing p. emb = Inr e \<and> je_build_chain je = Inr x \<and>
        and_then (je_open je (st_id store)) (\<lambda>_. je_list je s) = Inr existing \<and> pair = Inr p) \<and> sources \<noteq> []")
      case True
      then obtain e x existing p where all: "sources \<noteq> []" "emb = Inr e" "je_build_chain je = Inr x"
        "and_then (je_open je (st_id store)) (\<lambda>_. je_list je s) = Inr existing" "pair = Inr p" by blast
      define jr where "jr = fold (index_source je (st_id store) deletion refetch e p) sources
         \<lparr>jr_registry = refresh_policy je store rg, jr_store = s, jr_index = index_from_records existing,
          jr_stats = default_stats\<lparr>sources_count := word_of_nat (length sources)\<rparr>\<rparr>"
      have "((jr_registry jr, jr_store jr), Inr (jr_stats jr, Some e)) = ((rg', s'), r)"
        using code resolved all by (simp add: Let_def jr_def)
      then have "rg' = jr_registry jr" "s' = jr_store jr" by auto
      moreover have "je_list je s = Inr existing" using all(4) by (auto simp: and_then_eq_Inr)
      moreover have "case fetchers of Some q \<Rightarrow> p = q | None \<Rightarrow> je_new_pair je = Inr p"
        using all(5) by (auto simp: pair_def split: option.splits)
      ultimately show thesis using resolved jr_def by (intro ran)
    next
      case False
      with code resolved show thesis by (intro stopped) (auto split: sum.splits if_splits)
    qed
  qed
qed

text \<open>
  C8: A daemon job that retains loses nothing, over all its sources: whatever the sources, the network and
  the database do, and wherever the job stops, every document the store held when the job opened it is
  followed by one at the same URI that the store still holds. (The hypotheses are those of a single run,
  for the runs the job makes.)
\<close>

theorem job_keeps_documents:
  fixes s :: 's
  assumes "\<And>row. row \<in> set (rg_sources rg) \<Longrightarrow> document_store (re_ops (je_env je row)) ok_store docs chunk_owner doc_uri"
    "\<And>row emb pair. row \<in> set (rg_sources rg) \<Longrightarrow> fetchers = Some pair \<or> je_new_pair je = Inr pair \<Longrightarrow>
       proper_source je (st_id store) Retain refetch emb pair chunk_owner doc_uri row"
    "je_list je s = Inr existing" "coherent ok_store docs doc_uri s (index_from_records existing)"
    "run_job je store scope Retain refetch embedder fetchers (rg, s) = ((rg', s'), r)" "rec \<in> set existing"
  shows "\<exists>rid \<in> docs s'. doc_uri rid = dr_uri rec"
proof -
  have known: "dr_uri rec \<in> set (index_uris (index_from_records existing))"
    using assms(6) by (simp add: index_from_records_uris)
  from assms(5) show ?thesis
  proof (cases rule: run_job_sources)
    case stopped
    with coherent_has [OF assms(4) known] show ?thesis by simp
  next
    case (ran sources emb pair existing' jr)
    have "coherent ok_store docs doc_uri (jr_store jr) (jr_index jr) \<and> dr_uri rec \<in> set (index_uris (jr_index jr))"
      unfolding ran(4)
    proof (rule fold_invariant)
      fix row and jr :: "'s job_run"
      assume row: "row \<in> set sources"
        and jr: "coherent ok_store docs doc_uri (jr_store jr) (jr_index jr) \<and> dr_uri rec \<in> set (index_uris (jr_index jr))"
      have "row \<in> set (rg_sources rg)" using resolved_sources [OF ran(1)] row by auto
      moreover have "fetchers = Some pair \<or> je_new_pair je = Inr pair" using ran(3) by (cases fetchers) auto
      ultimately show "coherent ok_store docs doc_uri (jr_store (index_source je (st_id store) Retain refetch emb pair row jr))
            (jr_index (index_source je (st_id store) Retain refetch emb pair row jr)) \<and>
          dr_uri rec \<in> set (index_uris (jr_index (index_source je (st_id store) Retain refetch emb pair row jr)))"
        using index_source_keeps [OF assms(1) assms(2) conjunct1 [OF jr]] jr by blast
    qed (use assms(3,4) ran(2) known in simp)
    then show ?thesis using coherent_has ran(6) by metis
  qed
qed

section \<open>Which client fetches what\<close>

text \<open>Beyond the feed document itself no part of the feed ingestor looks at the feed's own fetcher.\<close>

lemma feed_fetch_unused [simp]:
  "synthetic_entry_uri (xx\<lparr>xx_feed_fetch := f\<rparr>) = synthetic_entry_uri xx"
  "route_text (xx\<lparr>xx_feed_fetch := f\<rparr>) = route_text xx"
  "byline_parts (xx\<lparr>xx_feed_fetch := f\<rparr>) = byline_parts xx"
  "entry_enrichment (xx\<lparr>xx_feed_fetch := f\<rparr>) = entry_enrichment xx"
  "process_due_recheck_entry (xx\<lparr>xx_feed_fetch := f\<rparr>) = process_due_recheck_entry xx"
  by (intro ext; simp add: synthetic_entry_uri_def route_text_def byline_parts_def entry_enrichment_def process_due_recheck_entry_def Let_def cong: if_cong option.case_cong)+

lemma feed_fetch_unused_content [simp]:
  "routed (xx\<lparr>xx_feed_fetch := f\<rparr>) = routed xx"
  "entry_routed_content (xx\<lparr>xx_feed_fetch := f\<rparr>) = entry_routed_content xx"
  "embedded_content_for_entry (xx\<lparr>xx_feed_fetch := f\<rparr>) = embedded_content_for_entry xx"
  by (intro ext; simp add: routed_def entry_routed_content_def embedded_content_for_entry_def Let_def cong: if_cong option.case_cong)+

lemma feed_fetch_unused_entries [simp]:
  "resolve_entry_target (xx\<lparr>xx_feed_fetch := f\<rparr>) = resolve_entry_target xx"
  "entry_markdown (xx\<lparr>xx_feed_fetch := f\<rparr>) = entry_markdown xx"
  "embedded_fallback (xx\<lparr>xx_feed_fetch := f\<rparr>) = embedded_fallback xx"
  by (intro ext; simp add: resolve_entry_target_def entry_markdown_def embedded_fallback_def Let_def cong: if_cong option.case_cong)+

lemma feed_fetch_unused_document [simp]:
  "select_entries (xx\<lparr>xx_feed_fetch := f\<rparr>) = select_entries xx"
  "build_single_doc_markdown (xx\<lparr>xx_feed_fetch := f\<rparr>) = build_single_doc_markdown xx"
  "process_discovery_entry (xx\<lparr>xx_feed_fetch := f\<rparr>) = process_discovery_entry xx"
  by (intro ext; simp add: select_entries_def build_single_doc_markdown_def process_discovery_entry_def Let_def cong: if_cong option.case_cong)+

lemma feed_fetch_unused_read [simp]:
  "single_document_resource (xx\<lparr>xx_feed_fetch := f\<rparr>) = single_document_resource xx"
  "on_feed_not_modified (xx\<lparr>xx_feed_fetch := f\<rparr>) = on_feed_not_modified xx"
  by (intro ext; simp add: single_document_resource_def on_feed_not_modified_def Let_def cong: if_cong option.case_cong)+

lemma feed_document_unused [simp]: "ingest_feed_document (xx\<lparr>xx_feed_fetch := f\<rparr>) = ingest_feed_document xx"
  by (intro ext) (simp add: ingest_feed_document_def Let_def cong: if_cong sum.case_cong)

lemma feed_ingest_own_url:
  assumes "isrc_config source = spec_to_json (FeedSpec url m b i)" "\<And>v. f url v = f' url v"
  shows "feed_ingest (xx\<lparr>xx_feed_fetch := f\<rparr>) source = feed_ingest (xx\<lparr>xx_feed_fetch := f'\<rparr>) source"
  using assms by (simp add: feed_ingest_def Let_def cong: if_cong option.case_cong sum.case_cong fetch_result.case_cong)

lemma url_ingest_own_url:
  assumes "isrc_config source = spec_to_json (UrlSpec url i)" "\<And>v. f url v = f' url v"
  shows "url_ingest (ux\<lparr>ux_fetch := f\<rparr>) source = url_ingest (ux\<lparr>ux_fetch := f'\<rparr>) source"
proof -
  have "ingest_url (ux\<lparr>ux_fetch := f\<rparr>) source (url, uri) r = ingest_url (ux\<lparr>ux_fetch := f'\<rparr>) source (url, uri) r" for uri r
    using assms(2) by (simp add: ingest_url_def process_url_def)
  moreover have "for_each body [] = Finish" for body :: "string \<times> string \<Rightarrow> ingest_result \<Rightarrow> ingest_result ingest_prog"
    by (intro ext) simp
  moreover have "configured_urls (isrc_config source) = [url]" using assms(1) by (rule url_config)
  ultimately show ?thesis by (simp add: url_ingest_def Let_def split: option.split)
qed

lemma built_ingestor:
  assumes "isrc_config source = spec_to_json spec"
    "\<And>url i v. spec = UrlSpec url i \<Longrightarrow> u url v = u' url v" "\<And>url m b i v. spec = FeedSpec url m b i \<Longrightarrow> u url v = u' url v"
  shows "in_ingest (build_ingestor_for_spec gx spec (u, p)) source = in_ingest (build_ingestor_for_spec gx spec (u', p)) source"
proof (cases spec)
  case (UrlSpec url i)
  with assms(1,2) show ?thesis
    using url_ingest_own_url [of source url i u u' "gx_url gx"] by (simp add: build_ingestor_for_spec_def url_ingestor_def)
next
  case (FeedSpec url m b i)
  have "in_ingest (build_ingestor_for_spec gx spec (w, p)) = feed_ingest ((gx_feed gx)\<lparr>xx_entry_fetch := p\<rparr>\<lparr>xx_feed_fetch := w\<rparr>)" for w
  proof -
    have commute: "(gx_feed gx)\<lparr>xx_entry_fetch := p, xx_feed_fetch := w\<rparr> = (gx_feed gx)\<lparr>xx_feed_fetch := w, xx_entry_fetch := p\<rparr>"
      by (cases "gx_feed gx") simp
    show ?thesis unfolding commute using FeedSpec by (simp add: build_ingestor_for_spec_def feed_ingestor_def)
  qed
  then show ?thesis
    by (simp only:) (rule feed_ingest_own_url [where f = u and f' = u', OF assms(1) [unfolded FeedSpec] assms(3) [OF FeedSpec]])
qed (simp add: build_ingestor_for_spec_def)

lemma index_source_client:
  assumes "\<And>spec. re_spec_json (je_env je row) spec = Inr (spec_to_json spec)"
    "\<And>v. u (or_empty (sr_url row)) v = u' (or_empty (sr_url row)) v"
  shows "index_source je store_id deletion refetch emb (u, p) row = index_source je store_id deletion refetch emb (u', p) row"
proof -
  define spec where "spec = src_spec (source_row_to_source (je_json je) row)"
  have url: "spec = UrlSpec url i \<Longrightarrow> url = or_empty (sr_url row)" "spec = FeedSpec url m b i \<Longrightarrow> url = or_empty (sr_url row)" for url i m b
    by (auto simp: spec_def source_row_to_source_def row_specs Let_def split: source_kind.splits)
  have env: "source_env je store_id deletion refetch emb (u, p) = source_env je store_id deletion refetch emb (u', p)"
    by (intro ext) (simp add: source_env_def)
  have runs: "run_source_ingestion env (build_ingestor_for_spec gx spec (u, p)) s idx =
      run_source_ingestion env (build_ingestor_for_spec gx spec (u', p)) s idx"
    if "env = source_env je store_id deletion refetch emb (u', p) chunker row" for env chunker gx s idx
  proof -
    let ?i = "\<lambda>u. ingest_source_of env (build_ingestor_for_spec gx spec (u, p)) (spec_to_json spec)"
    have e: "re_spec_json env (src_spec (re_source env)) = Inr (spec_to_json spec)"
      using assms(1) by (simp add: that source_env_def Let_def spec_def)
    have "in_kind (build_ingestor_for_spec gx spec (u, p)) = in_kind (build_ingestor_for_spec gx spec (u', p))"
      by (cases spec) (simp_all add: build_ingestor_for_spec_def url_ingestor_def feed_ingestor_def)
    then have "?i u = ?i u'" by (simp add: ingest_source_of_def)
    moreover have "in_ingest (build_ingestor_for_spec gx spec (u, p)) (?i u') = in_ingest (build_ingestor_for_spec gx spec (u', p)) (?i u')"
      using url assms(2) by (intro built_ingestor) (auto simp: ingest_source_of_def)
    ultimately show ?thesis by (simp add: run_source_ingestion_def e)
  qed
  show ?thesis unfolding index_source_def env spec_def [symmetric] Let_def by (simp add: runs [OF refl] cong: sum.case_cong)
qed

text \<open>
  C7: What a feed or a page contains decides nothing that the unrestricted client fetches. A job does the
  same with any two unrestricted clients that answer alike at the URLs the operator gave its sources;
  everything else (the links of feed entries, revisits, liveness probes) goes to the client that
  connects to public addresses only. (A source's spec is printed as serde prints it.)
\<close>

theorem unrestricted_client_scope:
  assumes "\<And>row spec. row \<in> set (rg_sources rg) \<Longrightarrow> re_spec_json (je_env je row) spec = Inr (spec_to_json spec)"
    "\<And>row v. row \<in> set (rg_sources rg) \<Longrightarrow> u (or_empty (sr_url row)) v = u' (or_empty (sr_url row)) v"
  shows "run_job je store scope deletion refetch embedder (Some (u, p)) (rg, s) =
    run_job je store scope deletion refetch embedder (Some (u', p)) (rg, s)"
proof -
  have "fold (index_source je (st_id store) deletion refetch emb (u, p)) sources jr =
      fold (index_source je (st_id store) deletion refetch emb (u', p)) sources jr"
    if "resolve_job_sources (je_db je) rg (st_id store) scope = Inr sources" for emb sources jr
    using resolved_sources [OF that] assms by (intro fold_cong index_source_client) auto
  then show ?thesis
    by (auto simp: run_job_def run_then_def Let_def split: sum.split)
qed

section \<open>What is remembered of a feed\<close>

text \<open>A row that a run of the job without errors has taught the validators its feed answered with.\<close>

definition learned :: "('s, 'i) job_ext \<Rightarrow> string \<Rightarrow> deletion_policy \<Rightarrow> bool \<Rightarrow> source_row \<Rightarrow> source_row \<Rightarrow> bool" where
  "learned je store_id deletion refetch row row' \<longleftrightarrow>
     (\<exists>emb pair chunker s idx st r v.
        run_source_ingestion (source_env je store_id deletion refetch emb pair chunker row)
          (build_ingestor_for_spec (je_ingest je row) (src_spec (source_row_to_source (je_json je) row)) pair) s idx = (st, Inr r) \<and>
        r_error_count r = 0 \<and> r_document_validators r = Some v \<and>
        row' = row\<lparr>sr_feed_etag := v_etag v, sr_feed_last_modified := v_last_modified v,
                   sr_feed_inputs_digest := r_document_inputs_digest r\<rparr>)"

definition taught :: "('s, 'i) job_ext \<Rightarrow> string \<Rightarrow> deletion_policy \<Rightarrow> bool \<Rightarrow> registry \<Rightarrow> registry \<Rightarrow> bool" where
  "taught je store_id deletion refetch rg rg' \<longleftrightarrow> tables_ok rg' \<and> map sr_id (rg_sources rg') = map sr_id (rg_sources rg) \<and>
     (\<forall>row' \<in> set (rg_sources rg'). \<exists>row \<in> set (rg_sources rg). row' = row \<or> learned je store_id deletion refetch row row')"

lemma remember_feed_cases:
  assumes "tables_ok rg"
  obtains "remember_feed dx i r rg = rg"
  | v where "r_error_count r = 0" "r_document_validators r = Some v" "tables_ok (remember_feed dx i r rg)"
    "rg_sources (remember_feed dx i r rg) = map (\<lambda>row. if sr_id row = i
       then row\<lparr>sr_feed_etag := v_etag v, sr_feed_last_modified := v_last_modified v, sr_feed_inputs_digest := r_document_inputs_digest r\<rparr>
       else row) (rg_sources rg)"
proof (cases "r_document_validators r")
  case (Some v)
  define rg' where "rg' = fst (update_feed_cache_sql i (v_etag v) (v_last_modified v) (r_document_inputs_digest r) rg)"
  have "fst (update_source_feed_cache dx i (v_etag v) (v_last_modified v) (r_document_inputs_digest r) rg) \<in> {rg, rg'}"
    by (auto simp: update_source_feed_cache_def write_with_def perform_def rg'_def split: option.splits prod.splits)
  then consider (same) "remember_feed dx i r rg = rg" | (new) "r_error_count r = 0" "remember_feed dx i r rg = rg'"
    using Some by (cases "r_error_count r > 0") (auto simp: remember_feed_def word_gt_0)
  then show thesis
  proof cases
    case new
    have ok: "tables_ok rg'" unfolding rg'_def by (rule update_feed_cache_ok [OF assms])
    show thesis
    proof (rule that(2) [OF new(1) Some])
      show "tables_ok (remember_feed dx i r rg)" using ok new(2) by simp
    qed (simp add: new(2) rg'_def update_feed_cache_sql_def)
  qed (rule that(1))
qed (use that(1) in \<open>simp add: remember_feed_def\<close>)

lemma learned_id: "learned je store_id deletion refetch row row' \<Longrightarrow> sr_id row' = sr_id row"
  by (auto simp: learned_def)

lemma learned_again:
  "learned je store_id deletion refetch row row' \<Longrightarrow>
     row'\<lparr>sr_feed_etag := e, sr_feed_last_modified := l, sr_feed_inputs_digest := d\<rparr> =
     row\<lparr>sr_feed_etag := e, sr_feed_last_modified := l, sr_feed_inputs_digest := d\<rparr>"
  by (auto simp: learned_def)

lemma index_source_taught:
  assumes "tables_ok rg" "row \<in> set (rg_sources rg)" "taught je store_id deletion refetch rg (jr_registry jr)"
  shows "taught je store_id deletion refetch rg (jr_registry (index_source je store_id deletion refetch emb pair row jr))"
proof (cases "from_preset (src_preset (source_row_to_source (je_json je) row))")
  case (Inl e)
  then show ?thesis using assms(3) by (simp add: index_source_def count_source_error_def Let_def)
next
  case (Inr chunker)
  obtain st res where run: "run_source_ingestion (source_env je store_id deletion refetch emb pair chunker row)
      (build_ingestor_for_spec (je_ingest je row) (src_spec (source_row_to_source (je_json je) row)) pair) (jr_store jr) (jr_index jr) = (st, res)"
    by (metis prod.exhaust)
  show ?thesis
  proof (cases res)
    case (Inl e)
    then show ?thesis using assms(3) Inr run \<open>from_preset _ = Inr chunker\<close> by (simp add: index_source_def count_source_error_def Let_def)
  next
    case result: (Inr r)
    have reg: "jr_registry (index_source je store_id deletion refetch emb pair row jr) = remember_feed (je_db je) (sr_id row) r (jr_registry jr)"
      using Inr run result by (simp add: index_source_def Let_def)
    have "tables_ok (jr_registry jr)" using assms(3) by (simp add: taught_def)
    then show ?thesis
    proof (cases rule: remember_feed_cases [of "jr_registry jr" "je_db je" "sr_id row" r])
      case 1
      then show ?thesis using assms(3) reg by simp
    next
      case (2 v)
      let ?learn = "\<lambda>old. old\<lparr>sr_feed_etag := v_etag v, sr_feed_last_modified := v_last_modified v,
        sr_feed_inputs_digest := r_document_inputs_digest r\<rparr>"
      have "\<exists>old \<in> set (rg_sources rg). new = old \<or> learned je store_id deletion refetch old new"
        if new: "new \<in> set (rg_sources (remember_feed (je_db je) (sr_id row) r (jr_registry jr)))" for new
      proof -
        from new obtain now where now: "now \<in> set (rg_sources (jr_registry jr))" "new = (if sr_id now = sr_id row then ?learn now else now)"
          unfolding 2(4) by auto
        then obtain old where old: "old \<in> set (rg_sources rg)" "now = old \<or> learned je store_id deletion refetch old now"
          using assms(3) unfolding taught_def by blast
        show ?thesis
        proof (cases "sr_id now = sr_id row")
          case True
          then have "old = row" using old learned_id distinct_key [OF tables_okD(3) [OF assms(1)] old(1) assms(2)] by metis
          moreover have "new = ?learn old" using now(2) True old(2) learned_again by auto
          ultimately show ?thesis using run result 2(1,2) assms(2) unfolding learned_def by blast
        qed (use now old in auto)
      qed
      moreover have "map sr_id (rg_sources (remember_feed (je_db je) (sr_id row) r (jr_registry jr))) = map sr_id (rg_sources rg)"
        using assms(3) unfolding 2(4) taught_def by (auto simp: comp_def if_distrib cong: if_cong)
      ultimately show ?thesis using 2(3) unfolding reg taught_def by blast
    qed
  qed
qed

lemma refresh_policy_taught:
  assumes "tables_ok rg"
  shows "taught je store_id deletion refetch rg (refresh_policy je store rg)"
proof -
  define row where "row = store\<lparr>st_policy_version := je_policy_version je,
    st_indexing_policy := (case je_policy_json je of Some s \<Rightarrow> s | None \<Rightarrow> st_indexing_policy store)\<rparr>"
  obtain rg' res where u: "upsert_store (je_db je) row rg = (rg', res)" by (metis prod.exhaust)
  have "tables_ok rg' \<and> rg_sources rg' = rg_sources rg"
    using write_with_cases [OF u [unfolded upsert_store_def]] upsert_store_ok(1) [OF assms] assms by auto
  with u assms show ?thesis by (auto simp: taught_def refresh_policy_def row_def)
qed


section \<open>Examples\<close>

text \<open>A store with one URL source; the policy has changed since it was indexed, and its page is gone.\<close>

definition demo_gone :: url_fetcher where
  "demo_gone = (\<lambda>url v. Inr FetchGone)"

definition demo_job :: "(fake_store, nat) job_ext" where
  "demo_job = \<lparr>je_db = ax_db AppSafety.demo_env, je_json = demo_json, je_policy_version = ''v2'', je_policy_json = Some ''{}'',
     je_create_embedder = Inr (\<lambda>docs. Inr []), je_build_chain = Inr (), je_open = (\<lambda>_. Inr ()),
     je_list = (\<lambda>_. Inr [demo_doc ''a'', demo_doc ''b'']), je_new_pair = Inl (InvalidConfig []),
     je_ingest = (\<lambda>_. \<lparr>gx_file = demo_file_ext None, gx_url = demo_url_ext (Inr FetchGone), gx_feed = demo_feed_ext\<rparr>),
     je_env = (\<lambda>_. RunRemoval.demo_env Retain)\<rparr>"

definition demo_registry :: registry where
  "demo_registry = \<lparr>rg_stores = [demo_store_row], rg_sources = [demo_source_row], rg_documents = []\<rparr>"

lemma demo_job_sels [simp]:
  "je_db demo_job = ax_db AppSafety.demo_env" "je_json demo_job = demo_json" "je_env demo_job row = RunRemoval.demo_env Retain"
  "je_list demo_job s = Inr [demo_doc ''a'', demo_doc ''b'']" "je_new_pair demo_job = Inl (InvalidConfig [])"
  "rg_sources demo_registry = [demo_source_row]"
  by (simp_all add: demo_job_def demo_registry_def)

lemma demo_registry_ok: "tables_ok demo_registry"
  by (simp add: demo_registry_def tables_ok_def store_rows_ok_def source_rows_ok_def document_rows_ok_def source_check_def)
    (simp add: demo_store_row_def demo_source_row_def)

lemma demo_gone_proper: "proper_source demo_job store_id Retain refetch emb (demo_gone, p) own uri demo_source_row"
proof -
  have "\<exists>i. src_spec (source_row_to_source demo_json demo_source_row) = UrlSpec ''https://a'' i"
    by (simp add: source_row_to_source_def row_specs demo_source_row_def or_empty_def)
  then have "build_ingestor_for_spec (je_ingest demo_job demo_source_row) (src_spec (source_row_to_source demo_json demo_source_row)) (demo_gone, p)
      = url_ingestor (demo_url_ext (Inr FetchGone))"
    by (auto simp: build_ingestor_for_spec_def demo_job_def demo_url_ext_def demo_gone_def)
  moreover have "proper_prog env own uri (url_ingest (demo_url_ext (Inr FetchGone)) source)" for env :: "(fake_store, nat) run_env" and source
  proof -
    have "all_calls (proper_call env own uri) (ingest_url (demo_url_ext (Inr FetchGone)) source lu result)" for lu result
      by (simp add: ingest_url_def process_url_def ask_validators_def demo_url_ext_def split: ingest_reply.split)
    then show ?thesis
      by (auto simp: proper_prog_def url_ingest_def Let_def split: sum.split intro!: all_calls_bind all_calls_for_each)
  qed
  ultimately show ?thesis by (simp add: proper_source_def Let_def url_ingestor_def demo_order)
qed

lemma job_keeps_documents_witness:
  "\<exists>rid \<in> fake_docs (snd (fst (run_job demo_job demo_store_row ScopeStore Retain False None (Some (demo_gone, demo_gone))
       (demo_registry, demo_store)))). ''file:///'' @ rid = ''file:///b''"
proof -
  obtain rg' s' r where run: "run_job demo_job demo_store_row ScopeStore Retain False None (Some (demo_gone, demo_gone))
      (demo_registry, demo_store) = ((rg', s'), r)" by (metis prod.exhaust)
  have contract: "document_store (re_ops (je_env demo_job row)) (fake_inv (drop 1)) fake_docs (drop 1) (\<lambda>d. ''file:///'' @ d)" for row
    using demo_contract by simp
  have proper: "proper_source demo_job (st_id demo_store_row) Retain False emb pair (drop 1) (\<lambda>d. ''file:///'' @ d) row"
    if "row \<in> set (rg_sources demo_registry)" "Some (demo_gone, demo_gone) = Some pair \<or> je_new_pair demo_job = Inr pair" for row emb pair
    using that demo_gone_proper [where p = demo_gone] by (elim disjE) (simp_all del: One_nat_def)
  have "\<exists>rid \<in> fake_docs s'. ''file:///'' @ rid = dr_uri (demo_doc ''b'')"
    by (rule job_keeps_documents [OF contract proper _ demo_coherent [unfolded demo_known_def] run]) simp_all
  then show ?thesis by (simp add: run demo_doc_def)
qed

lemma unrestricted_client_scope_witness:
  "run_job demo_job demo_store_row ScopeStore Retain False None (Some (demo_gone, demo_gone)) (demo_registry, demo_store) =
   run_job demo_job demo_store_row ScopeStore Retain False None
     (Some (\<lambda>url v. if url = ''https://a'' then Inr FetchGone else Inr Blocked, demo_gone)) (demo_registry, demo_store)"
  by (rule unrestricted_client_scope)
    (auto simp: RunRemoval.demo_env_def demo_gone_def demo_source_row_def or_empty_def)


text \<open>
  The copy of the store's row that a request took is written back when the job runs: a store that was made
  private in between is shared again, even by a job that then fails.
\<close>

lemma job_restores_old_visibility:
  fixes app :: app
  defines "shared \<equiv> demo_store_row\<lparr>st_visibility := Shared\<rparr>"
  defines "app \<equiv> \<lparr>ap_registry = demo_registry\<lparr>rg_stores := [shared]\<rparr>, ap_records = []\<rparr>"
  defines "failing \<equiv> demo_job\<lparr>je_build_chain := Inl (InvalidConfig [])\<rparr>"
  shows "\<exists>app' w. job_request AppSafety.demo_env ''docs'' None None app = Inr (shared, ScopeStore, Retain) \<and>
    update_store AppSafety.demo_env ''docs'' (Some ''private'') app = (app', Inr ()) \<and>
    map st_visibility (rg_stores (ap_registry app')) = [Private] \<and>
    run_job failing shared ScopeStore Retain False None None (ap_registry app', demo_store) = (w, Inl (InvalidConfig [])) \<and>
    map st_visibility (rg_stores (fst w)) = [Shared]"
proof -
  have request: "job_request AppSafety.demo_env ''docs'' None None app = Inr (shared, ScopeStore, Retain)"
    by (simp add: job_request_def parse_deletion_policy_def named_store_def get_store_by_name_def AppSafety.demo_env_def ok_or_def
        app_def shared_def demo_registry_def demo_store_row_def)
  have update: "update_store AppSafety.demo_env ''docs'' (Some ''private'') app =
      (\<lparr>ap_registry = demo_registry, ap_records = []\<rparr>, Inr ())"
    by (simp add: update_store_def run_then_def named_store_def get_store_by_name_def AppSafety.demo_env_def ok_or_def parse_visibility_def
        with_registry_def upsert_store_def upsert_store_sql_def write_with_def perform_def replace_row_def
        app_def shared_def demo_registry_def demo_store_row_def)
  have "run_job failing shared ScopeStore Retain False None None (demo_registry, demo_store) =
      ((refresh_policy failing shared demo_registry, demo_store), Inl (InvalidConfig []))"
    by (simp add: run_job_def run_then_def resolve_job_sources_def list_sources_def failing_def shared_def demo_job_def demo_registry_def
        AppSafety.demo_env_def demo_source_row_def demo_store_row_def)
  moreover have "map st_visibility (rg_stores (refresh_policy failing shared demo_registry)) = [Shared]"
    by (simp add: refresh_policy_def failing_def demo_job_def shared_def demo_store_row_def demo_registry_def AppSafety.demo_env_def
        upsert_store_def upsert_store_sql_def write_with_def perform_def replace_row_def)
  moreover have "map st_visibility (rg_stores demo_registry) = [Private]" by (simp add: demo_registry_def demo_store_row_def)
  ultimately show ?thesis using request update by simp
qed

end
