(* ===== verification/Spec2Isabelle.thy ===== *)
theory Spec2Isabelle
  imports QueueDrain Search Chunking SearchFilters MigrateStore Downgrade Vectors RunRemoval UrlRemoval AddressRanges SchedulerSafety Snippet Paging Documents JobSafety
begin

text \<open>
  A verification library for localdb, a local-first hybrid search engine written in Rust.

  The program. A daemon (\<open>server/\<close>) accepts indexing jobs and queries; jobs run one at a time per store
  in a queue (\<open>server/src/job_queue.rs\<close>). Indexing turns a document into blocks, chunks the blocks
  (\<open>core/src/chunker/\<close>), gives every chunk an id made from its content (\<open>core/src/ids.rs\<close>) and writes
  chunks and metadata to a store (\<open>core/src/store.rs\<close>, backed by \<open>store-libsql/\<close>). A query
  (\<open>core/src/search.rs\<close>) searches every store by vector and by words, fuses the two rankings and cites
  the chunks; its filters come from \<open>core/src/search_filters.rs\<close>, its dates from \<open>core/src/dates.rs\<close>. The
  database file is brought up to date and taken back by the migrations of
  \<open>store-libsql/src/migrations/\<close>; its registry of stores, sources and documents
  (\<open>store-libsql/src/registry/\<close>) is behind the daemon's operations on them (\<open>server/src/state.rs\<close>),
  whose listings the command line reads page by page. A scheduler (\<open>server/src/scheduler.rs\<close>) submits a
  job when a URL or feed source is due, and pages are fetched through the client of \<open>fetch/\<close>.

  Conventions. Structs are records, enums datatypes, fallible functions return \<open>error + 'a\<close> (the error
  taxonomy of \<open>core/src/error.rs\<close>), code that may panic \<open>fault + 'a\<close>. A string is its UTF-8 bytes; a
  slice off a character boundary is a panic, a branch of the model. Integers are words where the code
  relies on their width, \<open>usize\<close> counts of things in memory are naturals, \<open>i64\<close> schema versions integers.
  Hash maps are association lists with distinct keys whose order is arbitrary. Asynchronous code is a
  step relation whose steps are the stretches between two \<open>await\<close>s or two lock acquisitions.

  Theories and what they model.
  \<^item> \<open>Prelude\<close>: comparisons and the stable \<open>sort_by\<close>, fallible folds, association lists. \<open>Errors\<close>:
    \<open>core/src/error.rs\<close>. \<open>RString\<close>, \<open>StrOps\<close>: the operations of \<open>str\<close> the code uses.
  \<^item> \<open>IndexJob\<close> (job records of \<open>core/src/types.rs\<close> and \<open>ingestion.rs\<close>), \<open>Retention\<close> (eviction from
    the job registry), \<open>JobQueue\<close> (the operations of the queue), \<open>QueueMachine\<close> (its step relation),
    \<open>QueueInvariants\<close>, \<open>QueueSafety\<close>, \<open>QueueProperties\<close>, \<open>QueueEvents\<close>, \<open>QueueDrain\<close>: mutual
    exclusion per store, the bound on running jobs, the life cycle of a job, cancellation, the terminal
    event every subscriber gets, and that a queue left alone can finish all its work.
  \<^item> \<open>Metadata\<close>, \<open>Dates\<close>, \<open>Ids\<close>, \<open>Block\<close>: metadata and its enrichment, partial dates and their
    windows, content-addressed ids and what they hash, the block data.
  \<^item> \<open>Store\<close>: chunk and document records, metadata filters, and the in-memory store; \<open>Floats\<close> and
    \<open>Search\<close>: reciprocal rank fusion, pooling over stores, the query pipeline and its citations;
    \<open>SearchFilters\<close>: the conversion of request filters, exact to the sub-second.
  \<^item> \<open>Chunker\<close> (configuration, outputs, heading paths), \<open>ChunkCode\<close>, \<open>ChunkProse\<close>, \<open>ChunkTable\<close>,
    \<open>ChunkMessages\<close> (one chunker each), \<open>Chunking\<close> (the dispatch): no text is lost, sizes stay within
    the target, ids are distinct.
  \<^item> \<open>IndexResource\<close> (one resource: preset, chunking, embedding, the records and their write, from
    \<open>core/src/ingestion/pipeline.rs\<close>), \<open>Ingestor\<close> (the interface of \<open>core/src/ingestor.rs\<close>), \<open>Pipeline\<close>
    (the callback of \<open>pipeline/callback.rs\<close>: what a run does with each resource, skip, refresh and
    recheck), \<open>SourceRun\<close> (\<open>run_source_ingestion\<close> with its removal of vanished documents and the liveness
    sweep of \<open>liveness.rs\<close>). \<open>Content\<close>, \<open>FileIngest\<close>, \<open>UrlIngest\<close>, \<open>FeedIngest\<close>: the three ingestors of
    \<open>ingest/\<close> and the directory walk of \<open>enumerate.rs\<close>.
  \<^item> \<open>StoreContract\<close> (what a run needs of its store, and that the in-memory store provides it),
    \<open>RunSafety\<close> (the index and the store agree at every step), \<open>RunRemoval\<close> (which documents a run may
    remove), \<open>RunCounts\<close> (counters and events, the probe budget), \<open>Incremental\<close> (unchanged documents and
    the recheck gate), \<open>FeedWindow\<close> (which entries of a feed are taken), \<open>IngestorSafety\<close> (run and
    ingestor together: an unmounted root, an unreadable file, a blocked page, an aged-out feed entry
    cost nothing).
  \<^item> \<open>Schema\<close>, \<open>Vectors\<close>: the DDL of \<open>store-libsql/src/schema.rs\<close> and the vector literals of
    \<open>vectors.rs\<close>; \<open>Migrations\<close> (chain, bookkeeping table, checksums, verification),
    \<open>MigrationRunner\<close> (transactions, applying, seeding), \<open>MigrateStore\<close> (\<open>db migrate\<close> and the dispatch
    of \<open>LibsqlDb::open\<close>), \<open>Downgrade\<close>: every run moves by whole, recorded migrations, verification
    accepts exactly the complete and unaltered histories, and a downgrade undoes a migration.
  \<^item> \<open>Destination\<close>, \<open>AddressRanges\<close> (the guard of \<open>fetch/src/destination.rs\<close> and the CIDR blocks it
    refuses), \<open>HttpPolicy\<close> (retries and cooldowns of \<open>fetch/src/http/\<close>), \<open>Fetcher\<close>, \<open>FetchSafety\<close> (one
    fetch, what its results mean, its bounds), \<open>UrlRemoval\<close> (fetcher and run together).
  \<^item> \<open>RefreshInterval\<close>, \<open>Sources\<close> (requests for a source, the stored row, and what a run reads back;
    \<open>core/src/source/\<close>), \<open>Scheduler\<close>, \<open>SchedulerSafety\<close> (the scheduler beside the job queue, and that a
    source waits out its interval after every refresh).
  \<^item> \<open>StoreErrors\<close>, \<open>Registry\<close> (the tables with their constraints and cascades), \<open>AppState\<close>,
    \<open>AppSafety\<close> (the operations of the daemon's state, and that registry and scheduler agree),
    \<open>Documents\<close> (one document, within the stores a caller named; \<open>core/src/documents.rs\<close>).
  \<^item> \<open>JobExec\<close>, \<open>JobSafety\<close> (a job over its sources, \<open>server/src/job_exec.rs\<close>): what it does to the
    documents, what it remembers of a feed, and which HTTP client it asks for what.
  \<^item> \<open>Listing\<close>, \<open>Paging\<close>: the pages of the daemon (\<open>server/src/handlers/\<close>,
    \<open>server/src/search_service.rs\<close>) and the walk of \<open>cli/src/daemon_client.rs\<close>: following the cursors gives
    each listing whole. \<open>Snippet\<close>: \<open>core/src/snippet.rs\<close>.

  Interfaces. \<open>comparator\<close> and \<open>strict_comparator\<close> (the contract of \<open>sort_by\<close>, interpreted for \<open>Ord\<close>, for
  the fused ranking, for migration rows, for the recency of feed entries and for the URIs of documents),
  \<open>retention\<close> (what the queue needs of an eviction policy, interpreted for \<open>evict\<close>), \<open>search_leg\<close> (what the query relies on from a store's search, interpreted for
  both searches of the in-memory store), \<open>document_store\<close> (the set of documents behind the writes of a
  run, interpreted for the in-memory store).

  Bounds and recursion. Loops whose progress is not structural have a termination measure
  (\<open>split_overlong_line\<close>: the bytes left; \<open>message_loop\<close>: the turns left; \<open>show_nat\<close>, \<open>chunks\<close>: the value,
  the list; \<open>weight\<close>: the work of the queue in flight). The walk over a listing counts down from the
  10000 pages of the code's own cap, whose end is the code's own error; \<open>follow\<close>, the client of the
  properties on pages, takes a number of pages, and the properties say which number reads the whole
  listing. The attempts of a fetch are a relation whose runs are bounded and exist.

  Parameters. Third-party code is an argument: blake3, serde_json, chrono, humantime, the
  \<open>text-splitter\<close> and \<open>pulldown-cmark\<close> crates, the embedder, the SQL engine (one statement on the
  content of a database), the file system, the HTTP fetcher, \<open>feed_rs\<close>, the format extractors, the glob
  and URL crates, the HTTP client with name resolution and the parsing and printing of addresses and
  HTTP dates, its exponential delays and its token buckets, the exchange between command line and
  daemon, clocks, hash order and id generators. SQLite's texts for its errors, and failures no
  constraint causes, are parameters of the registry. \<open>BEGIN\<close>, \<open>COMMIT\<close> and statements may fail;
  \<open>ROLLBACK\<close> and the bookkeeping statements outside a transaction are taken to succeed. The JSON of
  \<open>down_sql\<close> is the list it encodes. Durations, log lines and progress bars carry no state and are left
  out; the progress events of a migration are kept.

  Simplifications. An ingestor is the tree of the calls it makes on its callback, each followed by what
  it does with the reply; a reply of another kind than the call asks for does not occur. A directory is
  the finite tree below it, as the reads find it. Assertions that are compiled out of a release and
  log lines are left out. In the job queue: a submit future that is dropped between two of its steps, the
  bound of the broadcast channel (a subscriber that lags) and shutdown are not modelled; where a refused
  submit holds a lock through several steps, the machine lets other steps interleave, which only adds
  behaviours. Floating point has an unbounded exponent and one zero; a score that is not a number
  breaks the order of pooled results, which the properties exclude by hypothesis. A target times its
  multiplier in the prose chunker does not overflow. The binary search of \<open>heading_path_at\<close> is the last
  entry at or before the offset, the offsets being distinct and ascending.

  Beside the scheduler the queue may move on its own, the tick's submit call included. A row of the
  registry holds what its columns decode to; rows of equal sort keys are listed in the order they were
  inserted, and a query without an order answers in that order. The operations in \<open>AppSafety\<close> run one
  after another; \<open>store_removed_during_add\<close> shows what two of them interleaved do, and
  \<open>job_restores_old_visibility\<close> what a job does with a row that is out of date. A fetcher answers a URL
  and validators with one result throughout a run.

  Not modelled: extraction of documents, embedding backends, the SQL of the libsql tenants, the
  routes for jobs and status beyond the request for a job, the start of the daemon and its file watcher,
  the rest of the command line, and the MCP server.
\<close>

end
